(* ===== verification/Prelude.thy ===== *)
theory Prelude
  imports Main "HOL-Library.Word"
begin

section \<open>Shared types, bit fields, byte-addressed memory, printed output\<close>

text \<open>
  What every component of the repository uses: the machine types of the C sources
  (\<open>uint8_t\<close> to \<open>uint64_t\<close> as words), the \<open>(x >> n) & mask\<close> reads that all the
  register decoders are made of, little-endian loads from a byte-addressed memory, and the
  output of \<open>printf\<close>, \<open>fprintf\<close> and \<open>pr_info\<close>.

  A print is one entry of an output list: a label (the ASCII head of the format string)
  and the values printed, in the order of the format's conversions. Widths and paddings of
  the conversions and the explanatory text of a format are not part of the model; which
  call happens, in which order, and with which values, is.
\<close>

unbundle bit_operations_syntax

named_theorems fields \<comment> \<open>reading bit fields\<close>
named_theorems loads \<comment> \<open>loads from memory\<close>

type_synonym u8 = "8 word"
type_synonym u16 = "16 word"
type_synonym u32 = "32 word"
type_synonym u64 = "64 word"

datatype val = U u64 | I int | S string

type_synonym line = "string \<times> val list"

abbreviation U32 :: "u32 \<Rightarrow> val" where
  "U32 w \<equiv> U (ucast w)"

text \<open>A wider value assigned to an \<open>int\<close>.\<close>

definition to_int :: "int \<Rightarrow> int" where
  "to_int v = sint (word_of_int v :: u32)"

definition fits_int :: "int \<Rightarrow> bool" where
  "fits_int v \<longleftrightarrow> - (2 ^ 31) \<le> v \<and> v < 2 ^ 31"

lemma to_int_fits: "fits_int v \<Longrightarrow> to_int v = v"
  by (simp add: fits_int_def to_int_def signed_of_int signed_take_bit_int_eq_self)

subsection \<open>Bit fields\<close>

text \<open>\<open>field n w x\<close> is the C expression \<open>(x >> n) & ((1 << w) - 1)\<close>.\<close>

definition field :: "nat \<Rightarrow> nat \<Rightarrow> 'a::len word \<Rightarrow> 'a word" where
  "field n w x = drop_bit n x AND mask w"

lemma bit_field [fields, bit_simps]:
  "bit (field n w x) i \<longleftrightarrow> i < w \<and> bit (x :: 'a::len word) (n + i)"
  by (auto simp: field_def bit_simps dest: bit_imp_le_length)

lemma unat_drop_bit: "unat (drop_bit n (w :: 'a::len word)) = unat w div 2 ^ n"
  by (subst unat_drop_bit_eq) (rule drop_bit_eq_div)

lemma field_alt: "field n w x = take_bit w (drop_bit n x)"
  by (simp add: field_def take_bit_eq_mask)

lemma unat_field: "unat (field n w (x :: 'a::len word)) = unat x div 2 ^ n mod 2 ^ w"
  unfolding field_alt unsigned_take_bit_eq unat_drop_bit_eq
  by (simp add: take_bit_eq_mod drop_bit_eq_div)

lemma unat_field_less [fields]: "unat (field n w (x :: 'a::len word)) < 2 ^ w"
  by (simp add: unat_field)

lemma field_1_cases: "field n (Suc 0) (x :: 'a::len word) = of_bool (bit x n)"
  by (rule bit_word_eqI) (auto simp: bit_simps)

lemma field_eq_0_iff:
  "field n w (x :: 'a::len word) = 0 \<longleftrightarrow> (\<forall>i<w. \<not> bit x (n + i))"
  by (auto simp: bit_eq_iff bit_simps dest: bit_imp_le_length)
    (metis add_lessD1 bit_imp_le_length add.commute)

text \<open>Two neighbouring fields put together are the field that spans both.\<close>

lemma field_append:
  "field n v (x :: 'a::len word) OR push_bit v (field (n + v) w x) = field n (v + w) x"
proof (rule bit_word_eqI)
  fix i
  show "bit (field n v x OR push_bit v (field (n + v) w x)) i = bit (field n (v + w) x) i"
    by (cases "i < v") (auto simp: bit_simps ac_simps dest: bit_imp_le_length)
qed

text \<open>\<open>GENMASK_ULL(h, l)\<close> of the kernel headers, as used by the page-table code.\<close>

definition genmask :: "nat \<Rightarrow> nat \<Rightarrow> u64" where
  "genmask h l = push_bit l (mask (Suc h - l))"

lemma bit_genmask [fields, bit_simps]:
  "bit (genmask h l) i \<longleftrightarrow> i < 64 \<and> l \<le> i \<and> i \<le> h"
  by (auto simp: genmask_def bit_simps)

subsection \<open>Little-endian loads\<close>

type_synonym memory = "u64 \<Rightarrow> u8"

definition load32 :: "memory \<Rightarrow> u64 \<Rightarrow> u32" where
  "load32 m a = ucast (m a) OR push_bit 8 (ucast (m (a + 1)))
     OR push_bit 16 (ucast (m (a + 2))) OR push_bit 24 (ucast (m (a + 3)))"

definition load64 :: "memory \<Rightarrow> u64 \<Rightarrow> u64" where
  "load64 m a = ucast (load32 m a) OR push_bit 32 (ucast (load32 m (a + 4)))"

subsection \<open>Deciding facts about words bit by bit\<close>

text \<open>
  \<open>simp add: bitwise\<close> proves an equation between words of a fixed width whose fields are
  variables of smaller widths: one goal per bit.
\<close>

lemma all_less_numeral:
  "(\<forall>i<numeral k. P i) \<longleftrightarrow> P (pred_numeral k) \<and> (\<forall>i<pred_numeral k. P i)"
  by (metis less_Suc_eq numeral_eq_Suc)

lemma word32_eq_bits: "(a :: u32) = b \<longleftrightarrow> (\<forall>i<32. bit a i = bit b i)"
  by (auto simp: bit_eq_iff dest: bit_imp_le_length)

lemma no_bit: "LENGTH('a) \<le> n \<Longrightarrow> \<not> bit (w :: 'a::len word) n"
  by (auto dest: bit_imp_le_length)

lemma word64_eq_bits: "(a :: u64) = b \<longleftrightarrow> (\<forall>i<64. bit a i = bit b i)"
  by (auto simp: bit_eq_iff dest: bit_imp_le_length)

lemmas bitwise = word32_eq_bits all_less_numeral bit_simps bit_numeral_rec no_bit

lemma ucast_inj: "LENGTH('a) \<le> LENGTH('b) \<Longrightarrow> (ucast (a :: 'a::len word) :: 'b::len word) = ucast b \<longleftrightarrow> a = b"
  by (auto simp: bit_eq_iff bit_simps dest: bit_imp_le_length)

text \<open>A statement about every value of a short word, value by value.\<close>

lemma small_word:
  assumes "2 ^ LENGTH('a) = k" "\<forall>n<k. P (of_nat n :: 'a::len word)"
  shows "P w"
proof -
  have "unat w < 2 ^ LENGTH('a)" by (rule unsigned_less)
  then have "unat w < k" using assms(1) by simp
  with assms(2) have "P (of_nat (unat w))" by blast
  then show ?thesis by simp
qed

subsection \<open>Searching a list by index\<close>

text \<open>
  The loops \<open>for (i = 0; i < n; i++) if (P(a[i])) return i; return -1;\<close>: the least index,
  or \<open>None\<close> for \<open>-1\<close>.
\<close>

fun find_index_from :: "nat \<Rightarrow> ('a \<Rightarrow> bool) \<Rightarrow> 'a list \<Rightarrow> nat option" where
  "find_index_from i P [] = None"
| "find_index_from i P (x # xs) = (if P x then Some i else find_index_from (Suc i) P xs)"

definition find_index :: "('a \<Rightarrow> bool) \<Rightarrow> 'a list \<Rightarrow> nat option" where
  "find_index P xs = find_index_from 0 P xs"

lemma find_index_from_Some:
  "find_index_from i P xs = Some j \<Longrightarrow>
     i \<le> j \<and> j < i + length xs \<and> P (xs ! (j - i)) \<and> (\<forall>k<j - i. \<not> P (xs ! k))"
proof (induction i P xs rule: find_index_from.induct)
  case (2 i P x xs)
  show ?case
  proof (cases "P x")
    case False
    with 2 have IH: "Suc i \<le> j" "j < Suc i + length xs" "P (xs ! (j - Suc i))"
      "\<forall>k<j - Suc i. \<not> P (xs ! k)" by auto
    have "\<not> P ((x # xs) ! k)" if "k < j - i" for k
      using that IH False by (cases k) auto
    with IH show ?thesis by (auto simp: nth_Cons' Suc_diff_le)
  qed (use 2 in auto)
qed simp

lemma find_index_from_None: "find_index_from i P xs = None \<longleftrightarrow> (\<forall>x\<in>set xs. \<not> P x)"
  by (induction i P xs rule: find_index_from.induct) auto

lemma find_index_Some:
  "find_index P xs = Some j \<Longrightarrow> j < length xs \<and> P (xs ! j) \<and> (\<forall>k<j. \<not> P (xs ! k))"
  unfolding find_index_def by (drule find_index_from_Some) simp

lemma find_index_None: "find_index P xs = None \<longleftrightarrow> (\<forall>x\<in>set xs. \<not> P x)"
  unfolding find_index_def by (rule find_index_from_None)

lemma find_index_SomeI:
  assumes "j < length xs" "P (xs ! j)" "\<And>k. k < j \<Longrightarrow> \<not> P (xs ! k)"
  shows "find_index P xs = Some j"
proof -
  have "find_index P xs \<noteq> None"
    using assms(1,2) by (auto simp: find_index_None dest: nth_mem)
  then obtain i where i: "find_index P xs = Some i" by blast
  from find_index_Some [OF i] assms have "i = j"
    by (metis linorder_neqE_nat)
  with i show ?thesis by simp
qed

lemma find_index_Cons: "find_index P (x # xs) = (if P x then Some 0 else map_option Suc (find_index P xs))"
proof -
  have "find_index_from (Suc i) P xs = map_option Suc (find_index_from i P xs)" for i
    by (induction i P xs rule: find_index_from.induct) simp_all
  then show ?thesis by (simp add: find_index_def)
qed

lemma find_index_Nil: "find_index P [] = None"
  by (simp add: find_index_def)

end
