(* ===== verification/First_Match.thy ===== *)
theory First_Match
  imports Prelude
begin

section \<open>Interface: the first matching entry of a table\<close>

text \<open>
  Several programs of the repository keep a table and search it from the front: the buffer
  table of \<open>rkspy.c\<close>, the property lists of \<open>wbtest.c\<close>, the \<open>/proc\<close> readers, the thread
  slots of \<open>lockup_lab.c\<close>. Their clients rely on one contract: a hit is the least matching
  index, a miss means nothing matches. The clients' lemmas are proved here once.
\<close>

locale first_entry =
  fixes get :: "'e list \<Rightarrow> 'k \<Rightarrow> 'e option"
    and hit :: "'e \<Rightarrow> 'k \<Rightarrow> bool"
  assumes get_hit: "get es k = Some e \<Longrightarrow> e \<in> set es \<and> hit e k"
    and get_miss: "get es k = None \<longleftrightarrow> (\<forall>e\<in>set es. \<not> hit e k)"
    and get_first: "hit e k \<Longrightarrow> (\<forall>d\<in>set ds. \<not> hit d k) \<Longrightarrow> get (ds @ e # es) k = Some e"
begin

lemma get_append: "get es k = Some e \<Longrightarrow> get (es @ fs) k = Some e"
proof -
  assume e: "get es k = Some e"
  then have "\<exists>x\<in>set es. hit x k" using get_hit by blast
  then obtain ys x zs where x: "es = ys @ x # zs" "hit x k" "\<forall>y\<in>set ys. \<not> hit y k"
    using split_list_first_prop [of es "\<lambda>x. hit x k"] by blast
  then have "get (es @ fs) k = Some x" "get es k = Some x"
    using get_first [of x k ys "zs @ fs"] get_first [of x k ys zs] by auto
  with e show ?thesis by simp
qed

lemma get_snoc_new: "\<forall>d\<in>set es. \<not> hit d k \<Longrightarrow> hit e k \<Longrightarrow> get (es @ [e]) k = Some e"
  using get_first [of e k es "[]"] by simp

lemma get_some_iff: "(\<exists>e. get es k = Some e) \<longleftrightarrow> (\<exists>e\<in>set es. hit e k)"
  using get_miss [of es k] by auto

end

locale first_match =
  fixes find :: "'e list \<Rightarrow> 'k \<Rightarrow> nat option"
    and hit :: "'e \<Rightarrow> 'k \<Rightarrow> bool"
  assumes find_hit: "find es k = Some i \<Longrightarrow> i < length es \<and> hit (es ! i) k"
    and find_least: "find es k = Some i \<Longrightarrow> j < i \<Longrightarrow> \<not> hit (es ! j) k"
    and find_miss: "find es k = None \<longleftrightarrow> (\<forall>e\<in>set es. \<not> hit e k)"
begin

lemma find_eqI:
  assumes "i < length es" "hit (es ! i) k" "\<And>j. j < i \<Longrightarrow> \<not> hit (es ! j) k"
  shows "find es k = Some i"
proof (cases "find es k")
  case None
  with assms(1,2) show ?thesis by (auto simp: find_miss dest: nth_mem)
next
  case (Some j)
  with find_hit [OF Some] find_least [OF Some] assms show ?thesis
    by (metis linorder_neqE_nat)
qed

lemma find_append: "find es k = Some i \<Longrightarrow> find (es @ fs) k = Some i"
  using find_hit [of es k i] find_least [of es k i]
  by (intro find_eqI) (auto simp: nth_append)

lemma find_snoc_new: "find es k = None \<Longrightarrow> hit e k \<Longrightarrow> find (es @ [e]) k = Some (length es)"
  by (intro find_eqI) (auto simp: find_miss nth_append dest: nth_mem)

lemma find_map_cong:
  assumes "\<And>e. hit (f e) k = hit e k"
  shows "find (map f es) k = find es k"
proof (cases "find es k")
  case None
  then have "find (map f es) k = None" using assms by (simp add: find_miss)
  with None show ?thesis by simp
next
  case (Some i)
  with find_hit [OF Some] find_least [OF Some] show ?thesis
    by (auto intro!: find_eqI simp: assms)
qed

end

sublocale first_match \<subseteq> first_entry "\<lambda>es k. map_option ((!) es) (find es k)" hit
proof unfold_locales
  fix es k e
  assume "map_option ((!) es) (find es k) = Some e"
  then obtain i where "find es k = Some i" "e = es ! i" by auto
  with find_hit [of es k i] show "e \<in> set es \<and> hit e k" by auto
next
  fix es k
  show "map_option ((!) es) (find es k) = None \<longleftrightarrow> (\<forall>e\<in>set es. \<not> hit e k)"
    by (simp add: find_miss)
next
  fix e k ds es
  assume "hit e k" "\<forall>d\<in>set ds. \<not> hit d k"
  then have "find (ds @ e # es) k = Some (length ds)"
    by (intro find_eqI) (auto simp: nth_append)
  then show "map_option ((!) (ds @ e # es)) (find (ds @ e # es) k) = Some e"
    by simp
qed

end
