(* ===== verification/Npu_Spy.thy ===== *)
theory Npu_Spy
  imports First_Match
begin

section \<open>rknpu/tools/rkspy.c: the ioctl shim that recovers the NPU's register commands\<close>

text \<open>
  The shim is preloaded between a program and libc. It keeps a table of the buffers the
  program created (\<open>bufs[]\<close>), learns their mmap offsets and addresses from the calls that
  pass through, and at every submit reads the task list and the register commands back out
  of the process's own memory. State: the record \<open>spy\<close>. What the shim calls and does not
  contain (the real \<open>ioctl\<close> and \<open>mmap\<close>, \<open>/proc/self/pagemap\<close>, the environment) is an argument.
\<close>

subsection \<open>Data\<close>

record rknpu_task =
  t_flags :: u32
  t_op_idx :: u32
  t_enable_mask :: u32
  t_int_mask :: u32
  t_int_clear :: u32
  t_int_status :: u32
  t_regcfg_amount :: u32
  t_regcfg_offset :: u32
  t_regcmd_addr :: u64

record rknpu_submit =
  s_flags :: u32
  s_task_start :: u32
  s_task_number :: u32
  s_task_obj_addr :: u64
  s_iommu_domain_id :: u32
  s_task_base_addr :: u64
  s_core_mask :: u32
  s_fence_fd :: u32
  s_subcore :: "(u32 \<times> u32) list"

record rknpu_mem_create =
  c_handle :: u32
  c_flags :: u32
  c_size :: u64
  c_obj_addr :: u64
  c_dma_addr :: u64

record rknpu_mem_map =
  m_handle :: u32
  m_offset :: u64

text \<open>The structs as the code reads them through a pointer: \<open>rknpu_task\<close> is packed (40 bytes).\<close>

definition load_task :: "memory \<Rightarrow> u64 \<Rightarrow> rknpu_task" where
  "load_task m a = \<lparr>t_flags = load32 m a, t_op_idx = load32 m (a + 4),
     t_enable_mask = load32 m (a + 8), t_int_mask = load32 m (a + 12),
     t_int_clear = load32 m (a + 16), t_int_status = load32 m (a + 20),
     t_regcfg_amount = load32 m (a + 24), t_regcfg_offset = load32 m (a + 28),
     t_regcmd_addr = load64 m (a + 32)\<rparr>"

definition load_submit :: "memory \<Rightarrow> u64 \<Rightarrow> rknpu_submit" where
  "load_submit m a = \<lparr>s_flags = load32 m a, s_task_start = load32 m (a + 8),
     s_task_number = load32 m (a + 12), s_task_obj_addr = load64 m (a + 24),
     s_iommu_domain_id = load32 m (a + 32), s_task_base_addr = load64 m (a + 40),
     s_core_mask = load32 m (a + 56), s_fence_fd = load32 m (a + 60),
     s_subcore = map (\<lambda>i. (load32 m (a + 64 + 8 * of_nat i), load32 m (a + 68 + 8 * of_nat i)))
       [0..<5]\<rparr>"

definition load_mem_create :: "memory \<Rightarrow> u64 \<Rightarrow> rknpu_mem_create" where
  "load_mem_create m a = \<lparr>c_handle = load32 m a, c_flags = load32 m (a + 4),
     c_size = load64 m (a + 8), c_obj_addr = load64 m (a + 16), c_dma_addr = load64 m (a + 24)\<rparr>"

definition load_mem_map :: "memory \<Rightarrow> u64 \<Rightarrow> rknpu_mem_map" where
  "load_mem_map m a = \<lparr>m_handle = load32 m a, m_offset = load64 m (a + 8)\<rparr>"

record buf =
  b_handle :: u32
  b_flags :: u32
  b_obj :: u64
  b_dma :: u64
  b_size :: u64
  b_moff :: u64
  b_va :: u64

record spy =
  bufs :: "buf list"
  submit_seen :: nat
  phys_done :: bool
  lg_open :: bool
  real_set :: bool
  atexit_n :: nat
  lg :: "line list"

definition spy_start :: spy where
  "spy_start = \<lparr>bufs = [], submit_seen = 0, phys_done = False, lg_open = False,
     real_set = False, atexit_n = 0, lg = []\<rparr>"

definition MAXB :: nat where
  "MAXB = 512"

record os_env =
  pm_opens :: bool
  pm_entry :: "u64 \<Rightarrow> u64 option"
  page_size :: u64
  raw_env :: "int option"

definition emit :: "line list \<Rightarrow> spy \<Rightarrow> spy" where
  "emit ls s = s\<lparr>lg := lg s @ ls\<rparr>"

subsection \<open>Naming the flags\<close>

definition memflags :: "(u32 \<times> string) list" where
  "memflags = [(1, ''NON_CONTIG''), (2, ''CACHEABLE''), (4, ''WRITE_COMBINE''),
     (8, ''KERNEL_MAPPING''), (16, ''IOMMU''), (32, ''ZEROING''), (64, ''SECURE''),
     (128, ''DMA32''), (256, ''TRY_SRAM''), (512, ''TRY_NBUF''),
     (1024, ''IOMMU_LIMIT_IOVA_ALIGN'')]"

text \<open>\<open>strncat(out, s, n - strlen(out) - 1)\<close> and \<open>snprintf(out, n, s)\<close> on a buffer of size \<open>n\<close>.\<close>

definition strncat_room :: "nat \<Rightarrow> string \<Rightarrow> string \<Rightarrow> string" where
  "strncat_room n out s = out @ take (n - length out - 1) s"

definition snprintf_str :: "nat \<Rightarrow> string \<Rightarrow> string" where
  "snprintf_str n s = take (n - 1) s"

fun flagstr_loop :: "nat \<Rightarrow> u32 \<Rightarrow> string \<Rightarrow> (u32 \<times> string) list \<Rightarrow> string" where
  "flagstr_loop n f out [] = out"
| "flagstr_loop n f out ((b, nm) # fs) =
     (if f AND b \<noteq> 0
      then flagstr_loop n f
             (strncat_room n (if out \<noteq> [] then strncat_room n out ''|'' else out) nm) fs
      else flagstr_loop n f out fs)"

definition flagstr :: "u32 \<Rightarrow> nat \<Rightarrow> string" where
  "flagstr f n =
     (let out = (if f AND 1 = 0 then snprintf_str n ''CONTIG'' else []);
          out = flagstr_loop n f out memflags
      in if out = [] then snprintf_str n ''(none)'' else out)"

subsection \<open>The buffer table\<close>

definition dma_hit :: "buf \<Rightarrow> u64 \<Rightarrow> bool" where
  "dma_hit b d \<longleftrightarrow> b_dma b \<noteq> 0 \<and> b_dma b \<le> d \<and> d < b_dma b + b_size b"

definition obj_hit :: "buf \<Rightarrow> u64 \<Rightarrow> bool" where
  "obj_hit b oa \<longleftrightarrow> b_obj b = oa"

definition find_by_dma :: "buf list \<Rightarrow> u64 \<Rightarrow> nat option" where
  "find_by_dma bs d = find_index (\<lambda>b. dma_hit b d) bs"

definition find_by_obj :: "buf list \<Rightarrow> u64 \<Rightarrow> nat option" where
  "find_by_obj bs oa = find_index (\<lambda>b. obj_hit b oa) bs"

text \<open>
  \<open>init()\<close>: \<open>ok\<close> says whether \<open>fopen\<close> returns a stream. While it does not, every call
  tries again and registers \<open>summary\<close> once more.
\<close>

definition spy_init :: "bool \<Rightarrow> spy \<Rightarrow> spy" where
  "spy_init ok s =
     (let s = s\<lparr>real_set := True\<rparr>
      in if lg_open s then s else s\<lparr>lg_open := ok, atexit_n := Suc (atexit_n s)\<rparr>)"

definition bind_va :: "u64 \<Rightarrow> u64 \<Rightarrow> buf \<Rightarrow> buf" where
  "bind_va r off b = (if b_moff b = off then b\<lparr>b_va := r\<rparr> else b)"

definition MAP_FAILED :: u64 where
  "MAP_FAILED = - 1"

definition note_map :: "u64 \<Rightarrow> u64 \<Rightarrow> spy \<Rightarrow> spy" where
  "note_map r off s =
     (if r = MAP_FAILED \<or> off < 0x100000000 then s
      else emit (map (\<lambda>b. (''  -> mmap h=%u va=0x%llx (off=0x%llx)'',
                            [U32 (b_handle b), U r, U off]))
                  (filter (\<lambda>b. b_moff b = off) (bufs s)))
             (s\<lparr>bufs := map (bind_va r off) (bufs s)\<rparr>))"

text \<open>
  \<open>mmap\<close> and \<open>mmap64\<close> have the same body. Logging to a stream that could not be opened is
  undefined behaviour of the C code: \<open>None\<close>.
\<close>

definition spy_mmap :: "bool \<Rightarrow> u64 \<Rightarrow> u64 \<Rightarrow> spy \<Rightarrow> (u64 \<times> spy) option" where
  "spy_mmap ok r off s =
     (let s = spy_init ok s; s' = note_map r off s
      in if lg_open s \<or> lg s' = lg s then Some (r, s') else None)"

subsection \<open>Physical pages and the summary\<close>

fun phys_pages :: "os_env \<Rightarrow> buf \<Rightarrow> nat \<Rightarrow> nat \<Rightarrow> u64 \<Rightarrow> bool \<Rightarrow> line list" where
  "phys_pages e b k 0 prev shown = []"
| "phys_pages e b k (Suc n) prev shown =
     (let va = b_va b + of_nat k * page_size e;
          iova = b_dma b + of_nat k * page_size e
      in case pm_entry e (va div page_size e * 8) of
           None \<Rightarrow> []
         | Some ent \<Rightarrow>
             if drop_bit 63 ent = 0
             then (''   +%-2d IOVA=0x%010llx -> none'', [I (int k), U iova])
                  # phys_pages e b (Suc k) n prev shown
             else let pa = (ent AND mask 55) * page_size e
                  in (''   +%-2d IOVA=0x%010llx -> 0x%010llx%s'',
                      [I (int k), U iova, U pa,
                       S (if shown \<and> pa \<noteq> prev + page_size e then ''discontiguous'' else '''')])
                     # phys_pages e b (Suc k) n pa True)"

text \<open>\<open>int npg = bufs[i].size / ps; if (npg > 8) npg = 8;\<close> the quotient cut to a signed int.\<close>

definition phys_count :: "os_env \<Rightarrow> buf \<Rightarrow> nat" where
  "phys_count e b = nat (min 8 (sint (ucast (b_size b div page_size e) :: u32)))"

definition phys_buf :: "os_env \<Rightarrow> buf \<Rightarrow> line list" where
  "phys_buf e b =
     (if b_va b = 0 then []
      else (''h=%u  IOVA=0x%llx  size=%llu'', [U32 (b_handle b), U (b_dma b), U (b_size b)])
           # phys_pages e b 0 (phys_count e b) 0 False)"

definition dump_physical :: "os_env \<Rightarrow> spy \<Rightarrow> spy" where
  "dump_physical e s =
     (if phys_done s then s
      else let s = s\<lparr>phys_done := True\<rparr>
           in if \<not> pm_opens e then emit [(''open /proc/self/pagemap failed'', [])] s
              else emit ((''=== physical pages ==='', []) # concat (map (phys_buf e) (bufs s))) s)"

definition summary :: "spy \<Rightarrow> line list" where
  "summary s =
     (if \<not> lg_open s \<or> bufs s = [] then []
      else [(''================'', []),
            (''%-3s %-10s %-6s %-26s %-12s %-14s %s'',
             [S ''h'', S ''size'', S ''flags'', S ''flags'', S ''dma_addr'', S ''mmap offset'',
              S ''user VA''])]
           @ map (\<lambda>b. (''%-3u %-10llu 0x%02x   %-26s 0x%010llx 0x%012llx 0x%llx'',
                        [U32 (b_handle b), U (b_size b), U32 (b_flags b), S (flagstr (b_flags b) 96),
                         U (b_dma b), U (b_moff b), U (b_va b)])) (bufs s)
           @ [(''handle / dma_addr / user VA'', [])])"

subsection \<open>Register commands\<close>

text \<open>
  A register command is a 64-bit word: offset in bits 15..0, value in bits 47..16, block tag
  in bits 63..48.
\<close>

definition cmd_off :: "u64 \<Rightarrow> u32" where
  "cmd_off e = ucast (e AND 0xffff)"

definition cmd_val :: "u64 \<Rightarrow> u32" where
  "cmd_val e = ucast (drop_bit 16 e AND 0xffffffff)"

definition cmd_tag :: "u64 \<Rightarrow> u32" where
  "cmd_tag e = ucast (drop_bit 48 e AND 0xffff)"

fun regcmd_scan :: "memory \<Rightarrow> u64 \<Rightarrow> nat \<Rightarrow> u32 \<Rightarrow> u32 option" where
  "regcmd_scan m a 0 want = None"
| "regcmd_scan m a (Suc n) want =
     (let e = load64 m a
      in if cmd_off e = want then Some (cmd_val e) else regcmd_scan m (a + 8) n want)"

definition regcmd_find :: "memory \<Rightarrow> buf list \<Rightarrow> rknpu_task \<Rightarrow> u32 \<Rightarrow> u32 option" where
  "regcmd_find m bs tk want =
     (case find_by_dma bs (t_regcmd_addr tk) of
        None \<Rightarrow> None
      | Some ri \<Rightarrow>
          if b_va (bs ! ri) = 0 then None
          else regcmd_scan m (b_va (bs ! ri) + (t_regcmd_addr tk - b_dma (bs ! ri)))
                 (unat (t_regcfg_amount tk + 4)) want)"

subsection \<open>One row per task: the convolution's parameters\<close>

definition cell2 :: "u32 option \<Rightarrow> (u32 \<Rightarrow> u32) \<Rightarrow> (u32 \<Rightarrow> u32) \<Rightarrow> line" where
  "cell2 r f g = (case r of Some x \<Rightarrow> ('' %5u %5u'', [U32 (f x), U32 (g x)])
                          | None \<Rightarrow> ('' %5s %5s'', [S ''-'', S ''-'']))"

definition cell1 :: "u32 option \<Rightarrow> (u32 \<Rightarrow> u32) \<Rightarrow> line" where
  "cell1 r f = (case r of Some x \<Rightarrow> ('' %6u'', [U32 (f x)]) | None \<Rightarrow> ('' %6s'', [S ''-'']))"

definition shape_row :: "memory \<Rightarrow> buf list \<Rightarrow> u32 \<Rightarrow> rknpu_task \<Rightarrow> line list" where
  "shape_row m bs idx tk =
     (let sz0 = regcmd_find m bs tk 0x1020; sz1 = regcmd_find m bs tk 0x1024;
          cc2 = regcmd_find m bs tk 0x1010; cc3 = regcmd_find m bs tk 0x1014;
          ws2 = regcmd_find m bs tk 0x1038; pad = regcmd_find m bs tk 0x1068
      in [(''  %-5u %-6u'', [U32 idx, U32 (t_op_idx tk)]),
          cell2 sz0 (\<lambda>x. drop_bit 16 x AND 0x7ff) (\<lambda>x. x AND 0x7ff),
          cell2 sz1 (\<lambda>x. x AND 0xffff) (\<lambda>x. drop_bit 16 x AND 0x3fff),
          cell1 cc2 (\<lambda>x. drop_bit 4 x AND 0x3ff),
          cell2 ws2 (\<lambda>x. drop_bit 24 x AND 0x1f) (\<lambda>x. drop_bit 16 x AND 0x1f),
          cell2 cc3 (\<lambda>x. x AND 0x7) (\<lambda>x. drop_bit 3 x AND 0x7),
          cell2 pad (\<lambda>x. drop_bit 4 x AND 0xf) (\<lambda>x. x AND 0xf),
          ('''', [])])"

text \<open>
  \<open>&t[s->task_start + k]\<close>: the index is a \<open>uint32_t\<close> sum and wraps; a task takes 40 bytes.
\<close>

definition task_at :: "memory \<Rightarrow> u64 \<Rightarrow> u32 \<Rightarrow> rknpu_task" where
  "task_at m t idx = load_task m (t + 40 * ucast idx)"

fun shape_rows :: "memory \<Rightarrow> buf list \<Rightarrow> u64 \<Rightarrow> u32 \<Rightarrow> nat \<Rightarrow> int \<Rightarrow> line list" where
  "shape_rows m bs t idx 0 prev_op = []"
| "shape_rows m bs t idx (Suc n) prev_op =
     (let tk = task_at m t idx; op = sint (t_op_idx tk)
      in (if op \<noteq> prev_op \<and> 0 \<le> prev_op then [(''    ----'', [])] else [])
         @ shape_row m bs idx tk @ shape_rows m bs t (idx + 1) n op)"

definition dump_shapes :: "memory \<Rightarrow> rknpu_submit \<Rightarrow> u64 \<Rightarrow> spy \<Rightarrow> spy" where
  "dump_shapes m sub t s = emit
     ([(''  === convolution parameters ==='', []), (''  0x1020 0x1024'', []),
       (''  0x1010 0x1014'', []), (''  0x1038 0x1068'', []),
       (''task op W H ch chreal grains k_w k_h sx sy pl pt'', [])]
      @ shape_rows m (bufs s) t (s_task_start sub) (unat (s_task_number sub)) (- 1)) s"

subsection \<open>The raw view of a task's commands\<close>

text \<open>\<open>uint64_t e = 0; for (q = 7; q >= 0; q--) e = (e << 8) | b[j + q];\<close>\<close>

definition raw_word :: "memory \<Rightarrow> u64 \<Rightarrow> u64" where
  "raw_word m a = fold (\<lambda>q e. push_bit 8 e OR ucast (m (a + of_nat q))) (rev [0..<8]) 0"

definition raw_line :: "memory \<Rightarrow> u64 \<Rightarrow> line" where
  "raw_line m a =
     (let e = raw_word m a
      in (''      raw=%02x |u64=0x%016llx| off=0x%04x val=0x%08x tag=0x%04x'',
          map (\<lambda>q. U (ucast (m (a + of_nat q)))) [0..<8]
          @ [U e, U32 (cmd_off e), U32 (cmd_val e), U32 (cmd_tag e)]))"

text \<open>\<open>for (j = 0; j < cnt * 4 && j < 96; j += 8)\<close> with \<open>cnt\<close> cut to 24.\<close>

definition raw_lines :: "memory \<Rightarrow> u64 \<Rightarrow> u32 \<Rightarrow> line list" where
  "raw_lines m a amount =
     (let cnt = amount + 4; cnt = (if 24 < cnt then 24 else cnt)
      in map (\<lambda>i. raw_line m (a + 8 * of_nat i))
           (filter (\<lambda>i. 8 * i < unat (cnt * 4) \<and> 8 * i < 96) [0..<12]))"

definition raw_task :: "memory \<Rightarrow> buf list \<Rightarrow> u32 \<Rightarrow> rknpu_task \<Rightarrow> line list" where
  "raw_task m bs idx tk =
     (''  --- task[%u] op_idx regcfg_amount regcfg_offset regcmd_addr int_mask'',
      [U32 idx, U32 (t_op_idx tk), U32 (t_regcfg_amount tk), U32 (t_regcfg_offset tk),
       U (t_regcmd_addr tk), U32 (t_int_mask tk)])
     # (case find_by_dma bs (t_regcmd_addr tk) of
          None \<Rightarrow> [(''      (regcmd: no known buffer)'', [])]
        | Some ri \<Rightarrow>
            if b_va (bs ! ri) = 0 then [(''      (regcmd buffer: no mmap)'', [])]
            else let off = t_regcmd_addr tk - b_dma (bs ! ri)
                 in (''      regcmd buffer va=0x%llx dma=0x%llx off=0x%llx'',
                     [U (b_va (bs ! ri)), U (b_dma (bs ! ri)), U off])
                    # raw_lines m (b_va (bs ! ri) + off) (t_regcfg_amount tk))"

text \<open>How many tasks are shown raw: \<open>RKSPY_RAW\<close> through \<open>atoi\<close> and a cast, 3 without it.\<close>

definition raw_limit :: "os_env \<Rightarrow> rknpu_submit \<Rightarrow> nat" where
  "raw_limit e sub =
     (let rawn = (case raw_env e of None \<Rightarrow> 3 | Some i \<Rightarrow> (of_int i :: u32))
      in unat (if rawn < s_task_number sub then rawn else s_task_number sub))"

definition raw_tasks :: "os_env \<Rightarrow> memory \<Rightarrow> buf list \<Rightarrow> rknpu_submit \<Rightarrow> u64 \<Rightarrow> line list" where
  "raw_tasks e m bs sub t =
     concat (map (\<lambda>k. let idx = s_task_start sub + of_nat k in raw_task m bs idx (task_at m t idx))
       [0..<raw_limit e sub])"

subsection \<open>The submit dump and the ioctl wrapper\<close>

definition submit_header :: "nat \<Rightarrow> rknpu_submit \<Rightarrow> line list" where
  "submit_header n sub =
     [(''================ SUBMIT #%d ================'', [I (int n)]),
      (''flags=0x%x task_start=%u task_number=%u core_mask=0x%x fence_fd=%d'',
       [U32 (s_flags sub), U32 (s_task_start sub), U32 (s_task_number sub),
        U32 (s_core_mask sub), I (sint (s_fence_fd sub))]),
      (''task_obj_addr=0x%llx  task_base_addr=0x%llx  iommu_domain_id=%d'',
       [U (s_task_obj_addr sub), U (s_task_base_addr sub), I (sint (s_iommu_domain_id sub))])]
     @ map (\<lambda>i. (''  subcore[%d]: start=%u number=%u'',
                  [I (int i), U32 (fst (s_subcore sub ! i)), U32 (snd (s_subcore sub ! i))])) [0..<5]"

definition dump_submit :: "os_env \<Rightarrow> memory \<Rightarrow> u64 \<Rightarrow> spy \<Rightarrow> spy" where
  "dump_submit e m a s =
     (let sub = load_submit m a;
          n = Suc (submit_seen s);
          s = dump_physical e (emit (submit_header n sub) (s\<lparr>submit_seen := n\<rparr>))
      in case find_by_obj (bufs s) (s_task_obj_addr sub) of
           None \<Rightarrow> emit [(''  !! no task buffer'', [])] s
         | Some ti \<Rightarrow>
             let b = bufs s ! ti
             in if b_va b = 0 then emit [(''  !! task buffer: no mmap'', [])] s
                else dump_shapes m sub (b_va b)
                       (emit ((''  task buffer: va=0x%llx dma=0x%llx size=%llu'',
                               [U (b_va b), U (b_dma b), U (b_size b)])
                              # raw_tasks e m (bufs s) sub (b_va b)) s))"

definition create_buf :: "rknpu_mem_create \<Rightarrow> buf" where
  "create_buf c = \<lparr>b_handle = c_handle c, b_flags = c_flags c, b_obj = c_obj_addr c,
     b_dma = c_dma_addr c, b_size = c_size c, b_moff = 0, b_va = 0\<rparr>"

definition note_create :: "rknpu_mem_create \<Rightarrow> spy \<Rightarrow> spy" where
  "note_create c s = emit
     [(''MEM_CREATE h=%u size=%llu flags=0x%x obj=0x%llx dma=0x%llx'',
       [U32 (c_handle c), U (c_size c), U32 (c_flags c), U (c_obj_addr c), U (c_dma_addr c)])]
     (if length (bufs s) < MAXB then s\<lparr>bufs := bufs s @ [create_buf c]\<rparr> else s)"

definition set_moff :: "rknpu_mem_map \<Rightarrow> buf \<Rightarrow> buf" where
  "set_moff mm b = (if b_handle b = m_handle mm then b\<lparr>b_moff := m_offset mm\<rparr> else b)"

definition note_mem_map :: "rknpu_mem_map \<Rightarrow> spy \<Rightarrow> spy" where
  "note_mem_map mm s = emit
     [(''MEM_MAP    h=%u offset=0x%llx'', [U32 (m_handle mm), U (m_offset mm)])]
     (s\<lparr>bufs := map (set_moff mm) (bufs s)\<rparr>)"

definition DRM_COMMAND_BASE :: u64 where "DRM_COMMAND_BASE = 0x40"
definition RKNPU_SUBMIT :: u64 where "RKNPU_SUBMIT = 0x01"
definition RKNPU_MEM_CREATE :: u64 where "RKNPU_MEM_CREATE = 0x02"
definition RKNPU_MEM_MAP :: u64 where "RKNPU_MEM_MAP = 0x03"
definition RKNPU_MEM_DESTROY :: u64 where "RKNPU_MEM_DESTROY = 0x04"

definition ioc_nr :: "u64 \<Rightarrow> u64" where "ioc_nr req = req AND 0xff"
definition ioc_type :: "u64 \<Rightarrow> u64" where "ioc_type req = drop_bit 8 req AND 0xff"

definition is_drm :: "u64 \<Rightarrow> u64 \<Rightarrow> u64 \<Rightarrow> bool" where
  "is_drm cmd req arg \<longleftrightarrow>
     ioc_type req = 0x64 \<and> ioc_nr req = DRM_COMMAND_BASE + cmd \<and> arg \<noteq> 0"

text \<open>What the wrapper does before the real call, and after one that returned 0.\<close>

definition before_ioctl :: "os_env \<Rightarrow> memory \<Rightarrow> u64 \<Rightarrow> u64 \<Rightarrow> spy \<Rightarrow> spy" where
  "before_ioctl e m req arg s = (if is_drm RKNPU_SUBMIT req arg then dump_submit e m arg s else s)"

definition after_ioctl :: "memory \<Rightarrow> u64 \<Rightarrow> u64 \<Rightarrow> int \<Rightarrow> spy \<Rightarrow> spy" where
  "after_ioctl m req arg r s =
     (if r \<noteq> 0 \<or> ioc_type req \<noteq> 0x64 \<or> arg = 0 then s
      else if ioc_nr req = DRM_COMMAND_BASE + RKNPU_MEM_CREATE
           then note_create (load_mem_create m arg) s
      else if ioc_nr req = DRM_COMMAND_BASE + RKNPU_MEM_MAP
           then note_mem_map (load_mem_map m arg) s
      else s)"

type_synonym real_ioctl = "int \<Rightarrow> u64 \<Rightarrow> u64 \<Rightarrow> memory \<Rightarrow> int \<times> memory"

text \<open>
  The wrapper. \<open>None\<close> is the undefined behaviour of printing to a stream that \<open>fopen\<close> did
  not return.
\<close>

definition spy_ioctl ::
  "os_env \<Rightarrow> bool \<Rightarrow> real_ioctl \<Rightarrow> int \<Rightarrow> u64 \<Rightarrow> u64 \<Rightarrow> memory \<Rightarrow> spy \<Rightarrow> (int \<times> memory \<times> spy) option"
where
  "spy_ioctl e ok real fd req arg m s =
     (let s0 = spy_init ok s;
          s1 = before_ioctl e m req arg s0;
          (r, m') = real fd req arg m;
          s2 = after_ioctl m' req arg r s1
      in if lg_open s0 \<or> lg s2 = lg s0 then Some (r, m', s2) else None)"

subsection \<open>Steps of a traced process\<close>

inductive spy_step :: "spy \<Rightarrow> spy \<Rightarrow> bool" where
  step_ioctl: "spy_ioctl e ok real fd req arg m s = Some (r, m', s') \<Longrightarrow> spy_step s s'"
| step_mmap: "spy_mmap ok r off s = Some (r, s') \<Longrightarrow> spy_step s s'"

inductive_cases spy_stepE: "spy_step s s'"

inductive spy_reach :: "spy \<Rightarrow> spy \<Rightarrow> bool" where
  reach_refl: "spy_reach s s"
| reach_step: "spy_reach s t \<Longrightarrow> spy_step t u \<Longrightarrow> spy_reach s u"

section \<open>Lemmas: the table\<close>

interpretation dma: first_match find_by_dma dma_hit
  by unfold_locales (auto simp: find_by_dma_def find_index_None dest: find_index_Some)

interpretation obj: first_match find_by_obj obj_hit
  by unfold_locales (auto simp: find_by_obj_def find_index_None dest: find_index_Some)

lemma emit_simps [simp]:
  "bufs (emit ls s) = bufs s" "lg_open (emit ls s) = lg_open s" "lg (emit ls s) = lg s @ ls"
  "submit_seen (emit ls s) = submit_seen s" "phys_done (emit ls s) = phys_done s"
  by (simp_all add: emit_def)

lemma spy_init_simps [simp]:
  "bufs (spy_init ok s) = bufs s" "lg (spy_init ok s) = lg s"
  "lg_open (spy_init ok s) = (lg_open s \<or> ok)"
  by (auto simp: spy_init_def Let_def)

text \<open>
  A later table: entries stay at their index and keep handle, flags, addresses and size
  (only the mmap offset and the user address are ever written), and new ones come at the end.
\<close>

definition same_id :: "buf \<Rightarrow> buf \<Rightarrow> bool" where
  "same_id a b \<longleftrightarrow> b_handle a = b_handle b \<and> b_flags a = b_flags b \<and> b_obj a = b_obj b \<and>
     b_dma a = b_dma b \<and> b_size a = b_size b"

definition later_table :: "buf list \<Rightarrow> buf list \<Rightarrow> bool" where
  "later_table bs bs' \<longleftrightarrow>
     (\<exists>f new. bs' = map f bs @ new \<and> (\<forall>b. same_id (f b) b))"

lemma later_tableI: "bs' = map f bs @ new \<Longrightarrow> (\<And>b. same_id (f b) b) \<Longrightarrow> later_table bs bs'"
  by (auto simp: later_table_def)

lemma later_table_refl [intro, simp]: "later_table bs bs"
  by (rule later_tableI [of _ id _ "[]"]) (auto simp: same_id_def)

lemma later_table_trans: "later_table a b \<Longrightarrow> later_table b c \<Longrightarrow> later_table a c"
  unfolding later_table_def
proof (elim exE conjE)
  fix f new g new'
  assume "b = map f a @ new" "\<forall>x. same_id (f x) x" "c = map g b @ new'" "\<forall>x. same_id (g x) x"
  then show "\<exists>h n. c = map h a @ n \<and> (\<forall>x. same_id (h x) x)"
    by (intro exI [of _ "g \<circ> f"] exI [of _ "map g new @ new'"]) (auto simp: same_id_def)
qed

lemma same_id_dma_hit: "same_id a b \<Longrightarrow> dma_hit a d = dma_hit b d"
  by (simp add: same_id_def dma_hit_def)

lemma later_table_find: "later_table bs bs' \<Longrightarrow> find_by_dma bs d = Some i \<Longrightarrow> find_by_dma bs' d = Some i"
  unfolding later_table_def
  by (auto intro!: dma.find_append simp: dma.find_map_cong same_id_dma_hit)

lemma later_table_length: "later_table bs bs' \<Longrightarrow> length bs \<le> length bs'"
  by (auto simp: later_table_def)

lemma dump_physical_bufs [simp]: "bufs (dump_physical e s) = bufs s"
  by (simp add: dump_physical_def Let_def)

lemma dump_submit_bufs [simp]: "bufs (dump_submit e m a s) = bufs s"
  by (simp add: dump_submit_def dump_shapes_def Let_def split: option.split)

lemma before_ioctl_bufs [simp]: "bufs (before_ioctl e m req arg s) = bufs s"
  by (simp add: before_ioctl_def)

lemma note_create_later: "later_table (bufs s) (bufs (note_create c s))"
  by (auto simp: note_create_def intro: later_tableI [of _ id])
    (auto intro: later_tableI [of _ id _ "[create_buf c]"] simp: same_id_def)

lemma note_mem_map_later: "later_table (bufs s) (bufs (note_mem_map mm s))"
  by (rule later_tableI [of _ "set_moff mm" _ "[]"])
    (auto simp: note_mem_map_def set_moff_def same_id_def)

lemma note_map_later: "later_table (bufs s) (bufs (note_map r off s))"
  by (auto simp: note_map_def intro!: later_tableI [of _ "bind_va r off" _ "[]"])
    (auto simp: bind_va_def same_id_def)

lemma after_ioctl_later: "later_table (bufs s) (bufs (after_ioctl m req arg r s))"
  by (simp add: after_ioctl_def note_create_later note_mem_map_later)

lemma spy_ioctl_Some:
  "spy_ioctl e ok real fd req arg m s = Some (r, m', s') \<Longrightarrow>
     real fd req arg m = (r, m') \<and>
     s' = after_ioctl m' req arg r (before_ioctl e m req arg (spy_init ok s))"
  by (auto simp: spy_ioctl_def Let_def split: prod.splits if_splits)

lemma spy_mmap_Some:
  "spy_mmap ok r off s = Some (r', s') \<Longrightarrow> r' = r \<and> s' = note_map r off (spy_init ok s)"
  by (auto simp: spy_mmap_def Let_def split: if_splits)

lemma spy_step_later: "spy_step s s' \<Longrightarrow> later_table (bufs s) (bufs s')"
  by (elim spy_stepE)
    (auto dest!: spy_ioctl_Some spy_mmap_Some,
     (metis after_ioctl_later before_ioctl_bufs spy_init_simps(1) note_map_later)+)

lemma spy_reach_later: "spy_reach s t \<Longrightarrow> later_table (bufs s) (bufs t)"
  by (induction rule: spy_reach.induct) (auto intro: later_table_trans spy_step_later)

lemma spy_step_MAXB: "spy_step s s' \<Longrightarrow> length (bufs s) \<le> MAXB \<Longrightarrow> length (bufs s') \<le> MAXB"
  by (elim spy_stepE)
    (auto dest!: spy_ioctl_Some spy_mmap_Some
      simp: after_ioctl_def note_create_def note_mem_map_def note_map_def)

section \<open>Lemmas: flag names, commands, bytes\<close>

text \<open>The text a flag word stands for, without a bound: the names joined by bars.\<close>

fun join_bar :: "string \<Rightarrow> string list \<Rightarrow> string" where
  "join_bar out [] = out"
| "join_bar out (nm # nms) = join_bar (if out = [] then nm else out @ ''|'' @ nm) nms"

definition flag_text :: "u32 \<Rightarrow> string" where
  "flag_text f = join_bar (if f AND 1 = 0 then ''CONTIG'' else [])
     (map snd (filter (\<lambda>(b, nm). f AND b \<noteq> 0) memflags))"

lemma strncat_room_take:
  assumes "out = take (n - 1) full"
  shows "strncat_room n out s = take (n - 1) (full @ s)"
proof (cases "length full \<le> n - 1")
  case True
  with assms show ?thesis by (simp add: strncat_room_def)
next
  case False
  with assms show ?thesis by (simp add: strncat_room_def min_def)
qed

lemma flagstr_loop_take:
  "1 < n \<Longrightarrow> out = take (n - 1) full \<Longrightarrow>
     flagstr_loop n f out fs
       = take (n - 1) (join_bar full (map snd (filter (\<lambda>(b, nm). f AND b \<noteq> 0) fs)))"
proof (induction n f out fs arbitrary: full rule: flagstr_loop.induct)
  case (2 n f out b nm fs)
  have nil: "out = [] \<longleftrightarrow> full = []" using 2(3,4) by auto
  show ?case
  proof (cases "f AND b = 0")
    case True
    with 2 show ?thesis by simp
  next
    case False
    have "strncat_room n (if out \<noteq> [] then strncat_room n out ''|'' else out) nm
        = take (n - 1) (if full = [] then nm else full @ ''|'' @ nm)"
    proof (cases "full = []")
      case True
      with nil 2(4) show ?thesis by (simp add: strncat_room_take [of _ n "[]"])
    next
      case False
      from strncat_room_take [OF strncat_room_take [OF 2(4), of "''|''"], of nm] False nil
      show ?thesis by (simp only: if_True if_False append_assoc) simp
    qed
    with 2(1) [OF False 2(3)] False show ?thesis by (simp add: split: if_splits)
  qed
qed simp

lemma join_bar_nonempty: "out \<noteq> [] \<Longrightarrow> join_bar out nms \<noteq> []"
  by (induction out nms rule: join_bar.induct) auto

lemma flag_text_nonempty: "flag_text f \<noteq> []"
proof (cases "f AND 1 = 0")
  case True
  then show ?thesis by (simp add: flag_text_def join_bar_nonempty)
next
  case False
  then show ?thesis by (simp add: flag_text_def memflags_def join_bar_nonempty)
qed

lemma regcmd_scan_Some:
  "regcmd_scan m a n want = Some v \<longleftrightarrow>
     (\<exists>i<n. cmd_off (load64 m (a + 8 * of_nat i)) = want \<and> cmd_val (load64 m (a + 8 * of_nat i)) = v \<and>
        (\<forall>j<i. cmd_off (load64 m (a + 8 * of_nat j)) \<noteq> want))"
proof (induction m a n want rule: regcmd_scan.induct)
  case (2 m a n want)
  have addr: "a + 8 * of_nat (Suc i) = (a + 8) + 8 * of_nat i" for i :: nat
    by (simp add: distrib_left)
  show ?case
    using 2 [OF refl]
    by (cases "cmd_off (load64 m a) = want")
      (simp_all only: regcmd_scan.simps Let_def Ex_less_Suc2 All_less_Suc2 addr if_True if_False, simp_all)
qed simp

lemma bit_load32 [loads, bit_simps]:
  "bit (load32 m a) i \<longleftrightarrow> i < 32 \<and> bit (m (a + of_nat (i div 8))) (i mod 8)"
proof (cases "i < 32")
  case True
  then consider "i < 8" | "8 \<le> i" "i < 16" | "16 \<le> i" "i < 24" | "24 \<le> i" by linarith
  then show ?thesis
  proof cases
    case 1
    then show ?thesis by (auto simp: load32_def bit_simps)
  next
    case 2
    then have "i div 8 = 1" "i mod 8 = i - 8" by presburger+
    with 2 show ?thesis by (auto simp: load32_def bit_simps dest: bit_imp_le_length)
  next
    case 3
    then have "i div 8 = 2" "i mod 8 = i - 16" by presburger+
    with 3 show ?thesis by (auto simp: load32_def bit_simps dest: bit_imp_le_length)
  next
    case 4
    with True have "i div 8 = 3" "i mod 8 = i - 24" by presburger+
    with 4 True show ?thesis by (auto simp: load32_def bit_simps dest: bit_imp_le_length)
  qed
qed (auto dest: bit_imp_le_length)

lemma bit_load64 [loads, bit_simps]:
  "bit (load64 m a) i \<longleftrightarrow> i < 64 \<and> bit (m (a + of_nat (i div 8))) (i mod 8)"
proof (cases "32 \<le> i \<and> i < 64")
  case True
  then obtain j where i: "i = j + 8 * 4" using le_Suc_ex by (auto dest: le_Suc_ex simp: add.commute)
  have "i div 8 = (i - 32) div 8 + 4" and r: "i mod 8 = (i - 32) mod 8"
    using mod_mult_self2 [of j 8 4] by (simp_all add: i)
  then have "of_nat (i div 8) = of_nat ((i - 32) div 8) + (4 :: u64)" by simp
  then have d: "a + of_nat (i div 8) = a + 4 + of_nat ((i - 32) div 8)" by (simp only: ac_simps)
  from True have "bit (load64 m a) i \<longleftrightarrow> bit (load32 m (a + 4)) (i - 32)"
    by (auto simp: load64_def bit_or_iff bit_push_bit_iff bit_unsigned_iff dest: bit_imp_le_length)
  moreover from True have "i - 32 < 32" by arith
  ultimately show ?thesis using True unfolding d r by (simp add: bit_load32)
next
  case False
  then have "bit (load64 m a) i \<longleftrightarrow> i < 64 \<and> bit (load32 m a) i"
    by (auto simp: load64_def bit_or_iff bit_push_bit_iff bit_unsigned_iff dest: bit_imp_le_length)
  with False show ?thesis by (auto simp: bit_load32)
qed

lemma bit_raw_fold:
  "bit (fold (\<lambda>q e. push_bit 8 e OR ucast ((m :: memory) (a + of_nat q))) (rev [0..<n]) (e :: u64)) i \<longleftrightarrow>
     i < 64 \<and> (if i < 8 * n then bit (m (a + of_nat (i div 8))) (i mod 8) else bit e (i - 8 * n))"
proof (induction n arbitrary: e)
  case 0
  show ?case by (auto dest: bit_imp_le_length)
next
  case (Suc n)
  have IH: "bit (fold (\<lambda>q e. push_bit 8 e OR ucast (m (a + of_nat q))) (rev [0..<Suc n]) e) i \<longleftrightarrow>
      i < 64 \<and> (if i < 8 * n then bit (m (a + of_nat (i div 8))) (i mod 8)
        else bit (push_bit 8 e OR ucast (m (a + of_nat n))) (i - 8 * n))"
    using Suc.IH [of "push_bit 8 e OR ucast (m (a + of_nat n))"] by simp
  show ?case
  proof (cases "8 * n \<le> i \<and> i < 8 * Suc n")
    case True
    then have "i div 8 = n" "i mod 8 = i - 8 * n" by (auto simp: div_nat_eqI modulo_nat_def)
    with True show ?thesis unfolding IH by (auto simp: bit_simps)
  next
    case False
    have "\<not> bit (m (a + of_nat n)) (i - 8 * n)" if "\<not> i < 8 * n"
      using that False by (auto dest!: bit_imp_le_length)
    moreover have "i - (8 + 8 * n) = i - (8 * n + 8)" by simp
    ultimately show ?thesis using False unfolding IH by (auto simp: bit_simps)
  qed
qed

lemma raw_word_load64: "raw_word m a = load64 m a"
  by (rule bit_word_eqI) (auto simp: raw_word_def bit_raw_fold bit_load64)

lemma cmd_fields:
  "cmd_off e = ucast (field 0 16 e)" "cmd_val e = ucast (field 16 32 e)"
  "cmd_tag e = ucast (field 48 16 e)"
  by (simp_all add: cmd_off_def cmd_val_def cmd_tag_def field_def mask_eq_exp_minus_1)

section \<open>Properties\<close>

text \<open>
  The flag names never run past the buffer: for every flag word and every buffer size
  above 1, \<open>flagstr\<close> yields exactly the first \<open>n - 1\<close> characters of the joined names, so it
  is shorter than the buffer; and since the names are never empty, the \<open>(none)\<close> fallback of
  the code is unreachable.
\<close>

theorem flagstr_truncates:
  assumes "1 < n"
  shows "flagstr f n = take (n - 1) (flag_text f) \<and> length (flagstr f n) < n"
proof -
  let ?c = "if f AND 1 = 0 then ''CONTIG'' else []"
  have "flagstr_loop n f (take (n - 1) ?c) memflags = take (n - 1) (flag_text f)"
    unfolding flag_text_def by (rule flagstr_loop_take [OF assms refl])
  then have "flagstr f n = take (n - 1) (flag_text f)"
    using assms flag_text_nonempty [of f]
    by (auto simp: flagstr_def Let_def snprintf_str_def)
  with assms show ?thesis by simp
qed

theorem flagstr_truncates_witness:
  "flagstr 0x7fe 96 = take 95 (flag_text 0x7fe) \<and> length (flag_text 0x7fe) = 113"
  using flagstr_truncates [of 96 "0x7fe"] by (simp add: flag_text_def memflags_def)

text \<open>
  Looking a register up in a task's commands is exact: \<open>regcmd_find\<close> yields \<open>v\<close> just when
  some known and mapped buffer, the first one that covers the command address, holds at the
  translated address, within the task's \<open>regcfg_amount + 4\<close> commands, a first command for that
  register with value \<open>v\<close>.
\<close>

theorem regcmd_find_exact:
  "regcmd_find m bs tk want = Some v \<longleftrightarrow>
     (\<exists>ri. find_by_dma bs (t_regcmd_addr tk) = Some ri \<and> b_va (bs ! ri) \<noteq> 0 \<and>
        (let base = b_va (bs ! ri) + (t_regcmd_addr tk - b_dma (bs ! ri))
         in \<exists>i<unat (t_regcfg_amount tk + 4).
              cmd_off (load64 m (base + 8 * of_nat i)) = want \<and>
              cmd_val (load64 m (base + 8 * of_nat i)) = v \<and>
              (\<forall>j<i. cmd_off (load64 m (base + 8 * of_nat j)) \<noteq> want)))"
  by (auto simp: regcmd_find_def regcmd_scan_Some Let_def split: option.split)

theorem regcmd_find_exact_witness:
  "regcmd_find (\<lambda>a. if a = 0x7008 then 0x10 else if a = 0x700a then 7 else 0)
     [\<lparr>b_handle = 1, b_flags = 0, b_obj = 0, b_dma = 0x1000, b_size = 0x100, b_moff = 0, b_va = 0x7000\<rparr>]
     \<lparr>t_flags = 0, t_op_idx = 0, t_enable_mask = 0, t_int_mask = 0, t_int_clear = 0, t_int_status = 0,
      t_regcfg_amount = 0, t_regcfg_offset = 0, t_regcmd_addr = 0x1000\<rparr> 0x10 = Some 7"
  by (subst regcmd_find_exact)
    (auto intro!: exI [of _ 0] exI [of _ "1 :: nat"] simp: find_by_dma_def dma_hit_def find_index_Cons cmd_off_def cmd_val_def
      load64_def load32_def)

text \<open>
  The two ways the shim reads a command agree: the eight bytes it shows, put together by
  hand with shifts, are the little-endian word that \<open>regcmd_find\<close> loads, and the offset,
  value and tag it prints make up the whole word.
\<close>

theorem raw_view_agrees:
  "raw_word m a = load64 m a \<and>
   ucast (cmd_off (load64 m a)) OR push_bit 16 (ucast (cmd_val (load64 m a)))
     OR push_bit 48 (ucast (cmd_tag (load64 m a))) = load64 m a"
proof -
  have "ucast (cmd_off e) OR push_bit 16 (ucast (cmd_val e)) OR push_bit 48 (ucast (cmd_tag e)) = e"
    for e :: u64
  proof (rule bit_word_eqI)
    fix i
    assume "i < LENGTH(64)"
    then have i: "i < 64" by simp
    show "bit ((ucast (cmd_off e) :: u64) OR push_bit 16 (ucast (cmd_val e))
        OR push_bit 48 (ucast (cmd_tag e))) i = bit e i"
      using i unfolding cmd_fields by (cases "i < 16"; cases "i < 48") (auto simp: bit_simps)
  qed
  then show ?thesis by (simp add: raw_word_load64)
qed

text \<open>
  The table is safe and stable: over any sequence of intercepted calls, a table within its
  512 entries stays within them, and an address that resolves to an entry keeps resolving to
  that entry.
\<close>

theorem spy_lookup_stable:
  assumes "spy_reach s t" and "length (bufs s) \<le> MAXB" and "find_by_dma (bufs s) d = Some i"
  shows "length (bufs t) \<le> MAXB \<and> find_by_dma (bufs t) d = Some i"
proof -
  have "length (bufs t) \<le> MAXB"
    using assms(1,2) by (induction rule: spy_reach.induct) (auto intro: spy_step_MAXB)
  moreover have "find_by_dma (bufs t) d = Some i"
    using assms(1,3) by (blast intro: later_table_find spy_reach_later)
  ultimately show ?thesis ..
qed

definition sample_buf :: buf where
  "sample_buf = \<lparr>b_handle = 1, b_flags = 2, b_obj = 0x9000, b_dma = 0x1000, b_size = 0x100,
     b_moff = 0x100000000, b_va = 0\<rparr>"

definition sample_spy :: spy where
  "sample_spy = spy_start\<lparr>bufs := [sample_buf], lg_open := True\<rparr>"

theorem spy_lookup_stable_witness:
  "\<exists>t. spy_reach sample_spy t \<and> map b_va (bufs t) = [0x7f0000] \<and> find_by_dma (bufs t) 0x1010 = Some 0"
proof -
  define t where "t = note_map 0x7f0000 0x100000000 (spy_init True sample_spy)"
  have "spy_mmap True 0x7f0000 0x100000000 sample_spy = Some (0x7f0000, t)"
    unfolding spy_mmap_def Let_def t_def by simp
  moreover have "map b_va (bufs t) = [0x7f0000]"
    by (simp add: t_def note_map_def bind_va_def sample_spy_def sample_buf_def MAP_FAILED_def)
  ultimately have t: "spy_mmap True 0x7f0000 0x100000000 sample_spy = Some (0x7f0000, t)"
    "map b_va (bufs t) = [0x7f0000]" by blast+
  have r: "spy_reach sample_spy t"
    by (rule reach_step [OF reach_refl]) (rule step_mmap [OF t(1)])
  have l: "length (bufs sample_spy) \<le> MAXB"
    by (simp add: sample_spy_def MAXB_def)
  have f: "find_by_dma (bufs sample_spy) 0x1010 = Some 0"
    by (simp add: find_by_dma_def find_index_def sample_spy_def sample_buf_def dma_hit_def)
  from r t(2) conjunct2 [OF spy_lookup_stable [OF r l f]] show ?thesis
    by (intro exI [of _ t] conjI)
qed



text \<open>
  A log file that cannot be opened crashes the traced program at its first submit: the
  wrapper then prints to a null stream.
\<close>

theorem spy_unopened_log:
  assumes "\<not> lg_open s" and "is_drm RKNPU_SUBMIT req arg"
  shows "spy_ioctl e False real fd req arg m s = None"
proof -
  have grow: "\<exists>l. lg (dump_submit e m arg t) = lg t @ l \<and> l \<noteq> []" for t
    by (auto simp: dump_submit_def dump_physical_def dump_shapes_def submit_header_def Let_def
        split: option.split)
  have "\<exists>l. lg (after_ioctl m' req arg r t) = lg t @ l" for m' r t
    by (auto simp: after_ioctl_def note_create_def note_mem_map_def)
  with grow have "lg (after_ioctl m' req arg r (dump_submit e m arg (spy_init False s))) \<noteq> lg s" for m' r
    by (metis append_assoc append_is_Nil_conv append_self_conv spy_init_simps(2))
  with assms show ?thesis
    by (auto simp: spy_ioctl_def before_ioctl_def Let_def split: prod.split)
qed

theorem spy_unopened_log_witness:
  "\<forall>e. spy_ioctl e False (\<lambda>fd req arg m. (0, m)) 3 0xC0686441 64 (\<lambda>_. 0) spy_start = None"
  by (intro allI spy_unopened_log)
    (simp_all add: spy_start_def is_drm_def ioc_type_def ioc_nr_def DRM_COMMAND_BASE_def RKNPU_SUBMIT_def)

text \<open>
  The three names of a buffer meet: after a create, a map of that handle and an mmap of
  the offset the driver gave, every address in the buffer's device range that no older entry
  claims resolves to the new entry, and the entry holds the address \<open>mmap\<close> returned.
\<close>

theorem three_names_meet:
  assumes room: "length (bufs s) < MAXB"
    and create: "spy_ioctl e ok real fd req1 arg1 m s = Some (0, m1, s1)"
      "is_drm RKNPU_MEM_CREATE req1 arg1"
    and mapc: "spy_ioctl e ok real fd req2 arg2 m1 s1 = Some (0, m2, s2)"
      "is_drm RKNPU_MEM_MAP req2 arg2"
      "m_handle (load_mem_map m2 arg2) = c_handle (load_mem_create m1 arg1)"
    and mmapc: "spy_mmap ok r (m_offset (load_mem_map m2 arg2)) s2 = Some (r, s3)"
      "0x100000000 \<le> m_offset (load_mem_map m2 arg2)" "r \<noteq> MAP_FAILED"
    and d: "dma_hit (create_buf (load_mem_create m1 arg1)) d" "find_by_dma (bufs s) d = None"
  shows "find_by_dma (bufs s3) d = Some (length (bufs s)) \<and> b_va (bufs s3 ! length (bufs s)) = r"
proof -
  let ?c = "create_buf (load_mem_create m1 arg1)" and ?mm = "load_mem_map m2 arg2"
  let ?off = "m_offset ?mm"
  have ne: "DRM_COMMAND_BASE + RKNPU_MEM_MAP \<noteq> DRM_COMMAND_BASE + RKNPU_MEM_CREATE"
    by (simp add: DRM_COMMAND_BASE_def RKNPU_MEM_MAP_def RKNPU_MEM_CREATE_def)
  from create room have s1: "bufs s1 = bufs s @ [?c]"
    by (auto dest!: spy_ioctl_Some simp: after_ioctl_def is_drm_def note_create_def)
  from mapc ne have s2: "bufs s2 = map (set_moff ?mm) (bufs s1)"
    by (auto dest!: spy_ioctl_Some simp: after_ioctl_def is_drm_def note_mem_map_def)
  from mmapc have s3: "bufs s3 = map (bind_va r ?off) (bufs s2)"
    by (auto dest!: spy_mmap_Some simp: note_map_def not_less)
  have "find_by_dma (bufs s1) d = Some (length (bufs s))"
    unfolding s1 using d by (intro dma.find_snoc_new)
  moreover have "later_table (bufs s1) (bufs s3)"
    unfolding s2 s3 map_map
    by (rule later_tableI [of _ "bind_va r ?off \<circ> set_moff ?mm" _ "[]"])
      (auto simp: bind_va_def set_moff_def same_id_def)
  ultimately have "find_by_dma (bufs s3) d = Some (length (bufs s))"
    by (blast intro: later_table_find)
  moreover have "b_va (bufs s3 ! length (bufs s)) = r"
    using mapc(3) by (simp add: s3 s2 s1 nth_append set_moff_def bind_va_def create_buf_def)
  ultimately show ?thesis ..
qed

definition sample_mem :: memory where
  "sample_mem = (\<lambda>_. 0)(100 := 7, 109 := 1, 125 := 0x10, 200 := 7, 212 := 1)"

lemma sample_loads:
  "load_mem_create sample_mem 100
     = \<lparr>c_handle = 7, c_flags = 0, c_size = 0x100, c_obj_addr = 0, c_dma_addr = 0x1000\<rparr>"
  "load_mem_map sample_mem 200 = \<lparr>m_handle = 7, m_offset = 0x100000000\<rparr>"
  by (simp_all add: load_mem_create_def load_mem_map_def load64_def load32_def sample_mem_def)

theorem three_names_meet_witness:
  "\<exists>s3 :: spy. find_by_dma (bufs s3) 0x1080 = Some 0 \<and> b_va (bufs s3 ! 0) = 0x7f0000"
proof -
  let ?real = "\<lambda>(fd :: int) (req :: u64) (arg :: u64) (m :: memory). (0 :: int, sample_mem)"
  let ?e = "\<lparr>pm_opens = False, pm_entry = (\<lambda>_. None), page_size = 4096, raw_env = None\<rparr>"
  define s1 where "s1 = note_create (load_mem_create sample_mem 100) (spy_init True spy_start)"
  define s2 where "s2 = note_mem_map (load_mem_map sample_mem 200) (spy_init True s1)"
  define s3 where "s3 = note_map 0x7f0000 0x100000000 (spy_init True s2)"
  note cmds = is_drm_def ioc_type_def ioc_nr_def DRM_COMMAND_BASE_def RKNPU_MEM_CREATE_def
    RKNPU_MEM_MAP_def RKNPU_SUBMIT_def
  have c: "spy_ioctl ?e True ?real 3 0xC0306442 100 (\<lambda>_. 0) spy_start = Some (0, sample_mem, s1)"
    by (simp add: spy_ioctl_def before_ioctl_def after_ioctl_def s1_def cmds)
  have mp: "spy_ioctl ?e True ?real 3 0xC0106443 200 sample_mem s1 = Some (0, sample_mem, s2)"
    by (simp add: spy_ioctl_def before_ioctl_def after_ioctl_def s2_def cmds)
  have mm: "spy_mmap True 0x7f0000 (m_offset (load_mem_map sample_mem 200)) s2 = Some (0x7f0000, s3)"
    by (simp add: spy_mmap_def s3_def sample_loads)
  have "find_by_dma (bufs s3) 0x1080 = Some (length (bufs spy_start)) \<and>
      b_va (bufs s3 ! length (bufs spy_start)) = 0x7f0000"
    by (rule three_names_meet [OF _ c _ mp _ _ mm])
      (simp_all add: cmds sample_loads spy_start_def MAXB_def MAP_FAILED_def create_buf_def dma_hit_def
        find_by_dma_def find_index_def)
  then have "find_by_dma (bufs s3) 0x1080 = Some 0 \<and> b_va (bufs s3 ! 0) = 0x7f0000"
    by (simp add: spy_start_def)
  then show ?thesis ..
qed

text \<open>
  A destroyed buffer stays in the table: a successful destroy changes no entry, so a
  buffer created later at the same device address is shadowed by the dead one.
\<close>

theorem destroy_leaves_stale_entry:
  assumes "spy_ioctl e ok real fd req arg m s = Some (0, m', s')"
    and "is_drm RKNPU_MEM_DESTROY req arg" and "find_by_dma (bufs s) d = Some i"
  shows "bufs s' = bufs s \<and> find_by_dma (bufs (note_create c s')) d = Some i"
proof -
  have "bufs s' = bufs s"
    using assms(1,2)
    by (auto dest!: spy_ioctl_Some simp: after_ioctl_def is_drm_def DRM_COMMAND_BASE_def
        RKNPU_MEM_DESTROY_def RKNPU_MEM_CREATE_def RKNPU_MEM_MAP_def)
  moreover from this assms(3) have "find_by_dma (bufs (note_create c s')) d = Some i"
    by (metis later_table_find note_create_later)
  ultimately show ?thesis ..
qed

theorem destroy_leaves_stale_entry_witness:
  "\<exists>s'. find_by_dma (bufs (note_create (load_mem_create sample_mem 100) s')) 0x1010 = Some 0"
proof -
  let ?e = "\<lparr>pm_opens = False, pm_entry = (\<lambda>_. None), page_size = 4096, raw_env = None\<rparr>"
  have "spy_ioctl ?e True (\<lambda>fd req arg m. (0, m)) 3 0xC0106444 100 sample_mem sample_spy
      = Some (0, sample_mem, spy_init True sample_spy)"
    by (simp add: spy_ioctl_def before_ioctl_def after_ioctl_def is_drm_def ioc_type_def ioc_nr_def
        DRM_COMMAND_BASE_def RKNPU_SUBMIT_def RKNPU_MEM_CREATE_def RKNPU_MEM_MAP_def)
  moreover have "is_drm RKNPU_MEM_DESTROY 0xC0106444 100"
    by (simp add: is_drm_def ioc_type_def ioc_nr_def DRM_COMMAND_BASE_def RKNPU_MEM_DESTROY_def)
  moreover have "find_by_dma (bufs sample_spy) 0x1010 = Some 0"
    by (simp add: find_by_dma_def find_index_def sample_spy_def sample_buf_def dma_hit_def)
  ultimately have "find_by_dma (bufs (note_create (load_mem_create sample_mem 100)
      (spy_init True sample_spy))) 0x1010 = Some 0"
    by (rule conjunct2 [OF destroy_leaves_stale_entry])
  then show ?thesis ..
qed

end
