(* ===== verification/Arm_Mmu.thy ===== *)
theory Arm_Mmu
  imports Prelude
begin

section \<open>experiments/armv8_dump.c: system registers, address layout, page-table walk\<close>

text \<open>
  A kernel module that decodes the ARMv8 system registers, prints the kernel's address
  layout and walks the page tables in software. The registers, the layout constants and the
  macros of the kernel's headers are arguments (\<open>sysregs\<close>, \<open>layout\<close>, \<open>kmacros\<close>); a memory of
  64-bit entries, addressed by kernel virtual addresses, holds the tables.
\<close>

record sysregs =
  tcr :: u64
  ttbr0 :: u64
  ttbr1 :: u64
  mair :: u64
  mmfr0 :: u64
  sctlr :: u64
  ctr :: u64
  clidr :: u64
  midr :: u32
  this_cpu :: int

record layout =
  VA_BITS :: nat
  PAGE_SIZE :: u64
  MODULES_VADDR :: u64
  MODULES_END :: u64
  MODULES_VSIZE :: u64
  KIMAGE_VADDR :: u64
  VMALLOC_START :: u64
  VMALLOC_END :: u64
  PAGE_OFFSET :: u64
  PAGE_END :: u64
  FIXADDR_TOP :: u64
  PCI_IO_START :: u64
  PCI_IO_END :: u64
  VMEMMAP_START :: u64
  VMEMMAP_END :: u64
  memstart_addr :: u64
  kimage_voffset :: u64
  vabits_actual :: u64

type_synonym kmem = "u64 \<Rightarrow> u64"

record kmacros =
  midr_partnum :: "u32 \<Rightarrow> u32"
  pgd_index :: "u64 \<Rightarrow> u64"
  pgd_offset :: "u64 \<Rightarrow> u64 \<Rightarrow> u64"
  p4d_offset :: "kmem \<Rightarrow> u64 \<Rightarrow> u64 \<Rightarrow> u64"
  pud_offset :: "kmem \<Rightarrow> u64 \<Rightarrow> u64 \<Rightarrow> u64"
  pmd_offset :: "kmem \<Rightarrow> u64 \<Rightarrow> u64 \<Rightarrow> u64"
  pte_offset_kernel :: "kmem \<Rightarrow> u64 \<Rightarrow> u64 \<Rightarrow> u64"
  entry_none :: "u64 \<Rightarrow> bool"
  entry_sect :: "u64 \<Rightarrow> bool"
  k_pa :: "u64 \<Rightarrow> u64"
  k_pa_symbol :: "u64 \<Rightarrow> u64"
  k_va :: "u64 \<Rightarrow> u64"

text \<open>The part of \<open>current\<close> the module reads: the \<open>mm\<close>, when there is one.\<close>

record mm =
  mm_pgd :: u64
  mm_start_code :: u64
  mm_comm :: string

record dump_state =
  walk_va :: u64
  stext :: u64
  swapper_va :: u64
  swapper_pa :: u64

subsection \<open>System registers\<close>

definition parange :: "string list" where
  "parange = [''32bit/4GB'', ''36bit/64GB'', ''40bit/1TB'', ''42bit/4TB'', ''44bit/16TB'',
     ''48bit/256TB'', ''52bit/4PB'', ''reserved'']"

definition ctype_name :: "string list" where
  "ctype_name = [''none'', ''I only'', ''D only'', ''I+D separate'', ''unified'', ''?'', ''?'', ''?'']"

text \<open>
  \<open>1ULL << (64 - (tcr & 0x3f) - 40)\<close>: the count is an unsigned 64-bit difference, so a size
  field above 24 makes it wrap past 63, where the shift is undefined: \<open>None\<close>.
\<close>

definition va_terabytes :: "u64 \<Rightarrow> u64 option" where
  "va_terabytes sz =
     (let n = 64 - sz - 40 in if unat n < 64 then Some (push_bit (unat n) 1) else None)"

definition opt_val :: "u64 option \<Rightarrow> val" where
  "opt_val r = (case r of Some w \<Rightarrow> U w | None \<Rightarrow> S ''undefined'')"

definition mair_name :: "u8 \<Rightarrow> string" where
  "mair_name a =
     (if a = 0x00 then ''Device-nGnRnE'' else if a = 0x04 then ''Device-nGnRE''
      else if a = 0x08 then ''Device-nGRE'' else if a = 0x0c then ''Device-GRE''
      else if a = 0x44 then ''Normal Non-Cacheable (inner+outer NC)  ioremap_wc/dma''
      else if a = 0xff then ''Normal WB RW-Allocate (inner+outer)''
      else if a = 0xbb then ''Normal Write-Through''
      else if a = 0xf0 then ''Normal (tagged / MTE)''
      else if a = 0 then ''unused'' else ''(Normal)'')"

definition mair_lines :: "u64 \<Rightarrow> line list" where
  "mair_lines m = map (\<lambda>i. let a = ucast (drop_bit (i * 8) m AND 0xff) :: u8
     in (''   MAIR Attr%d = 0x%02x  %s'', [I (int i), U (ucast a), S (mair_name a)])) [0..<8]"

definition clidr_lines :: "u64 \<Rightarrow> line list" where
  "clidr_lines c = concat (map (\<lambda>i. let ctype = drop_bit (i * 3) c AND 0x7
     in if ctype \<noteq> 0
        then [(''   L%d cache type = %llu (%s)'',
               [I (int i + 1), U ctype, S (ctype_name ! unat ctype)])]
        else []) [0..<7])"

definition dump_sysregs :: "kmacros \<Rightarrow> mm option \<Rightarrow> sysregs \<Rightarrow> line list" where
  "dump_sysregs k cmm r =
     (let part = midr_partnum k (midr r); t = tcr r; t0 = t AND 0x3f; t1 = drop_bit 16 t AND 0x3f;
          pr = mmfr0 r AND 0xf; asid = drop_bit 4 (mmfr0 r) AND 0xf
      in
      [(''[1] ARMv8 system registers (EL1, CPU%d)'', [I (this_cpu r)]),
       (''MIDR_EL1  = 0x%08x   part=0x%03x -> %s'',
        [U32 (midr r), U32 part,
         S (if part = 0xd05 then ''Cortex-A55 (LITTLE)''
            else if part = 0xd0b then ''Cortex-A76 (big)'' else ''unknown'')]),
       (''TCR_EL1   = 0x%016llx'', [U t]),
       (''   T0SZ = %2llu  -> TTBR0(user) VA = %llu bits = %llu TB'',
        [U t0, U (64 - t0), opt_val (va_terabytes t0)]),
       (''   T1SZ = %2llu  -> TTBR1(kernel) VA = %llu bits = %llu TB'',
        [U t1, U (64 - t1), opt_val (va_terabytes t1)]),
       (''   TG0  = %llu    TG1 = %llu'', [U (drop_bit 14 t AND 0x3), U (drop_bit 30 t AND 0x3)]),
       (''   IPS  = %llu -> %s'',
        [U (drop_bit 32 t AND 0x7), S (parange ! unat (drop_bit 32 t AND 0x7))]),
       (''   AS   = %llu -> ASID %s bits'',
        [U (drop_bit 36 t AND 0x1), S (if drop_bit 36 t AND 0x1 \<noteq> 0 then ''16'' else ''8'')]),
       (''   A1   = %llu'', [U (drop_bit 22 t AND 0x1)]),
       (''   EPD0 = %llu  EPD1 = %llu'', [U (drop_bit 7 t AND 0x1), U (drop_bit 23 t AND 0x1)]),
       (''TTBR0_EL1 = 0x%016llx   BADDR(PA)=0x%012llx   ASID=%llu'',
        [U (ttbr0 r), U (ttbr0 r AND genmask 47 1), U (drop_bit 48 (ttbr0 r))]),
       (''TTBR1_EL1 = 0x%016llx   BADDR(PA)=0x%012llx   ASID=%llu'',
        [U (ttbr1 r), U (ttbr1 r AND genmask 47 1), U (drop_bit 48 (ttbr1 r))]),
       (''   -> TTBR1 BADDR = swapper_pg_dir'', [])]
      @ (case cmm of None \<Rightarrow> []
         | Some m \<Rightarrow> [(''   -> current(%s) mm->pgd VA=0x%px  __pa=0x%llx'',
                        [S (mm_comm m), U (mm_pgd m), U (k_pa k (mm_pgd m))])])
      @ [(''MAIR_EL1  = 0x%016llx'', [U (mair r)])] @ mair_lines (mair r)
      @ [(''ID_AA64MMFR0_EL1 = 0x%016llx'', [U (mmfr0 r)]),
         (''   PARange  = %llu -> %s'',
          [U pr, S (parange ! unat (if pr < 7 then pr else 7))]),
         (''   ASIDBits = %llu -> %s-bit ASID (%s)'',
          [U asid, S (if asid = 2 then ''16'' else ''8''), S (if asid = 2 then ''65536'' else ''256'')]),
         (''   TGran4 = %llu  TGran16 = %llu  TGran64 = %llu'',
          [U (drop_bit 28 (mmfr0 r) AND 0xf), U (drop_bit 20 (mmfr0 r) AND 0xf),
           U (drop_bit 24 (mmfr0 r) AND 0xf)]),
         (''SCTLR_EL1 = 0x%016llx   M(MMU)=%llu  C(D-cache)=%llu  I(I-cache)=%llu'',
          [U (sctlr r), U (sctlr r AND 1), U (drop_bit 2 (sctlr r) AND 1),
           U (drop_bit 12 (sctlr r) AND 1)]),
         (''CTR_EL0   = 0x%016llx'', [U (ctr r)]),
         (''   IminLine=%llu -> I-cache line = %llu bytes'',
          [U (ctr r AND 0xf), U (push_bit (unat (ctr r AND 0xf)) 4)]),
         (''   DminLine=%llu -> D-cache line = %llu bytes'',
          [U (drop_bit 16 (ctr r) AND 0xf), U (push_bit (unat (drop_bit 16 (ctr r) AND 0xf)) 4)]),
         (''   L1Ip=%llu CWG=%llu   ERG=%llu'',
          [U (drop_bit 14 (ctr r) AND 0x3), U (drop_bit 24 (ctr r) AND 0xf),
           U (drop_bit 20 (ctr r) AND 0xf)]),
         (''CLIDR_EL1 = 0x%016llx'', [U (clidr r)]),
         (''   LoUU  = %llu'', [U (drop_bit 27 (clidr r) AND 0x7)]),
         (''   LoC   = %llu'', [U (drop_bit 24 (clidr r) AND 0x7)]),
         (''   LoUIS = %llu'', [U (drop_bit 21 (clidr r) AND 0x7)])]
      @ clidr_lines (clidr r))"

subsection \<open>Address layout\<close>

definition dump_layout :: "kmacros \<Rightarrow> layout \<Rightarrow> dump_state \<Rightarrow> line list" where
  "dump_layout k l d =
     [(''[2] kernel VA layout (VA_BITS=%d, PAGE_SIZE=%luK)'',
       [I (int (VA_BITS l)), U (drop_bit 10 (PAGE_SIZE l))]),
      (''  user space   : 0x0000000000000000 - 0x%016lx'', [U (push_bit (VA_BITS l) 1 - 1)]),
      (''  ----'', []),
      (''  MODULES_VADDR: 0x%016lx'', [U (MODULES_VADDR l)]),
      (''  MODULES_END  : 0x%016lx   (MODULES_VSIZE = %lu MB)'',
       [U (MODULES_END l), U (drop_bit 20 (MODULES_VSIZE l))]),
      (''  KIMAGE_VADDR : 0x%016lx'', [U (KIMAGE_VADDR l)]),
      (''  VMALLOC_START: 0x%016lx'', [U (VMALLOC_START l)]),
      (''  VMALLOC_END  : 0x%016lx'', [U (VMALLOC_END l)]),
      (''  PAGE_OFFSET  : 0x%016lx'', [U (PAGE_OFFSET l)]),
      (''  PAGE_END     : 0x%016lx'', [U (PAGE_END l)]),
      (''  FIXADDR_TOP  : 0x%016lx'', [U (FIXADDR_TOP l)]),
      (''  PCI_IO_START : 0x%016lx   PCI_IO_END = 0x%016lx'', [U (PCI_IO_START l), U (PCI_IO_END l)]),
      (''  VMEMMAP_START: 0x%016lx   VMEMMAP_END= 0x%016lx'', [U (VMEMMAP_START l), U (VMEMMAP_END l)]),
      (''----'', []),
      (''  memstart_addr (PHYS_OFFSET) = 0x%llx'', [U (memstart_addr l)]),
      (''  kimage_voffset              = 0x%llx'', [U (kimage_voffset l)]),
      (''  vabits_actual               = %llu'', [U (vabits_actual l)]),
      (''  swapper_pg_dir PA (TTBR1)   = 0x%llx'', [U (swapper_pa d)]),
      (''  swapper_pg_dir VA           = 0x%lx'', [U (swapper_va d)])]
     @ (if stext d = 0 then []
        else let pa_sym = k_pa_symbol k (stext d);
                 pa_wrong = stext d - PAGE_OFFSET l + memstart_addr l
             in [(''---- __pa_symbol() vs __pa() ----'', []),
                 (''  _stext                          = 0x%lx'', [U (stext d)]),
                 (''  __pa_symbol(_stext)             = 0x%llx'', [U pa_sym]),
                 (''  _stext - kimage_voffset         = 0x%llx'', [U (stext d - kimage_voffset l)]),
                 (''  __pa(_stext)                    = 0x%llx'', [U pa_wrong]),
                 (''  0x%llx'', [U (pa_wrong - pa_sym)]),
                 (''  kimage_voffset=0x%llx, PAGE_OFFSET-PHYS_OFFSET=0x%llx'',
                  [U (kimage_voffset l), U (PAGE_OFFSET l - memstart_addr l)])])
     @ [(''----'', []),
        (''  __pa(PAGE_OFFSET) = 0x%llx'', [U (k_pa k (PAGE_OFFSET l))]),
        (''  __va(memstart_addr) = 0x%px'', [U (k_va k (memstart_addr l))])]"

subsection \<open>Descriptors\<close>

definition ap_name :: "u64 \<Rightarrow> string" where
  "ap_name ap = (if ap = 0 then ''EL1 RW, EL0 none'' else if ap = 1 then ''EL1 RW, EL0 RW''
     else if ap = 2 then ''EL1 RO, EL0 none'' else ''EL1 RO, EL0 RO'')"

definition sh_name :: "u64 \<Rightarrow> string" where
  "sh_name sh = (if sh = 0 then ''Non-shareable'' else if sh = 2 then ''Outer Shareable''
     else if sh = 3 then ''Inner Shareable'' else ''reserved'')"

definition desc_type :: "u64 \<Rightarrow> nat \<Rightarrow> string" where
  "desc_type desc level =
     (if desc AND 1 = 0 then ''INVALID -> Translation Fault''
      else if desc AND 3 = 3
      then (if level = 3 then ''PAGE  descriptor ([1:0]=0b11)'' else ''TABLE descriptor ([1:0]=0b11)'')
      else ''BLOCK descriptor ([1:0]=0b01)'')"

definition decode_desc :: "string \<Rightarrow> u64 \<Rightarrow> nat \<Rightarrow> line list" where
  "decode_desc lvl desc level =
     (''   %-2s desc = 0x%016llx   [1:0]=0b%llu%llu   %s'',
      [S lvl, U desc, U (drop_bit 1 desc AND 1), U (desc AND 1), S (desc_type desc level)])
     # (if desc AND 1 = 0 then []
        else (''        bits[47:12] = 0x%012llx'', [U (desc AND genmask 47 12)])
          # (if desc AND 3 = 3 \<and> level < 3
             then [(''        -> __va(0x%012llx)'', [U (desc AND genmask 47 12)])]
             else [(''        AttrIndx=%llu (MAIR Attr%llu)  NS=%llu  AP=%llu(%s)  SH=%llu(%s)'',
                    [U (drop_bit 2 desc AND 7), U (drop_bit 2 desc AND 7), U (drop_bit 5 desc AND 1),
                     U (drop_bit 6 desc AND 3), S (ap_name (drop_bit 6 desc AND 3)),
                     U (drop_bit 8 desc AND 3), S (sh_name (drop_bit 8 desc AND 3))]),
                   (''        AF=%llu  nG=%llu  DBM=%llu  Contig=%llu  PXN=%llu  UXN=%llu'',
                    [U (drop_bit 10 desc AND 1), U (drop_bit 11 desc AND 1), U (drop_bit 51 desc AND 1),
                     U (drop_bit 52 desc AND 1), U (drop_bit 53 desc AND 1), U (drop_bit 54 desc AND 1)])]))"

subsection \<open>The walk\<close>

text \<open>
  The result is what the module prints and the variable \<open>pa\<close> where control reaches the
  label \<open>verify\<close> (\<open>None\<close> on an early return).
\<close>

definition verify :: "kmacros \<Rightarrow> layout \<Rightarrow> dump_state \<Rightarrow> bool \<Rightarrow> u64 \<Rightarrow> line list" where
  "verify k l d user va =
     (if \<not> user \<and> PAGE_OFFSET l \<le> va then [(''  __pa(va)        = 0x%llx'', [U (k_pa k va)])]
      else if \<not> user \<and> stext d \<noteq> 0 \<and> KIMAGE_VADDR l \<le> va \<and> va < VMALLOC_START l
      then [(''  __pa_symbol(va) = 0x%llx'', [U (k_pa_symbol k va)])]
      else [])"

definition walk_l3 ::
  "kmacros \<Rightarrow> layout \<Rightarrow> dump_state \<Rightarrow> kmem \<Rightarrow> bool \<Rightarrow> u64 \<Rightarrow> u64 \<Rightarrow> line list \<times> u64 option" where
  "walk_l3 k l d m user va l2 =
     (let l3 = pte_offset_kernel k m l2 va; e = m l3;
          out = (''  pte_offset_kernel() L3 entry VA = 0x%px'', [U l3]) # decode_desc ''L3'' e 3
      in if entry_none k e then (out, None)
         else let pa = (e AND genmask 47 12) OR (va AND 0xfff)
              in (out @ (''  ==> L3 4KB PAGE PA = 0x%llx'', [U pa]) # verify k l d user va, Some pa))"

definition walk_l2 ::
  "kmacros \<Rightarrow> layout \<Rightarrow> dump_state \<Rightarrow> kmem \<Rightarrow> bool \<Rightarrow> u64 \<Rightarrow> u64 \<Rightarrow> line list \<times> u64 option" where
  "walk_l2 k l d m user va l1 =
     (let l2 = pmd_offset k m l1 va; e = m l2;
          out = (''  pmd_offset() L2 entry VA = 0x%px'', [U l2]) # decode_desc ''L2'' e 2
      in if entry_none k e then (out, None)
         else if entry_sect k e
         then let pa = (e AND genmask 47 21) OR (va AND 0x1fffff)
              in (out @ (''  ==> L2 2MB BLOCK PA = 0x%llx'', [U pa]) # verify k l d user va, Some pa)
         else let (out', r) = walk_l3 k l d m user va l2 in (out @ out', r))"

definition walk_l1 ::
  "kmacros \<Rightarrow> layout \<Rightarrow> dump_state \<Rightarrow> kmem \<Rightarrow> bool \<Rightarrow> u64 \<Rightarrow> u64 \<Rightarrow> line list \<times> u64 option" where
  "walk_l1 k l d m user va l0 =
     (let l1 = pud_offset k m (p4d_offset k m l0 va) va; e = m l1;
          out = (''  pud_offset() L1 entry VA = 0x%px'', [U l1]) # decode_desc ''L1'' e 1
      in if entry_none k e then (out, None)
         else if entry_sect k e
         then let pa = (e AND genmask 47 30) OR (va AND 0x3fffffff)
              in (out @ (''  ==> L1 1GB BLOCK PA = 0x%llx'', [U pa]) # verify k l d user va, Some pa)
         else let (out', r) = walk_l2 k l d m user va l1 in (out @ out', r))"

definition walk_entry ::
  "kmacros \<Rightarrow> layout \<Rightarrow> dump_state \<Rightarrow> kmem \<Rightarrow> bool \<Rightarrow> u64 \<Rightarrow> u64 \<Rightarrow> line list \<times> u64 option" where
  "walk_entry k l d m user va l0 =
     (let out = (''  -> L0 entry VA = 0x%px'', [U l0]) # decode_desc ''L0'' (m l0) 0
      in if entry_none k (m l0) then (out, None)
         else let (out', r) = walk_l1 k l d m user va l0 in (out @ out', r))"

definition walk ::
  "kmacros \<Rightarrow> layout \<Rightarrow> dump_state \<Rightarrow> kmem \<Rightarrow> mm option \<Rightarrow> u64 \<Rightarrow> string \<Rightarrow> line list \<times> u64 option" where
  "walk k l d m cmm va what =
     (let user = (drop_bit 63 va AND 1 = 0);
          out = [(''[3] software page-table walk: %s'', [S what]),
                 (''  VA = 0x%016lx'', [U va]),
                 (''  VA[63] = %lu  ->  %s'',
                  [U (drop_bit 63 va AND 1), S (if user then ''TTBR0_EL1'' else ''TTBR1_EL1'')]),
                 (''  (4KB granule, 48-bit VA):'', []),
                 (''     L0(PGD)=VA[47:39]=%3lu  L1(PUD)=VA[38:30]=%3lu  L2(PMD)=VA[29:21]=%3lu  L3(PTE)=VA[20:12]=%3lu  off=0x%03lx'',
                  [U (drop_bit 39 va AND 0x1ff), U (drop_bit 30 va AND 0x1ff),
                   U (drop_bit 21 va AND 0x1ff), U (drop_bit 12 va AND 0x1ff), U (va AND 0xfff)])]
      in if user
         then case cmm of
                None \<Rightarrow> (out @ [(''  (current: no mm)'', [])], None)
              | Some c \<Rightarrow>
                  let (out', r) = walk_entry k l d m user va (pgd_offset k (mm_pgd c) va)
                  in (out @ (''  L0 table VA = 0x%px (current->mm->pgd)'', [U (mm_pgd c)]) # out', r)
         else let (out', r) = walk_entry k l d m user va (swapper_va d + 8 * pgd_index k va)
              in (out @ (''  L0 table VA = 0x%lx (swapper_pg_dir)'', [U (swapper_va d)]) # out', r))"

definition armv8_dump_init ::
  "kmacros \<Rightarrow> layout \<Rightarrow> sysregs \<Rightarrow> kmem \<Rightarrow> mm option \<Rightarrow> u64 \<Rightarrow> dump_state \<Rightarrow> int \<times> line list \<times> dump_state" where
  "armv8_dump_init k l r m cmm self d =
     (let pa = ttbr1 r AND genmask 47 1;
          d = d\<lparr>swapper_pa := pa, swapper_va := pa + kimage_voffset l\<rparr>;
          w = (\<lambda>va what. fst (walk k l d m cmm va what))
      in (0,
          dump_sysregs k cmm r @ dump_layout k l d
          @ (if stext d \<noteq> 0 then w (stext d) ''_stext'' else [])
          @ w (PAGE_OFFSET l + 0x200000) ''PAGE_OFFSET+2MB''
          @ w self ''init''
          @ (case cmm of Some c \<Rightarrow> if mm_start_code c \<noteq> 0 then w (mm_start_code c) ''insmod'' else []
             | None \<Rightarrow> [])
          @ (if walk_va d \<noteq> 0 then w (walk_va d) ''walk_va'' else [])
          @ [(''done'', [])],
          d))"

section \<open>Specification: what the hardware walk yields\<close>

text \<open>
  The translation of the ARMv8 architecture for a 4 KB granule and 48-bit addresses, over
  physical memory \<open>pm\<close>. \<open>n\<close> counts the levels below the current one, so level \<open>3 - n\<close>
  indexes with the nine bits from bit \<open>12 + 9 * n\<close>. Blocks exist at levels 1 and 2 only.
\<close>

fun mmu_walk :: "kmem \<Rightarrow> u64 \<Rightarrow> nat \<Rightarrow> u64 \<Rightarrow> u64 option" where
  "mmu_walk pm va n base =
     (let e = pm (base + 8 * field (12 + 9 * n) 9 va);
          leaf = (e AND genmask 47 (12 + 9 * n)) OR (va AND mask (12 + 9 * n))
      in if e AND 1 = 0 then None
         else if e AND 3 = 3
         then (case n of 0 \<Rightarrow> Some leaf | Suc n' \<Rightarrow> mmu_walk pm va n' (e AND genmask 47 12))
         else if n = 1 \<or> n = 2 then Some leaf else None)"

declare mmu_walk.simps [simp del]

text \<open>
  What the module relies on in the kernel's arm64 headers, as they document it: the index and
  offset macros of a four-level table with a folded p4d, an empty entry, a block entry.
\<close>

definition arm64_headers :: "kmacros \<Rightarrow> bool" where
  "arm64_headers k \<longleftrightarrow>
     (\<forall>va. pgd_index k va = field 39 9 va) \<and>
     (\<forall>pgd va. pgd_offset k pgd va = pgd + 8 * field 39 9 va) \<and>
     (\<forall>m p va. p4d_offset k m p va = p) \<and>
     (\<forall>m p va. pud_offset k m p va = k_va k (m p AND genmask 47 12) + 8 * field 30 9 va) \<and>
     (\<forall>m p va. pmd_offset k m p va = k_va k (m p AND genmask 47 12) + 8 * field 21 9 va) \<and>
     (\<forall>m p va. pte_offset_kernel k m p va = k_va k (m p AND genmask 47 12) + 8 * field 12 9 va) \<and>
     (\<forall>e. entry_none k e \<longleftrightarrow> e = 0) \<and> (\<forall>e. entry_sect k e \<longleftrightarrow> e AND 3 = 1)"

text \<open>
  \<open>root\<close> is the address at which the kernel sees the physical table \<open>base\<close>, and the linear
  map shows every table page.
\<close>

definition sees_table :: "kmem \<Rightarrow> kmem \<Rightarrow> u64 \<Rightarrow> u64 \<Rightarrow> bool" where
  "sees_table m pm root base \<longleftrightarrow> (\<forall>va n. m (root + 8 * field n 9 va) = pm (base + 8 * field n 9 va))"

definition linear_view :: "kmacros \<Rightarrow> kmem \<Rightarrow> kmem \<Rightarrow> bool" where
  "linear_view k m pm \<longleftrightarrow> (\<forall>p. sees_table m pm (k_va k (p AND genmask 47 12)) (p AND genmask 47 12))"

lemma sees_tableD: "sees_table m pm root base \<Longrightarrow> m (root + 8 * field n 9 va) = pm (base + 8 * field n 9 va)"
  by (simp add: sees_table_def)

lemma linear_viewD:
  "linear_view k m pm \<Longrightarrow>
     m (k_va k (p AND genmask 47 12) + 8 * field n 9 va) = pm ((p AND genmask 47 12) + 8 * field n 9 va)"
  by (simp add: linear_view_def sees_tableD)

lemma low_bits:
  "(e :: u64) AND 3 = x \<longleftrightarrow> unat e mod 4 = unat x" "e AND 1 = x \<longleftrightarrow> unat e mod 2 = unat x"
proof -
  have "e AND 3 = field 0 2 e" "e AND 1 = field 0 1 e"
    by (simp_all add: field_def mask_eq_exp_minus_1)
  then show "e AND 3 = x \<longleftrightarrow> unat e mod 4 = unat x" "e AND 1 = x \<longleftrightarrow> unat e mod 2 = unat x"
    by (simp_all add: word_unat_eq_iff unat_field)
qed

lemma valid_kinds: "e AND 1 \<noteq> (0 :: u64) \<longleftrightarrow> e AND 3 = 1 \<or> e AND 3 = 3"
  unfolding low_bits by simp presburger

lemma zero_invalid: "e AND 1 \<noteq> (0 :: u64) \<Longrightarrow> e \<noteq> 0"
  by auto

text \<open>One level of the architecture's walk, for a valid entry.\<close>

lemma mmu_walk_step:
  assumes "mmu_walk pm va n base = Some pa"
  defines "e \<equiv> pm (base + 8 * field (12 + 9 * n) 9 va)"
  shows "e \<noteq> 0"
    and "e AND 3 = 1 \<Longrightarrow> (n = 1 \<or> n = 2) \<and> pa = (e AND genmask 47 (12 + 9 * n)) OR (va AND mask (12 + 9 * n))"
    and "e AND 3 \<noteq> 1 \<Longrightarrow> n = Suc n' \<Longrightarrow> mmu_walk pm va n' (e AND genmask 47 12) = Some pa"
    and "n = 0 \<Longrightarrow> pa = (e AND genmask 47 12) OR (va AND mask 12)"
proof -
  have w: "e AND 1 \<noteq> 0 \<and> (if e AND 3 = 3
      then (case n of 0 \<Rightarrow> Some ((e AND genmask 47 (12 + 9 * n)) OR (va AND mask (12 + 9 * n)))
        | Suc n' \<Rightarrow> mmu_walk pm va n' (e AND genmask 47 12)) = Some pa
      else (n = 1 \<or> n = 2) \<and> pa = (e AND genmask 47 (12 + 9 * n)) OR (va AND mask (12 + 9 * n)))"
    using assms(1) unfolding mmu_walk.simps [of pm va n base] Let_def e_def [symmetric]
    by (auto split: if_splits)
  show "e \<noteq> 0" using w by auto
  show "e AND 3 = 1 \<Longrightarrow> (n = 1 \<or> n = 2) \<and>
      pa = (e AND genmask 47 (12 + 9 * n)) OR (va AND mask (12 + 9 * n))"
    using w by auto
  show "e AND 3 \<noteq> 1 \<Longrightarrow> n = Suc n' \<Longrightarrow> mmu_walk pm va n' (e AND genmask 47 12) = Some pa"
    using w valid_kinds [of e] by (auto split: if_splits)
  show "n = 0 \<Longrightarrow> pa = (e AND genmask 47 12) OR (va AND mask 12)"
    using w by (auto split: if_splits)
qed

lemma page_masks:
  "(va :: u64) AND 0xfff = va AND mask 12" "va AND 0x1fffff = va AND mask 21"
  "va AND 0x3fffffff = va AND mask 30"
  by (simp_all add: mask_eq_exp_minus_1)

subsection \<open>Level by level\<close>

lemma headersD:
  assumes "arm64_headers k"
  shows "pgd_index k va = field 39 9 va" "pgd_offset k pgd va = pgd + 8 * field 39 9 va"
    "p4d_offset k m p va = p"
    "pud_offset k m p va = k_va k (m p AND genmask 47 12) + 8 * field 30 9 va"
    "pmd_offset k m p va = k_va k (m p AND genmask 47 12) + 8 * field 21 9 va"
    "pte_offset_kernel k m p va = k_va k (m p AND genmask 47 12) + 8 * field 12 9 va"
    "entry_none k e \<longleftrightarrow> e = 0" "entry_sect k e \<longleftrightarrow> e AND 3 = 1"
  using assms by (simp_all add: arm64_headers_def)

lemma walk_l3_mmu:
  assumes "arm64_headers k" "linear_view k m pm"
    and "mmu_walk pm va 0 (m l2 AND genmask 47 12) = Some pa"
  shows "snd (walk_l3 k l d m user va l2) = Some pa"
  using mmu_walk_step(1,4) [OF assms(3)] linear_viewD [OF assms(2), of "m l2" 12]
  by (simp add: walk_l3_def Let_def headersD [OF assms(1)] page_masks)

lemma walk_l2_mmu:
  assumes "arm64_headers k" "linear_view k m pm"
    and w: "mmu_walk pm va 1 (m l1 AND genmask 47 12) = Some pa"
  shows "snd (walk_l2 k l d m user va l1) = Some pa"
proof -
  let ?e = "m (pmd_offset k m l1 va)"
  have e: "?e = pm ((m l1 AND genmask 47 12) + 8 * field (12 + 9 * 1) 9 va)"
    using linear_viewD [OF assms(2), of "m l1" 21] by (simp add: headersD [OF assms(1)])
  note st = mmu_walk_step [OF w, folded e]
  show ?thesis
  proof (cases "?e AND 3 = 1")
    case True
    with st(1,2) show ?thesis
      by (simp add: walk_l2_def Let_def headersD(7,8) [OF assms(1)] page_masks)
  next
    case False
    with st(3) [OF False, of 0] have "snd (walk_l3 k l d m user va (pmd_offset k m l1 va)) = Some pa"
      by (intro walk_l3_mmu [OF assms(1,2)]) simp
    with False st(1) show ?thesis
      by (simp add: walk_l2_def Let_def headersD(7,8) [OF assms(1)] split_beta)
  qed
qed

lemma walk_l1_mmu:
  assumes "arm64_headers k" "linear_view k m pm"
    and w: "mmu_walk pm va 2 (m l0 AND genmask 47 12) = Some pa"
  shows "snd (walk_l1 k l d m user va l0) = Some pa"
proof -
  let ?l1 = "pud_offset k m (p4d_offset k m l0 va) va"
  have e: "m ?l1 = pm ((m l0 AND genmask 47 12) + 8 * field (12 + 9 * 2) 9 va)"
    using linear_viewD [OF assms(2), of "m l0" 30] by (simp add: headersD [OF assms(1)])
  note st = mmu_walk_step [OF w, folded e]
  show ?thesis
  proof (cases "m ?l1 AND 3 = 1")
    case True
    with st(1,2) show ?thesis
      by (simp add: walk_l1_def Let_def headersD(7,8) [OF assms(1)] page_masks)
  next
    case False
    with st(3) [OF False, of 1] have "snd (walk_l2 k l d m user va ?l1) = Some pa"
      by (intro walk_l2_mmu [OF assms(1,2)]) simp
    with False st(1) show ?thesis
      by (simp add: walk_l1_def Let_def headersD(7,8) [OF assms(1)] split_beta)
  qed
qed

lemma walk_entry_mmu:
  assumes "arm64_headers k" "linear_view k m pm" "sees_table m pm root base"
    and w: "mmu_walk pm va 3 base = Some pa"
  shows "snd (walk_entry k l d m user va (root + 8 * field 39 9 va)) = Some pa"
proof -
  let ?l0 = "root + 8 * field 39 9 va"
  have e: "m ?l0 = pm (base + 8 * field (12 + 9 * 3) 9 va)"
    using sees_tableD [OF assms(3), of 39] by simp
  note st = mmu_walk_step [OF w, folded e]
  from st(2) have ne: "m ?l0 AND 3 \<noteq> 1" by auto
  from st(3) [OF ne, of 2] have "snd (walk_l1 k l d m user va ?l0) = Some pa"
    by (intro walk_l1_mmu [OF assms(1,2)]) simp
  with st(1) show ?thesis
    by (simp add: walk_entry_def Let_def headersD(7,8) [OF assms(1)] split_beta)
qed

section \<open>Properties\<close>

text \<open>
  C1: The software walk refines the hardware's: whenever the architecture translates an
  address through the table the module starts from (the process's for addresses with bit 63
  clear, \<open>swapper_pg_dir\<close> otherwise), the walk reaches \<open>verify\<close> with exactly that physical
  address, through pages and blocks of every size.
\<close>

theorem walk_refines_mmu:
  assumes "arm64_headers k" and "linear_view k m pm"
    and "sees_table m pm (if bit va 63 then swapper_va d else mm_pgd c) base"
    and "mmu_walk pm va 3 base = Some pa"
  shows "snd (walk k l d m (Some c) va what) = Some pa"
proof -
  have b: "drop_bit 63 va AND 1 = of_bool (bit va 63)"
    using field_1_cases [of 63 va] by (simp add: field_def)
  note e = walk_entry_mmu [OF assms]
  show ?thesis
  proof (cases "bit va 63")
    case True
    with e show ?thesis
      by (simp add: walk_def Let_def split_beta headersD(1) [OF assms(1)] b)
  next
    case False
    with e show ?thesis
      by (simp add: walk_def Let_def split_beta headersD(2) [OF assms(1)] b)
  qed
qed

definition sample_macros :: kmacros where
  "sample_macros = \<lparr>midr_partnum = (\<lambda>w. drop_bit 4 w AND 0xfff), pgd_index = field 39 9,
     pgd_offset = (\<lambda>pgd va. pgd + 8 * field 39 9 va), p4d_offset = (\<lambda>m p va. p),
     pud_offset = (\<lambda>m p va. (m p AND genmask 47 12) + 8 * field 30 9 va),
     pmd_offset = (\<lambda>m p va. (m p AND genmask 47 12) + 8 * field 21 9 va),
     pte_offset_kernel = (\<lambda>m p va. (m p AND genmask 47 12) + 8 * field 12 9 va),
     entry_none = (\<lambda>e. e = 0), entry_sect = (\<lambda>e. e AND 3 = 1),
     k_pa = (\<lambda>a. a), k_pa_symbol = (\<lambda>a. a), k_va = (\<lambda>a. a)\<rparr>"

definition sample_tables :: kmem where
  "sample_tables = (\<lambda>_. 0)(0x1000 := 0x2003, 0x2000 := 0x3003, 0x3008 := 0x40000701)"

definition sample_layout :: layout where
  "sample_layout = \<lparr>VA_BITS = 48, PAGE_SIZE = 4096, MODULES_VADDR = 0xffff800000000000,
     MODULES_END = 0xffff800008000000, MODULES_VSIZE = 0x8000000, KIMAGE_VADDR = 0xffff800008000000,
     VMALLOC_START = 0xffff800008000000, VMALLOC_END = 0xfffffbfff0000000,
     PAGE_OFFSET = 0xffff000000000000, PAGE_END = 0xffff800000000000,
     FIXADDR_TOP = 0xfffffbfffdfff000, PCI_IO_START = 0xfffffbfffe800000,
     PCI_IO_END = 0xfffffbffff800000, VMEMMAP_START = 0xfffffc0000000000,
     VMEMMAP_END = 0xfffffe0000000000, memstart_addr = 0x200000,
     kimage_voffset = 0xffff800007e00000, vabits_actual = 48\<rparr>"

definition sample_dump :: dump_state where
  "sample_dump = \<lparr>walk_va = 0, stext = 0, swapper_va = 0, swapper_pa = 0\<rparr>"

lemma sample_headers: "arm64_headers sample_macros"
  by (simp add: arm64_headers_def sample_macros_def)

theorem walk_refines_mmu_witness:
  "snd (walk sample_macros sample_layout sample_dump sample_tables
     (Some \<lparr>mm_pgd = 0x1000, mm_start_code = 0, mm_comm = ''insmod''\<rparr>) 0x200123 ''x'') = Some 0x40000123"
proof (rule walk_refines_mmu [where pm = sample_tables and base = "0x1000"])
  show "arm64_headers sample_macros" by (rule sample_headers)
  show "linear_view sample_macros sample_tables sample_tables"
    by (simp add: linear_view_def sees_table_def sample_macros_def)
  show "sees_table sample_tables sample_tables (if bit (0x200123 :: u64) 63 then swapper_va sample_dump
      else mm_pgd \<lparr>mm_pgd = 0x1000, mm_start_code = 0, mm_comm = ''insmod''\<rparr>) 0x1000"
    by (simp add: sees_table_def)
  show "mmu_walk sample_tables 0x200123 3 0x1000 = Some 0x40000123"
    by code_simp
qed

text \<open>
  The walk and its own decoder disagree on entries that are invalid but not empty (a
  swapped-out or PROT_NONE page): the decoder reports a translation fault, the architecture
  does not translate, but the walk, which only tests for an empty entry, reports a page and a
  physical address.
\<close>

theorem walk_accepts_invalid_entry:
  assumes "arm64_headers k" and "m (pte_offset_kernel k m l2 va) = e" and "e \<noteq> 0" and "e AND 1 = 0"
  shows "desc_type e 3 = ''INVALID -> Translation Fault'' \<and>
    snd (walk_l3 k l d m user va l2) = Some ((e AND genmask 47 12) OR (va AND 0xfff)) \<and>
    (pm (base + 8 * field 12 9 va) = e \<longrightarrow> mmu_walk pm va 0 base = None)"
  using assms
  by (simp add: desc_type_def walk_l3_def Let_def headersD(7) [OF assms(1)] mmu_walk.simps)

theorem walk_accepts_invalid_entry_witness:
  "snd (walk_l3 sample_macros sample_layout sample_dump ((\<lambda>_. 0)(0x3000 := 0x4003, 0x4008 := 0x5e000))
      True 0x1234 0x3000) = Some 0x5e234 \<and> desc_type 0x5e000 3 = ''INVALID -> Translation Fault''"
proof -
  have "pte_offset_kernel sample_macros ((\<lambda>_. 0)(0x3000 := 0x4003, 0x4008 := 0x5e000)) 0x3000 0x1234 = 0x4008"
    by (simp add: sample_macros_def field_def genmask_def mask_eq_exp_minus_1)
  then show ?thesis
    using walk_accepts_invalid_entry [OF sample_headers, where m = "(\<lambda>_. 0)(0x3000 := 0x4003, 0x4008 := 0x5e000)"
        and ?l2.0 = "0x3000" and va = "0x1234" and e = "0x5e000" and l = sample_layout
        and d = sample_dump and user = True]
    by (simp add: genmask_def mask_eq_exp_minus_1)
qed

text \<open>
  The four table indices and the page offset that the walk prints lose nothing: put back
  in place they are the low 48 bits of the address, and each index is below 512.
\<close>

theorem va_split_roundtrip:
  "push_bit 39 (drop_bit 39 va AND 0x1ff) OR push_bit 30 (drop_bit 30 va AND 0x1ff)
     OR push_bit 21 (drop_bit 21 va AND 0x1ff) OR push_bit 12 (drop_bit 12 va AND 0x1ff)
     OR (va AND 0xfff) = take_bit 48 (va :: u64) \<and>
   (\<forall>k l d m what. \<exists>w1 w2 w3 rest.
      fst (walk k l d m None va what) = w1 # w2 # w3 # (''  (4KB granule, 48-bit VA):'', []) #
        (''     L0(PGD)=VA[47:39]=%3lu  L1(PUD)=VA[38:30]=%3lu  L2(PMD)=VA[29:21]=%3lu  L3(PTE)=VA[20:12]=%3lu  off=0x%03lx'',
         [U (field 39 9 va), U (field 30 9 va), U (field 21 9 va), U (field 12 9 va), U (field 0 12 va)])
        # rest) \<and>
   (\<forall>n. unat (field n 9 va) < 512)"
proof (intro conjI allI)
  have f: "drop_bit n va AND 0x1ff = field n 9 va" "va AND 0xfff = field 0 12 va" for n
    by (simp_all add: field_def mask_eq_exp_minus_1)
  have "push_bit 39 (field 39 9 va) OR push_bit 30 (field 30 9 va) OR push_bit 21 (field 21 9 va)
      OR push_bit 12 (field 12 9 va) OR field 0 12 va = take_bit 48 va"
    (is "?l = _")
  proof (rule bit_word_eqI)
    fix i
    assume "i < LENGTH(64)"
    then show "bit ?l i = bit (take_bit 48 va) i"
      by (cases "i < 12"; cases "i < 21"; cases "i < 30"; cases "i < 39") (auto simp: bit_simps)
  qed
  then show "push_bit 39 (drop_bit 39 va AND 0x1ff) OR push_bit 30 (drop_bit 30 va AND 0x1ff)
     OR push_bit 21 (drop_bit 21 va AND 0x1ff) OR push_bit 12 (drop_bit 12 va AND 0x1ff)
     OR (va AND 0xfff) = take_bit 48 va" unfolding f .
  fix n
  show "unat (field n 9 va) < 512" using unat_field_less [of n 9 va] by simp
next
  fix k l d m what
  have f: "drop_bit n va AND 0x1ff = field n 9 va" "va AND 0xfff = field 0 12 va" for n
    by (simp_all add: field_def mask_eq_exp_minus_1)
  show "\<exists>w1 w2 w3 rest. fst (walk k l d m None va what) = w1 # w2 # w3 #
      (''  (4KB granule, 48-bit VA):'', []) #
      (''     L0(PGD)=VA[47:39]=%3lu  L1(PUD)=VA[38:30]=%3lu  L2(PMD)=VA[29:21]=%3lu  L3(PTE)=VA[20:12]=%3lu  off=0x%03lx'',
       [U (field 39 9 va), U (field 30 9 va), U (field 21 9 va), U (field 12 9 va), U (field 0 12 va)])
      # rest"
    unfolding walk_def Let_def f by (simp add: split_beta)
qed

text \<open>
  The size of an address range in terabytes is only printed for range-size fields up to
  24, as a power of two; for 25 and more (address spaces below 1 TB, such as a 39-bit one) the
  shift is undefined behaviour.
\<close>

theorem va_terabytes_domain:
  "va_terabytes (tcr r AND 0x3f) =
     (if unat (tcr r AND 0x3f) \<le> 24 then Some (2 ^ (24 - unat (tcr r AND 0x3f))) else None)"
proof -
  define sz where "sz = tcr r AND 0x3f"
  have "sz = field 0 6 (tcr r)" by (simp add: sz_def field_def mask_eq_exp_minus_1)
  then have lt: "unat sz < 64" using unat_field_less [of 0 6 "tcr r"] by simp
  have d: "(64 :: u64) - sz - 40 = 24 - sz" by simp
  show ?thesis unfolding sz_def [symmetric]
  proof (cases "unat sz \<le> 24")
    case True
    then have "unat (24 - sz) = 24 - unat sz"
      by (subst unat_sub) (auto simp: word_le_nat_alt)
    with True show "va_terabytes sz = (if unat sz \<le> 24 then Some (2 ^ (24 - unat sz)) else None)"
      by (simp add: va_terabytes_def Let_def d push_bit_eq_mult)
  next
    case False
    then have "unat (24 - sz) = 2 ^ 64 + 24 - unat sz"
      using lt by (simp add: unat_sub_if' word_le_nat_alt)
    with False lt show "va_terabytes sz = (if unat sz \<le> 24 then Some (2 ^ (24 - unat sz)) else None)"
      by (simp add: va_terabytes_def Let_def d)
  qed
qed

end
