(* ===== verification/Os_Monad.thy ===== *)
theory Os_Monad
  imports Prelude "HOL-Library.State_Monad"
begin

section \<open>User programs over an operating system\<close>

text \<open>
  The test programs of \<open>experiments/\<close> are sequences of system calls, memory accesses and
  prints. Here such a program is a state transformer over a world \<open>'w\<close> (whatever the kernel
  and the machine keep) and the output so far; the calls themselves are the fields of an
  \<open>os\<close> record, an argument of every program, since the kernel is not part of the repository.
  The order of the calls, their arguments and every branch on their results are the program's.
\<close>

type_synonym ('w, 'a) prog = "('w \<times> line list, 'a) state"

record 'w os =
  os_read_file :: "string \<Rightarrow> 'w \<Rightarrow> string option \<times> 'w" \<comment> \<open>fopen for reading, the whole contents\<close>
  os_open_w :: "string \<Rightarrow> 'w \<Rightarrow> bool \<times> 'w" \<comment> \<open>open(O_WRONLY) succeeds\<close>
  os_write :: "string \<Rightarrow> string \<Rightarrow> 'w \<Rightarrow> int \<times> 'w" \<comment> \<open>write of a string to a path opened so\<close>
  os_pagemap :: "u64 \<Rightarrow> 'w \<Rightarrow> u64 option \<times> 'w" \<comment> \<open>pread of 8 bytes of the pagemap, None if short\<close>
  os_open_pagemap :: "'w \<Rightarrow> bool \<times> 'w"
  os_mmap :: "u64 \<Rightarrow> u64 \<Rightarrow> int \<Rightarrow> int \<Rightarrow> 'w \<Rightarrow> u64 \<times> 'w" \<comment> \<open>address, length, prot, flags\<close>
  os_munmap :: "u64 \<Rightarrow> u64 \<Rightarrow> 'w \<Rightarrow> 'w"
  os_madvise :: "u64 \<Rightarrow> u64 \<Rightarrow> int \<Rightarrow> 'w \<Rightarrow> int \<times> 'w"
  os_load :: "u64 \<Rightarrow> 'w \<Rightarrow> u8 \<times> 'w"
  os_store :: "u64 \<Rightarrow> u8 \<Rightarrow> 'w \<Rightarrow> 'w"
  os_sleep_us :: "nat \<Rightarrow> 'w \<Rightarrow> 'w"
  os_faults :: "'w \<Rightarrow> (int \<times> int) \<times> 'w" \<comment> \<open>getrusage: minor and major faults\<close>

definition call :: "('w \<Rightarrow> 'a \<times> 'w) \<Rightarrow> ('w, 'a) prog" where
  "call f = State (\<lambda>(w, out). case f w of (a, w') \<Rightarrow> (a, (w', out)))"

definition effect :: "('w \<Rightarrow> 'w) \<Rightarrow> ('w, unit) prog" where
  "effect f = State (\<lambda>(w, out). ((), (f w, out)))"

definition print :: "string \<Rightarrow> val list \<Rightarrow> ('w, unit) prog" where
  "print l vs = State (\<lambda>(w, out). ((), (w, out @ [(l, vs)])))"

abbreviation ret :: "'a \<Rightarrow> ('w, 'a) prog" where
  "ret \<equiv> State_Monad.return"

definition whenM :: "bool \<Rightarrow> ('w, unit) prog \<Rightarrow> ('w, unit) prog" where
  "whenM b m = (if b then m else ret ())"

fun eachM :: "('a \<Rightarrow> ('w, unit) prog) \<Rightarrow> 'a list \<Rightarrow> ('w, unit) prog" where
  "eachM f [] = ret ()"
| "eachM f (x # xs) = do { f x; eachM f xs }"

fun mapM :: "('a \<Rightarrow> ('w, 'b) prog) \<Rightarrow> 'a list \<Rightarrow> ('w, 'b list) prog" where
  "mapM f [] = ret []"
| "mapM f (x # xs) = do { y \<leftarrow> f x; ys \<leftarrow> mapM f xs; ret (y # ys) }"

lemma eachM_append: "eachM f (xs @ ys) = do { eachM f xs; eachM f ys }"
  by (induction xs) simp_all

definition run :: "('w, 'a) prog \<Rightarrow> 'w \<Rightarrow> 'a \<times> 'w \<times> line list" where
  "run m w = (case run_state m (w, []) of (a, (w', out)) \<Rightarrow> (a, w', out))"

lemma run_call [simp]: "run_state (call f) (w, out) = (case f w of (a, w') \<Rightarrow> (a, (w', out)))"
  by (simp add: call_def)

lemma run_effect [simp]: "run_state (effect f) (w, out) = ((), (f w, out))"
  by (simp add: effect_def)

lemma run_print [simp]: "run_state (print l vs) (w, out) = ((), (w, out @ [(l, vs)]))"
  by (simp add: print_def)

lemma run_whenM [simp]: "run_state (whenM b m) s = (if b then run_state m s else ((), s))"
  by (simp add: whenM_def)

text \<open>
  A program only ever appends to the output, and what it does to the world does not depend
  on what was printed before. \<open>tidy m\<close> says so; every construct above keeps it.
\<close>

definition tidy :: "('w, 'a) prog \<Rightarrow> bool" where
  "tidy m \<longleftrightarrow> (\<forall>w out. run_state m (w, out)
     = (case run_state m (w, []) of (a, (w', o')) \<Rightarrow> (a, (w', out @ o'))))"

lemma tidyD: "tidy m \<Longrightarrow> run_state m (w, []) = (a, (w', o')) \<Longrightarrow> run_state m (w, out) = (a, (w', out @ o'))"
  unfolding tidy_def by (metis (mono_tags, lifting) case_prod_conv)

lemma tidy_ret [intro, simp]: "tidy (ret a)"
  by (simp add: tidy_def)

lemma tidy_call [intro, simp]: "tidy (call f)"
  by (simp add: tidy_def split: prod.split)

lemma tidy_effect [intro, simp]: "tidy (effect f)"
  by (simp add: tidy_def)

lemma tidy_print [intro, simp]: "tidy (print l vs)"
  by (simp add: tidy_def)

lemma tidy_bind [intro]:
  assumes "tidy m" and "\<And>a. tidy (f a)"
  shows "tidy (State_Monad.bind m f)"
  unfolding tidy_def
proof (intro allI)
  fix w out
  obtain a w1 o1 where m: "run_state m (w, []) = (a, (w1, o1))" by (metis prod.exhaust)
  obtain b w2 o2 where f: "run_state (f a) (w1, []) = (b, (w2, o2))" by (metis prod.exhaust)
  show "run_state (State_Monad.bind m f) (w, out) =
      (case run_state (State_Monad.bind m f) (w, []) of (a, (w', o')) \<Rightarrow> (a, (w', out @ o')))"
    using tidyD [OF assms(1) m] tidyD [OF assms(2) f] m by simp
qed

lemma tidy_if [intro]: "tidy m \<Longrightarrow> tidy n \<Longrightarrow> tidy (if b then m else n)"
  by simp

lemma tidy_whenM [intro]: "tidy m \<Longrightarrow> tidy (whenM b m)"
  by (simp add: whenM_def)

lemma tidy_eachM [intro]: "(\<And>x. tidy (f x)) \<Longrightarrow> tidy (eachM f xs)"
  by (induction xs) auto

text \<open>The printed part of a loop whose body leaves the world alone.\<close>

lemma run_eachM_pure:
  assumes "\<And>x w out. run_state (f x) (w, out) = ((), (w, out @ g x))"
  shows "run_state (eachM f xs) (w, out) = ((), (w, out @ concat (map g xs)))"
  by (induction xs arbitrary: out) (simp_all add: assms)

lemma run_eachM_effect:
  assumes "\<And>x w out. run_state (f x) (w, out) = ((), (g x w, out))"
  shows "run_state (eachM f xs) (w, out) = ((), (fold g xs w, out))"
  by (induction xs arbitrary: w) (simp_all add: assms)

subsection \<open>\<open>scanf\<close>, \<open>strncmp\<close> and \<open>%ld\<close>\<close>

definition is_space :: "char \<Rightarrow> bool" where
  "is_space c \<longleftrightarrow> of_char c \<in> {9, 10, 11, 12, 13, 32 :: nat}"

definition is_digit :: "char \<Rightarrow> bool" where
  "is_digit c \<longleftrightarrow> 48 \<le> (of_char c :: nat) \<and> (of_char c :: nat) \<le> 57"

definition skip_ws :: "string \<Rightarrow> string" where
  "skip_ws s = dropWhile is_space s"

definition digits_val :: "string \<Rightarrow> nat" where
  "digits_val ds = fold (\<lambda>c v. 10 * v + (of_char c - 48)) ds 0"

text \<open>One \<open>%ld\<close> conversion: the value and the rest (values are not cut to 64 bits).\<close>

definition scan_nat :: "string \<Rightarrow> (int \<times> string) option" where
  "scan_nat s = (let ds = takeWhile is_digit s
     in if ds = [] then None else Some (int (digits_val ds), drop (length ds) s))"

definition scan_ld :: "string \<Rightarrow> (int \<times> string) option" where
  "scan_ld s = (case skip_ws s of
       [] \<Rightarrow> None
     | c # r \<Rightarrow> if c = CHR ''-'' then map_option (\<lambda>(v, t). (- v, t)) (scan_nat r)
               else if c = CHR ''+'' then scan_nat r
               else scan_nat (c # r))"

text \<open>One \<open>%63s\<close>-style conversion of width \<open>n\<close>.\<close>

definition scan_word :: "nat \<Rightarrow> string \<Rightarrow> (string \<times> string) option" where
  "scan_word n s = (let s = skip_ws s; t = take n (takeWhile (\<lambda>c. \<not> is_space c) s)
     in if t = [] then None else Some (t, drop (length t) s))"

definition prefixed :: "string \<Rightarrow> string \<Rightarrow> bool" where
  "prefixed key s \<longleftrightarrow> take (length key) s = key"

text \<open>\<open>printf("%ld")\<close> of a number.\<close>

fun show_nat :: "nat \<Rightarrow> string" where
  "show_nat n = (if n < 10 then [char_of (48 + n)] else show_nat (n div 10) @ [char_of (48 + n mod 10)])"

declare show_nat.simps [simp del]

definition show_int :: "int \<Rightarrow> string" where
  "show_int i = (if i < 0 then CHR ''-'' # show_nat (nat (- i)) else show_nat (nat i))"

subsection \<open>Triples over the world\<close>

text \<open>
  \<open>hoare P m Q\<close>: from a world satisfying \<open>P\<close>, \<open>m\<close> returns an \<open>a\<close> and a world with \<open>Q a\<close>.
  \<open>keeps J m\<close>: \<open>m\<close> preserves \<open>J\<close>. The rules follow the constructs.
\<close>

named_theorems triples

definition hoare :: "('w \<Rightarrow> bool) \<Rightarrow> ('w, 'a) prog \<Rightarrow> ('a \<Rightarrow> 'w \<Rightarrow> bool) \<Rightarrow> bool" where
  "hoare P m Q \<longleftrightarrow> (\<forall>w out a w' out'. P w \<longrightarrow> run_state m (w, out) = (a, (w', out')) \<longrightarrow> Q a w')"

definition keeps :: "('w \<Rightarrow> bool) \<Rightarrow> ('w, 'a) prog \<Rightarrow> bool" where
  "keeps J m \<longleftrightarrow> hoare J m (\<lambda>_. J)"

lemma hoareD: "hoare P m Q \<Longrightarrow> P w \<Longrightarrow> run_state m (w, out) = (a, (w', out')) \<Longrightarrow> Q a w'"
  unfolding hoare_def by blast

lemma hoare_run: "hoare P m Q \<Longrightarrow> P w \<Longrightarrow> run m w = (a, w', out) \<Longrightarrow> Q a w'"
  unfolding hoare_def run_def by (fastforce split: prod.splits)

lemma hoare_bind: "hoare P m R \<Longrightarrow> (\<And>a. hoare (R a) (f a) Q) \<Longrightarrow> hoare P (State_Monad.bind m f) Q"
  unfolding hoare_def by (fastforce split: prod.splits)

lemma hoare_bind_eq:
  "hoare P m (\<lambda>v w. v = x \<and> R w) \<Longrightarrow> hoare R (f x) Q \<Longrightarrow> hoare P (State_Monad.bind m f) Q"
  unfolding hoare_def by (fastforce split: prod.splits)

lemma hoare_ret: "(\<And>w. P w \<Longrightarrow> Q a w) \<Longrightarrow> hoare P (ret a) Q"
  by (simp add: hoare_def)

lemma hoare_call: "(\<And>w a w'. P w \<Longrightarrow> f w = (a, w') \<Longrightarrow> Q a w') \<Longrightarrow> hoare P (call f) Q"
  by (auto simp: hoare_def split: prod.splits)

lemma hoare_effect: "(\<And>w. P w \<Longrightarrow> Q () (f w)) \<Longrightarrow> hoare P (effect f) Q"
  by (simp add: hoare_def)

lemma hoare_print: "(\<And>w. P w \<Longrightarrow> Q () w) \<Longrightarrow> hoare P (print l vs) Q"
  by (simp add: hoare_def)

lemma hoare_if: "(b \<Longrightarrow> hoare P m Q) \<Longrightarrow> (\<not> b \<Longrightarrow> hoare P n Q) \<Longrightarrow> hoare P (if b then m else n) Q"
  by simp

lemma hoare_pre: "hoare P' m Q \<Longrightarrow> (\<And>w. P w \<Longrightarrow> P' w) \<Longrightarrow> hoare P m Q"
  unfolding hoare_def by blast

lemma hoare_conj: "(A \<Longrightarrow> hoare P m Q) \<Longrightarrow> hoare (\<lambda>w. A \<and> P w) m Q"
  unfolding hoare_def by blast

lemma hoare_post: "hoare P m Q' \<Longrightarrow> (\<And>a w. Q' a w \<Longrightarrow> Q a w) \<Longrightarrow> hoare P m Q"
  unfolding hoare_def by blast

lemma hoare_keeps: "keeps J m \<Longrightarrow> (\<And>a. hoare J (f a) Q) \<Longrightarrow> hoare J (State_Monad.bind m f) Q"
  unfolding keeps_def by (rule hoare_bind)

lemma keeps_bind [triples]: "keeps J m \<Longrightarrow> (\<And>a. keeps J (f a)) \<Longrightarrow> keeps J (State_Monad.bind m f)"
  unfolding keeps_def by (rule hoare_bind)

lemma keeps_ret [triples]: "keeps J (ret a)"
  unfolding keeps_def by (rule hoare_ret)

lemma keeps_print [triples]: "keeps J (print l vs)"
  unfolding keeps_def by (rule hoare_print)

lemma keeps_call: "(\<And>w. J w \<Longrightarrow> J (snd (f w))) \<Longrightarrow> keeps J (call f)"
  unfolding keeps_def by (rule hoare_call) (metis snd_conv)

lemma keeps_effect: "(\<And>w. J w \<Longrightarrow> J (f w)) \<Longrightarrow> keeps J (effect f)"
  unfolding keeps_def by (rule hoare_effect)

lemma keeps_if [triples]: "keeps J m \<Longrightarrow> keeps J n \<Longrightarrow> keeps J (if b then m else n)"
  by simp

lemma keeps_whenM [triples]: "keeps J m \<Longrightarrow> keeps J (whenM b m)"
  by (simp add: whenM_def keeps_ret)

lemma keeps_eachM [triples]: "(\<And>x. keeps J (f x)) \<Longrightarrow> keeps J (eachM f xs)"
  by (induction xs) (simp_all add: keeps_ret keeps_bind)

lemma keeps_mapM [triples]: "(\<And>x. keeps J (f x)) \<Longrightarrow> keeps J (mapM f xs)"
  by (induction xs) (simp_all add: keeps_ret keeps_bind)

lemma keeps_option [triples]:
  "keeps J m \<Longrightarrow> (\<And>x. keeps J (f x)) \<Longrightarrow> keeps J (case r of None \<Rightarrow> m | Some x \<Rightarrow> f x)"
  by (simp split: option.split)

end
