(* ===== verification/Proc_Files.thy ===== *)
theory Proc_Files
  imports Os_Monad First_Match
begin

section \<open>Reading /proc and /sys: reclaim_test.c, migrate_compact.c, swap_shmem.c, cow.c, lru_shmem.c\<close>

text \<open>
  Five programs read kernel counters out of text files. \<open>vmstat\<close> (the same function in
  \<open>migrate_compact.c\<close> and \<open>reclaim_test.c\<close>) scans word and number pairs; \<open>meminfo\<close>, \<open>get_kv\<close>,
  \<open>kv\<close> and \<open>g\<close> take the first line that starts with the key and read the number after it;
  \<open>sysctl_get\<close> and \<open>sysctl_set\<close> read and write a file holding one number. A missing file, key
  or number reads as -1.
\<close>

subsection \<open>vmstat\<close>

text \<open>\<open>while (fscanf(f, "%63s %ld", k, &v) == 2) if (!strcmp(k, key)) { r = v; break; }\<close>\<close>

definition scan_pair :: "string \<Rightarrow> ((string \<times> int) \<times> string) option" where
  "scan_pair s = (case scan_word 63 s of
       None \<Rightarrow> None
     | Some (k, t) \<Rightarrow> (case scan_ld t of None \<Rightarrow> None | Some (v, u) \<Rightarrow> Some ((k, v), u)))"

lemma length_skip_ws: "length (skip_ws s) \<le> length s"
  by (simp add: skip_ws_def length_dropWhile_le)

lemma scan_word_shorter:
  assumes "scan_word n s = Some (t, u)"
  shows "length u < length s"
proof -
  from assms have t: "t \<noteq> []" "u = drop (length t) (skip_ws s)"
    "t = take n (takeWhile (\<lambda>c. \<not> is_space c) (skip_ws s))"
    by (auto simp: scan_word_def Let_def split: if_splits)
  then have "skip_ws s \<noteq> []" by auto
  with t(1,2) have "length u < length (skip_ws s)" by simp
  with length_skip_ws [of s] show ?thesis by simp
qed

lemma scan_nat_shorter: "scan_nat s = Some (v, u) \<Longrightarrow> length u \<le> length s"
  by (auto simp: scan_nat_def Let_def split: if_splits)

lemma scan_ld_shorter: "scan_ld s = Some (v, u) \<Longrightarrow> length u \<le> length s"
  using length_skip_ws [of s]
  by (auto simp: scan_ld_def split: list.splits if_splits dest!: scan_nat_shorter)

lemma scan_pair_shorter: "scan_pair s = Some (kv, u) \<Longrightarrow> length u < length s"
  by (fastforce simp: scan_pair_def split: option.splits dest: scan_word_shorter scan_ld_shorter)

function vmstat_scan :: "string \<Rightarrow> string \<Rightarrow> int" where
  "vmstat_scan key s = (case scan_pair s of
       None \<Rightarrow> - 1
     | Some ((k, v), u) \<Rightarrow> if k = key then v else vmstat_scan key u)"
  by pat_completeness auto
termination
  by (relation "measure (length \<circ> snd)") (auto dest: scan_pair_shorter)

declare vmstat_scan.simps [simp del]

definition vmstat :: "'w os \<Rightarrow> string \<Rightarrow> ('w, int) prog" where
  "vmstat os key = do {
     f \<leftarrow> call (os_read_file os ''/proc/vmstat'');
     ret (case f of None \<Rightarrow> - 1 | Some s \<Rightarrow> vmstat_scan key s)
   }"

subsection \<open>Lines with a prefix\<close>

text \<open>
  \<open>fgets(line, n, f)\<close>: up to and including a newline, at most \<open>n - 1\<close> characters, so a longer
  line comes in pieces.
\<close>

definition fgets_len :: "nat \<Rightarrow> string \<Rightarrow> nat" where
  "fgets_len n s = (let k = length (takeWhile (\<lambda>c. of_char c \<noteq> (10 :: nat)) s)
     in min (n - 1) (if k < length s then Suc k else k))"

function fgets_all :: "nat \<Rightarrow> string \<Rightarrow> string list" where
  "fgets_all n s = (if s = [] \<or> n < 2 then []
     else take (fgets_len n s) s # fgets_all n (drop (fgets_len n s) s))"
  by pat_completeness auto
termination
proof (relation "measure (length \<circ> snd)")
  fix n :: nat and s :: string
  assume "\<not> (s = [] \<or> n < 2)"
  then have "0 < fgets_len n s" and "0 < length s"
    by (auto simp: fgets_len_def Let_def)
  then show "((n, drop (fgets_len n s) s), n, s) \<in> measure (length \<circ> snd)" by simp
qed simp

declare fgets_all.simps [simp del]

definition find_line :: "string list \<Rightarrow> string \<Rightarrow> nat option" where
  "find_line ls key = find_index (prefixed key) ls"

text \<open>
  The loop body of \<open>meminfo\<close>, \<open>get_kv\<close>, \<open>kv\<close> and \<open>g\<close>: the first line that starts with the
  key decides, and a line without a number after the key leaves the -1.
\<close>

definition kv_scan :: "string list \<Rightarrow> string \<Rightarrow> int" where
  "kv_scan ls key = (case find_line ls key of
       None \<Rightarrow> - 1
     | Some i \<Rightarrow> (case scan_ld (drop (length key) (ls ! i)) of None \<Rightarrow> - 1 | Some (v, _) \<Rightarrow> v))"

definition get_kv :: "'w os \<Rightarrow> string \<Rightarrow> string \<Rightarrow> ('w, int) prog" where
  "get_kv os file key = do {
     f \<leftarrow> call (os_read_file os file);
     ret (case f of None \<Rightarrow> - 1 | Some s \<Rightarrow> kv_scan (fgets_all 256 s) key)
   }"

definition meminfo :: "'w os \<Rightarrow> string \<Rightarrow> ('w, int) prog" where
  "meminfo os key = do {
     f \<leftarrow> call (os_read_file os ''/proc/meminfo'');
     ret (case f of None \<Rightarrow> - 1 | Some s \<Rightarrow> kv_scan (fgets_all 256 s) key)
   }"

subsection \<open>Files that hold one number\<close>

definition sysctl_get :: "'w os \<Rightarrow> string \<Rightarrow> ('w, int) prog" where
  "sysctl_get os p = do {
     f \<leftarrow> call (os_read_file os p);
     ret (case f of None \<Rightarrow> - 1
          | Some s \<Rightarrow> (case scan_ld s of None \<Rightarrow> - 1 | Some (v, _) \<Rightarrow> v))
   }"

definition sysctl_set :: "'w os \<Rightarrow> string \<Rightarrow> int \<Rightarrow> ('w, int) prog" where
  "sysctl_set os p v = do {
     ok \<leftarrow> call (os_open_w os p);
     if \<not> ok then ret (- 1)
     else do {
       r \<leftarrow> call (os_write os p (take 31 (show_int v @ [char_of (10 :: nat)])));
       ret (if 0 < r then 0 else - 1)
     }
   }"

section \<open>Lemmas: printing a number and reading it back\<close>

lemma digit_char: "d < 10 \<Longrightarrow> is_digit (char_of (48 + d))" "d < 10 \<Longrightarrow> (of_char (char_of (48 + d)) :: nat) = 48 + d"
  by (simp_all add: is_digit_def of_char_of)

lemma show_nat_nonempty: "show_nat n \<noteq> []"
  by (subst show_nat.simps) simp

lemma show_nat_digits: "\<forall>c\<in>set (show_nat n). is_digit c"
proof (induction n rule: show_nat.induct)
  case (1 n)
  have "is_digit (char_of (48 + n mod 10))" by (rule digit_char) simp
  with 1 show ?case
    by (subst show_nat.simps) (auto simp: digit_char)
qed

lemma digits_val_snoc: "digits_val (ds @ [c]) = 10 * digits_val ds + (of_char c - 48)"
  by (simp add: digits_val_def)

lemma digits_val_show: "digits_val (show_nat n) = n"
proof (induction n rule: show_nat.induct)
  case (1 n)
  show ?case
  proof (cases "n < 10")
    case True
    then show ?thesis
      by (subst show_nat.simps) (simp add: digits_val_snoc [of "[]", simplified] digits_val_def digit_char)
  next
    case False
    have "(of_char (char_of (48 + n mod 10)) :: nat) = 48 + n mod 10" by (rule digit_char) simp
    with False 1 show ?thesis
      by (subst show_nat.simps) (simp add: digits_val_snoc)
  qed
qed

definition stops_digit :: "string \<Rightarrow> bool" where
  "stops_digit r \<longleftrightarrow> (case r of [] \<Rightarrow> True | c # _ \<Rightarrow> \<not> is_digit c)"

lemma takeWhile_stop: "stops_digit r \<Longrightarrow> takeWhile is_digit r = []"
  by (cases r) (auto simp: stops_digit_def)

lemma scan_nat_show: "stops_digit r \<Longrightarrow> scan_nat (show_nat n @ r) = Some (int n, r)"
  using show_nat_digits [of n] show_nat_nonempty [of n]
  by (simp add: scan_nat_def takeWhile_append takeWhile_stop digits_val_show)

lemma digit_not_space: "is_digit c \<Longrightarrow> \<not> is_space c \<and> c \<noteq> CHR ''-'' \<and> c \<noteq> CHR ''+''"
  by (auto simp: is_digit_def is_space_def)

lemma skip_ws_start: "\<not> is_space c \<Longrightarrow> skip_ws (c # s) = c # s"
  by (simp add: skip_ws_def)

lemma scan_ld_show: "stops_digit r \<Longrightarrow> scan_ld (show_int v @ r) = Some (v, r)"
proof (cases "v < 0")
  case True
  moreover assume "stops_digit r"
  moreover have "\<not> is_space CHR ''-''" by (simp add: is_space_def)
  ultimately show ?thesis
    by (simp add: scan_ld_def show_int_def skip_ws_start scan_nat_show)
next
  case False
  moreover assume r: "stops_digit r"
  obtain c ds where c: "show_nat (nat v) = c # ds"
    using show_nat_nonempty by (meson neq_Nil_conv)
  then have "is_digit c" using show_nat_digits [of "nat v"] by simp
  moreover have "scan_nat (c # ds @ r) = Some (v, r)"
    using scan_nat_show [OF r, of "nat v"] c False by simp
  ultimately show ?thesis
    using c by (simp add: scan_ld_def show_int_def skip_ws_start digit_not_space)
qed

lemma scan_ld_space: "is_space c \<Longrightarrow> scan_ld (c # s) = scan_ld s"
  by (simp add: scan_ld_def skip_ws_def)

text \<open>The lines of \<open>/proc/vmstat\<close>, as the kernel prints them.\<close>

definition sp :: char where "sp = char_of (32 :: nat)"
definition nl :: char where "nl = char_of (10 :: nat)"

definition kv_text :: "(string \<times> int) list \<Rightarrow> string" where
  "kv_text kvs = concat (map (\<lambda>(k, v). k @ [sp] @ show_int v @ [nl]) kvs)"

definition good_key :: "string \<Rightarrow> bool" where
  "good_key k \<longleftrightarrow> k \<noteq> [] \<and> length k \<le> 63 \<and> (\<forall>c\<in>set k. \<not> is_space c)"

lemma space_chars: "is_space sp" "is_space nl" "\<not> is_digit nl" "\<not> is_digit sp"
  by (simp_all add: sp_def nl_def is_space_def is_digit_def of_char_of)

lemma blanks: "sp = CHR '' ''" "nl = CHR 0x0A"
  by code_simp+

lemma scan_word_key: "good_key k \<Longrightarrow> is_space c \<Longrightarrow> scan_word 63 (k @ c # r) = Some (k, c # r)"
  by (cases k) (auto simp: good_key_def scan_word_def Let_def skip_ws_def takeWhile_append)

lemma scan_word_space: "is_space c \<Longrightarrow> scan_word n (c # s) = scan_word n s"
  by (simp add: scan_word_def skip_ws_def)

lemma scan_pair_line:
  assumes "good_key k"
  shows "scan_pair (k @ [sp] @ show_int v @ [nl] @ r) = Some ((k, v), nl # r)"
  using assms scan_ld_show [of "nl # r" v]
  by (simp add: scan_pair_def scan_word_key space_chars scan_ld_space stops_digit_def)

lemma vmstat_scan_nl: "vmstat_scan key (nl # s) = vmstat_scan key s"
  by (subst (1 2) vmstat_scan.simps) (simp add: scan_pair_def scan_word_space space_chars)

lemma vmstat_scan_text:
  assumes "\<forall>(k, v)\<in>set kvs. good_key k"
  shows "vmstat_scan key (kv_text kvs) = (case map_of kvs key of None \<Rightarrow> - 1 | Some v \<Rightarrow> v)"
  using assms
proof (induction kvs)
  case Nil
  show ?case
    by (subst vmstat_scan.simps) (simp add: kv_text_def scan_pair_def scan_word_def skip_ws_def)
next
  case (Cons kv kvs)
  obtain k v where kv: "kv = (k, v)" by (cases kv)
  with Cons.prems have "scan_pair (kv_text (kv # kvs)) = Some ((k, v), nl # kv_text kvs)"
    using scan_pair_line [of k v "kv_text kvs"] by (simp add: kv_text_def)
  then have "vmstat_scan key (kv_text (kv # kvs)) = (if k = key then v else vmstat_scan key (kv_text kvs))"
    by (subst vmstat_scan.simps) (simp add: vmstat_scan_nl)
  with Cons kv show ?case by auto
qed

text \<open>The C library's \<open>atol\<close> and \<open>atoi\<close>: a leading number, 0 if there is none.\<close>

definition atol :: "string \<Rightarrow> int" where
  "atol s = (case scan_ld s of None \<Rightarrow> 0 | Some (v, _) \<Rightarrow> v)"

definition atoi :: "string \<Rightarrow> int" where
  "atoi s = to_int (atol s)"

lemma atol_show: "stops_digit r \<Longrightarrow> atol (show_int v @ r) = v"
  by (simp add: atol_def scan_ld_show)

end
