(* ===== verification/Kernel_Scan.thy ===== *)
theory Kernel_Scan
  imports Os_Monad Proc_Files
begin

section \<open>The kernel's \<open>sscanf\<close>\<close>

text \<open>
  The commands written to the \<open>/proc\<close> files of the modules are taken apart with \<open>sscanf\<close>. A
  format is a list of its parts; the conversions done are the result, and their number is what
  the C function returns. \<open>%d\<close> takes a minus sign and no plus sign, \<open>%lx\<close> an optional \<open>0x\<close>,
  and both wrap. The last part of the theory shows that a number printed with \<open>%d\<close> or
  \<open>%lx\<close> is read back.
\<close>

datatype conv = Word_Is string | Blank | Conv_d | Conv_lx | Conv_s nat

definition is_hex :: "char \<Rightarrow> bool" where
  "is_hex c \<longleftrightarrow> is_digit c \<or> (97 \<le> (of_char c :: nat) \<and> (of_char c :: nat) \<le> 102)
     \<or> (65 \<le> (of_char c :: nat) \<and> (of_char c :: nat) \<le> 70)"

definition hex_digit :: "char \<Rightarrow> nat" where
  "hex_digit c = (if is_digit c then of_char c - 48
     else if 97 \<le> (of_char c :: nat) then of_char c - 87 else of_char c - 55)"

definition hex_val :: "string \<Rightarrow> nat" where
  "hex_val ds = fold (\<lambda>c v. 16 * v + hex_digit c) ds 0"

definition after_0x :: "string \<Rightarrow> string" where
  "after_0x s = (if prefixed ''0x'' s \<or> prefixed ''0X'' s then drop 2 s else s)"

definition kscan_lx :: "string \<Rightarrow> (u64 \<times> string) option" where
  "kscan_lx s = (case skip_ws s of
       [] \<Rightarrow> None
     | c # r \<Rightarrow> if \<not> is_hex c then None
         else (let t = after_0x (c # r); ds = takeWhile is_hex t
               in Some (of_nat (hex_val ds), drop (length ds) t)))"

definition kscan_int :: "string \<Rightarrow> (int \<times> string) option" where
  "kscan_int s = (case skip_ws s of
       [] \<Rightarrow> None
     | c # r \<Rightarrow> if c = CHR ''+'' then None
         else map_option (\<lambda>(v, t). (to_int v, t)) (scan_ld (c # r)))"

fun kvsscanf :: "conv list \<Rightarrow> string \<Rightarrow> val list" where
  "kvsscanf [] s = []"
| "kvsscanf (Word_Is w # f) s = (if prefixed w s then kvsscanf f (drop (length w) s) else [])"
| "kvsscanf (Blank # f) s = kvsscanf f (skip_ws s)"
| "kvsscanf (Conv_d # f) s = (case kscan_int s of None \<Rightarrow> [] | Some (v, r) \<Rightarrow> I v # kvsscanf f r)"
| "kvsscanf (Conv_lx # f) s = (case kscan_lx s of None \<Rightarrow> [] | Some (v, r) \<Rightarrow> U v # kvsscanf f r)"
| "kvsscanf (Conv_s n # f) s = (case scan_word n s of None \<Rightarrow> [] | Some (w, r) \<Rightarrow> S w # kvsscanf f r)"

subsection \<open>\<open>%lx\<close> printed and read back\<close>

definition hex_char :: "nat \<Rightarrow> char" where
  "hex_char d = char_of (if d < 10 then 48 + d else 87 + d)"

fun show_hex :: "nat \<Rightarrow> string" where
  "show_hex n = (if n < 16 then [hex_char n] else show_hex (n div 16) @ [hex_char (n mod 16)])"

declare show_hex.simps [simp del]

lemma hex_char:
  assumes "d < 16"
  shows "is_hex (hex_char d) \<and> hex_digit (hex_char d) = d \<and> \<not> is_space (hex_char d) \<and>
    hex_char d \<noteq> CHR ''x'' \<and> hex_char d \<noteq> CHR ''X''"
proof -
  have n: "(of_char (hex_char d) :: nat) = (if d < 10 then 48 + d else 87 + d)"
    using assms by (simp add: hex_char_def of_char_of)
  then have "of_char (hex_char d) \<noteq> (of_char CHR ''x'' :: nat)" "of_char (hex_char d) \<noteq> (of_char CHR ''X'' :: nat)"
    using assms by auto
  then have "hex_char d \<noteq> CHR ''x''" "hex_char d \<noteq> CHR ''X''" by metis+
  then show ?thesis
    using assms n by (auto simp: is_hex_def is_digit_def hex_digit_def is_space_def)
qed

lemma show_hex_chars:
  "\<forall>c\<in>set (show_hex n). is_hex c \<and> \<not> is_space c \<and> c \<noteq> CHR ''x'' \<and> c \<noteq> CHR ''X''"
proof (induction n rule: show_hex.induct)
  case (1 n)
  then show ?case
    using hex_char [of n] hex_char [of "n mod 16"] by (subst show_hex.simps) auto
qed

lemma hex_val_snoc: "hex_val (ds @ [c]) = 16 * hex_val ds + hex_digit c"
  by (simp add: hex_val_def)

lemma hex_val_show: "hex_val (show_hex n) = n"
proof (induction n rule: show_hex.induct)
  case (1 n)
  show ?case
    using 1 hex_char [of n] hex_char [of "n mod 16"]
    by (subst show_hex.simps) (simp add: hex_val_snoc hex_val_snoc [of "[]", simplified] hex_val_def)
qed

lemma show_hex_nonempty: "show_hex n \<noteq> []"
  by (subst show_hex.simps) simp

definition stops_hex :: "string \<Rightarrow> bool" where
  "stops_hex r \<longleftrightarrow> (case r of [] \<Rightarrow> True | c # _ \<Rightarrow> \<not> is_hex c \<and> c \<noteq> CHR ''x'' \<and> c \<noteq> CHR ''X'')"

lemma after_0x_show:
  assumes "stops_hex r"
  shows "after_0x (show_hex n @ r) = show_hex n @ r"
proof -
  obtain c ds where s: "show_hex n = c # ds" using show_hex_nonempty by (meson neq_Nil_conv)
  then have "\<forall>d\<in>set ds. d \<noteq> CHR ''x'' \<and> d \<noteq> CHR ''X''" using show_hex_chars [of n] by simp
  with assms s show ?thesis
    by (cases ds; cases r) (auto simp: after_0x_def prefixed_def stops_hex_def)
qed

lemma kscan_lx_show:
  assumes "stops_hex r"
  shows "kscan_lx (show_hex n @ r) = Some (of_nat n, r)"
proof -
  obtain c ds where s: "show_hex n = c # ds" using show_hex_nonempty by (meson neq_Nil_conv)
  with show_hex_chars [of n] have c: "is_hex c" "\<not> is_space c" by auto
  have "takeWhile is_hex (show_hex n @ r) = show_hex n"
    using show_hex_chars [of n] assms by (cases r) (auto simp: stops_hex_def takeWhile_append)
  with s c after_0x_show [OF assms, of n] hex_val_show [of n] show ?thesis
    by (simp add: kscan_lx_def skip_ws_start)
qed

lemma kscan_int_show:
  assumes "stops_digit r" "fits_int v"
  shows "kscan_int (show_int v @ r) = Some (v, r)"
proof -
  obtain c ds where s: "show_nat (nat \<bar>v\<bar>) = c # ds"
    using show_nat_nonempty by (meson neq_Nil_conv)
  have d: "is_digit c" using show_nat_digits [of "nat \<bar>v\<bar>"] s by simp
  obtain b t where bt: "show_int v @ r = b # t" "b \<noteq> CHR ''+''" "\<not> is_space b"
    using s digit_not_space [OF d] by (cases "v < 0") (auto simp: show_int_def is_space_def)
  then show ?thesis
    using scan_ld_show [OF assms(1), of v] to_int_fits [OF assms(2)] by (simp add: kscan_int_def skip_ws_start)
qed

lemma kscan_blank:
  "is_space c \<Longrightarrow> kscan_lx (c # s) = kscan_lx s" "is_space c \<Longrightarrow> kscan_int (c # s) = kscan_int s"
  by (simp_all add: kscan_lx_def kscan_int_def skip_ws_def)

lemma skip_ws_show [simp]:
  "skip_ws (show_hex n @ r) = show_hex n @ r" "skip_ws (show_int v @ r) = show_int v @ r"
  "skip_ws (show_hex n) = show_hex n" "skip_ws (show_int v) = show_int v"
proof -
  obtain c ds where "show_hex n = c # ds" using show_hex_nonempty by (meson neq_Nil_conv)
  with show_hex_chars [of n] show h: "skip_ws (show_hex n @ r) = show_hex n @ r" for r
    by (simp add: skip_ws_start)
  obtain b es where n: "show_nat (nat \<bar>v\<bar>) = b # es" using show_nat_nonempty by (meson neq_Nil_conv)
  then have "is_digit b" using show_nat_digits [of "nat \<bar>v\<bar>"] by simp
  with n show i: "skip_ws (show_int v @ r) = show_int v @ r" for r
    by (cases "v < 0") (auto simp: show_int_def skip_ws_start dest: digit_not_space simp: is_space_def)
  show "skip_ws (show_hex n) = show_hex n" using h [of "[]"] by simp
  show "skip_ws (show_int v) = show_int v" using i [of "[]"] by simp
qed

lemma skip_ws_blank [simp]: "skip_ws (CHR '' '' # s) = skip_ws s" "skip_ws [] = []"
  by (simp_all add: skip_ws_def is_space_def)

lemma stops [simp]:
  "stops_hex []" "stops_hex (CHR '' '' # s)" "stops_digit []" "stops_digit (CHR '' '' # s)"
  by (simp_all add: stops_hex_def stops_digit_def is_hex_def is_digit_def)

lemmas scan_back = kscan_lx_show kscan_lx_show [where r = "[]", simplified]
  kscan_int_show kscan_int_show [where r = "[]", simplified]

end
