(* ===== verification/Page_Tools.thy ===== *)
theory Page_Tools
  imports Proc_Files
begin

section \<open>pagemap_walk.c, ksm_test.c, migrate_compact.c, swap_shmem.c, lru_shmem.c\<close>

text \<open>
  Programs that watch physical pages from user space: they read page frame numbers through
  \<open>/proc/self/pagemap\<close>, make the kernel merge, migrate or swap pages, and compare.
\<close>

definition PGSZ :: u64 where "PGSZ = 4096"
definition PROT_RW :: int where "PROT_RW = 3"
definition MAP_ANON_PRIVATE :: int where "MAP_ANON_PRIVATE = 0x22"
definition MAP_ANON_SHARED :: int where "MAP_ANON_SHARED = 0x21"
definition MADV_MERGEABLE :: int where "MADV_MERGEABLE = 12"
definition MADV_PAGEOUT :: int where "MADV_PAGEOUT = 21"
definition MMAP_FAILED :: u64 where "MMAP_FAILED = - 1"

definition memset :: "'w os \<Rightarrow> u64 \<Rightarrow> u8 \<Rightarrow> nat \<Rightarrow> ('w, unit) prog" where
  "memset os a v n = eachM (\<lambda>i. effect (os_store os (a + of_nat i) v)) [0..<n]"

subsection \<open>pagemap_walk.c\<close>

text \<open>
  \<open>va2pfn\<close>: the entry at \<open>va / 4096 * 8\<close>; bit 63 present, bit 62 swapped, bits 54..0 the
  frame. \<open>None\<close> is the return value -1.
\<close>

definition pm_present :: "u64 \<Rightarrow> bool" where "pm_present e \<longleftrightarrow> drop_bit 63 e \<noteq> 0"
definition pm_swapped :: "u64 \<Rightarrow> bool" where "pm_swapped e \<longleftrightarrow> drop_bit 62 e AND 1 \<noteq> 0"
definition pm_pfn :: "u64 \<Rightarrow> u64" where "pm_pfn e = e AND (push_bit 55 1 - 1)"

definition walk_va2pfn :: "'w os \<Rightarrow> u64 \<Rightarrow> ('w, (u64 \<times> bool \<times> bool) option) prog" where
  "walk_va2pfn os va = do {
     r \<leftarrow> call (os_pagemap os (va div PGSZ * 8));
     ret (case r of None \<Rightarrow> None | Some e \<Rightarrow> Some (pm_pfn e, pm_present e, pm_swapped e))
   }"

definition walk_show :: "'w os \<Rightarrow> string \<Rightarrow> u64 \<Rightarrow> ('w, unit) prog" where
  "walk_show os tag va = do {
     r \<leftarrow> walk_va2pfn os va;
     case r of
       None \<Rightarrow> print ''%-28s read fail'' [S tag]
     | Some (pfn, present, _) \<Rightarrow> do {
         print ''%-28s VA=0x%016lx  present=%d  PFN=0x%-9lx  PA=0x%011lx''
           [S tag, U va, I (of_bool present), U pfn, U (push_bit 12 pfn OR (va AND (PGSZ - 1)))];
         print ''%-28s  VA[63]=%lu(%s)  L0=%3lu L1=%3lu L2=%3lu L3=%3lu off=0x%03lx''
           [S '''', U (drop_bit 63 va AND 1),
            S (if drop_bit 63 va AND 1 \<noteq> 0 then ''TTBR1'' else ''TTBR0''),
            U (drop_bit 39 va AND 0x1ff), U (drop_bit 30 va AND 0x1ff),
            U (drop_bit 21 va AND 0x1ff), U (drop_bit 12 va AND 0x1ff), U (va AND 0xfff)]
       }
   }"

text \<open>The addresses of \<open>main\<close>, its variables and its heap block, which the linker and libc choose.\<close>

record walk_addrs =
  a_main :: u64
  a_data :: u64
  a_bss :: u64
  a_heap :: u64
  a_stack :: u64

definition pagemap_walk_main :: "'w os \<Rightarrow> walk_addrs \<Rightarrow> ('w, int) prog" where
  "pagemap_walk_main os ad = do {
     anon \<leftarrow> call (os_mmap os 0 (2 * 1024 * 1024) PROT_RW MAP_ANON_PRIVATE);
     ok \<leftarrow> call (os_open_pagemap os);
     if \<not> ok then do { print ''open pagemap'' []; ret 1 }
     else do {
       effect (os_store os (a_heap ad) 1);
       effect (os_store os anon 1);
       effect (os_store os (anon + 1024 * 1024) 1);
       effect (os_store os (a_bss ad) 1);
       print ''=== VA -> PFN -> PA ==='' [];
       print ''PAGE_SIZE = %lu, 48-bit VA'' [U PGSZ];
       walk_show os ''.text (main)'' (a_main ad);
       walk_show os ''.data (data_var)'' (a_data ad);
       walk_show os ''.bss  (bss_var)'' (a_bss ad);
       walk_show os ''heap  (malloc)'' (a_heap ad);
       walk_show os ''stack (stack_var)'' (a_stack ad);
       walk_show os ''mmap anon +0'' anon;
       walk_show os ''mmap anon +1MB'' (anon + 1024 * 1024);
       print ''=== MAP_SHARED ==='' [];
       a \<leftarrow> call (os_mmap os 0 4096 PROT_RW MAP_ANON_SHARED);
       effect (os_store os a 42);
       walk_show os ''shared map A'' a;
       print ''=== present=0, demand paging ==='' [];
       lazy \<leftarrow> call (os_mmap os 0 4096 PROT_RW MAP_ANON_PRIVATE);
       walk_show os ''mmap (untouched)'' lazy;
       effect (os_store os lazy 1);
       walk_show os ''mmap (touched)'' lazy;
       print ''hint:'' [];
       print ''  sudo insmod armv8_dump.ko walk_va=0x%lx'' [U (a_main ad)];
       ret 0
     }
   }"

subsection \<open>ksm_test.c\<close>

definition NCOPY :: nat where "NCOPY = 64"
definition NDIFF :: nat where "NDIFF = 16"

text \<open>\<open>va2pfn\<close> of \<open>ksm_test.c\<close> and \<open>migrate_compact.c\<close>: 0 when unreadable or not present.\<close>

definition va2pfn :: "'w os \<Rightarrow> u64 \<Rightarrow> ('w, u64) prog" where
  "va2pfn os va = do {
     r \<leftarrow> call (os_pagemap os (va div PGSZ * 8));
     ret (case r of None \<Rightarrow> 0 | Some e \<Rightarrow> if drop_bit 63 e \<noteq> 0 then e AND (push_bit 55 1 - 1) else 0)
   }"

definition ksm_path :: "string \<Rightarrow> string" where
  "ksm_path f = take 127 (''/sys/kernel/mm/ksm/'' @ f)"

definition ksm_get :: "'w os \<Rightarrow> string \<Rightarrow> ('w, int) prog" where
  "ksm_get os f = do {
     r \<leftarrow> call (os_read_file os (ksm_path f));
     ret (case r of None \<Rightarrow> - 1
          | Some s \<Rightarrow> (case scan_ld s of None \<Rightarrow> - 1 | Some (v, _) \<Rightarrow> v))
   }"

definition ksm_set :: "'w os \<Rightarrow> string \<Rightarrow> string \<Rightarrow> ('w, int) prog" where
  "ksm_set os f v = do {
     ok \<leftarrow> call (os_open_w os (ksm_path f));
     if \<not> ok then ret (- 1)
     else do {
       r \<leftarrow> call (os_write os (ksm_path f) v);
       ret (if 0 < r then 0 else - 1)
     }
   }"

definition ksm_stat :: "'w os \<Rightarrow> string \<Rightarrow> ('w, unit) prog" where
  "ksm_stat os tag = do {
     vs \<leftarrow> mapM (ksm_get os)
       [''pages_shared'', ''pages_sharing'', ''pages_unshared'', ''pages_volatile'', ''full_scans''];
     print ''%-26s shared=%-6ld sharing=%-6ld unshared=%-6ld volatile=%-6ld full_scans=%ld''
       (S tag # map I vs)
   }"

definition page :: "u64 \<Rightarrow> nat \<Rightarrow> u64" where
  "page base i = base + of_nat i * PGSZ"

text \<open>\<open>%.1f\<close> of a number of tenths.\<close>

definition tenths :: "nat \<Rightarrow> string" where
  "tenths n = show_nat (n div 10) @ ''.'' @ show_nat (n mod 10)"

text \<open>The scan loop: at most \<open>n\<close> more rounds of half a second, until enough pages share.\<close>

fun ksm_wait :: "'w os \<Rightarrow> nat \<Rightarrow> nat \<Rightarrow> ('w, unit) prog" where
  "ksm_wait os i 0 = ret ()"
| "ksm_wait os i (Suc n) = do {
     effect (os_sleep_us os 500000);
     ksm_stat os (take 63 (''  '' @ tenths (5 * (i + 1))));
     v \<leftarrow> ksm_get os ''pages_sharing'';
     if int NCOPY - 1 \<le> v then ret () else ksm_wait os (Suc i) n
   }"

text \<open>\<open>merged\<close>: every page up to the first that differs is read.\<close>

fun all_merged :: "'w os \<Rightarrow> u64 \<Rightarrow> u64 \<Rightarrow> nat list \<Rightarrow> ('w, bool) prog" where
  "all_merged os same p0 [] = ret True"
| "all_merged os same p0 (i # is) = do {
     p \<leftarrow> va2pfn os (page same i);
     if p \<noteq> p0 then ret False else all_merged os same p0 is
   }"

definition print_same :: "'w os \<Rightarrow> u64 \<Rightarrow> nat \<Rightarrow> ('w, unit) prog" where
  "print_same os same i = do {
     p \<leftarrow> va2pfn os (page same i);
     print ''  same[%d] VA=%p PFN=0x%lx'' [I (int i), U (page same i), U p]
   }"

text \<open>After the scan: compare, break one page out by writing to it, restore the settings.\<close>

definition ksm_compare :: "'w os \<Rightarrow> u64 \<Rightarrow> u64 \<Rightarrow> ('w, unit) prog" where
  "ksm_compare os same diff = do {
     print ''--- merged: PFN ---'' [];
     eachM (print_same os same) [0..<4];
     p0 \<leftarrow> va2pfn os same;
     merged \<leftarrow> all_merged os same p0 [1..<NCOPY];
     print ''  -> %d %s (PFN=0x%lx) %s''
       [I (int NCOPY), S (if merged then ''all'' else ''not all''), U p0,
        S (if merged then ''merged'' else ''not yet'')];
     print ''--- %d different pages ---'' [I (int NDIFF)];
     eachM (\<lambda>i. do { p \<leftarrow> va2pfn os (page diff i); print ''  diff[%d] PFN=0x%lx'' [I (int i), U p] })
       [0..<3];
     print ''  -> pages_unshared'' [];
     print ''--- write to same[1] ---'' [];
     b \<leftarrow> va2pfn os (page same 1);
     print ''  before same[1] PFN = 0x%lx'' [U b];
     effect (os_store os (same + PGSZ) 0x77);
     a \<leftarrow> va2pfn os (page same 1);
     print ''  after  same[1] PFN = 0x%lx'' [U a];
     z \<leftarrow> va2pfn os same;
     print ''  same[0]        PFN = 0x%lx'' [U z];
     print ''  -> PFN'' [];
     ksm_stat os ''  after''
   }"

definition ksm_restore :: "'w os \<Rightarrow> int \<Rightarrow> int \<Rightarrow> ('w, unit) prog" where
  "ksm_restore os saved_pages saved_run = do {
     ksm_set os ''pages_to_scan'' (take 31 (show_int saved_pages));
     ksm_set os ''run'' (take 31 (show_int saved_run));
     ksm_set os ''sleep_millisecs'' ''20'';
     ret ()
   }"

definition ksm_enable :: "'w os \<Rightarrow> ('w, bool) prog" where
  "ksm_enable os = do {
     a \<leftarrow> ksm_set os ''pages_to_scan'' ''2000'';
     if a \<noteq> 0 then ret False
     else do {
       b \<leftarrow> ksm_set os ''sleep_millisecs'' ''20'';
       if b \<noteq> 0 then ret False
       else do { c \<leftarrow> ksm_set os ''run'' ''1''; ret (c = 0) }
     }
   }"

definition ksm_mergeable :: "'w os \<Rightarrow> u64 \<Rightarrow> u64 \<Rightarrow> ('w, bool) prog" where
  "ksm_mergeable os same diff = do {
     a \<leftarrow> call (os_madvise os same (of_nat NCOPY * PGSZ) MADV_MERGEABLE);
     if a \<noteq> 0 then ret False
     else do {
       b \<leftarrow> call (os_madvise os diff (of_nat NDIFF * PGSZ) MADV_MERGEABLE);
       ret (b = 0)
     }
   }"

definition ksm_tail :: "'w os \<Rightarrow> u64 \<Rightarrow> u64 \<Rightarrow> int \<Rightarrow> int \<Rightarrow> ('w, int) prog" where
  "ksm_tail os same diff saved_run saved_pages = do {
     print ''run=1, pages_to_scan=2000, sleep_millisecs=20'' [];
     ksm_wait os 0 12;
     ksm_compare os same diff;
     print ''--- restore ---'' [];
     effect (os_munmap os same (of_nat NCOPY * PGSZ));
     effect (os_munmap os diff (of_nat NDIFF * PGSZ));
     ksm_restore os saved_pages saved_run;
     r \<leftarrow> ksm_get os ''run'';
     p \<leftarrow> ksm_get os ''pages_to_scan'';
     print ''run %d pages_to_scan %d'' [I (to_int r), I (to_int p)];
     print ''(run=2 unmerge; %d)'' [I saved_run];
     ret 0
   }"

definition ksm_main :: "'w os \<Rightarrow> ('w, int) prog" where
  "ksm_main os = do {
     ok \<leftarrow> call (os_open_pagemap os);
     if \<not> ok then do { print ''pagemap'' []; ret 1 }
     else do {
       r \<leftarrow> ksm_get os ''run'';
       if r < 0 then do { print ''no KSM'' []; ret 1 }
       else do {
         sr \<leftarrow> ksm_get os ''run'';
         sps \<leftarrow> ksm_get os ''pages_to_scan'';
         print ''===========  KSM'' [];
         print ''run=%d  pages_to_scan=%d'' [I (to_int sr), I (to_int sps)];
         same \<leftarrow> call (os_mmap os 0 (of_nat NCOPY * PGSZ) PROT_RW MAP_ANON_PRIVATE);
         diff \<leftarrow> call (os_mmap os 0 (of_nat NDIFF * PGSZ) PROT_RW MAP_ANON_PRIVATE);
         eachM (\<lambda>i. memset os (page same i) 0x5a 4096) [0..<NCOPY];
         eachM (\<lambda>i. memset os (page diff i) (of_nat (i + 1)) 4096) [0..<NDIFF];
         print ''--- before: %d'' [I (int NCOPY)];
         eachM (print_same os same) [0..<4];
         pfn0 \<leftarrow> va2pfn os same;
         pfn1 \<leftarrow> va2pfn os (same + PGSZ);
         print ''  -> same[0]=0x%lx, same[1]=0x%lx  %s''
           [U pfn0, U pfn1, S (if pfn0 \<noteq> pfn1 then ''different'' else ''same?!'')];
         adv \<leftarrow> ksm_mergeable os same diff;
         if \<not> adv then do { print ''madvise(MADV_MERGEABLE)'' []; ret 1 }
         else do {
           print ''madvise(MADV_MERGEABLE)'' [];
           ksm_stat os ''before KSM'';
           en \<leftarrow> ksm_enable os;
           if \<not> en then do { print ''write /sys/kernel/mm/ksm/*'' []; ret 1 }
           else ksm_tail os same diff (to_int sr) (to_int sps)
         }
       }
     }
   }"

subsection \<open>migrate_compact.c\<close>

definition NPAGES :: nat where "NPAGES = 8192"

definition show_vmstat :: "'w os \<Rightarrow> string \<Rightarrow> ('w, unit) prog" where
  "show_vmstat os tag = do {
     vs \<leftarrow> mapM (vmstat os) [''compact_stall'', ''compact_success'', ''compact_fail'',
       ''compact_migrate_scanned'', ''compact_free_scanned'', ''compact_isolated''];
     print ''%-18s compact_stall success fail migrate_scanned free_scanned isolated'' (S tag # map I vs);
     ms \<leftarrow> mapM (vmstat os) [''pgmigrate_success'', ''pgmigrate_fail''];
     print ''%-18s pgmigrate_success=%-9ld pgmigrate_fail=%ld'' (S [] # map I ms)
   }"

definition show_buddy :: "'w os \<Rightarrow> string \<Rightarrow> ('w, unit) prog" where
  "show_buddy os tag = do {
     f \<leftarrow> call (os_read_file os ''/proc/buddyinfo'');
     print ''--- /proc/buddyinfo (%s) ---'' [S tag];
     case f of None \<Rightarrow> ret () | Some s \<Rightarrow> eachM (\<lambda>l. print l []) (fgets_all 256 s)
   }"

text \<open>How many pages changed their frame, against an array of frames read before.\<close>

definition moved_count :: "u64 list \<Rightarrow> u64 list \<Rightarrow> nat" where
  "moved_count before after = length (filter (\<lambda>(b, a). b \<noteq> a) (zip before after))"

definition migrate_round :: "'w os \<Rightarrow> u64 \<Rightarrow> u64 list \<Rightarrow> nat \<Rightarrow> ('w, bool) prog" where
  "migrate_round os p before r = do {
     ok \<leftarrow> call (os_open_w os ''/proc/sys/vm/compact_memory'');
     if \<not> ok then do { print ''compact_memory'' []; ret False }
     else do {
       wr \<leftarrow> call (os_write os ''/proc/sys/vm/compact_memory'' [CHR ''1'', nl]);
       whenM (wr < 0) (print ''write'' []);
       effect (os_sleep_us os 2000000);
       now \<leftarrow> mapM (\<lambda>i. va2pfn os (page p i)) [0..<NPAGES];
       s \<leftarrow> vmstat os ''pgmigrate_success'';
       print ''    %d: %d / %d pgmigrate_success=%ld''
         [I (int r + 1), I (int (moved_count before now)), I (int NPAGES), I s];
       ret True
     }
   }"

fun migrate_rounds :: "'w os \<Rightarrow> u64 \<Rightarrow> u64 list \<Rightarrow> nat list \<Rightarrow> ('w, bool) prog" where
  "migrate_rounds os p before [] = ret True"
| "migrate_rounds os p before (r # rs) = do {
     ok \<leftarrow> migrate_round os p before r;
     if ok then migrate_rounds os p before rs else ret False
   }"

text \<open>The first eight moved pages, with the distance as a signed difference.\<close>

definition moved_lines :: "u64 \<Rightarrow> u64 list \<Rightarrow> u64 list \<Rightarrow> line list" where
  "moved_lines p before after =
     take 8 (map (\<lambda>(i, b, a). (''  VA=%p   PFN 0x%-8lx -> 0x%-8lx (%+ld)'',
                    [U (page p i), U b, U a, I (sint (a - b))]))
       (filter (\<lambda>(i, b, a). b \<noteq> a) (zip [0..<length before] (zip before after))))"

text \<open>\<open>(char)i\<close> is stored in page \<open>i\<close>, and compared at the end.\<close>

definition touch_pages :: "'w os \<Rightarrow> u64 \<Rightarrow> ('w, unit) prog" where
  "touch_pages os p = eachM (\<lambda>i. effect (os_store os (page p i) (of_nat i))) [0..<NPAGES]"

definition count_bad :: "'w os \<Rightarrow> u64 \<Rightarrow> ('w, nat) prog" where
  "count_bad os p = do {
     cs \<leftarrow> mapM (\<lambda>i. call (os_load os (page p i))) [0..<NPAGES];
     ret (length (filter (\<lambda>(i, c). c \<noteq> of_nat i) (zip [0..<NPAGES] cs)))
   }"

definition migrate_tail :: "'w os \<Rightarrow> u64 \<Rightarrow> u64 list \<Rightarrow> ('w, int) prog" where
  "migrate_tail os p before = do {
     show_vmstat os ''after'';
     show_buddy os ''after'';
     after \<leftarrow> mapM (\<lambda>i. va2pfn os (page p i)) [0..<NPAGES];
     print ''===========  ==========='' [];
     print ''%d / %d (%.1f%%)'' [I (int (moved_count before after)), I (int NPAGES)];
     (if moved_count before after \<noteq> 0
      then do { print ''first 8:'' [];
                eachM (\<lambda>(l, vs). print l vs) (moved_lines p before after);
                print ''migrated'' [] }
      else print ''none moved'' []);
     bad \<leftarrow> count_bad os p;
     print ''%d / %d  %s'' [I (int bad), I (int NPAGES), S (if bad \<noteq> 0 then ''bad'' else ''intact'')];
     effect (os_munmap os p (of_nat NPAGES * PGSZ));
     print ''compact_memory is write-only'' [];
     ret 0
   }"

definition migrate_main :: "'w os \<Rightarrow> ('w, int) prog" where
  "migrate_main os = do {
     ok \<leftarrow> call (os_open_pagemap os);
     if \<not> ok then do { print ''pagemap'' []; ret 1 }
     else do {
       print ''=========== Ch5 Q23-Q30'' [];
       p \<leftarrow> call (os_mmap os 0 (of_nat NPAGES * PGSZ) PROT_RW MAP_ANON_PRIVATE);
       if p = MMAP_FAILED then do { print ''mmap'' []; ret 1 }
       else do {
         touch_pages os p;
         before \<leftarrow> mapM (\<lambda>i. va2pfn os (page p i)) [0..<NPAGES];
         print ''%d (%d MB)'' [I (int NPAGES), I (int NPAGES * 4096 div 1024 div 1024)];
         print ''first 5 PFN:'' [];
         eachM (\<lambda>b. print ''0x%lx '' [U b]) (take 5 before);
         show_buddy os ''before'';
         show_vmstat os ''before'';
         print ''>>> for r in 1..4: echo 1 > /proc/sys/vm/compact_memory'' [];
         ok \<leftarrow> migrate_rounds os p before [0, 1, 2, 3];
         if \<not> ok then ret 1 else migrate_tail os p before
       }
     }
   }"

subsection \<open>swap_shmem.c and lru_shmem.c\<close>

definition swap_snap :: "'w os \<Rightarrow> string \<Rightarrow> ('w, unit) prog" where
  "swap_snap os tag = do {
     a \<leftarrow> get_kv os ''/proc/self/status'' ''VmSwap:'';
     b \<leftarrow> get_kv os ''/proc/self/status'' ''VmRSS:'';
     c \<leftarrow> get_kv os ''/proc/meminfo'' ''SwapFree:'';
     d \<leftarrow> get_kv os ''/proc/meminfo'' ''Shmem:'';
     e \<leftarrow> get_kv os ''/proc/meminfo'' ''AnonPages:'';
     print ''%-28s VmSwap=%7ld kB  VmRSS=%8ld kB | SwapFree=%9ld kB  Shmem=%8ld kB  AnonPages=%8ld kB''
       [S tag, I a, I b, I c, I d, I e]
   }"

text \<open>\<open>for (i = 0; i < SZ; i += 4096) p[i] = v(i)\<close> for the \<open>n\<close> pages of a mapping.\<close>

definition touch_step :: "'w os \<Rightarrow> u64 \<Rightarrow> nat \<Rightarrow> (nat \<Rightarrow> u8) \<Rightarrow> ('w, unit) prog" where
  "touch_step os p n v = eachM (\<lambda>i. effect (os_store os (p + of_nat (4096 * i)) (v (4096 * i)))) [0..<n]"

definition swap_main :: "'w os \<Rightarrow> string list \<Rightarrow> ('w, int) prog" where
  "swap_main os argv = do {
     let shared = (1 < length argv \<and> argv ! 1 = ''shmem'');
     print ''=== mapping %zu MB  %s ==='' [I 256,
       S (if shared then ''MAP_SHARED|MAP_ANONYMOUS (shmem)'' else ''MAP_PRIVATE|MAP_ANONYMOUS (anon)'')];
     swap_snap os ''before mmap'';
     p \<leftarrow> call (os_mmap os 0 (256 * 1024 * 1024) PROT_RW
            (if shared then MAP_ANON_SHARED else MAP_ANON_PRIVATE));
     if p = MMAP_FAILED then do { print ''mmap'' []; ret 1 }
     else do {
       touch_step os p 65536 of_nat;
       swap_snap os ''after touch'';
       r \<leftarrow> call (os_madvise os p (256 * 1024 * 1024) MADV_PAGEOUT);
       if r \<noteq> 0 then do { print ''MADV_PAGEOUT'' []; ret 1 }
       else do {
         effect (os_sleep_us os 2000000);
         swap_snap os ''after MADV_PAGEOUT'';
         swapped \<leftarrow> get_kv os ''/proc/self/status'' ''VmSwap:'';
         print ''>>> this process VmSwap = %ld kB  (contributes to P_swap)'' [I swapped];
         effect (os_munmap os p (256 * 1024 * 1024));
         ret 0
       }
     }
   }"

definition lru_snap :: "'w os \<Rightarrow> string \<Rightarrow> ('w, unit) prog" where
  "lru_snap os t = do {
     aa \<leftarrow> meminfo os ''Active(anon):''; ia \<leftarrow> meminfo os ''Inactive(anon):'';
     af \<leftarrow> meminfo os ''Active(file):''; iff \<leftarrow> meminfo os ''Inactive(file):'';
     vs \<leftarrow> mapM (meminfo os) [''AnonPages:'', ''Shmem:'', ''Cached:'', ''Buffers:'', ''Mapped:''];
     print ''%-16s anonLRU=%8ld  fileLRU=%8ld | AnonPages Shmem Cached Buffers Mapped''
       (S t # I (aa + ia) # I (af + iff) # map I vs)
   }"

definition lru_identities :: "'w os \<Rightarrow> ('w, unit) prog" where
  "lru_identities os = do {
     a1 \<leftarrow> meminfo os ''Active(anon):''; a2 \<leftarrow> meminfo os ''Inactive(anon):'';
     f1 \<leftarrow> meminfo os ''Active(file):''; f2 \<leftarrow> meminfo os ''Inactive(file):'';
     c \<leftarrow> mapM (meminfo os) [''Cached:'', ''Shmem:'', ''Buffers:'', ''Cached:'', ''Shmem:'', ''Buffers:''];
     print ''[Q7] fileLRU(%ld) == Cached(%ld) - Shmem(%ld) + Buffers(%ld) = %ld''
       [I (f1 + f2), I (c ! 0), I (c ! 1), I (c ! 2), I (c ! 3 - c ! 4 + c ! 5)];
     d \<leftarrow> mapM (meminfo os) [''AnonPages:'', ''Shmem:'', ''SwapCached:'', ''Unevictable:'',
            ''AnonPages:'', ''Shmem:'', ''SwapCached:'', ''Unevictable:''];
     print ''[Q5] anonLRU(%ld) == AnonPages(%ld) + Shmem(%ld) + SwapCached(%ld) - Unevictable(%ld) = %ld''
       [I (a1 + a2), I (d ! 0), I (d ! 1), I (d ! 2), I (d ! 3), I (d ! 4 + d ! 5 + d ! 6 - d ! 7)];
     m \<leftarrow> meminfo os ''Mapped:'';
     print ''[Q6] Mapped(%ld) is only the mapped subset of page cache; fileLRU=%ld'' [I m, I (f1 + f2)]
   }"

definition lru_main :: "'w os \<Rightarrow> ('w, int) prog" where
  "lru_main os = do {
     lru_snap os ''baseline'';
     p \<leftarrow> call (os_mmap os 0 (512 * 1024 * 1024) PROT_RW MAP_ANON_SHARED);
     touch_step os p 131072 (\<lambda>_. 1);
     lru_snap os ''+512MB shmem'';
     effect (os_munmap os p (512 * 1024 * 1024));
     effect (os_sleep_us os 1000000);
     q \<leftarrow> call (os_mmap os 0 (512 * 1024 * 1024) PROT_RW MAP_ANON_PRIVATE);
     touch_step os q 131072 (\<lambda>_. 1);
     lru_snap os ''+512MB anon'';
     effect (os_munmap os q (512 * 1024 * 1024));
     effect (os_sleep_us os 1000000);
     lru_snap os ''after munmap'';
     lru_identities os;
     ret 0
   }"

section \<open>KSM: what the kernel documents, and what the program leaves behind\<close>

text \<open>
  The three tunables under \<open>/sys/kernel/mm/ksm\<close> as the kernel documents them: each holds a
  number, reading gives it in decimal with a newline, writing a decimal number stores it, and
  nothing else the program does changes them. \<open>tun w f\<close> is the value of tunable \<open>f\<close>.
\<close>

definition tunables :: "string list" where
  "tunables = [''run'', ''pages_to_scan'', ''sleep_millisecs'']"

definition ksm_documented :: "'w os \<Rightarrow> ('w \<Rightarrow> string \<Rightarrow> int) \<Rightarrow> bool" where
  "ksm_documented os tun \<longleftrightarrow>
     (\<forall>f\<in>set tunables. \<forall>w. os_read_file os (ksm_path f) w = (Some (show_int (tun w f) @ [nl]), w)) \<and>
     (\<forall>f\<in>set tunables. \<forall>w. os_open_w os (ksm_path f) w = (True, w)) \<and>
     (\<forall>f\<in>set tunables. \<forall>w v n r. scan_ld v = Some (n, r) \<longrightarrow>
        0 < fst (os_write os (ksm_path f) v w) \<and>
        tun (snd (os_write os (ksm_path f) v w)) = (tun w)(f := n)) \<and>
     (\<forall>p w. tun (snd (os_read_file os p w)) = tun w) \<and>
     (\<forall>o' w. tun (snd (os_pagemap os o' w)) = tun w) \<and>
     (\<forall>w. tun (snd (os_open_pagemap os w)) = tun w) \<and>
     (\<forall>a l p f w. tun (snd (os_mmap os a l p f w)) = tun w) \<and>
     (\<forall>a l w. tun (os_munmap os a l w) = tun w) \<and>
     (\<forall>a l d w. tun (snd (os_madvise os a l d w)) = tun w) \<and>
     (\<forall>a v w. tun (os_store os a v w) = tun w) \<and>
     (\<forall>t w. tun (os_sleep_us os t w) = tun w)"

lemma ksm_documentedD:
  assumes "ksm_documented os tun"
  shows "f \<in> set tunables \<Longrightarrow> os_read_file os (ksm_path f) w = (Some (show_int (tun w f) @ [nl]), w)"
    "f \<in> set tunables \<Longrightarrow> os_open_w os (ksm_path f) w = (True, w)"
    "f \<in> set tunables \<Longrightarrow> scan_ld v = Some (n, r) \<Longrightarrow> 0 < fst (os_write os (ksm_path f) v w)"
    "f \<in> set tunables \<Longrightarrow> scan_ld v = Some (n, r) \<Longrightarrow> tun (snd (os_write os (ksm_path f) v w)) = (tun w)(f := n)"
  using assms unfolding ksm_documented_def by (simp_all, (metis+)?)

lemma ksm_keeps:
  assumes "ksm_documented os tun"
  shows "keeps (\<lambda>w. tun w = t) (call (os_read_file os p))"
    "keeps (\<lambda>w. tun w = t) (call (os_pagemap os o'))"
    "keeps (\<lambda>w. tun w = t) (call (os_open_pagemap os))"
    "keeps (\<lambda>w. tun w = t) (call (os_mmap os a l pr fl))"
    "keeps (\<lambda>w. tun w = t) (effect (os_munmap os a l))"
    "keeps (\<lambda>w. tun w = t) (call (os_madvise os a l d))"
    "keeps (\<lambda>w. tun w = t) (effect (os_store os a v))"
    "keeps (\<lambda>w. tun w = t) (effect (os_sleep_us os n))"
  using assms unfolding ksm_documented_def by (auto intro!: keeps_call keeps_effect)

lemma keeps_ksm_get: "ksm_documented os tun \<Longrightarrow> keeps (\<lambda>w. tun w = t) (ksm_get os f)"
  unfolding ksm_get_def by (intro triples ksm_keeps)

lemma keeps_va2pfn: "ksm_documented os tun \<Longrightarrow> keeps (\<lambda>w. tun w = t) (va2pfn os va)"
  unfolding va2pfn_def by (intro triples ksm_keeps)

lemma keeps_ksm_stat: "ksm_documented os tun \<Longrightarrow> keeps (\<lambda>w. tun w = t) (ksm_stat os tag)"
  unfolding ksm_stat_def by (intro triples keeps_ksm_get)

lemma keeps_ksm_wait: "ksm_documented os tun \<Longrightarrow> keeps (\<lambda>w. tun w = t) (ksm_wait os i n)"
  by (induction os i n rule: ksm_wait.induct)
    (simp_all add: keeps_ret keeps_bind keeps_if keeps_ksm_stat keeps_ksm_get ksm_keeps)

lemma keeps_all_merged: "ksm_documented os tun \<Longrightarrow> keeps (\<lambda>w. tun w = t) (all_merged os s p0 is)"
  by (induction os s p0 "is" rule: all_merged.induct)
    (simp_all add: keeps_ret keeps_bind keeps_if keeps_va2pfn)

lemma keeps_print_same: "ksm_documented os tun \<Longrightarrow> keeps (\<lambda>w. tun w = t) (print_same os s i)"
  unfolding print_same_def by (intro triples keeps_va2pfn)

lemma keeps_ksm_compare: "ksm_documented os tun \<Longrightarrow> keeps (\<lambda>w. tun w = t) (ksm_compare os s d)"
  unfolding ksm_compare_def
  by (intro triples keeps_print_same keeps_va2pfn keeps_all_merged ksm_keeps keeps_ksm_stat)

lemma keeps_memset: "ksm_documented os tun \<Longrightarrow> keeps (\<lambda>w. tun w = t) (memset os a v n)"
  unfolding memset_def by (intro triples ksm_keeps)

lemma keeps_ksm_mergeable: "ksm_documented os tun \<Longrightarrow> keeps (\<lambda>w. tun w = t) (ksm_mergeable os s d)"
  unfolding ksm_mergeable_def by (intro triples ksm_keeps)

text \<open>Reading a tunable yields its value; setting one stores the number that was written.\<close>

lemma hoare_ksm_get:
  assumes "ksm_documented os tun" "f \<in> set tunables"
  shows "hoare (\<lambda>w. tun w = t) (ksm_get os f) (\<lambda>v w. v = t f \<and> tun w = t)"
proof -
  have "scan_ld (show_int v @ [nl]) = Some (v, [nl])" for v
    by (rule scan_ld_show) (simp add: stops_digit_def space_chars)
  then show ?thesis
    unfolding ksm_get_def hoare_def by (auto simp: ksm_documentedD(1) [OF assms])
qed

lemma hoare_ksm_set:
  assumes "ksm_documented os tun" "f \<in> set tunables" "scan_ld v = Some (n, r)"
  shows "hoare (\<lambda>w. tun w = t) (ksm_set os f v) (\<lambda>x w. x = 0 \<and> tun w = t(f := n))"
proof -
  note d = ksm_documentedD(2) [OF assms(1,2)] ksm_documentedD(3,4) [OF assms(1,2,3)]
  show ?thesis
    unfolding ksm_set_def
    by (rule hoare_bind [where R = "\<lambda>ok w. ok \<and> tun w = t"])
      (auto simp: d intro!: hoare_call hoare_bind [where R = "\<lambda>r w. 0 < r \<and> tun w = t(f := n)"]
        hoare_ret, (metis d(2,3) fst_conv snd_conv)+)
qed

lemma length_show_nat: "n < 10 ^ k \<Longrightarrow> 0 < k \<Longrightarrow> length (show_nat n) \<le> k"
proof (induction n arbitrary: k rule: show_nat.induct)
  case (1 n)
  show ?case
  proof (cases "n < 10")
    case True
    with 1 show ?thesis by (subst show_nat.simps) simp
  next
    case False
    then obtain j where j: "k = Suc j" "0 < j"
      using 1(2,3) by (cases k; cases "k - 1") auto
    then have "n div 10 < 10 ^ j" using 1(2) by (simp add: less_mult_imp_div_less)
    with 1(1) [of j] False j show ?thesis by (subst show_nat.simps) simp
  qed
qed

lemma take_show_int: "fits_int v \<Longrightarrow> take 31 (show_int v) = show_int v"
proof -
  assume f: "fits_int v"
  have "length (show_nat (nat \<bar>v\<bar>)) \<le> 30"
    using f by (intro length_show_nat) (auto simp: fits_int_def)
  then show ?thesis by (cases "v < 0") (simp_all add: show_int_def)
qed

lemma scan_show [simp]: "scan_ld (show_int v) = Some (v, [])"
  using scan_ld_show [of "[]" v] by (simp add: stops_digit_def)

lemma scan_literals: "scan_ld ''2000'' = Some (2000, [])" "scan_ld ''20'' = Some (20, [])"
  "scan_ld ''1'' = Some (1, [])"
  by code_simp+

lemma tunables_mem: "''run'' \<in> set tunables" "''pages_to_scan'' \<in> set tunables"
  "''sleep_millisecs'' \<in> set tunables"
  by (simp_all add: tunables_def)

lemma hoare_ksm_enable:
  assumes k: "ksm_documented os tun"
  shows "hoare (\<lambda>w. tun w = t) (ksm_enable os)
     (\<lambda>en w. en \<and> tun w = t(''pages_to_scan'' := 2000, ''sleep_millisecs'' := 20, ''run'' := 1))"
  unfolding ksm_enable_def
proof (rule hoare_bind [OF hoare_ksm_set [OF k tunables_mem(2) scan_literals(1)]], rule hoare_if)
  fix a :: int
  assume "a \<noteq> 0"
  then show "hoare (\<lambda>w. a = 0 \<and> tun w = t(''pages_to_scan'' := 2000)) (ret False)
     (\<lambda>en w. en \<and> tun w = t(''pages_to_scan'' := 2000, ''sleep_millisecs'' := 20, ''run'' := 1))"
    by (intro hoare_ret) simp
next
  fix a :: int
  let ?t1 = "t(''pages_to_scan'' := 2000)" and ?t2 = "t(''pages_to_scan'' := 2000, ''sleep_millisecs'' := 20)"
  assume "\<not> a \<noteq> 0"
  have "hoare (\<lambda>w. tun w = ?t1) (do {
       b \<leftarrow> ksm_set os ''sleep_millisecs'' ''20'';
       if b \<noteq> 0 then ret False else do { c \<leftarrow> ksm_set os ''run'' ''1''; ret (c = 0) } })
     (\<lambda>en w. en \<and> tun w = ?t2(''run'' := 1))"
    by (rule hoare_bind [OF hoare_ksm_set [OF k tunables_mem(3) scan_literals(2)]], rule hoare_if)
      (auto intro!: hoare_ret hoare_pre [OF hoare_bind [OF hoare_ksm_set [OF k tunables_mem(1) scan_literals(3),
          where t = "?t2"]]])
  then show "hoare (\<lambda>w. a = 0 \<and> tun w = ?t1) (do {
       b \<leftarrow> ksm_set os ''sleep_millisecs'' ''20'';
       if b \<noteq> 0 then ret False else do { c \<leftarrow> ksm_set os ''run'' ''1''; ret (c = 0) } })
     (\<lambda>en w. en \<and> tun w = ?t2(''run'' := 1))"
    by (rule hoare_pre) simp
qed

lemma hoare_ksm_restore:
  assumes k: "ksm_documented os tun" and "fits_int p" "fits_int r"
  shows "hoare (\<lambda>w. tun w = t) (ksm_restore os p r)
     (\<lambda>_ w. tun w = t(''pages_to_scan'' := p, ''run'' := r, ''sleep_millisecs'' := 20))"
  unfolding ksm_restore_def take_show_int [OF assms(2)] take_show_int [OF assms(3)]
  by (rule hoare_bind [OF hoare_ksm_set [OF k tunables_mem(2) scan_show]],
      rule hoare_pre [OF hoare_bind [OF hoare_ksm_set [OF k tunables_mem(1) scan_show,
          where t = "t(''pages_to_scan'' := p)"]]],
      rule hoare_pre [OF hoare_bind [OF hoare_ksm_set [OF k tunables_mem(3) scan_literals(2),
          where t = "t(''pages_to_scan'' := p, ''run'' := r)"]]])
    (auto intro: hoare_ret)

section \<open>Properties\<close>

text \<open>
  \<open>vmstat\<close> reads counters exactly: on a file of name and number lines as the kernel
  prints them, it returns the number of the first line with that name, and -1 when there is
  none, for any printable numbers, negative ones included.
\<close>

theorem vmstat_reads_counter:
  assumes "os_read_file os ''/proc/vmstat'' w = (Some (kv_text kvs), w')"
    and "\<forall>(k, v)\<in>set kvs. good_key k"
  shows "fst (run (vmstat os key) w) = (case map_of kvs key of None \<Rightarrow> - 1 | Some v \<Rightarrow> v)"
  using assms(1) vmstat_scan_text [OF assms(2)] by (simp add: run_def vmstat_def)

text \<open>
  KSM settings after the test: when the kernel's tunables behave as documented and hold
  \<open>int\<close> values, a run that reaches its end leaves \<open>run\<close> and \<open>pages_to_scan\<close> as they were and
  \<open>sleep_millisecs\<close> at 20 whatever it was before; a run that gives up early changes nothing.
\<close>

theorem ksm_settings_after:
  assumes k: "ksm_documented os tun"
    and r: "fits_int (t ''run'')" and p: "fits_int (t ''pages_to_scan'')"
  shows "hoare (\<lambda>w. tun w = t) (ksm_main os)
     (\<lambda>r w. tun w = (if r = 0 then t(''sleep_millisecs'' := 20) else t))"
proof -
  let ?Q = "\<lambda>r w. tun w = (if r = (0::int) then t(''sleep_millisecs'' := 20) else t)"
  let ?t1 = "t(''pages_to_scan'' := 2000, ''sleep_millisecs'' := 20, ''run'' := 1)"
  let ?t2 = "?t1(''pages_to_scan'' := t ''pages_to_scan'', ''run'' := t ''run'', ''sleep_millisecs'' := 20)"
  have t2: "?t2 = t(''sleep_millisecs'' := 20)" by auto
  have fail: "hoare (\<lambda>w. tun w = t) (do { print l []; ret 1 }) ?Q" for l
    by (intro hoare_keeps [OF keeps_print] hoare_ret) simp
  have fin: "hoare (\<lambda>w. tun w = ?t2) (do {
      r \<leftarrow> ksm_get os ''run''; p \<leftarrow> ksm_get os ''pages_to_scan'';
      print ''run %d pages_to_scan %d'' [I (to_int r), I (to_int p)];
      print ''(run=2 unmerge; %d)'' [I (t ''run'')]; ret 0 }) ?Q"
    by (intro hoare_keeps [OF keeps_ksm_get [OF k]] hoare_keeps [OF keeps_print] hoare_ret) (simp add: t2)
  have tail: "hoare (\<lambda>w. tun w = ?t1) (ksm_tail os s d (t ''run'') (t ''pages_to_scan'')) ?Q" for s d
    unfolding ksm_tail_def
    by (intro hoare_keeps [OF keeps_print] hoare_keeps [OF keeps_ksm_wait [OF k]]
        hoare_keeps [OF keeps_ksm_compare [OF k]] hoare_keeps [OF ksm_keeps(5) [OF k]]
        hoare_bind [OF hoare_ksm_restore [OF k p r]] fin)
  have enable: "hoare (\<lambda>w. tun w = t) (do { en \<leftarrow> ksm_enable os;
      if \<not> en then do { print l []; ret 1 } else ksm_tail os s d (t ''run'') (t ''pages_to_scan'') }) ?Q" for l s d
    by (rule hoare_bind [OF hoare_ksm_enable [OF k]]) (auto simp: hoare_def [of "\<lambda>w. False"] intro: hoare_pre [OF tail])
  show ?thesis
    unfolding ksm_main_def
    by (rule hoare_keeps [OF ksm_keeps(3) [OF k]], rule hoare_if [OF fail],
        rule hoare_keeps [OF keeps_ksm_get [OF k]], rule hoare_if [OF fail],
        rule hoare_bind_eq [OF hoare_ksm_get [OF k tunables_mem(1)]],
        rule hoare_bind_eq [OF hoare_ksm_get [OF k tunables_mem(2)]],
        unfold to_int_fits [OF r] to_int_fits [OF p],
        intro hoare_keeps [OF keeps_print] hoare_keeps [OF ksm_keeps(4) [OF k]]
          hoare_keeps [OF keeps_eachM [OF keeps_memset [OF k]]]
          hoare_keeps [OF keeps_eachM [OF keeps_print_same [OF k]]]
          hoare_keeps [OF keeps_va2pfn [OF k]] hoare_keeps [OF keeps_ksm_mergeable [OF k]]
          hoare_if fail hoare_keeps [OF keeps_ksm_stat [OF k]] enable)
qed

text \<open>An operating system whose world is the three tunables, for the witness.\<close>

definition tun_of_path :: "string \<Rightarrow> string option" where
  "tun_of_path p = List.find (\<lambda>f. ksm_path f = p) tunables"

definition ksm_os :: "(string \<Rightarrow> int) os" where
  "ksm_os = \<lparr>
     os_read_file = (\<lambda>p w. (map_option (\<lambda>f. show_int (w f) @ [nl]) (tun_of_path p), w)),
     os_open_w = (\<lambda>p w. (True, w)),
     os_write = (\<lambda>p v w. case (tun_of_path p, scan_ld v) of
        (Some f, Some (n, _)) \<Rightarrow> (int (length v) + 1, w(f := n)) | _ \<Rightarrow> (- 1, w)),
     os_pagemap = (\<lambda>a w. (Some 0, w)), os_open_pagemap = (\<lambda>w. (True, w)),
     os_mmap = (\<lambda>a l p f w. (0x7f0000000000, w)), os_munmap = (\<lambda>a l w. w),
     os_madvise = (\<lambda>a l d w. (0, w)), os_load = (\<lambda>a w. (0, w)), os_store = (\<lambda>a v w. w),
     os_sleep_us = (\<lambda>n w. w), os_faults = (\<lambda>w. ((0, 0), w))\<rparr>"

lemma tun_of_path: "f \<in> set tunables \<Longrightarrow> tun_of_path (ksm_path f) = Some f"
  by (auto simp: tunables_def tun_of_path_def ksm_path_def)

lemma ksm_os_documented: "ksm_documented ksm_os (\<lambda>w. w)"
  by (auto simp: ksm_documented_def ksm_os_def tun_of_path split: option.split)

theorem ksm_settings_after_witness:
  "hoare (\<lambda>w. w = (\<lambda>_. 100)) (ksm_main ksm_os)
     (\<lambda>r w. w = (if r = 0 then (\<lambda>_. 100)(''sleep_millisecs'' := 20) else (\<lambda>_. 100)))"
  by (rule ksm_settings_after [OF ksm_os_documented]) (simp_all add: fits_int_def)

theorem vmstat_reads_counter_witness:
  "fst (run (vmstat (ksm_os\<lparr>os_read_file := (\<lambda>p w. (Some (kv_text [(''pswpin'', 65529), (''x'', - 3)]), w))\<rparr>)
     ''x'') (\<lambda>_. 0)) = - 3"
  by (subst vmstat_reads_counter [where kvs = "[(''pswpin'', 65529), (''x'', - 3)]" and w' = "\<lambda>_. 0"])
    (simp_all add: good_key_def is_space_def)

text \<open>
  Memory as documented: what \<open>os_load\<close> returns is what \<open>os_store\<close> put there.
\<close>

definition memory_documented :: "'w os \<Rightarrow> ('w \<Rightarrow> memory) \<Rightarrow> bool" where
  "memory_documented os mem \<longleftrightarrow>
     (\<forall>a w. fst (os_load os a w) = mem w a \<and> mem (snd (os_load os a w)) = mem w) \<and>
     (\<forall>a v w. mem (os_store os a v w) = (mem w)(a := v))"

lemma page_inj: "i < NPAGES \<Longrightarrow> j < NPAGES \<Longrightarrow> page p i = page p j \<longleftrightarrow> i = j"
proof -
  assume ij: "i < NPAGES" "j < NPAGES"
  have u: "unat (of_nat k * 4096 :: u64) = k * 4096" if "k < NPAGES" for k
    using that by (simp add: NPAGES_def unat_word_ariths unat_of_nat)
  have "page p i = page p j \<longleftrightarrow> (of_nat i * 4096 :: u64) = of_nat j * 4096"
    by (simp add: page_def PGSZ_def)
  also have "\<dots> \<longleftrightarrow> i = j"
    using u [OF ij(1)] u [OF ij(2)] by (auto simp: word_unat_eq_iff)
  finally show ?thesis .
qed

lemma touch_pages_mem:
  assumes "memory_documented os mem"
  shows "hoare (\<lambda>w. True) (touch_pages os p) (\<lambda>_ w. \<forall>i<NPAGES. mem w (page p i) = of_nat i)"
proof -
  have st: "mem (os_store os a v w) = (mem w)(a := v)" for a v w
    using assms by (simp add: memory_documented_def)
  have "n \<le> NPAGES \<Longrightarrow> hoare (\<lambda>w. True)
      (eachM (\<lambda>i. effect (os_store os (page p i) (of_nat i))) [0..<n])
      (\<lambda>_ w. \<forall>i<n. mem w (page p i) = of_nat i)" for n
  proof (induction n)
    case (Suc n)

    have "hoare (\<lambda>w. \<forall>i<n. mem w (page p i) = of_nat i) (effect (os_store os (page p n) (of_nat n)))
        (\<lambda>_ w. \<forall>i<Suc n. mem w (page p i) = of_nat i)"
      using Suc.prems by (intro hoare_effect) (auto simp: st page_inj less_Suc_eq)
    with Suc show ?case by (simp add: eachM_append) (rule hoare_bind)
  qed (simp add: hoare_ret)
  then show ?thesis by (simp add: touch_pages_def)
qed

lemma mapM_load:
  assumes "memory_documented os mem"
  shows "hoare (\<lambda>w. mem w = M) (mapM (\<lambda>i. call (os_load os (page p i))) is) 
     (\<lambda>cs w. cs = map (\<lambda>i. M (page p i)) is \<and> mem w = M)"
proof (induction "is")
  case (Cons i "is")
  have "hoare (\<lambda>w. mem w = M) (call (os_load os (page p i))) (\<lambda>c w. c = M (page p i) \<and> mem w = M)"
    using assms by (intro hoare_call) (metis memory_documented_def fst_conv snd_conv)
  moreover have "hoare (\<lambda>w. mem w = M)
      (do { ys \<leftarrow> mapM (\<lambda>i. call (os_load os (page p i))) is; ret (M (page p i) # ys) })
      (\<lambda>cs w. cs = map (\<lambda>i. M (page p i)) (i # is) \<and> mem w = M)"
    by (rule hoare_bind_eq [OF Cons]) (rule hoare_ret, simp)
  ultimately show ?case unfolding mapM.simps by (rule hoare_bind_eq)
qed (simp add: hoare_ret)

lemma count_bad_exact:
  assumes "memory_documented os mem"
  shows "hoare (\<lambda>w. mem w = M) (count_bad os p)
     (\<lambda>b w. b = card {i. i < NPAGES \<and> M (page p i) \<noteq> of_nat i} \<and> mem w = M)"
proof -
  have "length (filter (\<lambda>(i, c). c \<noteq> of_nat i) (zip [0..<NPAGES] (map (\<lambda>i. M (page p i)) [0..<NPAGES])))
      = length (filter (\<lambda>i. M (page p i) \<noteq> of_nat i) [0..<NPAGES])"
    by (simp add: zip_map2 zip_same_conv_map filter_map o_def split_beta)
  also have "\<dots> = card {i. i < NPAGES \<and> M (page p i) \<noteq> of_nat i}"
    by (simp add: length_filter_conv_card cong: conj_cong)
  finally show ?thesis
    unfolding count_bad_def
    by (auto intro!: hoare_bind_eq [OF mapM_load [OF assms]] hoare_ret)
qed

text \<open>
  The integrity check of the migration test is exact: when memory behaves as documented
  and whatever runs in between leaves its contents alone (the kernel may move every frame), the
  pages written and then compared give no error; and in any memory the number it reports is
  the number of pages whose first byte is wrong.
\<close>

theorem migration_check_exact:
  assumes m: "memory_documented os mem" and between: "\<And>M. keeps (\<lambda>w. mem w = M) body"
  shows "hoare (\<lambda>w. True) (do { touch_pages os p; body; count_bad os p }) (\<lambda>b w. b = 0) \<and>
     (\<forall>M. hoare (\<lambda>w. mem w = M) (count_bad os p)
        (\<lambda>b w. b = card {i. i < NPAGES \<and> M (page p i) \<noteq> of_nat i}))"
proof (intro conjI allI)
  let ?J = "\<lambda>w. \<forall>i<NPAGES. mem w (page p i) = of_nat i"
  have "keeps ?J body"
    using between unfolding keeps_def hoare_def by (metis (mono_tags, lifting))
  moreover have "hoare ?J (count_bad os p) (\<lambda>b w. b = 0)"
    using count_bad_exact [OF m, of _ p] unfolding hoare_def by fastforce
  ultimately show "hoare (\<lambda>w. True) (do { touch_pages os p; body; count_bad os p }) (\<lambda>b w. b = 0)"
    by (intro hoare_bind [OF touch_pages_mem [OF m]] hoare_keeps)
next
  fix M
  show "hoare (\<lambda>w. mem w = M) (count_bad os p)
      (\<lambda>b w. b = card {i. i < NPAGES \<and> M (page p i) \<noteq> of_nat i})"
    by (rule hoare_post [OF count_bad_exact [OF m]]) simp
qed

text \<open>An operating system whose world is the memory, for the witness.\<close>

definition mem_os :: "memory os" where
  "mem_os = \<lparr>os_read_file = (\<lambda>p w. (None, w)), os_open_w = (\<lambda>p w. (False, w)),
     os_write = (\<lambda>p v w. (- 1, w)), os_pagemap = (\<lambda>a w. (None, w)), os_open_pagemap = (\<lambda>w. (True, w)),
     os_mmap = (\<lambda>a l p f w. (0x7f0000000000, w)), os_munmap = (\<lambda>a l w. w),
     os_madvise = (\<lambda>a l d w. (0, w)), os_load = (\<lambda>a w. (w a, w)), os_store = (\<lambda>a v w. w(a := v)),
     os_sleep_us = (\<lambda>n w. w), os_faults = (\<lambda>w. ((0, 0), w))\<rparr>"

theorem migration_check_exact_witness:
  "hoare (\<lambda>w. True) (do { touch_pages mem_os 0x10000; effect (os_sleep_us mem_os 2000000);
     count_bad mem_os 0x10000 }) (\<lambda>b w. b = 0)"
proof -
  have "memory_documented mem_os (\<lambda>w. w)"
    by (simp add: memory_documented_def mem_os_def)
  moreover have "keeps (\<lambda>w. w = M) (effect (os_sleep_us mem_os 2000000))" for M
    by (rule keeps_effect) (simp add: mem_os_def)
  ultimately show ?thesis
    by (rule conjunct1 [OF migration_check_exact])
qed

end
