(* ===== verification/Insn_Decode.thy ===== *)
theory Insn_Decode
  imports Os_Monad
begin

section \<open>Reading machine code: sync_probe.c, reloc_mod.c, tp_lab.c\<close>

text \<open>
  Three modules read their own (patched, relocated) instructions out of memory.
  \<open>sync_probe.c\<close> has a small AArch64 decoder and follows the first \<open>BL\<close> of a function one
  level down; \<open>reloc_mod.c\<close> computes the targets of \<open>BL\<close> and \<open>ADRP\<close>; \<open>tp_lab.c\<close> looks for
  the \<open>NOP\<close> or \<open>B\<close> of a static key, and drives two tracepoints. The decoded text is the part
  before the \<open><--\<close> remark. The last section of definitions builds instruction words from
  their architectural fields (the encodings quoted in the comments of \<open>decode\<close>), and the
  properties run the decoders on them.
\<close>

subsection \<open>sync_probe.c: the decoder\<close>

definition bar_domain :: "u32 \<Rightarrow> string" where
  "bar_domain crm = (if crm = 15 then ''sy'' else if crm = 14 then ''st'' else if crm = 13 then ''ld''
     else if crm = 11 then ''ish'' else if crm = 10 then ''ishst'' else if crm = 9 then ''ishld''
     else if crm = 7 then ''nsh'' else if crm = 6 then ''nshst'' else if crm = 5 then ''nshld''
     else if crm = 3 then ''osh'' else if crm = 2 then ''oshst'' else if crm = 1 then ''oshld''
     else ''?'')"

definition width_name :: "u32 \<Rightarrow> string" where
  "width_name sz = (if sz = 2 then ''32-bit'' else if sz = 3 then ''64-bit'' else ''8/16-bit'')"

definition lse_opc :: "string list" where
  "lse_opc = [''ADD'', ''CLR'', ''EOR'', ''SET'', ''SMAX'', ''SMIN'', ''UMAX'', ''UMIN'']"

text \<open>\<open>(s32)(insn << 6) >> k\<close>, an arithmetic shift.\<close>

definition sext6 :: "nat \<Rightarrow> u32 \<Rightarrow> int" where
  "sext6 k insn = sint (signed_drop_bit k (push_bit 6 insn))"

definition show_signed :: "int \<Rightarrow> string" where
  "show_signed i = (if 0 \<le> i then CHR ''+'' # show_int i else show_int i)"

definition is_bl :: "u32 \<Rightarrow> bool" where "is_bl insn \<longleftrightarrow> insn AND 0xFC000000 = 0x94000000"
definition is_b :: "u32 \<Rightarrow> bool" where "is_b insn \<longleftrightarrow> insn AND 0xFC000000 = 0x14000000"
definition is_ret :: "u32 \<Rightarrow> bool" where "is_ret insn \<longleftrightarrow> insn AND 0xFFFFFC1F = 0xD65F0000"

definition decode_barrier :: "u32 \<Rightarrow> string" where
  "decode_barrier insn =
     (let crm = drop_bit 8 insn AND 0xf; op2 = drop_bit 5 insn AND 0x7
      in (if op2 = 4 then ''DSB'' else if op2 = 5 then ''DMB'' else if op2 = 6 then ''ISB'' else ''BAR?'')
         @ '' '' @ bar_domain crm)"

definition decode_lse :: "u32 \<Rightarrow> string" where
  "decode_lse insn =
     (let w = width_name (drop_bit 30 insn);
          A = drop_bit 23 insn AND 1; R = drop_bit 22 insn AND 1; o3 = drop_bit 15 insn AND 1;
          op = drop_bit 12 insn AND 7; Rt = insn AND 0x1f;
          order = (if A \<noteq> 0 then ''A'' else []) @ (if R \<noteq> 0 then ''L'' else []) @ ''  ('' @ w @ '')''
      in if o3 \<noteq> 0 then ''SWP'' @ order
         else (if Rt = 31 then ''ST'' else ''LD'') @ lse_opc ! unat op @ order)"

definition decode_cas :: "u32 \<Rightarrow> string" where
  "decode_cas insn = ''CAS'' @ (if drop_bit 22 insn AND 1 \<noteq> 0 then ''A'' else [])
     @ (if drop_bit 15 insn AND 1 \<noteq> 0 then ''L'' else []) @ ''  ('' @ width_name (drop_bit 30 insn) @ '')''"

definition decode_exclusive :: "string \<Rightarrow> string \<Rightarrow> u32 \<Rightarrow> string" where
  "decode_exclusive op sfx insn = op @ (if drop_bit 15 insn AND 1 \<noteq> 0 then sfx else [])
     @ ''XR ('' @ width_name (drop_bit 30 insn) @ '')''"

definition decode_plain :: "u32 \<Rightarrow> string" where
  "decode_plain insn =
     (if is_ret insn then ''RET''
      else if insn AND 0xFF000000 = 0xF9000000 then ''STR (imm)''
      else if insn AND 0xFF000000 = 0xF8000000 then ''LDR/STR''
      else if insn AND 0x9F000000 = 0x90000000 then ''ADRP''
      else if insn AND 0xFF800000 = 0x91000000 then ''ADD (imm)''
      else if insn AND 0x7F800000 = 0x52800000 then ''MOVZ''
      else ''-'')"

definition decode :: "u32 \<Rightarrow> string" where
  "decode insn =
     (if insn AND 0xFFFFF01F = 0xD503301F then decode_barrier insn
      else if insn AND 0x3F200C00 = 0x38200000 then decode_lse insn
      else if insn AND 0x3FA07C00 = 0x08A07C00 then decode_cas insn
      else if insn AND 0x3FE07C00 = 0x08400000 \<or> insn AND 0x3FE07C00 = 0x08405C00
        then decode_exclusive ''LD'' ''A'' insn
      else if insn AND 0x3FE00000 = 0x08000000 then decode_exclusive ''ST'' ''L'' insn
      else if insn = 0xD503201F then ''NOP''
      else if insn = 0xD503205F then ''WFE''
      else if insn = 0xD50320BF then ''SEVL''
      else if insn = 0xD503209F then ''SEV''
      else if insn = 0xD503203F then ''YIELD''
      else if is_bl insn then ''BL   '' @ show_signed (sext6 4 insn)
      else if is_b insn then ''B    '' @ show_signed (sext6 4 insn)
      else decode_plain insn)"

subsection \<open>sync_probe.c: dumping a function\<close>

definition insn_at :: "memory \<Rightarrow> u64 \<Rightarrow> nat \<Rightarrow> u32" where
  "insn_at m p i = load32 m (p + 4 * of_nat i)"

definition bl_dest :: "memory \<Rightarrow> u64 \<Rightarrow> nat \<Rightarrow> u64" where
  "bl_dest m p i = p + 4 * of_nat i + 4 * word_of_int (sext6 6 (insn_at m p i))"

text \<open>The loop: at most \<open>n\<close> more words, up to a \<open>RET\<close>; the first \<open>BL\<close> is remembered.\<close>

fun dump_words :: "memory \<Rightarrow> u64 \<Rightarrow> nat \<Rightarrow> nat \<Rightarrow> u64 option \<Rightarrow> line list \<times> u64 option" where
  "dump_words m p 0 i bl = ([], bl)"
| "dump_words m p (Suc n) i bl =
     (let insn = insn_at m p i;
          l = (''     +%02d: %08x   %s'', [I (int (4 * i)), U32 insn, S (decode insn)]);
          bl' = (if bl = None \<and> is_bl insn then Some (bl_dest m p i) else bl)
      in if is_ret insn then ([l], bl')
         else case dump_words m p n (Suc i) bl' of (ls, r) \<Rightarrow> (l # ls, r))"

text \<open>
  The HEX line: \<open>char hex[9 * 12 + 1]\<close>, nine characters per word, while fewer than 100 are
  used, so twelve words at most; it stops after a \<open>RET\<close>.
\<close>

fun hex_words :: "memory \<Rightarrow> u64 \<Rightarrow> nat \<Rightarrow> nat \<Rightarrow> nat \<Rightarrow> val list" where
  "hex_words m p 0 i k = []"
| "hex_words m p (Suc n) i k =
     (if k < 9 * 12 + 1 - 9
      then U32 (insn_at m p i) # (if is_ret (insn_at m p i) then [] else hex_words m p n (Suc i) (k + 9))
      else [])"

definition dump_one :: "bool \<Rightarrow> memory \<Rightarrow> string \<Rightarrow> u64 \<Rightarrow> nat \<Rightarrow> line list \<times> u64 option" where
  "dump_one hexflag m name fn words =
     (case dump_words m fn words 0 None of
        (ls, bl) \<Rightarrow> ((''  -- %s @ %pS'', [S name, U fn]) # ls
          @ (if hexflag then [(''     HEX: %s'', hex_words m fn words 0 0)] else []), bl))"

text \<open>\<open>dump_func_depth\<close>: the recursion is entered with depth 0 only and calls itself with 1.\<close>

function dump_func_depth :: "bool \<Rightarrow> memory \<Rightarrow> string \<Rightarrow> u64 \<Rightarrow> nat \<Rightarrow> nat \<Rightarrow> line list" where
  "dump_func_depth hexflag m name fn words depth =
     (case dump_one hexflag m name fn words of
        (ls, None) \<Rightarrow> ls
      | (ls, Some target) \<Rightarrow>
          if depth = 0 then ls @ [(''     follow'', [])] @ dump_func_depth hexflag m ''(inner)'' target words 1
          else ls)"
  by pat_completeness auto
termination
  by (relation "measure (\<lambda>(_, _, _, _, _, d). 1 - d)") auto

declare dump_func_depth.simps [simp del]

definition dump_func :: "bool \<Rightarrow> memory \<Rightarrow> string \<Rightarrow> u64 \<Rightarrow> nat \<Rightarrow> line list" where
  "dump_func hexflag m name fn words = dump_func_depth hexflag m name fn words 0"

subsection \<open>reloc_mod.c\<close>

text \<open>
  \<open>dump_insn\<close>: the target of a \<open>BL\<close>; the page of an \<open>ADRP\<close>, whose high immediate is
  \<open>(s32)((insn << 8) >> 13)\<close>, a shift of the unsigned word converted afterwards; the operands of
  an \<open>ADD\<close>. \<open>ksym\<close> is the symbol \<open>sprint_symbol\<close> gives.
\<close>

definition reloc_bl_target :: "u64 \<Rightarrow> u32 \<Rightarrow> u64" where
  "reloc_bl_target pc insn = pc + push_bit 2 (word_of_int (sext6 6 insn))"

definition adrp_immlo :: "u32 \<Rightarrow> u32" where "adrp_immlo insn = drop_bit 29 insn AND 0x3"
definition adrp_immhi :: "u32 \<Rightarrow> u32" where "adrp_immhi insn = drop_bit 13 (push_bit 8 insn)"

definition reloc_adrp :: "u64 \<Rightarrow> u32 \<Rightarrow> u64" where
  "reloc_adrp pc insn =
     (pc AND NOT 0xfff) + push_bit 12 (push_bit 2 (scast (adrp_immhi insn)) OR ucast (adrp_immlo insn))"

definition reloc_note :: "(u64 \<Rightarrow> string) \<Rightarrow> u64 \<Rightarrow> u32 \<Rightarrow> string \<times> val list" where
  "reloc_note ksym pc insn =
     (if is_bl insn then (''BL  imm26=%#x -> 0x%lx <%s>'',
          [U32 (word_of_int (sext6 6 insn)), U (reloc_bl_target pc insn), S (ksym (reloc_bl_target pc insn))])
      else if insn AND 0x9f000000 = 0x90000000 then (''ADRP x%u, 0x%lx'',
          [U32 (insn AND 0x1f), U (reloc_adrp pc insn)])
      else if insn AND 0xff000000 = 0x91000000 then (''ADD  x%u, x%u, #%#x (:lo12:)'',
          [U32 (insn AND 0x1f), U32 (drop_bit 5 insn AND 0x1f), U32 (drop_bit 10 insn AND 0xfff)])
      else ([], []))"

definition reloc_dump_insn :: "(u64 \<Rightarrow> string) \<Rightarrow> memory \<Rightarrow> string \<Rightarrow> u64 \<Rightarrow> nat \<Rightarrow> line list" where
  "reloc_dump_insn ksym m tag pc n = map (\<lambda>i.
     let insn = insn_at m pc i; note = reloc_note ksym (pc + 4 * of_nat i) insn
     in (''  %s +0x%02x: %08x  %s'', [S tag, I (int (4 * i)), U32 insn, S (fst note)] @ snd note)) [0..<n]"

text \<open>What the loader gives the module; \<open>reloc_mod_init\<close> always refuses to stay loaded (-EAGAIN).\<close>

record reloc_img =
  core_base :: u64
  core_size :: u32
  site_addr :: u64
  gvar_addr :: u64
  printk_addr :: u64

definition reloc_probe_site :: "reloc_img \<Rightarrow> line list" where
  "reloc_probe_site im = [(''reloc_mod: gvar=%#lx @ %px'', [U 0xdeadbeefcafe0000, U (gvar_addr im)])]"

definition reloc_mod_init :: "(u64 \<Rightarrow> string) \<Rightarrow> memory \<Rightarrow> reloc_img \<Rightarrow> int \<times> line list" where
  "reloc_mod_init ksym m im = (- 11,
     [(''======== reloc_mod'', []),
      (''core_layout.base = %px, size = %u'', [U (core_base im), U32 (core_size im)]),
      (''reloc_probe_site  = %px'', [U (site_addr im)]),
      (''reloc_gvar        = %px'', [U (gvar_addr im)]),
      (''_printk           = %px'', [U (printk_addr im)]),
      (''--- reloc_probe_site()'', [])]
     @ reloc_dump_insn ksym m ''reloc_probe_site'' (site_addr im) 10
     @ reloc_probe_site im)"

subsection \<open>tp_lab.c\<close>

text \<open>\<open>dump_hit_insn\<close>: twelve words of \<open>tp_lab_hit\<close>, a NOP or a B marked.\<close>

definition hit_note :: "u32 \<Rightarrow> string" where
  "hit_note insn = (if insn = 0xd503201f then ''  <-- NOP'' else if is_b insn then ''  <-- B'' else [])"

definition dump_hit_insn :: "memory \<Rightarrow> u64 \<Rightarrow> string \<Rightarrow> line list" where
  "dump_hit_insn m p when = (''tp_lab: --- tp_lab_hit() (%s) @ %px ---'', [S when, U p])
     # map (\<lambda>i. (''tp_lab:   +0x%02x: %08x%s'',
         [I (int (4 * i)), U32 (insn_at m p i), S (hit_note (insn_at m p i))])) [0..<12]"

text \<open>
  The two trace events of \<open>tp_lab_trace.h\<close>: what each records, and the condition of the second.
  \<open>task\<close> is the part of \<open>struct task_struct\<close> they read.
\<close>

record task =
  comm :: string
  pid :: int

datatype tp_event =
    Alloc string int u64 u64 \<comment> \<open>comm, pid, size, addr\<close>
  | Big_Alloc u64

definition big_alloc_condition :: "u64 \<Rightarrow> bool" where
  "big_alloc_condition sz \<longleftrightarrow> 1024 \<le> sz"

text \<open>
  The tracepoints: whether ftrace records each, whether \<open>my_probe\<close> is registered, the ring
  buffer and the log; \<open>tp_thread\<close> and \<open>counter\<close> are the module's variables.
\<close>

record tp_lab =
  alloc_on :: bool
  big_on :: bool
  probed :: bool
  ring :: "tp_event list"
  tp_log :: "line list"
  tp_thread :: bool
  counter :: u64

definition my_probe :: "task \<Rightarrow> u64 \<Rightarrow> u64 \<Rightarrow> line list" where
  "my_probe tsk sz addr = (if sz = 4096
     then [(''tp_lab: [my_probe] comm=%s pid=%d size=%llu addr=%#lx'', [S (comm tsk), I (pid tsk), U sz, U addr])]
     else [])"

definition trace_alloc :: "task \<Rightarrow> u64 \<Rightarrow> u64 \<Rightarrow> tp_lab \<Rightarrow> tp_lab" where
  "trace_alloc tsk sz addr s = s\<lparr>
     ring := ring s @ (if alloc_on s then [Alloc (comm tsk) (pid tsk) sz addr] else []),
     tp_log := tp_log s @ (if probed s then my_probe tsk sz addr else [])\<rparr>"

definition trace_big_alloc :: "u64 \<Rightarrow> tp_lab \<Rightarrow> tp_lab" where
  "trace_big_alloc sz s = s\<lparr>ring := ring s @ (if big_on s \<and> big_alloc_condition sz then [Big_Alloc sz] else [])\<rparr>"

definition tp_lab_hit :: "task \<Rightarrow> u64 \<Rightarrow> u64 \<Rightarrow> tp_lab \<Rightarrow> tp_lab" where
  "tp_lab_hit tsk sz addr s = trace_big_alloc sz (trace_alloc tsk sz addr s)"

text \<open>One turn of \<open>tp_thread_fn\<close>; \<open>p\<close> is what \<open>kmalloc(64)\<close> returned. Then the whole loop.\<close>

definition tp_turn :: "task \<Rightarrow> u64 \<Rightarrow> tp_lab \<Rightarrow> tp_lab" where
  "tp_turn tsk p s = (let s1 = tp_lab_hit tsk (64 + (counter s mod 4) * 512) p s
     in s1\<lparr>counter := counter s1 + 1\<rparr>)"

fun tp_thread_fn :: "task \<Rightarrow> u64 list \<Rightarrow> tp_lab \<Rightarrow> tp_lab" where
  "tp_thread_fn tsk [] s = s" \<comment> \<open>\<open>kthread_should_stop\<close>\<close>
| "tp_thread_fn tsk (p # ps) s = tp_thread_fn tsk ps (tp_turn tsk p s)"

definition tp_print :: "line list \<Rightarrow> tp_lab \<Rightarrow> tp_lab" where
  "tp_print ls s = s\<lparr>tp_log := tp_log s @ ls\<rparr>"

definition dump_set :: "memory \<Rightarrow> u64 \<Rightarrow> bool \<Rightarrow> tp_lab \<Rightarrow> int \<times> tp_lab" where
  "dump_set m p enabled s = (0, tp_print (dump_hit_insn m p ''manual dump''
     @ [(''tp_lab: tracepoint tp_lab_alloc %s'', [S (if enabled then ''enabled'' else ''not enabled'')])]) s)"

text \<open>
  Loading: \<open>reg\<close> is what \<open>register_trace_tp_lab_alloc\<close> returns, \<open>err\<close> the error of
  \<open>kthread_run\<close> if it fails (\<open>tp_thread\<close> then holds the error pointer, which is not null).
\<close>

definition tp_lab_init :: "memory \<Rightarrow> u64 \<Rightarrow> bool \<Rightarrow> int \<Rightarrow> int option \<Rightarrow> tp_lab \<Rightarrow> int \<times> tp_lab" where
  "tp_lab_init m p probe_on reg err s =
     (let s1 = tp_print ((''tp_lab: init, tp_lab_hit=%px'', [U p]) # dump_hit_insn m p ''at load'') s;
          s2 = (if probe_on
                then tp_print [(''tp_lab: register_trace_tp_lab_alloc() = %d'', [I reg])] (s1\<lparr>probed := (reg = 0)\<rparr>)
                else s1)
      in case err of Some e \<Rightarrow> (e, s2\<lparr>tp_thread := True\<rparr>) | None \<Rightarrow> (0, s2\<lparr>tp_thread := True\<rparr>))"

definition tp_lab_exit :: "bool \<Rightarrow> tp_lab \<Rightarrow> tp_lab" where
  "tp_lab_exit probe_on s =
     (let s1 = (if tp_thread s then s\<lparr>tp_thread := False\<rparr> else s);
          s2 = (if probe_on then s1\<lparr>probed := False\<rparr> else s1)
      in tp_print [(''tp_lab: exit, %llu'', [U (counter s2)])] s2)"

section \<open>Instruction words from their architectural fields\<close>

definition enc_barrier :: "4 word \<Rightarrow> 2 word \<Rightarrow> u32" where
  "enc_barrier crm opc = 0xD503309F OR push_bit 8 (ucast crm) OR push_bit 5 (ucast opc)"

definition enc_lse :: "2 word \<Rightarrow> bool \<Rightarrow> bool \<Rightarrow> 5 word \<Rightarrow> bool \<Rightarrow> 3 word \<Rightarrow> 5 word \<Rightarrow> 5 word \<Rightarrow> u32" where
  "enc_lse sz a r rs o3 opc rn rt = push_bit 30 (ucast sz) OR 0x38200000
     OR push_bit 23 (of_bool a) OR push_bit 22 (of_bool r) OR push_bit 16 (ucast rs)
     OR push_bit 15 (of_bool o3) OR push_bit 12 (ucast opc) OR push_bit 5 (ucast rn) OR ucast rt"

definition enc_cas :: "2 word \<Rightarrow> bool \<Rightarrow> bool \<Rightarrow> 5 word \<Rightarrow> 5 word \<Rightarrow> 5 word \<Rightarrow> u32" where
  "enc_cas sz acq rel rs rn rt = push_bit 30 (ucast sz) OR 0x08A07C00
     OR push_bit 22 (of_bool acq) OR push_bit 16 (ucast rs) OR push_bit 15 (of_bool rel)
     OR push_bit 5 (ucast rn) OR ucast rt"

definition enc_ldxr :: "2 word \<Rightarrow> bool \<Rightarrow> 5 word \<Rightarrow> 5 word \<Rightarrow> u32" where
  "enc_ldxr sz acq rn rt = push_bit 30 (ucast sz) OR 0x085F7C00
     OR push_bit 15 (of_bool acq) OR push_bit 5 (ucast rn) OR ucast rt"

definition enc_stxr :: "2 word \<Rightarrow> bool \<Rightarrow> 5 word \<Rightarrow> 5 word \<Rightarrow> 5 word \<Rightarrow> u32" where
  "enc_stxr sz rel rs rn rt = push_bit 30 (ucast sz) OR 0x08007C00
     OR push_bit 16 (ucast rs) OR push_bit 15 (of_bool rel) OR push_bit 5 (ucast rn) OR ucast rt"

definition enc_bl :: "26 word \<Rightarrow> u32" where
  "enc_bl imm26 = 0x94000000 OR ucast imm26"

definition enc_adrp :: "2 word \<Rightarrow> 19 word \<Rightarrow> 5 word \<Rightarrow> u32" where
  "enc_adrp immlo immhi rd = 0x90000000 OR push_bit 29 (ucast immlo) OR push_bit 5 (ucast immhi) OR ucast rd"

lemmas encodings = enc_barrier_def enc_lse_def enc_cas_def enc_ldxr_def enc_stxr_def enc_bl_def enc_adrp_def

lemma ldxr_text:
  "decode (enc_ldxr sz acq rn rt) = ''-''"
  unfolding decode_def decode_plain_def is_bl_def is_b_def is_ret_def encodings
  by (simp add: bitwise)

lemma sext_bl: "signed_drop_bit 6 (push_bit 6 (enc_bl imm)) = scast imm"
   "signed_drop_bit 4 (push_bit 6 (enc_bl imm)) = push_bit 2 (scast imm)"
  unfolding encodings by (simp_all add: bitwise)
lemma fields_adrp:
  "adrp_immlo (enc_adrp immlo immhi rd) = ucast immlo"
  "adrp_immhi (enc_adrp immlo immhi rd) = ucast immhi"
  unfolding encodings adrp_immlo_def adrp_immhi_def by (simp_all add: bitwise)

section \<open>The decoders on encoded words\<close>

lemma sint_bounds: "- (2 ^ (LENGTH('a) - 1)) \<le> sint (w :: 'a::len word)" "sint (w :: 'a::len word) < 2 ^ (LENGTH('a) - 1)"
  by (rule sint_ge sint_lt)+

lemma sext_exact: "sext6 6 (enc_bl imm) = sint imm" "sext6 4 (enc_bl imm) = 4 * sint imm"
proof -
  have b: "- (2 ^ 25) \<le> sint imm" "sint imm < 2 ^ 25"
    using sint_bounds [of imm] by simp_all
  have s: "(scast imm :: u32) = word_of_int (sint imm)" by simp
  have n: "sint (word_of_int k :: u32) = k" if "- (2 ^ 31) \<le> k" "k < 2 ^ 31" for k
    using that by (simp add: sint_sbintrunc' signed_take_bit_int_eq_self)
  show "sext6 6 (enc_bl imm) = sint imm"
    unfolding sext6_def sext_bl s using b by (intro n) simp_all
  have "(push_bit 2 (scast imm) :: u32) = word_of_int (4 * sint imm)"
    unfolding s by (simp add: push_bit_eq_mult)
  moreover have "sint (word_of_int (4 * sint imm) :: u32) = 4 * sint imm"
    using b by (intro n) simp_all
  ultimately show "sext6 4 (enc_bl imm) = 4 * sint imm"
    unfolding sext6_def sext_bl by simp
qed
lemma adrp_imm: "push_bit 2 (scast (ucast hi :: u32)) OR ucast (ucast lo :: u32)
    = (ucast (word_cat (hi :: 19 word) (lo :: 2 word) :: 21 word) :: u64)"
  unfolding word64_eq_bits by (simp add: all_less_numeral bit_simps bit_numeral_rec no_bit bit_word_cat_iff)

lemma sint_ucast: "word_of_int (sint (w :: 21 word)) = (ucast w :: u64) - (if bit w 20 then 2 ^ 21 else 0)"
proof -
  have "sint w = uint w - (if bit w 20 then 2 ^ 21 else 0)"
    using bit_uint_iff [of w 20] uint_lt2p [of w]
    by (simp add: sint_uint signed_take_bit_eq_take_bit_minus take_bit_int_eq_self)
  then show ?thesis by simp
qed









text \<open>
  No load-exclusive is ever recognised. Its masks keep bits 14..10, which are ones in
  \<open>LDXR\<close> and \<open>LDAXR\<close>, but compare them with 0 and with 10111: every such word, the
  \<open>885f7c01\<close> of the notes included, is printed as unknown.
\<close>

theorem decode_misses_ldxr:
  "decode (enc_ldxr sz acq rn rt) = ''-'' \<and> enc_ldxr 2 False 0 1 = 0x885f7c01"
  by (rule conjI [OF ldxr_text]) (simp add: enc_ldxr_def)

text \<open>
  The two modules agree on where a \<open>BL\<close> goes: the address \<open>sync_probe.c\<close> follows is the target
  \<open>reloc_mod.c\<close> prints, and both are the instruction's address plus four times the signed
  immediate.
\<close>

theorem bl_targets_agree:
  "bl_dest m p i = reloc_bl_target (p + 4 * of_nat i) (insn_at m p i) \<and>
   reloc_bl_target pc (enc_bl imm) = pc + word_of_int (4 * sint imm)"
  by (simp add: bl_dest_def reloc_bl_target_def sext_exact push_bit_eq_mult)

text \<open>
  The \<open>ADRP\<close> page of \<open>reloc_mod.c\<close> is the architectural one only for forward references: the
  high immediate is not sign-extended (the comment says it is), so a backward reference is
  shown 8 GB too high.
\<close>

theorem adrp_not_sign_extended:
  "reloc_adrp pc (enc_adrp immlo immhi rd)
     = (pc AND NOT 0xfff) + 4096 * word_of_int (sint (word_cat immhi immlo :: 21 word))
       + (if bit immhi 18 then 2 ^ 33 else 0)"
proof -
  have "bit (word_cat immhi immlo :: 21 word) 20 = bit immhi 18"
    by (simp add: bit_word_cat_iff)
  then show ?thesis
    unfolding reloc_adrp_def fields_adrp adrp_imm sint_ucast
    by (simp add: push_bit_eq_mult algebra_simps)
qed

text \<open>Where the dump stops, and the equivalence of the loop with its description.\<close>

definition insns :: "memory \<Rightarrow> u64 \<Rightarrow> nat \<Rightarrow> nat \<Rightarrow> u32 list" where
  "insns m p i n = map (insn_at m p) [i..<i + n]"

definition dump_stop :: "memory \<Rightarrow> u64 \<Rightarrow> nat \<Rightarrow> nat \<Rightarrow> nat" where
  "dump_stop m p i n = (case find_index is_ret (insns m p i n) of None \<Rightarrow> n | Some j \<Rightarrow> Suc j)"

lemma insns_Suc: "insns m p i (Suc n) = insn_at m p i # insns m p (Suc i) n"
  using upt_conv_Cons [of i "i + Suc n"] by (simp add: insns_def del: upt_Suc)

lemma dump_stop_Suc:
  "dump_stop m p i (Suc n) = (if is_ret (insn_at m p i) then 1 else Suc (dump_stop m p (Suc i) n))"
  by (simp add: dump_stop_def insns_Suc find_index_Cons split: option.split)

lemma dump_words_eq:
  "dump_words m p n i bl =
     (map (\<lambda>j. (''     +%02d: %08x   %s'', [I (int (4 * j)), U32 (insn_at m p j), S (decode (insn_at m p j))]))
        [i..<i + dump_stop m p i n],
      case bl of Some t \<Rightarrow> Some t
      | None \<Rightarrow> map_option (\<lambda>j. bl_dest m p (i + j)) (find_index is_bl (insns m p i (dump_stop m p i n))))"
proof (induction n arbitrary: i bl)
  case 0
  show ?case by (simp add: dump_stop_def insns_def find_index_Nil split: option.split)
next
  case (Suc n)
  show ?case
  proof (cases "is_ret (insn_at m p i)")
    case True
    then show ?thesis
      by (simp add: Let_def dump_stop_Suc insns_Suc find_index_Cons insns_def find_index_Nil split: option.split)
  next
    case False
    then show ?thesis
      by (simp add: Let_def dump_stop_Suc Suc insns_Suc find_index_Cons upt_conv_Cons option.map_comp o_def
          split: option.split del: upt_Suc)
  qed
qed

text \<open>
  \<open>dump_func\<close> prints exactly the words up to the first \<open>RET\<close> (or the first \<open>words\<close> words),
  each with its offset and decoding, and follows exactly the first \<open>BL\<close> among them, one level
  deep: the dump of the callee never leads to a third function.
\<close>

theorem dump_func_exact:
  "dump_func False m name fn words =
     (let body = (\<lambda>nm f. (''  -- %s @ %pS'', [S nm, U f])
        # map (\<lambda>j. (''     +%02d: %08x   %s'', [I (int (4 * j)), U32 (insn_at m f j), S (decode (insn_at m f j))]))
            [0..<dump_stop m f 0 words])
      in body name fn @
         (case find_index is_bl (insns m fn 0 (dump_stop m fn 0 words)) of
            None \<Rightarrow> []
          | Some j \<Rightarrow> (''     follow'', []) # body ''(inner)'' (bl_dest m fn j)))"
  unfolding dump_func_def Let_def
  by (subst dump_func_depth.simps)
    (simp add: dump_one_def dump_words_eq dump_func_depth.simps [of _ _ _ _ _ "Suc 0"] split: option.split)

text \<open>
  The probe of \<open>tp_lab.c\<close> never fires: it prints for a size of 4096, and the thread only ever
  reports 64, 576, 1088 and 1600 bytes, whatever the addresses and however long it runs.
\<close>

theorem tp_probe_silent:
  "tp_log (tp_thread_fn tsk ps s) = tp_log s \<and> counter (tp_thread_fn tsk ps s) = counter s + of_nat (length ps)"
proof (induction ps arbitrary: s)
  case (Cons p ps)
  have "64 + (counter s mod 4) * 512 \<noteq> 4096"
  proof
    assume a: "64 + (counter s mod 4) * 512 = 4096"
    have "\<forall>n<4. 64 + of_nat n * 512 \<noteq> (4096 :: u64)" by (simp add: all_less_numeral)
    moreover have "unat (counter s mod 4) < 4" by (simp add: unat_mod)
    ultimately have "64 + of_nat (unat (counter s mod 4)) * 512 \<noteq> (4096 :: u64)" by blast
    with a show False by simp
  qed
  then have "tp_log (tp_turn tsk p s) = tp_log s" "counter (tp_turn tsk p s) = counter s + 1"
    by (simp_all add: tp_turn_def tp_lab_hit_def trace_big_alloc_def trace_alloc_def my_probe_def Let_def)
  with Cons show ?case by simp
qed simp

text \<open>
  When \<open>kthread_run\<close> fails after the probe was registered, \<open>tp_lab_init\<close> reports the error
  and leaves the probe registered, although the module that holds it is then discarded.
\<close>

theorem tp_init_error_leaks_probe:
  "fst (tp_lab_init m p True 0 (Some e) s) = e \<and> probed (snd (tp_lab_init m p True 0 (Some e) s)) \<and>
   \<not> probed (tp_lab_exit True s)"
  by (simp add: tp_lab_init_def tp_lab_exit_def tp_print_def Let_def)

end
