(* ===== verification/Sync_Probe.thy ===== *)
theory Sync_Probe
  imports Insn_Decode
begin

section \<open>sync\_probe.c: what the module prints of the kernel's locks\<close>

text \<open>
  The rest of the module around its decoder: small functions that hold one atomic operation
  each, which are run and then dumped, and one function per kind of lock. The kernel's lock
  operations and constants are parameters: a record of them acts on an abstract kernel state
  \<open>'k\<close>.
\<close>

subsection \<open>Atomic operations\<close>

record atomics =
  g_atomic :: u32
  g_cmp :: u32
  g_xchg :: u64
  g_cond :: u64

definition atomics_start :: atomics where
  "atomics_start = \<lparr>g_atomic = 0, g_cmp = 0, g_xchg = 0, g_cond = 1\<rparr>"

definition demo_atomic_add :: "atomics \<Rightarrow> atomics" where
  "demo_atomic_add s = s\<lparr>g_atomic := g_atomic s + 1\<rparr>"

definition demo_atomic_add_return :: "atomics \<Rightarrow> u32 \<times> atomics" where
  "demo_atomic_add_return s = (g_atomic s + 1, s\<lparr>g_atomic := g_atomic s + 1\<rparr>)"

definition demo_atomic_fetch_add :: "atomics \<Rightarrow> u32 \<times> atomics" where
  "demo_atomic_fetch_add s = (g_atomic s, s\<lparr>g_atomic := g_atomic s + 1\<rparr>)"

text \<open>The four orders of \<open>atomic_cmpxchg\<close> have the same effect.\<close>

definition demo_cmpxchg :: "atomics \<Rightarrow> u32 \<times> atomics" where
  "demo_cmpxchg s = (g_cmp s, if g_cmp s = 0 then s\<lparr>g_cmp := 1\<rparr> else s)"

definition demo_try_cmpxchg :: "u32 \<Rightarrow> atomics \<Rightarrow> (bool \<times> u32) \<times> atomics" where
  "demo_try_cmpxchg old s =
     (if g_cmp s = old then ((True, old), s\<lparr>g_cmp := 1\<rparr>) else ((False, g_cmp s), s))"

definition demo_xchg :: "atomics \<Rightarrow> u64 \<times> atomics" where
  "demo_xchg s = (g_xchg s, s\<lparr>g_xchg := 1\<rparr>)"

definition demo_mb_before_atomic :: "atomics \<Rightarrow> atomics" where
  "demo_mb_before_atomic s = s\<lparr>g_atomic := g_atomic s - 1\<rparr>"

text \<open>\<open>smp_cond_load\<close> waits until the value is not zero; nothing else writes it.\<close>

definition demo_cond_load :: "atomics \<Rightarrow> u64 option" where
  "demo_cond_load s = (if g_cond s \<noteq> 0 then Some (g_cond s) else None)"

record sync_env =
  se_mem :: memory
  se_hex :: bool
  se_fn :: "string \<Rightarrow> u64" \<comment> \<open>where a function's code is\<close>
  se_config :: "string \<Rightarrow> bool"
  se_lse :: u64
  se_have_lse :: u64
  se_sizeof :: "string \<Rightarrow> u64"

definition yes_no :: "sync_env \<Rightarrow> string \<Rightarrow> val" where
  "yes_no e c = S (if se_config e c then ''y'' else ''n'')"

definition run_demos :: "atomics \<Rightarrow> atomics" where
  "run_demos s0 =
     (let s1 = demo_atomic_add s0; s2 = snd (demo_atomic_add_return s1); s3 = snd (demo_atomic_fetch_add s2);
          s4 = snd (demo_cmpxchg s3); s5 = snd (demo_cmpxchg s4); s6 = snd (demo_cmpxchg s5);
          s7 = snd (demo_cmpxchg s6); s8 = snd (demo_try_cmpxchg 0 s7)
      in snd (demo_xchg s8))"

definition dumped :: "sync_env \<Rightarrow> (string \<times> string \<times> nat) list \<Rightarrow> line list" where
  "dumped e ds = concat (map (\<lambda>(name, fn, n). dump_func (se_hex e) (se_mem e) name (se_fn e fn) n) ds)"

definition show_atomics :: "sync_env \<Rightarrow> atomics \<Rightarrow> line list \<times> atomics" where
  "show_atomics e s =
     (let s' = run_demos s in
      ([(''  CONFIG_ARM64_LSE_ATOMICS = %s, system_uses_lse_atomics() = %d'', [yes_no e ''ARM64_LSE_ATOMICS'', U (se_lse e)]),
        (''  cpu_have_feature(ARM64_HAS_LSE_ATOMICS) = %d'', [U (se_have_lse e)]),
        ('' g_atomic=%d, g_cmp=%d, g_xchg=%lu'', [I (sint (g_atomic s')), I (sint (g_cmp s')), U (g_xchg s')])]
       @ dumped e [(''atomic_add(1, v)'', ''demo_atomic_add'', 10),
          (''atomic_add_return(1, v)'', ''demo_atomic_add_return'', 10),
          (''atomic_fetch_add(1, v)'', ''demo_atomic_fetch_add'', 10),
          (''atomic_cmpxchg()'', ''demo_cmpxchg'', 12),
          (''atomic_cmpxchg_acquire()'', ''demo_cmpxchg_acquire'', 12),
          (''atomic_cmpxchg_release()'', ''demo_cmpxchg_release'', 12),
          (''atomic_cmpxchg_relaxed()'', ''demo_cmpxchg_relaxed'', 12),
          (''atomic_try_cmpxchg()'', ''demo_try_cmpxchg'', 14),
          (''xchg()'', ''demo_xchg'', 10)], s'))"

definition show_barriers :: "sync_env \<Rightarrow> atomics \<Rightarrow> (line list \<times> atomics) option" where
  "show_barriers e s =
     (let s' = demo_mb_before_atomic s in
      case demo_cond_load s' of
        None \<Rightarrow> None
      | Some _ \<Rightarrow> Some (dumped e [(''smp_mb()'', ''demo_smp_mb'', 4), (''smp_rmb()'', ''demo_smp_rmb'', 4),
          (''smp_wmb()'', ''demo_smp_wmb'', 4), (''mb()'', ''demo_mb'', 4), (''dma_wmb()'', ''demo_dma_wmb'', 4),
          (''smp_mb__before_atomic() + atomic_dec()'', ''demo_mb_before_atomic'', 10),
          (''smp_cond_load_relaxed(ptr, VAL != 0)'', ''demo_cond_load_relaxed'', 16),
          (''smp_cond_load_acquire(ptr, VAL != 0)'', ''demo_cond_load_acquire'', 16)], s'))"

subsection \<open>Spinlocks\<close>

record 'k locks =
  preempt_count :: "'k \<Rightarrow> u32"
  irqs_disabled :: "'k \<Rightarrow> bool"
  spin_lock :: "'k \<Rightarrow> 'k"
  spin_unlock :: "'k \<Rightarrow> 'k"
  spin_lock_irqsave :: "'k \<Rightarrow> u64 \<times> 'k"
  spin_unlock_irqrestore :: "u64 \<Rightarrow> 'k \<Rightarrow> 'k"
  raw_spin_lock :: "'k \<Rightarrow> 'k"
  raw_spin_unlock :: "'k \<Rightarrow> 'k"

definition show_spinlock_semantics :: "sync_env \<Rightarrow> 'k locks \<Rightarrow> u32 \<Rightarrow> 'k \<Rightarrow> line list \<times> 'k" where
  "show_spinlock_semantics e l psr_i k =
     (let pc = preempt_count l; irq = (\<lambda>k. I (of_bool (irqs_disabled l k)));
          k1 = spin_lock l k; k2 = spin_unlock l k1;
          (flags, k3) = spin_lock_irqsave l k2; k4 = spin_unlock_irqrestore l flags k3;
          k5 = raw_spin_lock l k4; k6 = raw_spin_unlock l k5
      in ([(''  CONFIG_PREEMPT_COUNT = %s'', [yes_no e ''PREEMPT_COUNT'']), (''  CONFIG_PREEMPTION    = %s'', [yes_no e ''PREEMPTION'']),
           (''  CONFIG_DEBUG_SPINLOCK= %s'', [yes_no e ''DEBUG_SPINLOCK'']), (''  CONFIG_LOCKDEP       = %s'', [yes_no e ''LOCKDEP'']),
           (''  (a) spin_lock() / spin_unlock()'', []),
           (''      preempt_count : 0x%x 0x%x 0x%x'', [U32 (pc k), U32 (pc k1), U32 (pc k2)]),
           (''      irqs_disabled : %d %d %d'', [irq k, irq k1, irq k2]),
           (''  (b) spin_lock_irqsave() / spin_unlock_irqrestore()'', []),
           (''      preempt_count : 0x%x'', [U32 (pc k3)]),
           (''      irqs_disabled : %d %d %d'', [irq k2, irq k3, irq k4]),
           (''      flags = 0x%lx (PSR_I_BIT=0x%x)'', [U flags, U32 psr_i]),
           (''  (c) raw_spin_lock()'', [])], k6))"

subsection \<open>Queued spinlocks\<close>

text \<open>The kernel's layout constants of the lock word: offset and width of each field.\<close>

record qlayout =
  q_locked :: "nat \<times> nat"
  q_pending :: "nat \<times> nat"
  q_tail_idx :: "nat \<times> nat"
  q_tail_cpu :: "nat \<times> nat"

definition q_mask :: "nat \<times> nat \<Rightarrow> u32" where
  "q_mask f = push_bit (fst f) (mask (snd f))"

definition q_tail_mask :: "qlayout \<Rightarrow> u32" where
  "q_tail_mask q = q_mask (q_tail_idx q) OR q_mask (q_tail_cpu q)"

definition q_row :: "string \<Rightarrow> nat \<times> nat \<Rightarrow> line" where
  "q_row name f = (''  '' @ name @ '' bit[%2d:%2d]    %2d     %2d    0x%08x'',
     [I (int (fst f) + int (snd f) - 1), I (int (fst f)), I (int (fst f)), I (int (snd f)), U32 (q_mask f)])"

definition q_triple :: "qlayout \<Rightarrow> u32 \<Rightarrow> u32 \<times> u32 \<times> u32" where
  "q_triple q v = (drop_bit (fst (q_tail_idx q)) (v AND q_tail_mask q),
     drop_bit (fst (q_pending q)) (v AND q_mask (q_pending q)), v AND q_mask (q_locked q))"

definition q_values :: "string \<Rightarrow> qlayout \<Rightarrow> u32 \<Rightarrow> line" where
  "q_values what q v = (case q_triple q v of (t, p, l) \<Rightarrow>
     (what @ '' val = 0x%08x {%u, %u, %u}'', [U32 v, U32 t, U32 p, U32 l]))"

text \<open>\<open>v0\<close>, \<open>v1\<close>, \<open>v2\<close>: the word of a lock just initialised, taken, and released.\<close>

definition show_qspinlock :: "sync_env \<Rightarrow> qlayout \<Rightarrow> int \<Rightarrow> u32 \<Rightarrow> u32 \<Rightarrow> u32 \<Rightarrow> line list" where
  "show_qspinlock e q nr_cpus v0 v1 v2 =
     [(''  CONFIG_QUEUED_SPINLOCKS = %s, CONFIG_QUEUED_RWLOCKS = %s'', [yes_no e ''QUEUED_SPINLOCKS'', yes_no e ''QUEUED_RWLOCKS'']),
      (''  sizeof(spinlock_t)=%zu  sizeof(raw_spinlock_t)=%zu  sizeof(arch_spinlock_t)=%zu'',
        [U (se_sizeof e ''spinlock_t''), U (se_sizeof e ''raw_spinlock_t''), U (se_sizeof e ''arch_spinlock_t'')]),
      q_row ''locked  '' (q_locked q), q_row ''pending '' (q_pending q), q_row ''tail_idx'' (q_tail_idx q), q_row ''tail_cpu'' (q_tail_cpu q),
      (''  _Q_LOCKED_VAL = 0x%x, _Q_PENDING_VAL = 0x%x, _Q_TAIL_MASK = 0x%08x'',
        [U (push_bit (fst (q_locked q)) 1), U (push_bit (fst (q_pending q)) 1), U32 (q_tail_mask q)]),
      (''  NR_CPUS=%d'', [I nr_cpus]),
      ('' _Q_PENDING_BITS = %d'', [I (int (snd (q_pending q)))]),
      q_values ''init'' q v0, q_values ''spin_lock()'' q v1, (''  spin_unlock() val = 0x%08x'', [U32 v2])]"

subsection \<open>MCS and sleeping locks\<close>

definition show_mcs :: "sync_env \<Rightarrow> int \<Rightarrow> int \<Rightarrow> line list" where
  "show_mcs e tail cpu =
     [(''  sizeof(struct optimistic_spin_queue) = %zu'', [U (se_sizeof e ''optimistic_spin_queue'')]),
      (''  sizeof(struct optimistic_spin_node)  = %zu'', [U (se_sizeof e ''optimistic_spin_node'')]),
      (''  osq_lock_init() tail = %d'', [I tail]), (''  CPU(%d) = %d'', [I cpu, I (cpu + 1)]),
      (''    optimistic_spin_node %zu arch_spinlock_t %zu'',
        [U (se_sizeof e ''optimistic_spin_node''), U (se_sizeof e ''arch_spinlock_t'')]),
      (''    sizeof(spinlock_t)=%zu'', [U (se_sizeof e ''spinlock_t'')])]"

record 'k sleeping =
  mutex_owner :: "'k \<Rightarrow> u64"
  mutex_lock :: "'k \<Rightarrow> 'k"
  mutex_unlock :: "'k \<Rightarrow> 'k"
  rw_count :: "'k \<Rightarrow> int"
  rw_owner :: "'k \<Rightarrow> u64"
  down_read :: "'k \<Rightarrow> 'k"
  up_read :: "'k \<Rightarrow> 'k"
  down_write :: "'k \<Rightarrow> 'k"
  up_write :: "'k \<Rightarrow> 'k"
  sem_count :: "'k \<Rightarrow> u32"

definition owner_is :: "u64 \<Rightarrow> u64 \<Rightarrow> bool" where
  "owner_is w current = (w AND NOT 7 = current)"

definition show_sleeping_locks :: "sync_env \<Rightarrow> 'k sleeping \<Rightarrow> u64 \<Rightarrow> string \<Rightarrow> int \<Rightarrow> int \<Rightarrow> 'k \<Rightarrow> line list \<times> 'k" where
  "show_sleeping_locks e l current cm pd l1_bytes k =
     (let k1 = mutex_lock l k; w = mutex_owner l k1; k2 = mutex_unlock l k1;
          k3 = down_read l k2; k4 = down_read l k3; k5 = up_read l (up_read l k4);
          k6 = down_write l k5; k7 = up_write l k6
      in ([(''  sizeof(struct semaphore)    = %2zu'', [U (se_sizeof e ''semaphore'')]),
           (''  sizeof(struct mutex)        = %2zu'', [U (se_sizeof e ''mutex'')]),
           (''  sizeof(struct rw_semaphore) = %2zu'', [U (se_sizeof e ''rw_semaphore'')]),
           (''  sizeof(spinlock_t)          = %2zu'', [U (se_sizeof e ''spinlock_t'')]),
           (''     MUTEX_FLAG_WAITERS   = 0x%02lx'', [U 1]), (''     MUTEX_FLAG_HANDOFF   = 0x%02lx'', [U 2]),
           (''     MUTEX_FLAG_PICKUP    = 0x%02lx'', [U 4]), (''     L1_CACHE_BYTES(%d)'', [I l1_bytes]),
           (''     CONFIG_MUTEX_SPIN_ON_OWNER = %s'', [yes_no e ''MUTEX_SPIN_ON_OWNER'']),
           (''     CONFIG_RWSEM_SPIN_ON_OWNER = %s'', [yes_no e ''RWSEM_SPIN_ON_OWNER'']),
           (''     mutex_lock() owner = 0x%lx, current = %px (%s/%d)'', [U w, U current, S cm, I pd]),
           (''       -> owner & ~0x07 = 0x%lx  %s current'', [U (w AND NOT 7), S (if owner_is w current then ''=='' else ''!='')]),
           (''     mutex_unlock() owner = 0x%lx'', [U (mutex_owner l k2)]),
           (''     count = %ld'', [I (rw_count l k2)]), (''     down_read() count = %ld'', [I (rw_count l k3)]),
           (''     down_read() count = %ld'', [I (rw_count l k4)]), (''     down_write() count = %ld'', [I (rw_count l k6)]),
           (''     rwsem owner = 0x%lx'', [U (rw_owner l k6)]), (''  semaphore count=%u'', [U32 (sem_count l k7)])], k7))"

subsection \<open>Comparing sequence numbers that wrap\<close>

definition ULONG_MAX :: u64 where "ULONG_MAX = - 1"

definition ULONG_CMP_GE :: "u64 \<Rightarrow> u64 \<Rightarrow> bool" where
  "ULONG_CMP_GE a b \<longleftrightarrow> a - b \<le> ULONG_MAX div 2"

definition ULONG_CMP_LT :: "u64 \<Rightarrow> u64 \<Rightarrow> bool" where
  "ULONG_CMP_LT a b \<longleftrightarrow> ULONG_MAX div 2 < a - b"

definition show_ulong_cmp :: "line list" where
  "show_ulong_cmp =
     (let a = ULONG_MAX - 2; b = 3; c = 100; d = 50 in
      [('' a = %lu (ULONG_MAX-2), b = %lu'', [U a, U b]),
       (''    a > b  = %d'', [I (of_bool (b < a))]),
       (''    ULONG_CMP_LT(a, b) = %d'', [I (of_bool (ULONG_CMP_LT a b))]),
       (''    ULONG_CMP_GE(b, a) = %d'', [I (of_bool (ULONG_CMP_GE b a))]),
       (''    a - b = %lu, ULONG_MAX/2 = %lu'', [U (a - b), U (ULONG_MAX div 2)]),
       (''    a > b = %d, ULONG_CMP_GE(a, b) = %d'', [I (of_bool (d < c)), I (of_bool (ULONG_CMP_GE c d))])])"

subsection \<open>The page lock\<close>

text \<open>A page's flag word; \<open>lock_bit\<close> is \<open>PG_locked\<close>.\<close>

definition page_locked :: "nat \<Rightarrow> u64 \<Rightarrow> bool" where
  "page_locked lock_bit fl = bit fl lock_bit"

definition trylock_page :: "nat \<Rightarrow> u64 \<Rightarrow> bool \<times> u64" where
  "trylock_page lock_bit fl = (\<not> bit fl lock_bit, fl OR push_bit lock_bit 1)"

definition unlock_page :: "nat \<Rightarrow> u64 \<Rightarrow> u64" where
  "unlock_page lock_bit fl = fl AND NOT (push_bit lock_bit 1)"

definition show_pg_locked :: "nat \<Rightarrow> (u64 \<times> u64) option \<Rightarrow> line list \<times> u64 option" where
  "show_pg_locked lock_bit page =
     (case page of
        None \<Rightarrow> ([(''  alloc_page'', [])], None)
      | Some (pfn, f0) \<Rightarrow>
          let d = (\<lambda>b. I (of_bool b)); (r1, f1) = trylock_page lock_bit f0; (r2, f2) = trylock_page lock_bit f1;
              f3 = unlock_page lock_bit f2
          in ([(''  pfn=%lu  flags=0x%lx  PageLocked=%d'', [U pfn, U f0, d (page_locked lock_bit f0)]),
               (''  trylock_page() = %d'', [d r1]),
               (''  flags=0x%lx  PageLocked=%d  PG_locked = bit %d'', [U f1, d (page_locked lock_bit f1), I (int lock_bit)]),
               (''  trylock_page() = %d'', [d r2]),
               (''  unlock_page() flags=0x%lx  PageLocked=%d'', [U f3, d (page_locked lock_bit f3)])], Some f3))"

definition sync_probe_init :: "sync_env \<Rightarrow> 'k locks \<Rightarrow> 'k sleeping \<Rightarrow> u32 \<Rightarrow> qlayout \<Rightarrow> int \<Rightarrow> u32 \<times> u32 \<times> u32 \<Rightarrow> int \<Rightarrow> int
    \<Rightarrow> u64 \<Rightarrow> string \<Rightarrow> int \<Rightarrow> int \<Rightarrow> nat \<Rightarrow> (u64 \<times> u64) option \<Rightarrow> 'k \<Rightarrow> (line list \<times> 'k) option" where
  "sync_probe_init e l sl psr_i q nr_cpus vs tail cpu current cm pd l1 lock_bit page k =
     (let (o1, s1) = show_atomics e atomics_start in
      case show_barriers e s1 of
        None \<Rightarrow> None
      | Some (o2, s2) \<Rightarrow>
          let (o3, k1) = show_spinlock_semantics e l psr_i k; (v0, v1, v2) = vs;
              (o4, k2) = show_sleeping_locks e sl current cm pd l1 k1
          in Some (o1 @ o2 @ o3 @ show_qspinlock e q nr_cpus v0 v1 v2 @ show_mcs e tail cpu @ o4 @ show_ulong_cmp
               @ fst (show_pg_locked lock_bit page) @ [(''######## done'', [])], k2))"

section \<open>Properties\<close>

lemma demos_run: "run_demos atomics_start = \<lparr>g_atomic = 3, g_cmp = 1, g_xchg = 1, g_cond = 1\<rparr>"
  by (simp add: run_demos_def atomics_start_def demo_atomic_add_def demo_atomic_add_return_def demo_atomic_fetch_add_def
      demo_cmpxchg_def demo_try_cmpxchg_def demo_xchg_def Let_def)

lemma barriers_return: "show_barriers e (snd (show_atomics e atomics_start)) \<noteq> None"
  by (simp add: show_barriers_def show_atomics_def demos_run demo_mb_before_atomic_def demo_cond_load_def Let_def)

text \<open>
  The sequence comparisons survive the wrap: if \<open>b\<close> is fewer than \<open>2 ^ 63\<close> steps after \<open>a\<close>,
  wherever the counter stands and whether or not it wrapped in between, \<open>ULONG_CMP_GE b a\<close>
  holds and \<open>ULONG_CMP_LT a b\<close> holds exactly when there was a step; and the two are each
  other's complement for all operands.
\<close>

theorem ulong_cmp_wraps:
  assumes "d < 2 ^ 63"
  shows "ULONG_CMP_GE (a + of_nat d) a \<and> (ULONG_CMP_LT a (a + of_nat d) \<longleftrightarrow> 0 < d) \<and>
    (ULONG_CMP_LT x y \<longleftrightarrow> \<not> ULONG_CMP_GE x y)"
proof -
  have half: "ULONG_MAX div 2 = 0x7fffffffffffffff" by (simp add: ULONG_MAX_def)
  have u: "unat (of_nat d :: u64) = d" using assms by (simp add: unat_of_nat take_bit_eq_mod)
  have "(of_nat d :: u64) \<le> 0x7fffffffffffffff" using assms u by (simp add: word_le_nat_alt)
  moreover have "0x7fffffffffffffff < - (of_nat d :: u64) \<longleftrightarrow> 0 < d"
  proof (cases "d = 0")
    case False
    have "(of_nat (2 ^ 64 - d) :: u64) = - of_nat d" using assms by (simp add: of_nat_diff)
    then have "unat (- (of_nat d :: u64)) = 2 ^ 64 - d"
      using False assms unat_of_nat [where 'a = 64, of "2 ^ 64 - d"] by (simp add: take_bit_eq_mod)
    with False assms show ?thesis by (simp add: word_less_nat_alt)
  qed simp
  ultimately show ?thesis by (auto simp: ULONG_CMP_GE_def ULONG_CMP_LT_def half not_le)
qed

theorem ulong_cmp_wraps_witness:
  "ULONG_CMP_LT (ULONG_MAX - 2) 3 \<and> ULONG_CMP_GE 3 (ULONG_MAX - 2)"
  using ulong_cmp_wraps [of 6 "ULONG_MAX - 2" 0 0] by (simp add: ULONG_MAX_def)

text \<open>
  The triple loses nothing: for any layout that tiles the 32 bits of the lock word (both of
  the kernel's, with 8 or with 1 pending bits), the tail, pending and locked values the module
  prints, put back at their offsets, are the word it read.
\<close>

theorem q_triple_recomposes:
  assumes "q_locked q = (0, l)" "q_pending q = (l, p)" "q_tail_idx q = (l + p, i)" "q_tail_cpu q = (l + p + i, c)"
    and "l + p + i + c = 32"
  shows "case q_triple q v of (tail, pend, locked) \<Rightarrow>
    push_bit (l + p) tail OR push_bit l pend OR locked = v"
proof -
  have "bit (push_bit (l + p) (drop_bit (l + p) (v AND (q_mask (l + p, i) OR q_mask (l + p + i, c))))
      OR push_bit l (drop_bit l (v AND q_mask (l, p))) OR v AND q_mask (0, l)) n = bit v n" if "n < 32" for n
    using that assms(5) by (cases "n < l"; cases "n < l + p") (auto simp: q_mask_def bit_simps)
  then show ?thesis
    unfolding q_triple_def q_tail_mask_def assms(1-4) prod.case fst_conv by (intro bit_word_eqI) simp
qed

theorem q_triple_recomposes_witness:
  "q_triple \<lparr>q_locked = (0, 8), q_pending = (8, 8), q_tail_idx = (16, 2), q_tail_cpu = (18, 14)\<rparr> 0x40101 = (4, 1, 1) \<and>
   push_bit (8 + 8) 4 OR push_bit 8 1 OR 1 = (0x40101 :: u32)"
proof -
  let ?q = "\<lparr>q_locked = (0, 8), q_pending = (8, 8), q_tail_idx = (16, 2), q_tail_cpu = (18, 14)\<rparr>"
  have t: "q_triple ?q 0x40101 = (4, 1, 1)"
    by (simp add: q_triple_def q_mask_def q_tail_mask_def mask_eq_exp_minus_1)
  with q_triple_recomposes [of ?q 8 8 2 14 "0x40101"] show ?thesis by simp
qed

text \<open>What the kernel documents of its spinlocks: releasing undoes taking.\<close>

definition locks_documented :: "'k locks \<Rightarrow> bool" where
  "locks_documented l \<longleftrightarrow>
     (\<forall>k. preempt_count l (spin_unlock l (spin_lock l k)) = preempt_count l k \<and>
        irqs_disabled l (spin_unlock l (spin_lock l k)) = irqs_disabled l k) \<and>
     (\<forall>k flags k'. spin_lock_irqsave l k = (flags, k') \<longrightarrow> irqs_disabled l k' \<and>
        preempt_count l (spin_unlock_irqrestore l flags k') = preempt_count l k \<and>
        irqs_disabled l (spin_unlock_irqrestore l flags k') = irqs_disabled l k) \<and>
     (\<forall>k. preempt_count l (raw_spin_unlock l (raw_spin_lock l k)) = preempt_count l k \<and>
        irqs_disabled l (raw_spin_unlock l (raw_spin_lock l k)) = irqs_disabled l k)"

lemma spinlock_demo_restores:
  assumes "locks_documented l"
  shows "preempt_count l (snd (show_spinlock_semantics e l i k)) = preempt_count l k \<and>
    irqs_disabled l (snd (show_spinlock_semantics e l i k)) = irqs_disabled l k"
proof -
  obtain flags k' where "spin_lock_irqsave l (spin_unlock l (spin_lock l k)) = (flags, k')"
    by (cases "spin_lock_irqsave l (spin_unlock l (spin_lock l k))")
  with assms show ?thesis by (simp add: show_spinlock_semantics_def locks_documented_def Let_def)
qed

lemma page_lock_demo:
  assumes "\<not> bit f lock_bit" "lock_bit < 64"
  shows "trylock_page lock_bit f = (True, f OR push_bit lock_bit 1)"
    and "fst (trylock_page lock_bit (f OR push_bit lock_bit 1)) = False"
    and "snd (show_pg_locked lock_bit (Some (pfn, f))) = Some f"
proof -
  have "(f OR push_bit lock_bit 1) AND NOT (push_bit lock_bit 1) = f"
    by (rule bit_word_eqI) (use assms in \<open>auto simp: bit_simps\<close>)
  then show "snd (show_pg_locked lock_bit (Some (pfn, f))) = Some f"
    by (simp add: show_pg_locked_def trylock_page_def unlock_page_def Let_def)
qed (use assms in \<open>simp_all add: trylock_page_def bit_simps\<close>)

end
