(* ===== verification/Sched_Math.thy ===== *)
theory Sched_Math
  imports Proc_Files
begin

section \<open>sched_probe.c: the scheduler's integer arithmetic\<close>

text \<open>
  \<open>sched_probe.c\<close> copies three pieces of the CFS scheduler and prints what they compute: the
  weight tables of the nice levels, \<open>my_calc_delta\<close> (scaling a time by a weight with a
  multiplication and a shift), and \<open>my_decay_load\<close> (PELT's geometric decay). It also dumps
  ASIDs, the layout of the saved context and a task's fields, and shows what \<open>schedule()\<close> does
  to the interrupt and preemption state. \<open>sched_weight.c\<close> reads the counters of other processes.

  \<open>mul_u64_u32_shr\<close> is a kernel helper; it is the argument \<open>ms\<close> below, documented by
  \<open>mul_shr_documented\<close>: the 128-bit product, shifted, cut to 64 bits.
\<close>

type_synonym mul_shr = "u64 \<Rightarrow> u32 \<Rightarrow> nat \<Rightarrow> u64"

subsection \<open>Weights\<close>

definition my_prio_to_weight :: "nat list" where
  "my_prio_to_weight = [
     88761, 71755, 56483, 46273, 36291,
     29154, 23254, 18705, 14949, 11916,
      9548,  7620,  6100,  4904,  3906,
      3121,  2501,  1991,  1586,  1277,
      1024,   820,   655,   526,   423,
       335,   272,   215,   172,   137,
       110,    87,    70,    56,    45,
        36,    29,    23,    18,    15]"

definition my_prio_to_wmult :: "nat list" where
  "my_prio_to_wmult = [
         48388,     59856,     76040,     92818,    118348,
        147320,    184698,    229616,    287308,    360437,
        449829,    563644,    704093,    875809,   1099582,
       1376151,   1717300,   2157191,   2708050,   3363326,
       4194304,   5237765,   6557202,   8165337,  10153587,
      12820798,  15790321,  19976592,  24970740,  31350126,
      39045157,  49367440,  61356676,  76695844,  95443717,
     119304647, 148102320, 186737708, 238609294, 286331153]"

text \<open>The integer power loop: \<open>1024 / 1.25 ^ nice\<close>, twenty fractional bits.\<close>

fun scale_step :: "bool \<Rightarrow> nat \<Rightarrow> u64 \<Rightarrow> u64" where
  "scale_step pos 0 num = num"
| "scale_step pos (Suc k) num = scale_step pos k (if pos then num * 4 div 5 else num * 5 div 4)"

definition weight_row :: "nat \<Rightarrow> line" where
  "weight_row i =
     (let nice = int i - 20; w = (of_nat (my_prio_to_weight ! i) :: u32);
          inv = (ucast (0xffffffff div (ucast w :: u64)) :: u32);
          num = scale_step (0 < nice) (nat \<bar>nice\<bar>) (push_bit 20 1024)
      in (''   %-5d %-9u %-12u %-12u %-12llu'',
          [I nice, U32 w, U32 (of_nat (my_prio_to_wmult ! i)), U32 inv, U (num div push_bit 20 1)]))"

definition show_weight_table :: "nat \<Rightarrow> line list" where
  "show_weight_table fixedpoint_shift =
     [(''== Ch8 Q1/Q7  nice -> weight -> inv_weight =='', []),
      (''   NICE_0_LOAD = %ld  (SCHED_FIXEDPOINT_SHIFT(%d))'',
        [U (push_bit fixedpoint_shift 1024), I (int fixedpoint_shift)]),
      (''   nice weight wmult 2^32/weight 1024/1.25^n'', [])]
     @ map weight_row (map (\<lambda>k. 5 * k) [0..<8])"

subsection \<open>\<open>my_calc_delta\<close>\<close>

text \<open>\<open>while (fct >> 32) { fct >>= 1; shift--; }\<close>\<close>

function shrink :: "u64 \<Rightarrow> int \<Rightarrow> u64 \<times> int" where
  "shrink fct shift = (if drop_bit 32 fct \<noteq> 0 then shrink (drop_bit 1 fct) (shift - 1) else (fct, shift))"
  by pat_completeness auto
termination
proof (relation "measure (\<lambda>(f, _). unat f)")
  fix fct :: u64 and shift :: int
  assume "drop_bit 32 fct \<noteq> 0"
  then have "unat fct \<noteq> 0" by (metis drop_bit_of_0 unat_eq_zero)
  moreover have "unat (drop_bit 1 fct) = unat fct div 2"
    by (simp only: unat_drop_bit power_one_right)
  ultimately show "((drop_bit 1 fct, shift - 1), fct, shift) \<in> measure (\<lambda>(f, _). unat f)"
    by simp
qed simp

declare shrink.simps [simp del]

definition my_calc_delta :: "u64 \<Rightarrow> u64 \<Rightarrow> u32 \<Rightarrow> u64" where
  "my_calc_delta delta_exec weight inv_weight =
     (case shrink (ucast (ucast weight :: u32) * ucast inv_weight) 32 of
        (fct, shift) \<Rightarrow> drop_bit (nat shift) (delta_exec * fct))"

definition calc_row :: "int \<Rightarrow> line" where
  "calc_row n =
     (let w = (of_nat (my_prio_to_weight ! nat (n + 20)) :: u32);
          inv = (of_nat (my_prio_to_wmult ! nat (n + 20)) :: u32);
          v = my_calc_delta 10000000 1024 inv
      in (''   nice=%-3d weight=%-6u inv=%-11u vruntime = %llu ns (= 10ms * 1024/%u)'',
          [I n, U32 w, U32 inv, U v, U32 w]))"

definition show_calc_delta :: "line list" where
  "show_calc_delta = (''== Ch8 Q3  calc_delta_fair(10ms, nice)'', []) # map calc_row [- 5, 0, 1, 5, 19]"

subsection \<open>PELT\<close>

definition my_yN_inv :: "u32 list" where
  "my_yN_inv = [
     0xffffffff, 0xfa83b2da, 0xf5257d14, 0xefe4b99a, 0xeac0c6e6, 0xe5b906e6,
     0xe0ccdeeb, 0xdbfbb796, 0xd744fcc9, 0xd2a81d91, 0xce248c14, 0xc9b9bd85,
     0xc5672a10, 0xc12c4cc9, 0xbd08a39e, 0xb8fbaf46, 0xb504f333, 0xb123f581,
     0xad583ee9, 0xa9a15ab4, 0xa5fed6a9, 0xa2704302, 0x9ef5325f, 0x9b8d39b9,
     0x9837f050, 0x94f4efa8, 0x91c3d373, 0x8ea4398a, 0x8b95c1e3, 0x88980e80,
     0x85aac367, 0x82cd8698]"

definition my_decay_load :: "mul_shr \<Rightarrow> u64 \<Rightarrow> u64 \<Rightarrow> u64" where
  "my_decay_load ms v n =
     (if 32 * 63 < n then 0
      else let local_n = unat (ucast n :: u32)
        in if 32 \<le> local_n then ms (drop_bit (local_n div 32) v) (my_yN_inv ! (local_n mod 32)) 32
           else ms v (my_yN_inv ! local_n) 32)"

text \<open>The convergence loop, with the number of rounds made: at most 1000.\<close>

fun converge :: "mul_shr \<Rightarrow> nat \<Rightarrow> nat \<Rightarrow> u64 \<Rightarrow> u64 \<times> nat" where
  "converge ms 0 n s = (s, n)"
| "converge ms (Suc k) n s =
     (let s' = ms s (my_yN_inv ! 1) 32 + 1024
      in if s' = s then (s, n) else converge ms k (Suc n) s')"

text \<open>\<open>t50\<close>, \<open>t80\<close>, \<open>t95\<close>: the first \<open>n\<close> below 1024 at which the utilisation reaches the share.\<close>

definition reach :: "mul_shr \<Rightarrow> u64 \<Rightarrow> int" where
  "reach ms share =
     (case find_index (\<lambda>n. 1024 * share \<le> (1024 - my_decay_load ms 1024 (of_nat n)) * 100) [0..<1024] of
        None \<Rightarrow> - 1 | Some n \<Rightarrow> int n)"

definition show_pelt :: "mul_shr \<Rightarrow> line list" where
  "show_pelt ms =
     (let d = (\<lambda>n. U (my_decay_load ms 1024 n)); r = converge ms 1000 0 1024
      in [(''== Ch8 Q19/Q20  PELT'', []),
          (''   y = 0.5^(1/32): decay_load(1024, 32) = %llu (= 1024/2)'', [d 32]),
          (''   decay_load(1024, 1)=%llu  (10) (32) (64) (2016) (2017)'',
             [d 1, d 10, d 32, d 64, d 2016, d 2017]),
          (''   sum 1024*y^n = %llu, %d, LOAD_AVG_MAX = %d'', [U (fst r), I (int (snd r)), I 47742]),
          (''   PELT divider = LOAD_AVG_MAX - 1024 + period_contrib = %d ~ %d'', [I (47742 - 1024), I (47742 - 1)]),
          (''   util(n)=1024*(1-y^n): %d ms 50%%, %d ms 80%%, %d ms 95%%'',
             [I (reach ms 50), I (reach ms 80), I (reach ms 95)]),
          (''   32*63 = 2016ms'', [])])"

subsection \<open>ASIDs, the saved context, a task's fields\<close>

record asid_regs =
  mmfr0_el1 :: u64
  ttbr0_el1 :: u64
  ttbr1_el1 :: u64
  tcr_el1 :: u64

record mm_view =
  mm_context_id :: u64
  mm_pgd :: u64
  mm_pgd_pa :: u64

text \<open>
  \<open>asid_shift\<close> is the header's \<open>ID_AA64MMFR0_EL1_ASIDBITS_SHIFT\<close>; \<open>kpti\<close> is \<open>None\<close> without
  \<open>CONFIG_UNMAP_KERNEL_AT_EL0\<close>.
\<close>

definition asid_bits :: "nat \<Rightarrow> asid_regs \<Rightarrow> nat" where
  "asid_bits asid_shift r = (if drop_bit asid_shift (mmfr0_el1 r) AND 0xf = 2 then 16 else 8)"

definition hw_asid :: "nat \<Rightarrow> u64 \<Rightarrow> u64" where "hw_asid bits i = i AND (push_bit bits 1 - 1)"
definition sw_generation :: "nat \<Rightarrow> u64 \<Rightarrow> u64" where "sw_generation bits i = drop_bit bits i"

definition show_asid :: "nat \<Rightarrow> bool option \<Rightarrow> asid_regs \<Rightarrow> string \<Rightarrow> int \<Rightarrow> mm_view option \<Rightarrow> line list" where
  "show_asid asid_shift kpti r comm pid mmv =
     (let bits = asid_bits asid_shift r; a1 = drop_bit 22 (tcr_el1 r) AND 1
      in [(''== Ch8 Q13  ARM64 ASID / TLB =='', []),
          (''   ID_AA64MMFR0_EL1        = 0x%016llx ASIDBits = %d, %d bit, %d'',
             [U (mmfr0_el1 r), U (drop_bit asid_shift (mmfr0_el1 r) AND 0xf), I (int bits), I (2 ^ bits)]),
          (''   TCR_EL1                 = 0x%016llx A1(bit22)=%llu -> ASID %s'',
             [U (tcr_el1 r), U a1, S (if a1 \<noteq> 0 then ''TTBR1_EL1'' else ''TTBR0_EL1'')]),
          (''   TTBR0_EL1               = 0x%016llx  (ASID=%llu, BADDR=0x%llx)'',
             [U (ttbr0_el1 r), U (drop_bit 48 (ttbr0_el1 r)), U (ttbr0_el1 r AND genmask 47 0)]),
          (''   TTBR1_EL1               = 0x%016llx  (ASID=%llu, BADDR=0x%llx)'',
             [U (ttbr1_el1 r), U (drop_bit 48 (ttbr1_el1 r)), U (ttbr1_el1 r AND genmask 47 0)]),
          (case kpti of
             None \<Rightarrow> (''   kpti (UNMAP_KERNEL_AT_EL0) = not compiled'', [])
           | Some on \<Rightarrow> (''   kpti (UNMAP_KERNEL_AT_EL0) = %s -> %s'',
               [S (if on then ''enabled'' else ''compiled, off''), S (if on then ''pair'' else ''single'')]))]
         @ (case mmv of None \<Rightarrow> []
            | Some mm \<Rightarrow>
               [(''   current(%s/%d) mm->context.id = 0x%llx -> ASID = %llu, generation = %llu'',
                  [S comm, I pid, U (mm_context_id mm), U (hw_asid bits (mm_context_id mm)),
                   U (sw_generation bits (mm_context_id mm))]),
                (''   mm->pgd = %px, __pa(pgd) = 0x%llx'', [U (mm_pgd mm), U (mm_pgd_pa mm)])]))"

text \<open>Sizes and offsets of kernel structures, which the compiler computes from kernel headers.\<close>

record ctx_layout =
  sz_task :: u64
  sz_thread :: u64
  sz_cpu_context :: u64
  sz_pt_regs :: u64
  thread_size :: u64
  off_thread :: u64
  off_cpu_context :: u64
  off_x19 :: u64
  off_x28 :: u64
  off_fp :: u64
  off_sp :: u64
  off_pc :: u64

record ctx_now =
  saved_pc :: u64
  saved_sp :: u64
  stack_base :: u64
  pt_regs_at :: u64
  sp_el0_reg :: u64
  current_at :: u64

definition show_context :: "ctx_layout \<Rightarrow> ctx_now \<Rightarrow> line list" where
  "show_context l c =
     [(''== Ch8 Q43~Q45'', []),
      (''   sizeof(struct task_struct)  = %zu B'', [U (sz_task l)]),
      (''   sizeof(struct thread_struct)= %zu B'', [U (sz_thread l)]),
      (''   sizeof(struct cpu_context)  = %zu B'', [U (sz_cpu_context l)]),
      (''   sizeof(struct pt_regs)      = %zu B'', [U (sz_pt_regs l)]),
      (''   THREAD_SIZE                 = %lu B'', [U (thread_size l)]),
      (''   offsetof(task_struct, thread)               = %zu'', [U (off_thread l)]),
      (''   offsetof(task_struct, thread.cpu_context)   = %zu'', [U (off_cpu_context l)]),
      (''   cpu_context: x19=%zu x28=%zu fp=%zu sp=%zu pc=%zu'',
         [U (off_x19 l), U (off_x28 l), U (off_fp l), U (off_sp l), U (off_pc l)]),
      (''   current cpu_context.pc = %pS, sp = 0x%lx'', [U (saved_pc c), U (saved_sp c)]),
      (''   current->stack = %px, task_pt_regs(current) = %px'', [U (stack_base c), U (pt_regs_at c)]),
      (''   read_sysreg(sp_el0) = 0x%llx, current = %px'', [U (sp_el0_reg c), U (current_at c)])]"

record task_fields =
  tf_comm :: string
  tf_pid :: int
  tf_prio :: int
  tf_static_prio :: int
  tf_normal_prio :: int
  tf_rt_priority :: u32
  tf_policy :: u32
  tf_class :: u64
  tf_weight :: u64
  tf_inv_weight :: u32
  tf_vruntime :: u64
  tf_sum_exec :: u64
  tf_exec_start :: u64
  tf_load_sum :: u64
  tf_runnable_sum :: u64
  tf_util_sum :: u32
  tf_period_contrib :: u32
  tf_load_avg :: u64
  tf_runnable_avg :: u64
  tf_util_avg :: u64
  tf_util_enqueued :: u32
  tf_util_ewma :: u32
  tf_on_cpu :: int
  tf_on_rq :: int
  tf_se_on_rq :: u32
  tf_task_cpu :: int
  tf_wake_cpu :: int
  tf_recent_cpu :: int
  tf_wakee_flips :: u32
  tf_wakee_decay_ts :: u64
  tf_last_wakee :: "string option"
  tf_nr_cpus :: int
  tf_cpus_mask :: string
  tf_migrations :: u64
  tf_nvcsw :: u64
  tf_nivcsw :: u64

text \<open>\<open>prio_to_nice\<close> is the header's \<open>PRIO_TO_NICE\<close>.\<close>

definition dump_task :: "(int \<Rightarrow> int) \<Rightarrow> task_fields \<Rightarrow> line list" where
  "dump_task prio_to_nice p =
     [(''== %s/%d (Ch9 Q7 / Ch8 Q28) =='', [S (tf_comm p), I (tf_pid p)]),
      (''   prio=%d  static_prio=%d  normal_prio=%d  rt_priority=%u  nice=%ld'',
         [I (tf_prio p), I (tf_static_prio p), I (tf_normal_prio p), U32 (tf_rt_priority p),
          I (prio_to_nice (tf_static_prio p))]),
      (''   policy=%u  sched_class=%pS'', [U32 (tf_policy p), U (tf_class p)]),
      (''   se.load.weight=%lu  se.load.inv_weight=%u'', [U (tf_weight p), U32 (tf_inv_weight p)]),
      (''   se.vruntime=%llu  se.sum_exec_runtime=%llu  se.exec_start=%llu'',
         [U (tf_vruntime p), U (tf_sum_exec p), U (tf_exec_start p)]),
      (''   se.avg: load_sum=%llu runnable_sum=%llu util_sum=%u period_contrib=%u'',
         [U (tf_load_sum p), U (tf_runnable_sum p), U32 (tf_util_sum p), U32 (tf_period_contrib p)]),
      (''   se.avg: load_avg=%lu runnable_avg=%lu util_avg=%lu util_est=(%u,%u)'',
         [U (tf_load_avg p), U (tf_runnable_avg p), U (tf_util_avg p), U32 (tf_util_enqueued p), U32 (tf_util_ewma p)]),
      (''   on_cpu=%d  on_rq=%d  se.on_rq=%d  cpu(task_cpu)=%d  wake_cpu=%d  recent_used_cpu=%d'',
         [I (tf_on_cpu p), I (tf_on_rq p), U32 (tf_se_on_rq p), I (tf_task_cpu p), I (tf_wake_cpu p), I (tf_recent_cpu p)]),
      (''   wakee_flips=%u  wakee_flip_decay_ts=%lu  last_wakee=%s'',
         [U32 (tf_wakee_flips p), U (tf_wakee_decay_ts p),
          S (case tf_last_wakee p of None \<Rightarrow> ''(null)'' | Some c \<Rightarrow> c)]),
      (''   nr_cpus_allowed=%d  cpus_mask=%*pbl  se.nr_migrations=%llu'',
         [I (tf_nr_cpus p), S (tf_cpus_mask p), U (tf_migrations p)]),
      (''   nvcsw=%lu  nivcsw=%lu'', [U (tf_nvcsw p), U (tf_nivcsw p)])]"

subsection \<open>\<open>schedule()\<close> with interrupts off and in atomic context\<close>

text \<open>
  The state of this CPU the two tests look at. \<open>schedule\<close> is the kernel's, an argument;
  \<open>timer\<close> holds what the timer callback sees: \<open>in_interrupt()\<close>, \<open>preempt_count()\<close> and
  \<open>in_atomic()\<close> of the soft interrupt.
\<close>

record cpu_state =
  irqs_off :: bool
  preempt :: u32

definition test_irq_across_schedule :: "(cpu_state \<Rightarrow> cpu_state) \<Rightarrow> cpu_state \<Rightarrow> line list \<times> cpu_state" where
  "test_irq_across_schedule schedule c =
     (let c1 = c\<lparr>irqs_off := True\<rparr>; before = irqs_off c1;
          c2 = schedule c1; inside_after = irqs_off c2; c3 = c2\<lparr>irqs_off := False\<rparr>
      in ([(''== Ch9 Q13  raw_local_irq_disable() -> schedule() =='', []),
           (''   before schedule() irqs_disabled() = %d'', [I (of_bool before)]),
           (''   after  schedule() irqs_disabled() = %d'', [I (of_bool inside_after)]),
           (''   __schedule() -> context_switch() -> finish_task_switch() ->'', []),
           (''         finish_lock_switch() -> raw_spin_unlock_irq(&rq->lock)'', []),
           (''         (remark)'', [])], c3))"

definition probe_timer_fn :: "u64 \<times> u32 \<times> bool \<Rightarrow> line list" where
  "probe_timer_fn t = (case t of (in_int, cnt, atomic) \<Rightarrow>
     [(''sched_probe: [timer softirq] in_interrupt()=%lu preempt_count=0x%x'', [U in_int, U32 cnt]),
      (''sched_probe: [timer softirq] might_sleep()'', []),
      (''sched_probe: [timer softirq] in_atomic()=%d'', [I (of_bool atomic)])])"

definition test_atomic_sleep ::
    "(cpu_state \<Rightarrow> cpu_state) \<Rightarrow> u64 \<times> u32 \<times> bool \<Rightarrow> cpu_state \<Rightarrow> line list \<times> cpu_state" where
  "test_atomic_sleep schedule timer c =
     (let c1 = c\<lparr>preempt := preempt c + 1\<rparr>; c2 = schedule c1;
          c3 = (if preempt c2 \<noteq> 0 then c2\<lparr>preempt := preempt c2 - 1\<rparr> else c2)
      in ([(''== Ch9 Q12  schedule() =='', []), (''   (a) preempt_count:'', [])]
          @ probe_timer_fn timer
          @ [(''   (b) preempt_disable() + schedule() -> BUG splat:'', []),
             (''       before preempt_count = 0x%x, in_atomic() = %d'',
               [U32 (preempt c1), I (of_bool (preempt c1 \<noteq> 0))]),
             (''       after preempt_count = 0x%x'', [U32 (preempt c2)])], c3))"

text \<open>
  Module load: parameters \<open>target\<close> (\<open>target_pid\<close> and the task \<open>get_pid_task\<close> finds, if any),
  \<open>test_irq\<close>, \<open>test_atomic\<close>; the values the kernel supplies are the record \<open>probe_env\<close>.
\<close>

record probe_env =
  pe_release :: string
  pe_fixed_shift :: nat
  pe_mul_shr :: mul_shr
  pe_asid_shift :: nat
  pe_kpti :: "bool option"
  pe_regs :: asid_regs
  pe_mm :: "mm_view option"
  pe_layout :: ctx_layout
  pe_now :: ctx_now
  pe_prio_to_nice :: "int \<Rightarrow> int"
  pe_current :: task_fields
  pe_find_task :: "int \<Rightarrow> task_fields option"
  pe_schedule :: "cpu_state \<Rightarrow> cpu_state"
  pe_timer :: "u64 \<times> u32 \<times> bool"

definition sched_probe_init :: "probe_env \<Rightarrow> int \<Rightarrow> bool \<Rightarrow> bool \<Rightarrow> cpu_state \<Rightarrow> line list \<times> cpu_state" where
  "sched_probe_init e target_pid test_irq test_atomic c =
     (let irq = (if test_irq then test_irq_across_schedule (pe_schedule e) c else ([], c));
          atomic = (if test_atomic then test_atomic_sleep (pe_schedule e) (pe_timer e) (snd irq) else ([], snd irq))
      in ([(''---- RK3588, kernel %s ----'', [S (pe_release e)])]
          @ show_weight_table (pe_fixed_shift e) @ show_calc_delta @ show_pelt (pe_mul_shr e)
          @ show_asid (pe_asid_shift e) (pe_kpti e) (pe_regs e) (tf_comm (pe_current e)) (tf_pid (pe_current e)) (pe_mm e)
          @ show_context (pe_layout e) (pe_now e)
          @ dump_task (pe_prio_to_nice e) (pe_current e)
          @ (if target_pid \<noteq> 0
             then (case pe_find_task e target_pid of
                 Some p \<Rightarrow> dump_task (pe_prio_to_nice e) p
               | None \<Rightarrow> [(''no pid %d'', [I target_pid])])
             else [])
          @ fst irq @ fst atomic @ [(''---- done, rmmod ----'', [])], snd atomic))"

subsection \<open>sched_weight.c: another process's counters\<close>

text \<open>
  \<open>read_cputime\<close>: \<open>/proc/pid/stat\<close> is \<open>pid (comm) state ...\<close> and \<open>comm\<close> may hold anything, so
  counting starts after the last closing parenthesis, with field 3. \<open>stat_fields\<close> is the loop
  from field \<open>i\<close> with text \<open>p\<close>; the result is utime plus stime. \<open>atol\<close> reads a leading number,
  0 if there is none.
\<close>

definition after_space :: "string \<Rightarrow> string option" where
  "after_space p = (case dropWhile (\<lambda>c. c \<noteq> sp) p of [] \<Rightarrow> None | _ # r \<Rightarrow> Some r)"

fun stat_fields :: "nat \<Rightarrow> nat \<Rightarrow> string \<Rightarrow> int \<Rightarrow> int" where
  "stat_fields 0 i p ut = ut"
| "stat_fields (Suc k) i p ut =
     (let ut' = (if i = 14 then atol p else ut)
      in if i = 15 then ut' + atol p
         else case after_space p of None \<Rightarrow> ut' | Some q \<Rightarrow> stat_fields k (Suc i) q ut')"

definition after_last :: "char \<Rightarrow> string \<Rightarrow> string option" where
  "after_last c s = (if c \<in> set s then Some (rev (takeWhile (\<lambda>d. d \<noteq> c) (rev s))) else None)"

definition read_cputime :: "'w os \<Rightarrow> int \<Rightarrow> ('w, int) prog" where
  "read_cputime os pid = do {
     f \<leftarrow> call (os_read_file os (take 63 (''/proc/'' @ show_int pid @ ''/stat'')));
     ret (case f of None \<Rightarrow> - 1
          | Some s \<Rightarrow>
             (let buf = take 1023 s
              in if buf = [] then - 1
                 else case after_last (CHR '')'') buf of None \<Rightarrow> - 1
                   | Some p \<Rightarrow> stat_fields 13 3 (drop 1 p) 0))
   }"

section \<open>What the arithmetic guarantees\<close>

definition mul_shr_documented :: "mul_shr \<Rightarrow> bool" where
  "mul_shr_documented ms \<longleftrightarrow> (\<forall>a m s. ms a m s = word_of_int (uint a * uint m div 2 ^ s))"

definition mul_shr_ref :: mul_shr where
  "mul_shr_ref a m s = word_of_int (uint a * uint m div 2 ^ s)"

lemma mul_shr_unique: "mul_shr_documented ms \<longleftrightarrow> ms = mul_shr_ref"
  by (auto simp: mul_shr_documented_def mul_shr_ref_def fun_eq_iff)

lemma shrink_eq:
  "\<exists>k. shrink f s = (drop_bit k f, s - int k) \<and> unat f div 2 ^ k < 2 ^ 32
     \<and> (k = 0 \<or> 2 ^ 31 \<le> unat f div 2 ^ k)"
proof (induction f s rule: shrink.induct)
  case (1 f s)
  have d: "unat (drop_bit 32 f) = unat f div 2 ^ 32"
    by (rule unat_drop_bit)
  have h: "unat (drop_bit 1 f) = unat f div 2"
    by (simp only: unat_drop_bit power_one_right)
  show ?case
  proof (cases "drop_bit 32 f = 0")
    case True
    with d have "unat f div 2 ^ 32 = 0" by simp
    then have "unat f < 2 ^ 32" by (metis div_eq_0_iff power_not_zero zero_neq_numeral)
    with True show ?thesis by (intro exI [of _ 0]) (simp add: shrink.simps)
  next
    case False
    with 1 obtain k where k: "shrink (drop_bit 1 f) (s - 1) = (drop_bit k (drop_bit 1 f), s - 1 - int k)"
      "unat (drop_bit 1 f) div 2 ^ k < 2 ^ 32" "k = 0 \<or> 2 ^ 31 \<le> unat (drop_bit 1 f) div 2 ^ k" by blast
    have "unat f div 2 ^ 32 \<noteq> 0" using d False by (metis unat_eq_zero)
    then have "2 ^ 32 \<le> unat f" by (simp add: div_eq_0_iff)
    then have "2 ^ 31 \<le> unat f div 2" by simp
    with k(3) have "2 ^ 31 \<le> unat (drop_bit 1 f) div 2 ^ k" unfolding h by auto
    with k False show ?thesis unfolding h
      by (intro exI [of _ "Suc k"]) (subst shrink.simps, simp add: div_mult2_eq)
  qed
qed

lemma shift_bound:
  fixes d F k e r :: nat
  assumes k: "k \<le> 32" and big: "k = 0 \<or> 2 ^ 31 \<le> F div 2 ^ k"
    and e: "e = d * F div 2 ^ 32" and r: "r = d * (F div 2 ^ k) div 2 ^ (32 - k)"
  shows "r \<le> e" "2 ^ 31 * e < (2 ^ 31 + 1) * (r + 1)"
proof -
  have p: "(2::nat) ^ k * 2 ^ (32 - k) = 2 ^ 32" using k by (simp flip: power_add)
  have "r * 2 ^ 32 = 2 ^ k * (r * 2 ^ (32 - k))" unfolding p [symmetric] by (simp only: ac_simps)
  also have "\<dots> \<le> 2 ^ k * (d * (F div 2 ^ k))"
    unfolding r by (intro mult_le_mono2) (metis div_times_less_eq_dividend)
  also have "\<dots> \<le> d * F"
    by (metis mult.left_commute mult_le_mono2 times_div_less_eq_dividend)
  finally show "r \<le> e" unfolding e by (simp add: less_eq_div_iff_mult_less_eq)
  show "2 ^ 31 * e < (2 ^ 31 + 1) * (r + 1)"
  proof (cases "k = 0")
    case True
    then have "e = r" by (simp add: e r)
    then show ?thesis by simp
  next
    case False
    let ?F = "F div 2 ^ k"
    have f: "2 ^ 31 \<le> ?F" using False big by simp
    have "2 ^ 32 * e \<le> d * F" unfolding e by (metis times_div_less_eq_dividend)
    also have "F \<le> 2 ^ k * (?F + 1)"
      by (metis Suc_eq_plus1 dividend_less_times_div less_imp_le mult_Suc_right add.commute zero_less_numeral zero_less_power)
    finally have a: "2 ^ 32 * e \<le> 2 ^ k * (d * ?F + d)" by (simp add: algebra_simps)
    have b: "d * 2 ^ 31 \<le> d * ?F" using f by simp
    have c: "d * ?F < 2 ^ (32 - k) * (r + 1)"
      unfolding r by (metis dividend_less_times_div mult_Suc_right Suc_eq_plus1 add.commute zero_less_numeral zero_less_power)
    have "2 ^ 32 * (2 ^ 31 * e) \<le> 2 ^ k * (2 ^ 31 * (d * ?F) + d * 2 ^ 31)"
      using mult_le_mono2 [OF a, of "2 ^ 31"] by (simp only: distrib_left ac_simps)
    also have "\<dots> \<le> 2 ^ k * ((2 ^ 31 + 1) * (d * ?F))" using b by simp
    also have "\<dots> < 2 ^ k * ((2 ^ 31 + 1) * (2 ^ (32 - k) * (r + 1)))" using c by simp
    also have "\<dots> = 2 ^ 32 * ((2 ^ 31 + 1) * (r + 1))"
      unfolding p [symmetric] by (simp only: ac_simps)
    finally show ?thesis by simp
  qed
qed

text \<open>
  C27: \<open>my_calc_delta\<close> without a division: for any weight and inverse weight and a time below
  \<open>2 ^ 32\<close> nanoseconds, the shifted result never exceeds the exact
  \<open>delta * weight * inv / 2 ^ 32\<close> and falls short by at most one unit plus one part in \<open>2 ^ 31\<close>,
  although the factor was truncated to 32 bits and the product is kept in 64.
\<close>

theorem calc_delta_bounds:
  assumes "unat d < 2 ^ 32"
  shows "let e = unat d * (unat w mod 2 ^ 32 * unat iw) div 2 ^ 32; r = unat (my_calc_delta d w iw)
     in r \<le> e \<and> 2 ^ 31 * e < (2 ^ 31 + 1) * (r + 1)"
proof -
  let ?f = "ucast (ucast w :: u32) * ucast iw :: u64"
  have w: "unat (ucast (ucast w :: u32) :: u64) = unat w mod 2 ^ 32"
    by (simp add: unsigned_ucast_eq take_bit_eq_mod unat_mod)
  have i: "unat (ucast iw :: u64) = unat iw" "unat iw < 2 ^ 32"
  proof -
    show "unat iw < 2 ^ 32" using unsigned_less [of iw] by simp
    then show "unat (ucast iw :: u64) = unat iw"
      by (simp add: unsigned_ucast_eq take_bit_nat_eq_self)
  qed
  have "unat w mod 2 ^ 32 * unat iw < 2 ^ 32 * 2 ^ 32" using i(2) by (intro mult_strict_mono) auto
  then have f: "unat ?f = unat w mod 2 ^ 32 * unat iw"
    using w i by (simp add: unat_mult_lem [THEN iffD1])
  obtain k where k: "shrink ?f 32 = (drop_bit k ?f, 32 - int k)" "unat ?f div 2 ^ k < 2 ^ 32"
    "k = 0 \<or> 2 ^ 31 \<le> unat ?f div 2 ^ k" using shrink_eq [of ?f 32] by blast
  have "k \<le> 32"
  proof (rule ccontr)
    assume n: "\<not> k \<le> 32"
    then have "2 ^ 31 * 2 ^ 33 \<le> unat ?f div 2 ^ k * 2 ^ k"
      using k(3) by (intro mult_le_mono power_increasing) auto
    also have "\<dots> \<le> unat ?f" by simp
    finally have "2 ^ 64 \<le> unat ?f" by simp
    moreover have "unat ?f < 2 ^ LENGTH(64)" by (rule unsigned_less)
    ultimately show False by simp
  qed
  have "unat d * (unat ?f div 2 ^ k) < 2 ^ 32 * 2 ^ 32" using assms k(2) by (intro mult_strict_mono) auto
  then have "unat (d * drop_bit k ?f) = unat d * (unat ?f div 2 ^ k)"
    by (simp add: unat_mult_lem [THEN iffD1] unat_drop_bit)
  then have "unat (my_calc_delta d w iw) = unat d * (unat ?f div 2 ^ k) div 2 ^ (32 - k)"
    using k(1) \<open>k \<le> 32\<close> by (simp add: my_calc_delta_def unat_drop_bit nat_diff_distrib)
  from shift_bound [OF \<open>k \<le> 32\<close> k(3) refl this] show ?thesis
    unfolding f Let_def by blast
qed

theorem calc_delta_bounds_witness:
  "let e = (10000000::nat) * (1024 * 5237765) div 2 ^ 32; r = unat (my_calc_delta 10000000 1024 5237765)
     in r \<le> e \<and> 2 ^ 31 * e < (2 ^ 31 + 1) * (r + 1)"
  using calc_delta_bounds [of 10000000 1024 5237765] by simp

lemma decay_small:
  "m \<le> 2016 \<Longrightarrow> my_decay_load ms v (of_nat m) =
     ms (drop_bit (m div 32) v) (my_yN_inv ! (m mod 32)) 32"
proof -
  assume m: "m \<le> 2016"
  then have n: "unat (of_nat m :: u64) = m" by (simp add: unat_of_nat take_bit_nat_eq_self)
  have "\<not> 32 * 63 < (of_nat m :: u64)"
    unfolding word_less_nat_alt n using m by simp
  moreover have "unat (ucast (of_nat m :: u64) :: u32) = m"
    using m n by (simp add: unsigned_ucast_eq take_bit_nat_eq_self)
  ultimately show ?thesis by (simp add: my_decay_load_def Let_def)
qed

lemma decay_far: "2016 < m \<Longrightarrow> m < 2 ^ 64 \<Longrightarrow> my_decay_load ms v (of_nat m) = 0"
  by (simp add: my_decay_load_def word_less_nat_alt unat_of_nat take_bit_nat_eq_self)

lemma ms_le: "mul_shr_ref v m 32 \<le> v"
proof -
  have "uint v * uint m div 2 ^ 32 \<le> uint v"
  proof -
    have "uint m < 2 ^ 32" using uint_lt2p [of m] by simp
    then have "uint v * uint m \<le> uint v * 2 ^ 32" by (intro mult_left_mono) auto
    then have "uint v * uint m div 2 ^ 32 \<le> uint v * 2 ^ 32 div 2 ^ 32" by (rule zdiv_mono1) simp
    then show ?thesis by simp
  qed
  moreover have "0 \<le> uint v * uint m div 2 ^ 32" by (simp add: pos_imp_zdiv_nonneg_iff)
  moreover have "uint v < 2 ^ 64" using uint_lt2p [of v] by simp
  ultimately show ?thesis
    unfolding mul_shr_ref_def word_le_def by (simp add: uint_word_of_int_eq take_bit_int_eq_self)
qed

text \<open>
  The decay is geometric with half-life 32: ageing a load by 32 more periods is halving it
  first, past period 2016 nothing is left, and no period count ever increases a load.
\<close>

theorem pelt_decay:
  assumes "mul_shr_documented ms" and "n < 2 ^ 63"
  shows "my_decay_load ms v (of_nat (n + 32)) = (if n \<le> 1984 then my_decay_load ms (drop_bit 1 v) (of_nat n) else 0) \<and>
     my_decay_load ms v (of_nat n) \<le> v"
proof
  have ms: "ms = mul_shr_ref" using assms(1) by (simp add: mul_shr_unique)
  show "my_decay_load ms v (of_nat (n + 32)) = (if n \<le> 1984 then my_decay_load ms (drop_bit 1 v) (of_nat n) else 0)"
    using assms(2) decay_small [of "n + 32" ms v] decay_small [of n ms "drop_bit 1 v"] decay_far [of "n + 32" ms v]
    by (simp del: of_nat_add add: drop_bit_drop_bit div_add_self2)
  show "my_decay_load ms v (of_nat n) \<le> v"
  proof (cases "n \<le> 2016")
    case True
    have "drop_bit (n div 32) v \<le> v"
      by (simp add: word_le_nat_alt unat_drop_bit)
    with True show ?thesis
      unfolding ms decay_small [OF True] using ms_le order_trans by blast
  next
    case False
    with assms(2) show ?thesis by (simp add: decay_far)
  qed
qed

theorem pelt_decay_witness:
  "my_decay_load mul_shr_ref 1024 (of_nat (8 + 32)) = my_decay_load mul_shr_ref (drop_bit 1 1024) (of_nat 8)"
  using pelt_decay [of mul_shr_ref 8 1024] by (simp add: mul_shr_unique)

text \<open>
  The convergence loop stops after 346 of its 1000 rounds at 47742, the kernel's
  \<open>LOAD_AVG_MAX\<close>; but \<open>decay_load(1024, 32)\<close> is 511, not the 1024/2 the printed line promises,
  since the factor for \<open>y ^ 0\<close> is \<open>0xffffffff\<close>.
\<close>

theorem pelt_values:
  assumes "mul_shr_documented ms"
  shows "converge ms 1000 0 1024 = (47742, 346) \<and> my_decay_load ms 1024 32 = 511"
proof (intro conjI)
  have ms: "ms = mul_shr_ref" using assms by (simp add: mul_shr_unique)
  show "converge ms 1000 0 1024 = (47742, 346)" unfolding ms by code_simp
  show "my_decay_load ms 1024 32 = 511" unfolding ms by code_simp
qed

theorem pelt_values_witness: "my_decay_load mul_shr_ref 1024 32 = 511"
  by (rule pelt_values [THEN conjunct2]) (simp add: mul_shr_unique)

text \<open>
  The two weight tables agree: for each nice level the multiplier is \<open>2 ^ 32 / weight\<close> up to
  less than one unit, and the column recomputed as \<open>0xffffffff / weight\<close> is the multiplier or one
  less.
\<close>

theorem wmult_inverse:
  "list_all2 (\<lambda>w m. \<bar>2 ^ 32 - int (w * m)\<bar> < int w \<and> m - 0xffffffff div w \<le> 1 \<and> 0xffffffff div w \<le> m)
     my_prio_to_weight my_prio_to_wmult"
  by (simp add: my_prio_to_weight_def my_prio_to_wmult_def)

text \<open>
  The two scheduling experiments put back what they changed, whatever \<open>schedule()\<close> does:
  interrupts are on after the first; after the second a count of zero is zero again both when
  \<open>schedule()\<close> keeps the count and when it resets it.
\<close>

theorem schedule_tests_restore:
  assumes "preempt c = 0" and "preempt (sch (c\<lparr>preempt := 1\<rparr>)) \<in> {0, 1}"
  shows "\<not> irqs_off (snd (test_irq_across_schedule sch c)) \<and> preempt (snd (test_atomic_sleep sch t c)) = 0"
  using assms by (auto simp: test_irq_across_schedule_def test_atomic_sleep_def Let_def)

theorem schedule_tests_restore_witness:
  "preempt (snd (test_atomic_sleep (\<lambda>c. c\<lparr>preempt := 0\<rparr>) (256, 256, True) \<lparr>irqs_off = False, preempt = 0\<rparr>)) = 0"
  by (rule schedule_tests_restore [THEN conjunct2]) simp_all

lemma after_space_append: "sp \<notin> set f \<Longrightarrow> after_space (f @ sp # r) = Some r"
  by (induction f) (auto simp: after_space_def)

lemma show_int_chars: "\<forall>c\<in>set (show_int v). is_digit c \<or> c = CHR ''-''"
  using show_nat_digits by (auto simp: show_int_def)

lemma show_int_no: "sp \<notin> set (show_int v)" "CHR '')'' \<notin> set (show_int v)"
proof -
  have "\<not> is_digit CHR '')''" by (simp add: is_digit_def)
  then show "sp \<notin> set (show_int v)" "CHR '')'' \<notin> set (show_int v)"
    using show_int_chars [of v] space_chars(4) by (auto simp: blanks)
qed

lemma stat_fields_skip:
  assumes "\<forall>f\<in>set fs. sp \<notin> set f" "length fs \<le> 11" "stops_digit r"
  shows "stat_fields (length fs + 2) (14 - length fs)
     (concat (map (\<lambda>f. f @ [sp]) fs) @ show_int ut @ [sp] @ show_int st @ r) 0 = ut + st"
  using assms(1,2)
proof (induction fs)
  case Nil
  show ?case
    using after_space_append [OF show_int_no(1) [of ut], of "show_int st @ r"]
      atol_show [of "sp # show_int st @ r" ut] atol_show [OF assms(3), of st]
    by (simp add: numeral_2_eq_2 stops_digit_def space_chars)
next
  case (Cons f fs)
  have "Suc (14 - length (f # fs)) = 14 - length fs" "14 - length (f # fs) \<noteq> 14" "14 - length (f # fs) \<noteq> 15"
    using Cons.prems by auto
  moreover have "after_space (concat (map (\<lambda>f. f @ [sp]) (f # fs)) @ show_int ut @ [sp] @ show_int st @ r)
      = Some (concat (map (\<lambda>f. f @ [sp]) fs) @ show_int ut @ [sp] @ show_int st @ r)"
    using Cons.prems by (simp add: after_space_append)
  ultimately show ?case using Cons by simp
qed

lemma after_last_append: "c \<notin> set r \<Longrightarrow> after_last c (p @ c # r) = Some r"
  by (simp add: after_last_def takeWhile_append)

definition stat_text :: "int \<Rightarrow> string \<Rightarrow> string list \<Rightarrow> int \<Rightarrow> int \<Rightarrow> string \<Rightarrow> string" where
  "stat_text pid comm fs ut st r = show_int pid @ '' ('' @ comm @ '') ''
     @ concat (map (\<lambda>f. f @ [sp]) fs) @ show_int ut @ [sp] @ show_int st @ r"

text \<open>
  The CPU time reader of \<open>sched_weight.c\<close> finds the right fields whatever the program is
  called: for any \<open>comm\<close>, spaces and parentheses included, and any well-formed remainder, it
  returns utime plus stime.
\<close>

theorem read_cputime_any_comm:
  assumes rd: "os_read_file os (take 63 (''/proc/'' @ show_int pid @ ''/stat'')) w = (Some (stat_text pid comm fs ut st r), w')"
    and fits: "length (stat_text pid comm fs ut st r) \<le> 1023"
    and fs: "length fs = 11" "\<forall>f\<in>set fs. sp \<notin> set f \<and> CHR '')'' \<notin> set f"
    and r: "stops_digit r" "CHR '')'' \<notin> set r"
  shows "run (read_cputime os pid) w = (ut + st, w', [])"
proof -
  let ?tail = "concat (map (\<lambda>f. f @ [sp]) fs) @ show_int ut @ [sp] @ show_int st @ r"
  have "CHR '')'' \<notin> set (sp # ?tail)"
    using fs(2) r(2) show_int_no by (auto simp: blanks)
  moreover have "stat_text pid comm fs ut st r = (show_int pid @ '' ('' @ comm) @ CHR '')'' # sp # ?tail"
    by (simp add: stat_text_def blanks)
  ultimately have "after_last (CHR '')'') (stat_text pid comm fs ut st r) = Some (sp # ?tail)"
    using after_last_append by metis
  moreover have "stat_fields 13 3 ?tail 0 = ut + st"
    using stat_fields_skip [of fs r ut st] fs r by simp
  moreover have "stat_text pid comm fs ut st r \<noteq> []" by (simp add: stat_text_def)
  ultimately show ?thesis
    using rd fits by (simp add: read_cputime_def run_def Let_def)
qed

definition stat_os :: "string \<Rightarrow> unit os" where
  "stat_os s = \<lparr>os_read_file = (\<lambda>p w. (Some s, w)), os_open_w = (\<lambda>p w. (False, w)),
     os_write = (\<lambda>p v w. (- 1, w)), os_pagemap = (\<lambda>a w. (None, w)), os_open_pagemap = (\<lambda>w. (True, w)),
     os_mmap = (\<lambda>a l p f w. (0, w)), os_munmap = (\<lambda>a l w. w), os_madvise = (\<lambda>a l d w. (0, w)),
     os_load = (\<lambda>a w. (0, w)), os_store = (\<lambda>a v w. w), os_sleep_us = (\<lambda>n w. w),
     os_faults = (\<lambda>w. ((0, 0), w))\<rparr>"

theorem read_cputime_any_comm_witness:
  "run (read_cputime (stat_os (stat_text 42 ''a) (b c'' (''R'' # replicate 10 ''7'') 120 30 [nl])) 42) () = (120 + 30, (), [])"
proof -
  have len: "length (show_int v) \<le> 3" if "v \<in> {42, 120, 30}" for v
    using that by (auto simp: show_int_def show_nat.simps)
  have "length (stat_text 42 ''a) (b c'' (''R'' # replicate 10 ''7'') 120 30 [nl]) \<le> 1023"
    using len [of 42] len [of 120] len [of 30] by (simp add: stat_text_def numeral_eq_Suc)
  then show ?thesis
    by (rule read_cputime_any_comm [rotated])
      (auto simp: stat_os_def stops_digit_def blanks is_digit_def)
qed

end
