(* ===== verification/Vop_Request.thy ===== *)
theory Vop_Request
  imports Os_Monad First_Match
begin

section \<open>wbtest.c, part 1: ioctl, properties, the atomic request\<close>

text \<open>
  \<open>wbtest.c\<close> drives the RK3588 display controller through the DRM interface. The kernel side is
  the record \<open>'k drm\<close>, one field per ioctl or call the program makes, with \<open>'k\<close> the kernel's
  state; a failing call gives its errno. The program's own static variables are the record
  \<open>'k wb\<close>: the atomic request it accumulates, and the resources it found.

  The request arrays have \<open>MAXP\<close> = 96 entries each and are written without a test; \<open>oob\<close> records
  a store past their end (or past another fixed array), so that its absence can be proved.
\<close>

subsection \<open>\<open>xioctl\<close>\<close>

definition EINTR :: int where "EINTR = 4"
definition EAGAIN :: int where "EAGAIN = 11"
definition EINVAL :: int where "EINVAL = 22"
definition ENODEV :: int where "ENODEV = 19"
definition ETIMEDOUT :: int where "ETIMEDOUT = 110"

text \<open>
  One \<open>ioctl\<close> returns a value or an errno and moves the kernel on; \<open>xioctl\<close> repeats it while the
  errno is EINTR or EAGAIN, which may be forever.
\<close>

partial_function (option) xioctl :: "('k \<Rightarrow> (int + 'a) \<times> 'k) \<Rightarrow> 'k \<Rightarrow> ((int + 'a) \<times> 'k) option" where
  "xioctl f k = (case f k of
       (Inl e, k') \<Rightarrow> if e = EINTR \<or> e = EAGAIN then xioctl f k' else Some (Inl e, k')
     | (Inr a, k') \<Rightarrow> Some (Inr a, k'))"

text \<open>The kernel as the program calls it; each field is the outcome of the \<open>xioctl\<close>.\<close>

record modeinfo =
  clock :: u32
  hdisplay :: u16
  hsync_start :: u16
  hsync_end :: u16
  htotal :: u16
  vdisplay :: u16
  vsync_start :: u16
  vsync_end :: u16
  vtotal :: u16
  vrefresh :: u32
  mtype :: u32
  mname :: string

record fb_cmd =
  fc_width :: u32
  fc_height :: u32
  fc_format :: u32
  fc_planes :: "(u32 \<times> u32 \<times> u32) list" \<comment> \<open>handle, pitch, offset\<close>

record connector =
  connector_type :: u32
  connection :: u32
  count_modes :: u32
  count_encoders :: u32

record 'k drm =
  d_objprops_count :: "u32 \<Rightarrow> u32 \<Rightarrow> 'k \<Rightarrow> u32 option \<times> 'k"
  d_objprops :: "u32 \<Rightarrow> u32 \<Rightarrow> 'k \<Rightarrow> (u32 \<times> u64) list option \<times> 'k"
  d_getprop :: "u32 \<Rightarrow> 'k \<Rightarrow> (string \<times> u32) option \<times> 'k" \<comment> \<open>name, number of enum values\<close>
  d_getenums :: "u32 \<Rightarrow> 'k \<Rightarrow> (string \<times> u64) list option \<times> 'k"
  d_atomic :: "u32 \<Rightarrow> (u32 \<times> nat) list \<Rightarrow> (u32 \<times> u64) list \<Rightarrow> 'k \<Rightarrow> (int + int) \<times> 'k" \<comment> \<open>the out fence\<close>
  d_create_dumb :: "u32 \<Rightarrow> u32 \<Rightarrow> u32 \<Rightarrow> 'k \<Rightarrow> (int + (u32 \<times> u32 \<times> u64)) \<times> 'k" \<comment> \<open>handle, pitch, size\<close>
  d_addfb2 :: "fb_cmd \<Rightarrow> 'k \<Rightarrow> (int + u32) \<times> 'k"
  d_map_dumb :: "u32 \<Rightarrow> 'k \<Rightarrow> (int + u64) \<times> 'k"
  d_mmap :: "u64 \<Rightarrow> u64 \<Rightarrow> 'k \<Rightarrow> (int + u64) \<times> 'k"
  d_munmap :: "u64 \<Rightarrow> u64 \<Rightarrow> 'k \<Rightarrow> 'k"
  d_rmfb :: "u32 \<Rightarrow> 'k \<Rightarrow> 'k"
  d_destroy_dumb :: "u32 \<Rightarrow> 'k \<Rightarrow> 'k"
  d_store32 :: "u64 \<Rightarrow> u32 \<Rightarrow> 'k \<Rightarrow> 'k"
  d_memset :: "u64 \<Rightarrow> u8 \<Rightarrow> u64 \<Rightarrow> 'k \<Rightarrow> 'k"
  d_createblob :: "modeinfo \<Rightarrow> 'k \<Rightarrow> (int + u32) \<times> 'k"
  d_destroyblob :: "u32 \<Rightarrow> 'k \<Rightarrow> 'k"
  d_poll :: "int \<Rightarrow> 'k \<Rightarrow> int \<times> 'k"
  d_close :: "int \<Rightarrow> 'k \<Rightarrow> 'k"
  d_getenv :: "string \<Rightarrow> string option"
  d_fopen_w :: "string \<Rightarrow> 'k \<Rightarrow> bool \<times> 'k"
  d_write_file :: "string \<Rightarrow> u64 \<Rightarrow> u64 \<Rightarrow> 'k \<Rightarrow> 'k"
  d_system :: "string \<Rightarrow> 'k \<Rightarrow> 'k"
  d_counts :: "'k \<Rightarrow> (int + (u32 \<times> u32 \<times> u32)) \<times> 'k" \<comment> \<open>GETRESOURCES: crtcs, connectors, encoders\<close>
  d_resources :: "'k \<Rightarrow> (int + (u32 list \<times> u32 list \<times> u32 list)) \<times> 'k"
  d_connector :: "u32 \<Rightarrow> 'k \<Rightarrow> connector option \<times> 'k"
  d_connector_fill :: "u32 \<Rightarrow> u32 \<Rightarrow> u32 \<Rightarrow> 'k \<Rightarrow> (modeinfo list \<times> u32 list) \<times> 'k"
  d_encoder :: "u32 \<Rightarrow> 'k \<Rightarrow> u32 option \<times> 'k" \<comment> \<open>possible_crtcs\<close>
  d_plane_count :: "'k \<Rightarrow> (int + u32) \<times> 'k"
  d_planes :: "'k \<Rightarrow> (int + u32 list) \<times> 'k"
  d_plane :: "u32 \<Rightarrow> 'k \<Rightarrow> (u32 \<times> u32) option \<times> 'k" \<comment> \<open>possible_crtcs, formats\<close>
  d_open_card :: "'k \<Rightarrow> bool \<times> 'k"
  d_set_master :: "'k \<Rightarrow> int \<times> 'k" \<comment> \<open>0 or an errno\<close>
  d_client_cap :: "u64 \<Rightarrow> 'k \<Rightarrow> int \<times> 'k"
  d_drop_master :: "'k \<Rightarrow> 'k"

subsection \<open>The program's variables\<close>

definition MAXP :: nat where "MAXP = 96"

record 'k wb =
  kern :: 'k
  a_objs :: "(u32 \<times> nat) list" \<comment> \<open>\<open>a_objs\<close> and \<open>a_cnts\<close>, \<open>a_nobj\<close> of them\<close>
  a_props :: "(u32 \<times> u64) list" \<comment> \<open>\<open>a_props\<close> and \<open>a_vals\<close>, \<open>a_nprop\<close> of them\<close>
  oob :: bool
  crtc_id :: u32
  wb_conn :: u32
  prim_plane :: u32
  ovl_plane :: u32
  wb_modes :: "modeinfo list"

type_synonym ('k, 'a) wprog = "('k wb, 'a) prog"

definition kcall :: "('k \<Rightarrow> 'a \<times> 'k) \<Rightarrow> ('k, 'a) wprog" where
  "kcall f = call (\<lambda>s. case f (kern s) of (a, k) \<Rightarrow> (a, s\<lparr>kern := k\<rparr>))"

definition keffect :: "('k \<Rightarrow> 'k) \<Rightarrow> ('k, unit) wprog" where
  "keffect f = effect (\<lambda>s. s\<lparr>kern := f (kern s)\<rparr>)"

definition get :: "('k wb \<Rightarrow> 'a) \<Rightarrow> ('k, 'a) wprog" where
  "get f = call (\<lambda>s. (f s, s))"

subsection \<open>Properties by name\<close>

text \<open>
  \<open>prop_find\<close>: the object's property list, at most 128; then the names one by one, skipping a
  property that cannot be read; the id and value of the first match, id 0 when there is none.
\<close>

fun prop_scan :: "'k drm \<Rightarrow> string \<Rightarrow> (u32 \<times> u64) list \<Rightarrow> ('k, (u32 \<times> u64) option) wprog" where
  "prop_scan d name [] = ret None"
| "prop_scan d name ((i, v) # ps) = do {
     g \<leftarrow> kcall (d_getprop d i);
     case g of
       None \<Rightarrow> prop_scan d name ps
     | Some (n, _) \<Rightarrow> if n = name then ret (Some (i, v)) else prop_scan d name ps
   }"

definition prop_find :: "'k drm \<Rightarrow> u32 \<Rightarrow> u32 \<Rightarrow> string \<Rightarrow> ('k, (u32 \<times> u64) option) wprog" where
  "prop_find d obj ty name = do {
     c \<leftarrow> kcall (d_objprops_count d obj ty);
     case c of
       None \<Rightarrow> ret None
     | Some n \<Rightarrow> if 128 < n then ret None
         else do {
           ps \<leftarrow> kcall (d_objprops d obj ty);
           case ps of None \<Rightarrow> ret None | Some l \<Rightarrow> prop_scan d name l
         }
   }"

definition prop_id :: "'k drm \<Rightarrow> u32 \<Rightarrow> u32 \<Rightarrow> string \<Rightarrow> ('k, u32) wprog" where
  "prop_id d obj ty name = do {
     r \<leftarrow> prop_find d obj ty name;
     ret (case r of None \<Rightarrow> 0 | Some (i, _) \<Rightarrow> i)
   }"

text \<open>The value of an enum name, -1 if there is none; \<open>DUMP_ENUMS\<close> prints them all.\<close>

definition enum_find :: "(string \<times> u64) list \<Rightarrow> string \<Rightarrow> nat option" where
  "enum_find en name = find_index (\<lambda>e. fst e = name) en"

fun dump_enums :: "nat \<Rightarrow> (string \<times> u64) list \<Rightarrow> ('k, unit) wprog" where
  "dump_enums i [] = ret ()"
| "dump_enums i ((n, v) # en) = do {
     print ''    enum[%u] value=%llu name=%s'' [I (int i), U v, S n]; dump_enums (Suc i) en }"

definition prop_enum :: "'k drm \<Rightarrow> u32 \<Rightarrow> string \<Rightarrow> ('k, int) wprog" where
  "prop_enum d p name = do {
     g \<leftarrow> kcall (d_getprop d p);
     case g of
       None \<Rightarrow> ret (- 1)
     | Some (_, n) \<Rightarrow> if 32 < n then ret (- 1)
         else do {
           e \<leftarrow> kcall (d_getenums d p);
           case e of
             None \<Rightarrow> ret (- 1)
           | Some en \<Rightarrow> do {
               whenM (d_getenv d ''DUMP_ENUMS'' \<noteq> None) (dump_enums 0 en);
               ret (case enum_find en name of None \<Rightarrow> - 1 | Some i \<Rightarrow> sint (snd (en ! i)))
             }
         }
   }"

subsection \<open>The atomic request\<close>

text \<open>
  \<open>aadd\<close>: a new group when the object differs from the last one, otherwise one more property in
  the last group.
\<close>

definition bump_last :: "(u32 \<times> nat) list \<Rightarrow> (u32 \<times> nat) list" where
  "bump_last objs = butlast objs @ [(fst (last objs), snd (last objs) + 1)]"

definition add_group :: "u32 \<Rightarrow> (u32 \<times> nat) list \<Rightarrow> (u32 \<times> nat) list" where
  "add_group obj objs = (if objs = [] \<or> fst (last objs) \<noteq> obj then objs @ [(obj, 1)] else bump_last objs)"

definition aadd_state :: "u32 \<Rightarrow> u32 \<Rightarrow> u64 \<Rightarrow> 'k wb \<Rightarrow> 'k wb" where
  "aadd_state obj p v s = s\<lparr>
     oob := oob s \<or> MAXP \<le> length (a_props s) \<or> MAXP < length (add_group obj (a_objs s)),
     a_objs := add_group obj (a_objs s),
     a_props := a_props s @ [(p, v)]\<rparr>"

definition aadd :: "u32 \<Rightarrow> u32 \<Rightarrow> u64 \<Rightarrow> ('k, unit) wprog" where
  "aadd obj p v =
     (if p = 0 then print ''  (warn) missing property on obj %u'' [U32 obj]
      else effect (aadd_state obj p v))"

text \<open>\<open>acommit\<close>: 0 or minus the errno, and the fence; the request is empty afterwards either way.\<close>

definition acommit :: "'k drm \<Rightarrow> u32 \<Rightarrow> ('k, int \<times> int) wprog" where
  "acommit d flags = do {
     objs \<leftarrow> get a_objs;
     ps \<leftarrow> get a_props;
     r \<leftarrow> kcall (d_atomic d flags objs ps);
     effect (\<lambda>s. s\<lparr>a_objs := [], a_props := []\<rparr>);
     ret (case r of Inl e \<Rightarrow> (- e, - 1) | Inr fence \<Rightarrow> (0, fence))
   }"

text \<open>
  What a request means to the kernel: group by group, the next \<open>cnt\<close> properties belong to the
  group's object.
\<close>

fun expand :: "(u32 \<times> nat) list \<Rightarrow> (u32 \<times> u64) list \<Rightarrow> (u32 \<times> u32 \<times> u64) list" where
  "expand [] ps = []"
| "expand ((obj, n) # objs) ps = map (\<lambda>(p, v). (obj, p, v)) (take n ps) @ expand objs (drop n ps)"

section \<open>Lemmas\<close>

interpretation enums: first_match enum_find "\<lambda>e name. fst e = name"
  by unfold_locales (auto simp: enum_find_def dest: find_index_Some simp: find_index_None)

subsection \<open>\<open>xioctl\<close> retries exactly until an answer\<close>

definition attempt :: "('k \<Rightarrow> (int + 'a) \<times> 'k) \<Rightarrow> nat \<Rightarrow> 'k \<Rightarrow> (int + 'a) \<times> 'k" where
  "attempt f n k = f (((\<lambda>k. snd (f k)) ^^ n) k)"

definition answered :: "(int + 'a) \<times> 'k \<Rightarrow> bool" where
  "answered r \<longleftrightarrow> fst r \<noteq> Inl EINTR \<and> fst r \<noteq> Inl EAGAIN"

lemma attempt_Suc: "attempt f (Suc n) k = attempt f n (snd (f k))"
  by (simp only: attempt_def funpow_Suc_right o_apply)

lemma xioctl_unfold: "xioctl f k = (if answered (f k) then Some (f k) else xioctl f (snd (f k)))"
  by (subst xioctl.simps) (auto simp: answered_def split: prod.split sum.split)

lemma xioctl_attempt: "answered (attempt f n k) \<Longrightarrow> (\<forall>m<n. \<not> answered (attempt f m k)) \<Longrightarrow>
   xioctl f k = Some (attempt f n k)"
proof (induction n arbitrary: k)
  case 0
  then show ?case by (subst xioctl_unfold) (simp add: attempt_def)
next
  case (Suc n)
  have "\<not> answered (f k)" using Suc.prems(2) [rule_format, of 0] by (simp add: attempt_def)
  moreover have "xioctl f (snd (f k)) = Some (attempt f n (snd (f k)))"
  proof (rule Suc.IH)
    show "answered (attempt f n (snd (f k)))" using Suc.prems(1) by (simp add: attempt_Suc)
    show "\<forall>m<n. \<not> answered (attempt f m (snd (f k)))"
      using Suc.prems(2) by (auto simp flip: attempt_Suc)
  qed
  ultimately show ?case by (subst xioctl_unfold) (simp add: attempt_Suc)
qed

lemma xioctl_some:
  fixes f :: "'k \<Rightarrow> (int + 'a) \<times> 'k"
  shows "xioctl f k = Some r \<Longrightarrow> \<exists>n. answered (attempt f n k)"
proof (rule xioctl.raw_induct [where P = "\<lambda>f k r. \<exists>n. answered (attempt f n k)"])
  fix again :: "('k \<Rightarrow> (int + 'a) \<times> 'k) \<Rightarrow> 'k \<Rightarrow> ((int + 'a) \<times> 'k) option" and f k r
  assume IH: "\<And>f k r. again f k = Some r \<Longrightarrow> \<exists>n. answered (attempt f n k)"
    and step: "(case f k of (Inl e, k') \<Rightarrow> if e = EINTR \<or> e = EAGAIN then again f k' else Some (Inl e, k')
      | (Inr a, k') \<Rightarrow> Some (Inr a, k')) = Some r"
  show "\<exists>n. answered (attempt f n k)"
  proof (cases "answered (f k)")
    case True
    then show ?thesis by (intro exI [of _ 0]) (simp add: attempt_def)
  next
    case False
    with step have "again f (snd (f k)) = Some r"
      by (auto simp: answered_def split: prod.splits sum.splits if_splits)
    from IH [OF this] obtain n where "answered (attempt f n (snd (f k)))" by blast
    then show ?thesis by (metis attempt_Suc)
  qed
qed

text \<open>
  C6: \<open>xioctl\<close> repeats an interrupted call and nothing else: it returns the first answer that is
  neither EINTR nor EAGAIN, from the kernel state of that attempt, and it fails to return
  exactly when there is no such answer.
\<close>

theorem xioctl_exact:
  "xioctl f k = (if \<exists>n. answered (attempt f n k)
     then Some (attempt f (LEAST n. answered (attempt f n k)) k) else None)"
proof (cases "\<exists>n. answered (attempt f n k)")
  case True
  then have "answered (attempt f (LEAST n. answered (attempt f n k)) k)" by (rule LeastI_ex)
  with True show ?thesis by (auto intro!: xioctl_attempt dest: not_less_Least)
next
  case False
  then show ?thesis using xioctl_some by (metis not_None_eq)
qed

subsection \<open>The request the kernel sees\<close>

definition request_wf :: "'k wb \<Rightarrow> bool" where
  "request_wf s \<longleftrightarrow> sum_list (map snd (a_objs s)) = length (a_props s) \<and> (\<forall>g\<in>set (a_objs s). 0 < snd g)"

lemma groups_le: "(\<forall>g\<in>set gs. 0 < snd g) \<Longrightarrow> length gs \<le> sum_list (map snd gs)" for gs :: "(u32 \<times> nat) list"
  by (induction gs) auto

lemma sum_add_group: "sum_list (map snd (add_group obj objs)) = Suc (sum_list (map snd objs))"
proof (cases objs rule: rev_cases)
  case (snoc ys y)
  then show ?thesis by (simp add: add_group_def bump_last_def)
qed (simp add: add_group_def)

lemma pos_add_group: "\<forall>g\<in>set objs. 0 < snd g \<Longrightarrow> \<forall>g\<in>set (add_group obj objs). 0 < snd g"
  by (auto simp: add_group_def bump_last_def dest: in_set_butlastD)

lemma request_wf_add: "request_wf s \<Longrightarrow> request_wf (aadd_state obj p v s)"
  using pos_add_group [of "a_objs s" obj] by (simp add: request_wf_def aadd_state_def sum_add_group)

lemma expand_append: "sum_list (map snd xs) = length ps \<Longrightarrow> expand (xs @ ys) (ps @ qs) = expand xs ps @ expand ys qs"
proof (induction xs arbitrary: ps)
  case (Cons x xs)
  obtain obj n where x: "x = (obj, n)" by fastforce
  with Cons.prems have "n \<le> length ps" "sum_list (map snd xs) = length (drop n ps)" by auto
  with Cons.IH [of "drop n ps"] x show ?case by simp
qed simp

lemma expand_add:
  assumes "sum_list (map snd objs) = length ps"
  shows "expand (add_group obj objs) (ps @ [(p, v)]) = expand objs ps @ [(obj, p, v)]"
proof (cases objs rule: rev_cases)
  case Nil
  with assms show ?thesis by (simp add: add_group_def)
next
  case (snoc ys y)
  obtain o' n where y: "y = (o', n)" by fastforce
  have s: "sum_list (map snd ys) = length (take (length ps - n) ps)" "length (drop (length ps - n) ps) = n"
    using assms snoc y by auto
  have e: "expand objs ps = expand ys (take (length ps - n) ps) @ map (\<lambda>(p, v). (o', p, v)) (drop (length ps - n) ps)"
    using expand_append [OF s(1), of "[y]" "drop (length ps - n) ps"] s(2) snoc y by simp
  show ?thesis
  proof (cases "o' = obj")
    case True
    then have "add_group obj objs = ys @ [(obj, Suc n)]"
      using snoc y by (simp add: add_group_def bump_last_def)
    then show ?thesis
      using expand_append [OF s(1), of "[(obj, Suc n)]" "drop (length ps - n) ps @ [(p, v)]"] s(2) e True
      by (simp flip: append_assoc)
  next
    case False
    then have "add_group obj objs = objs @ [(obj, 1)]" using snoc y by (simp add: add_group_def)
    then show ?thesis using expand_append [OF assms, of "[(obj, 1)]" "[(p, v)]"] by simp
  qed
qed

definition add_all :: "(u32 \<times> u32 \<times> u64) list \<Rightarrow> 'k wb \<Rightarrow> 'k wb" where
  "add_all xs s = fold (\<lambda>(obj, p, v). if p = 0 then id else aadd_state obj p v) xs s"

lemma run_add_all:
  "fst (snd (run_state (eachM (\<lambda>(obj, p, v). aadd obj p v) xs) (s, out))) = add_all xs s"
  by (induction xs arbitrary: s out) (auto simp: add_all_def aadd_def)

text \<open>
  C2: The grouped arrays mean what was asked for: from an empty request, whatever is added and in
  whatever order objects come back, the kernel reads exactly the added triples in the order
  of the calls, less those whose property was not found; every group is non-empty and the
  counts add up to the number of properties.
\<close>

theorem request_denotes:
  assumes "a_objs s = []" "a_props s = []"
  shows "let s' = fst (snd (run_state (eachM (\<lambda>(obj, p, v). aadd obj p v) xs) (s, out)))
     in expand (a_objs s') (a_props s') = filter (\<lambda>(obj, p, v). p \<noteq> 0) xs \<and> request_wf s'"
  unfolding run_add_all Let_def
proof (induction xs rule: rev_induct)
  case Nil
  with assms show ?case by (simp add: add_all_def request_wf_def)
next
  case (snoc x xs)
  obtain obj p v where x: "x = (obj, p, v)" by (cases x) auto
  show ?case
    using snoc x request_wf_add [of "add_all xs s" obj p v]
    by (auto simp: add_all_def aadd_state_def expand_add request_wf_def sum_add_group)
qed

definition sample_wb :: "unit wb" where
  "sample_wb = \<lparr>kern = (), a_objs = [], a_props = [], oob = False, crtc_id = 0, wb_conn = 0,
     prim_plane = 0, ovl_plane = 0, wb_modes = []\<rparr>"

theorem request_denotes_witness:
  "let s' = fst (snd (run_state (eachM (\<lambda>(obj, p, v). aadd obj p v)
       [(7, 1, 5), (7, 2, 6), (9, 0, 1), (9, 3, 8), (7, 4, 4)]) (sample_wb, [])))
   in expand (a_objs s') (a_props s')
     = filter (\<lambda>(obj, p, v). p \<noteq> 0) [(7, 1, 5), (7, 2, 6), (9, 0, 1), (9, 3, 8), (7, 4, 4)] \<and> request_wf s'"
  by (rule request_denotes) (simp_all add: sample_wb_def)

end
