(* ===== verification/Vop_Wb.thy ===== *)
theory Vop_Wb
  imports Vop_Request
begin

section \<open>wbtest.c, part 2: buffers, resources, scenarios\<close>

text \<open>
  Buffers and their patterns, the search for a CRTC, planes and the writeback connector, and
  the scenarios: build the source planes, commit, wait for the fence, save the written-back
  image, switch everything off. A computation the C standard leaves undefined (a division by
  zero, \<open>fwrite\<close> to a null file) ends the model's program with \<open>None\<close> (or \<open>False\<close> from \<open>fill\<close>).
  Times are measured and printed by the program but not modelled.
\<close>

definition fourcc :: "string \<Rightarrow> u32" where
  "fourcc s = (case map of_char s of
     [a, b, c, d] \<Rightarrow> a OR push_bit 8 b OR push_bit 16 c OR push_bit 24 d | _ \<Rightarrow> 0)"

definition fourcc_text :: "u32 \<Rightarrow> string" where
  "fourcc_text w = map (\<lambda>n. char_of (unat (drop_bit n w AND 0xff))) [0, 8, 16, 24]"

definition FMT_XRGB8888 :: u32 where "FMT_XRGB8888 = fourcc ''XR24''"
definition FMT_ARGB8888 :: u32 where "FMT_ARGB8888 = fourcc ''AR24''"
definition FMT_BGR888 :: u32 where "FMT_BGR888 = fourcc ''BG24''"
definition FMT_RGB565 :: u32 where "FMT_RGB565 = fourcc ''RG16''"
definition FMT_NV12 :: u32 where "FMT_NV12 = fourcc ''NV12''"

definition OBJ_CRTC :: u32 where "OBJ_CRTC = 0xcccccccc"
definition OBJ_CONNECTOR :: u32 where "OBJ_CONNECTOR = 0xc0c0c0c0"
definition OBJ_PLANE :: u32 where "OBJ_PLANE = 0xeeeeeeee"
definition CONNECTOR_WRITEBACK :: u32 where "CONNECTOR_WRITEBACK = 18"
definition TYPE_DRIVER :: u32 where "TYPE_DRIVER = 0x40"
definition ALLOW_MODESET :: u32 where "ALLOW_MODESET = 0x0400"

subsection \<open>Dumb buffers\<close>

record wbuf =
  bw :: u32
  bh :: u32
  bfmt :: u32
  bhandle :: u32
  bpitch :: u32
  bfb :: u32
  bsize :: u64
  bmap :: u64

definition no_buf :: wbuf where
  "no_buf = \<lparr>bw = 0, bh = 0, bfmt = 0, bhandle = 0, bpitch = 0, bfb = 0, bsize = 0, bmap = 0\<rparr>"

text \<open>Bits per pixel and the number of lines to allocate, for the formats supported.\<close>

definition dumb_shape :: "u32 \<Rightarrow> u32 \<Rightarrow> (u32 \<times> u32) option" where
  "dumb_shape h fmt =
     (if fmt = FMT_XRGB8888 \<or> fmt = FMT_ARGB8888 then Some (32, h)
      else if fmt = FMT_BGR888 then Some (24, h)
      else if fmt = FMT_RGB565 then Some (16, h)
      else if fmt = FMT_NV12 then Some (8, h * 3 div 2)
      else None)"

definition mkbuf :: "'k drm \<Rightarrow> u32 \<Rightarrow> u32 \<Rightarrow> u32 \<Rightarrow> ('k, int \<times> wbuf) wprog" where
  "mkbuf d w h fmt =
     (case dumb_shape h fmt of
        None \<Rightarrow> ret (- EINVAL, no_buf)
      | Some (bpp, lines) \<Rightarrow> do {
          c \<leftarrow> kcall (d_create_dumb d w lines bpp);
          case c of
            Inl e \<Rightarrow> ret (- e, no_buf)
          | Inr (handle, pitch, sz) \<Rightarrow> do {
              f \<leftarrow> kcall (d_addfb2 d \<lparr>fc_width = w, fc_height = h, fc_format = fmt,
                 fc_planes = (handle, pitch, 0) # (if fmt = FMT_NV12 then [(handle, pitch, pitch * h)] else [])\<rparr>);
              let b = \<lparr>bw = w, bh = h, bfmt = fmt, bhandle = handle, bpitch = pitch, bfb = 0, bsize = sz, bmap = 0\<rparr>
              in case f of
                Inl e \<Rightarrow> ret (- e, b)
              | Inr fb \<Rightarrow> do {
                  m \<leftarrow> kcall (d_map_dumb d handle);
                  case m of
                    Inl e \<Rightarrow> ret (- e, b\<lparr>bfb := fb\<rparr>)
                  | Inr off \<Rightarrow> do {
                      a \<leftarrow> kcall (d_mmap d sz off);
                      case a of
                        Inl e \<Rightarrow> ret (- e, b\<lparr>bfb := fb, bmap := - 1\<rparr>)
                      | Inr addr \<Rightarrow> do {
                          keffect (d_memset d addr 0x5a sz);
                          ret (0, b\<lparr>bfb := fb, bmap := addr\<rparr>)
                        }
                    }
                }
            }
        })"

definition rmbuf :: "'k drm \<Rightarrow> wbuf \<Rightarrow> ('k, unit) wprog" where
  "rmbuf d b = do {
     whenM (bmap b \<noteq> 0) (keffect (d_munmap d (bmap b) (bsize b)));
     keffect (d_rmfb d (bfb b));
     keffect (d_destroy_dumb d (bhandle b))
   }"

subsection \<open>Patterns\<close>

definition pixel_addr :: "wbuf \<Rightarrow> u32 \<Rightarrow> u32 \<Rightarrow> u64" where
  "pixel_addr b x y = bmap b + ucast (y * bpitch b + x * 4)"

definition put32 :: "'k drm \<Rightarrow> wbuf \<Rightarrow> u32 \<Rightarrow> u32 \<Rightarrow> u32 \<Rightarrow> ('k, unit) wprog" where
  "put32 d b x y argb = keffect (d_store32 d (pixel_addr b x y) argb)"

datatype pattern = P_GRAD | P_STRIPES_1PX | P_COLORBARS

definition bars :: "u32 list" where
  "bars = [0x000000, 0xffffff, 0xff0000, 0x00ff00, 0x0000ff, 0x00ffff, 0xff00ff, 0xffff00]"

definition colour :: "pattern \<Rightarrow> u32 \<Rightarrow> u32 \<Rightarrow> u32 \<Rightarrow> u32 \<Rightarrow> u32" where
  "colour pat w h x y =
     (case pat of
        P_GRAD \<Rightarrow> push_bit 16 (x * 255 div (w - 1)) OR push_bit 8 (y * 255 div (h - 1)) OR 64
      | P_STRIPES_1PX \<Rightarrow> (if x AND 1 \<noteq> 0 then 0xff0000 else 0) OR (if y AND 1 \<noteq> 0 then 0x00ff00 else 0)
      | P_COLORBARS \<Rightarrow> bars ! unat (x * 8 div w))"

definition fill_traps :: "pattern \<Rightarrow> wbuf \<Rightarrow> bool" where
  "fill_traps pat b \<longleftrightarrow> pat = P_GRAD \<and> bw b \<noteq> 0 \<and> bh b \<noteq> 0 \<and> (bw b = 1 \<or> bh b = 1)"

definition pixels :: "wbuf \<Rightarrow> (u32 \<times> u32) list" where
  "pixels b = concat (map (\<lambda>y. map (\<lambda>x. (of_nat x, of_nat y)) [0..<unat (bw b)]) [0..<unat (bh b)])"

definition fill :: "'k drm \<Rightarrow> wbuf \<Rightarrow> pattern \<Rightarrow> ('k, bool) wprog" where
  "fill d b pat =
     (if fill_traps pat b then ret False
      else do {
        eachM (\<lambda>(x, y). put32 d b x y (0xff000000 OR colour pat (bw b) (bh b) x y)) (pixels b);
        ret True
      })"

subsection \<open>Finding the resources\<close>

definition mark_oob :: "bool \<Rightarrow> ('k, unit) wprog" where
  "mark_oob b = effect (\<lambda>s. s\<lparr>oob := oob s \<or> b\<rparr>)"

fun scan_encoders :: "'k drm \<Rightarrow> u32 list \<Rightarrow> u32 \<Rightarrow> ('k, u32) wprog" where
  "scan_encoders d [] possible = ret possible"
| "scan_encoders d (e # es) possible = do {
     r \<leftarrow> kcall (d_encoder d e);
     scan_encoders d es (case r of None \<Rightarrow> possible | Some p \<Rightarrow> possible OR p)
   }"

fun scan_connectors :: "'k drm \<Rightarrow> u32 list \<Rightarrow> u32 \<Rightarrow> ('k, u32) wprog" where
  "scan_connectors d [] possible = ret possible"
| "scan_connectors d (c # cs) possible = do {
     r \<leftarrow> kcall (d_connector d c);
     case r of
       None \<Rightarrow> scan_connectors d cs possible
     | Some k \<Rightarrow> do {
         print ''  connector %u type %u status %u modes %u''
           [U32 c, U32 (connector_type k), U32 (connection k), U32 (count_modes k)];
         if connector_type k \<noteq> CONNECTOR_WRITEBACK then scan_connectors d cs possible
         else do {
           f \<leftarrow> kcall (d_connector_fill d c (min 4 (count_modes k)) (min 4 (count_encoders k)));
           effect (\<lambda>s. s\<lparr>wb_conn := c, wb_modes := fst f\<rparr>);
           p \<leftarrow> scan_encoders d (snd f) possible;
           scan_connectors d cs p
         }
       }
   }"

definition size_name :: "u16 \<Rightarrow> u16 \<Rightarrow> string" where
  "size_name xd yd = take 31 (show_nat (unat xd) @ ''x'' @ show_nat (unat yd))"

definition default_mode :: "nat \<Rightarrow> modeinfo" where
  "default_mode i = (let v = (\<lambda>n. drop_bit i n :: u16) in
     \<lparr>clock = drop_bit i 148500, hdisplay = v 1920, hsync_start = v 1930, hsync_end = v 1940, htotal = v 1990,
      vdisplay = v 1080, vsync_start = v 1090, vsync_end = v 1100, vtotal = v 1110, vrefresh = 67,
      mtype = TYPE_DRIVER, mname = size_name (v 1920) (v 1080)\<rparr>)"

text \<open>\<open>wb_modes[i]\<close> of the static array of four: zero beyond the modes found.\<close>

definition mode_at :: "modeinfo list \<Rightarrow> nat \<Rightarrow> modeinfo" where
  "mode_at ms i = (if i < length ms then ms ! i else
     \<lparr>clock = 0, hdisplay = 0, hsync_start = 0, hsync_end = 0, htotal = 0, vdisplay = 0, vsync_start = 0,
      vsync_end = 0, vtotal = 0, vrefresh = 0, mtype = 0, mname = []\<rparr>)"

definition print_mode :: "nat \<Rightarrow> modeinfo \<Rightarrow> ('k, unit) wprog" where
  "print_mode i m = print ''  wb mode[%d] %s %ux%u clock %u kHz htotal %u vtotal %u''
     [I (int i), S (mname m), U (ucast (hdisplay m)), U (ucast (vdisplay m)), U32 (clock m),
      U (ucast (htotal m)), U (ucast (vtotal m))]"

text \<open>\<open>sscanf(s, "%u,%u,...", ...)\<close> with \<open>n\<close> conversions: the values read, fewer when it fails.\<close>

fun scan_csv :: "nat \<Rightarrow> string \<Rightarrow> u32 list" where
  "scan_csv 0 s = []"
| "scan_csv (Suc n) s = (case scan_ld s of
     None \<Rightarrow> []
   | Some (v, r) \<Rightarrow> word_of_int v # (case r of c # t \<Rightarrow> if c = CHR '','' then scan_csv n t else [] | [] \<Rightarrow> []))"

text \<open>The mode of nine numbers; \<open>None\<close> when \<open>htotal\<close> or \<open>vtotal\<close> is zero, the divisors.\<close>

definition override_mode :: "u32 list \<Rightarrow> modeinfo option" where
  "override_mode v = (let ht = (ucast (v ! 4) :: u16); vt = (ucast (v ! 8) :: u16) in
     if ht = 0 \<or> vt = 0 then None
     else Some \<lparr>clock = v ! 0, hdisplay = ucast (v ! 1), hsync_start = ucast (v ! 2), hsync_end = ucast (v ! 3),
       htotal = ht, vdisplay = ucast (v ! 5), vsync_start = ucast (v ! 6), vsync_end = ucast (v ! 7), vtotal = vt,
       vrefresh = v ! 0 * 1000 div ucast ht div ucast vt, mtype = TYPE_DRIVER,
       mname = size_name (ucast (v ! 1)) (ucast (v ! 5))\<rparr>)"

definition mode_override :: "'k drm \<Rightarrow> ('k, bool) wprog" where
  "mode_override d =
     (case d_getenv d ''MODE'' of
        None \<Rightarrow> ret True
      | Some s \<Rightarrow> (let v = scan_csv 9 s in
          if length v \<noteq> 9 then ret True
          else case override_mode v of
            None \<Rightarrow> ret False
          | Some m \<Rightarrow> do {
              effect (\<lambda>s. s\<lparr>wb_modes := (wb_modes s)[0 := m]\<rparr>);
              print ''  MODE override: %s clock %u htotal %u vtotal %u''
                [S (mname m), U32 (clock m), U (ucast (htotal m)), U (ucast (vtotal m))];
              ret True
            }))"

definition scan_plane :: "'k drm \<Rightarrow> u32 \<Rightarrow> ('k, unit) wprog" where
  "scan_plane d p = do {
     g \<leftarrow> kcall (d_plane d p);
     t \<leftarrow> prop_find d p OBJ_PLANE ''type'';
     z \<leftarrow> prop_find d p OBJ_PLANE ''zpos'';
     let gp = (case g of None \<Rightarrow> (0, 0) | Some x \<Rightarrow> x);
         ty = (case t of None \<Rightarrow> 99 | Some (_, v) \<Rightarrow> v);
         zp = (case z of None \<Rightarrow> 99 | Some (_, v) \<Rightarrow> v)
     in do {
       print ''  plane %u type %llu zpos %llu possible_crtcs 0x%x formats %u''
         [U32 p, U ty, U zp, U32 (fst gp), U32 (snd gp)];
       whenM (fst gp AND 1 \<noteq> 0) (effect (\<lambda>s.
         if ty = 1 \<and> prim_plane s = 0 then s\<lparr>prim_plane := p\<rparr>
         else if ty = 0 \<and> ovl_plane s = 0 then s\<lparr>ovl_plane := p\<rparr> else s))
     }
   }"

text \<open>\<open>strtoul(s, NULL, 0)\<close>, cut to 32 bits.\<close>

definition digit_val :: "char \<Rightarrow> nat" where
  "digit_val c = (let n = of_char c in if 48 \<le> n \<and> n \<le> 57 then n - 48
     else if 97 \<le> n \<and> n \<le> 102 then n - 87 else if 65 \<le> n \<and> n \<le> 70 then n - 55 else 16)"

definition digits_base :: "nat \<Rightarrow> string \<Rightarrow> nat" where
  "digits_base b s = fold (\<lambda>c v. b * v + digit_val c) (takeWhile (\<lambda>c. digit_val c < b) s) 0"

definition strtoul0 :: "string \<Rightarrow> u32" where
  "strtoul0 str =
     (let s = skip_ws str;
          neg = (case s of c # _ \<Rightarrow> c = CHR ''-'' | [] \<Rightarrow> False);
          t = (case s of c # r \<Rightarrow> if c = CHR ''-'' \<or> c = CHR ''+'' then r else s | [] \<Rightarrow> []);
          n = (case t of
              z # x # h # r \<Rightarrow> if z = CHR ''0'' \<and> (x = CHR ''x'' \<or> x = CHR ''X'') \<and> digit_val h < 16
                  then digits_base 16 (h # r) else if z = CHR ''0'' then digits_base 8 t else digits_base 10 t
            | z # r \<Rightarrow> if z = CHR ''0'' then digits_base 8 t else digits_base 10 t
            | [] \<Rightarrow> 0)
      in if neg then - of_nat n else of_nat n)"

text \<open>
  \<open>find_resources\<close>: 0, or minus an errno; \<open>None\<close> for an undefined division. The id arrays hold 8
  CRTCs, 16 connectors, 16 encoders and 32 planes, and the second ioctl is given the counts the
  first returned.
\<close>

definition find_planes :: "'k drm \<Rightarrow> ('k, int) wprog" where
  "find_planes d = do {
     c \<leftarrow> kcall (d_plane_count d);
     case c of
       Inl e \<Rightarrow> ret (- e)
     | Inr n \<Rightarrow> do {
         ps \<leftarrow> kcall (d_planes d);
         case ps of
           Inl e \<Rightarrow> ret (- e)
         | Inr planes \<Rightarrow> do {
             mark_oob (32 < length planes);
             eachM (scan_plane d) planes;
             (case d_getenv d ''OVL_PLANE'' of
                None \<Rightarrow> ret () | Some v \<Rightarrow> effect (\<lambda>s. s\<lparr>ovl_plane := strtoul0 v\<rparr>));
             s \<leftarrow> get id;
             print ''use crtc %u (idx %u), primary plane %u, overlay plane %u, wb connector %u''
               [U32 (crtc_id s), I 0, U32 (prim_plane s), U32 (ovl_plane s), U32 (wb_conn s)];
             ret (if prim_plane s \<noteq> 0 then 0 else - ENODEV)
           }
       }
   }"

definition find_modes :: "'k drm \<Rightarrow> ('k, bool) wprog" where
  "find_modes d = do {
     ms \<leftarrow> get wb_modes;
     whenM (ms = []) (do {
       effect (\<lambda>s. s\<lparr>wb_modes := [default_mode 0, default_mode 1]\<rparr>);
       print ''  (wb connector reported 0 modes; using the 2 modes)'' []
     });
     ms \<leftarrow> get wb_modes;
     eachM (\<lambda>(i, m). print_mode i m) (enumerate 0 ms);
     mode_override d
   }"

definition find_resources :: "'k drm \<Rightarrow> ('k, int option) wprog" where
  "find_resources d = do {
     n \<leftarrow> kcall (d_counts d);
     case n of
       Inl e \<Rightarrow> ret (Some (- e))
     | Inr _ \<Rightarrow> do {
         r \<leftarrow> kcall (d_resources d);
         case r of
           Inl e \<Rightarrow> ret (Some (- e))
         | Inr (crtcs, conns, encs) \<Rightarrow> do {
             mark_oob (8 < length crtcs \<or> 16 < length conns \<or> 16 < length encs \<or> crtcs = []);
             print ''resources: %u crtcs, %u connectors, %u encoders''
               [I (int (length crtcs)), I (int (length conns)), I (int (length encs))];
             possible \<leftarrow> scan_connectors d conns 0;
             wc \<leftarrow> get wb_conn;
             if wc = 0 then do {
               print ''no writeback connector (client cap?)'' []; ret (Some (- ENODEV)) }
             else do {
               ok \<leftarrow> find_modes d;
               if \<not> ok then ret None
               else do {
                 print ''  wb encoder possible_crtcs = 0x%x'' [U32 possible];
                 effect (\<lambda>s. s\<lparr>crtc_id := (case crtcs of [] \<Rightarrow> 0 | c # _ \<Rightarrow> c)\<rparr>);
                 x \<leftarrow> find_planes d;
                 ret (Some x)
               }
             }
           }
       }
   }"

subsection \<open>Scenarios\<close>

definition add_prop :: "'k drm \<Rightarrow> u32 \<Rightarrow> u32 \<Rightarrow> string \<Rightarrow> u64 \<Rightarrow> ('k, unit) wprog" where
  "add_prop d obj ty name v = do { p \<leftarrow> prop_id d obj ty name; aadd obj p v }"

definition plane_set :: "'k drm \<Rightarrow> u32 \<Rightarrow> wbuf option \<Rightarrow> u32 \<Rightarrow> u32 \<Rightarrow> u32 \<Rightarrow> u32 \<Rightarrow> ('k, unit) wprog" where
  "plane_set d plane b cx cy cw ch = do {
     crtc \<leftarrow> get crtc_id;
     add_prop d plane OBJ_PLANE ''FB_ID'' (case b of None \<Rightarrow> 0 | Some b \<Rightarrow> ucast (bfb b));
     add_prop d plane OBJ_PLANE ''CRTC_ID'' (case b of None \<Rightarrow> 0 | Some _ \<Rightarrow> ucast crtc);
     case b of
       None \<Rightarrow> ret ()
     | Some b \<Rightarrow> do {
         add_prop d plane OBJ_PLANE ''SRC_X'' 0;
         add_prop d plane OBJ_PLANE ''SRC_Y'' 0;
         add_prop d plane OBJ_PLANE ''SRC_W'' (push_bit 16 (ucast (bw b)));
         add_prop d plane OBJ_PLANE ''SRC_H'' (push_bit 16 (ucast (bh b)));
         add_prop d plane OBJ_PLANE ''CRTC_X'' (ucast cx);
         add_prop d plane OBJ_PLANE ''CRTC_Y'' (ucast cy);
         add_prop d plane OBJ_PLANE ''CRTC_W'' (ucast cw);
         add_prop d plane OBJ_PLANE ''CRTC_H'' (ucast ch)
       }
   }"

record scen =
  sc_name :: string
  sc_mode :: nat
  prim_w :: u32
  prim_h :: u32
  prim_pat :: pattern
  overlay :: bool
  blend :: "string option"
  wb_w :: u32
  wb_h :: u32
  wb_fmt :: u32
  frames :: int

definition scen_of :: "string \<Rightarrow> nat \<Rightarrow> u32 \<Rightarrow> u32 \<Rightarrow> pattern \<Rightarrow> string option \<Rightarrow> u32 \<Rightarrow> u32 \<Rightarrow> u32 \<Rightarrow> int \<Rightarrow> scen" where
  "scen_of n m pw ph pat bl ww wh fmt fr = \<lparr>sc_name = n, sc_mode = m, prim_w = pw, prim_h = ph, prim_pat = pat,
     overlay = (bl \<noteq> None), blend = bl, wb_w = ww, wb_h = wh, wb_fmt = fmt, frames = fr\<rparr>"

definition scens :: "scen list" where
  "scens = [
     scen_of ''compose_cov'' 0 1920 1080 P_GRAD (Some ''Coverage'') 1920 1080 FMT_ARGB8888 1,
     scen_of ''compose_pre'' 0 1920 1080 P_GRAD (Some ''Pre-multiplied'') 1920 1080 FMT_ARGB8888 1,
     scen_of ''upscale2x'' 0 960 540 P_STRIPES_1PX None 1920 1080 FMT_ARGB8888 1,
     scen_of ''wb_xhalf'' 0 1920 1080 P_STRIPES_1PX None 960 1080 FMT_ARGB8888 1,
     scen_of ''wb_yhalf'' 0 1920 1080 P_STRIPES_1PX None 1920 540 FMT_ARGB8888 1,
     scen_of ''fmt_bgr888'' 0 1920 1080 P_COLORBARS None 1920 1080 FMT_BGR888 1,
     scen_of ''fmt_rgb565'' 0 1920 1080 P_GRAD None 1920 1080 FMT_RGB565 1,
     scen_of ''fmt_nv12'' 0 1920 1080 P_COLORBARS None 1920 1080 FMT_NV12 1,
     scen_of ''timing'' 1 960 540 P_GRAD None 960 540 FMT_ARGB8888 10]"

text \<open>The part of the first frame's request that sets the mode and the planes.\<close>

definition set_overlay :: "'k drm \<Rightarrow> scen \<Rightarrow> wbuf \<Rightarrow> ('k, unit) wprog" where
  "set_overlay d s ovl = do {
     op \<leftarrow> get ovl_plane;
     plane_set d op (Some ovl) 200 200 512 512;
     case blend s of
       None \<Rightarrow> ret ()
     | Some bl \<Rightarrow> do {
         bp \<leftarrow> prop_id d op OBJ_PLANE ''pixel blend mode'';
         v \<leftarrow> (if bp \<noteq> 0 then prop_enum d bp bl else ret (- 1));
         print ''  pixel blend mode prop %u: %s -> %lld'' [U32 bp, S bl, I v];
         if 0 \<le> v then aadd op bp (word_of_int v) else print ''  (no pixel blend mode %s)'' [S bl]
       }
   }"

definition first_frame :: "'k drm \<Rightarrow> scen \<Rightarrow> modeinfo \<Rightarrow> u32 \<Rightarrow> wbuf \<Rightarrow> wbuf \<Rightarrow> ('k, unit) wprog" where
  "first_frame d s m blob prim ovl = do {
     crtc \<leftarrow> get crtc_id;
     add_prop d crtc OBJ_CRTC ''MODE_ID'' (ucast blob);
     add_prop d crtc OBJ_CRTC ''ACTIVE'' 1;
     pp \<leftarrow> get prim_plane;
     plane_set d pp (Some prim) 0 0 (ucast (hdisplay m)) (ucast (vdisplay m));
     whenM (overlay s) (set_overlay d s ovl)
   }"

definition writeback_props :: "'k drm \<Rightarrow> u64 \<Rightarrow> wbuf \<Rightarrow> ('k, unit) wprog" where
  "writeback_props d fence_ptr w = do {
     crtc \<leftarrow> get crtc_id;
     c \<leftarrow> get wb_conn;
     add_prop d c OBJ_CONNECTOR ''CRTC_ID'' (ucast crtc);
     add_prop d c OBJ_CONNECTOR ''WRITEBACK_FB_ID'' (ucast (bfb w));
     add_prop d c OBJ_CONNECTOR ''WRITEBACK_OUT_FENCE_PTR'' fence_ptr
   }"

text \<open>One frame: 0, or the error that ends the loop; \<open>fence_ptr\<close> is the address of \<open>out_fence\<close>.\<close>

definition frame ::
    "'k drm \<Rightarrow> u64 \<Rightarrow> scen \<Rightarrow> modeinfo \<Rightarrow> u32 \<Rightarrow> wbuf \<Rightarrow> wbuf \<Rightarrow> wbuf \<Rightarrow> nat \<Rightarrow> ('k, int) wprog" where
  "frame d fence_ptr s m blob prim ovl w f = do {
     whenM (f = 0) (first_frame d s m blob prim ovl);
     writeback_props d fence_ptr w;
     c \<leftarrow> acommit d (if f = 0 then ALLOW_MODESET else 0);
     if fst c \<noteq> 0 then do { print ''  commit failed: %d (%s)'' [I (fst c)]; ret (fst c) }
     else do {
       p \<leftarrow> kcall (d_poll d (snd c));
       keffect (d_close d (snd c));
       print ''  frame %d: (poll=%d)'' [I (int f), I p];
       ret (if p \<noteq> 1 then - ETIMEDOUT else 0)
     }
   }"

fun frame_loop ::
    "'k drm \<Rightarrow> u64 \<Rightarrow> scen \<Rightarrow> modeinfo \<Rightarrow> u32 \<Rightarrow> wbuf \<Rightarrow> wbuf \<Rightarrow> wbuf \<Rightarrow> nat \<Rightarrow> nat \<Rightarrow> ('k, int) wprog" where
  "frame_loop d fp s m blob prim ovl w f 0 = ret 0"
| "frame_loop d fp s m blob prim ovl w f (Suc n) = do {
     r \<leftarrow> frame d fp s m blob prim ovl w f;
     if r \<noteq> 0 then ret r else frame_loop d fp s m blob prim ovl w (Suc f) n
   }"

text \<open>Everything off again, and the objects destroyed.\<close>

definition tear_down :: "'k drm \<Rightarrow> scen \<Rightarrow> u32 \<Rightarrow> wbuf \<Rightarrow> wbuf \<Rightarrow> wbuf \<Rightarrow> ('k, unit) wprog" where
  "tear_down d s blob prim ovl w = do {
     st \<leftarrow> get id;
     plane_set d (prim_plane st) None 0 0 0 0;
     whenM (overlay s) (plane_set d (ovl_plane st) None 0 0 0 0);
     add_prop d (wb_conn st) OBJ_CONNECTOR ''CRTC_ID'' 0;
     add_prop d (crtc_id st) OBJ_CRTC ''ACTIVE'' 0;
     add_prop d (crtc_id st) OBJ_CRTC ''MODE_ID'' 0;
     c \<leftarrow> acommit d ALLOW_MODESET;
     whenM (fst c \<noteq> 0) (print ''  disable commit failed: %d'' [I (fst c)]);
     keffect (d_destroyblob d blob);
     rmbuf d prim;
     whenM (overlay s) (rmbuf d ovl);
     rmbuf d w
   }"

definition save_image :: "'k drm \<Rightarrow> scen \<Rightarrow> wbuf \<Rightarrow> ('k, bool) wprog" where
  "save_image d s w = do {
     let path = take 127 (''/tmp/wb_'' @ sc_name s @ ''.raw'') in do {
       ok \<leftarrow> kcall (d_fopen_w d path);
       if \<not> ok then ret False
       else do {
         keffect (d_write_file d path (bmap w) (bsize w));
         print ''  META name=%s w=%u h=%u pitch=%u fmt=%.4s size=%llu file=%s''
           [S (sc_name s), U32 (bw w), U32 (bh w), U32 (bpitch w), S (fourcc_text (bfmt w)), U (bsize w), S path];
         ret True
       }
     }
   }"

text \<open>\<open>mkbuf\<close> of the primary plane, the overlay if there is one, the writeback target, in this order.\<close>

definition make_bufs :: "'k drm \<Rightarrow> scen \<Rightarrow> ('k, int \<times> wbuf \<times> wbuf \<times> wbuf) wprog" where
  "make_bufs d s = do {
     p \<leftarrow> mkbuf d (prim_w s) (prim_h s) FMT_XRGB8888;
     if fst p \<noteq> 0 then ret (fst p, snd p, no_buf, no_buf)
     else do {
       ov \<leftarrow> (if overlay s then mkbuf d 512 512 FMT_ARGB8888 else ret (0, no_buf));
       if fst ov \<noteq> 0 then ret (fst ov, snd p, snd ov, no_buf)
       else do {
         w \<leftarrow> mkbuf d (wb_w s) (wb_h s) (wb_fmt s);
         ret (fst w, snd p, snd ov, snd w)
       }
     }
   }"

definition fill_overlay :: "'k drm \<Rightarrow> wbuf \<Rightarrow> ('k, unit) wprog" where
  "fill_overlay d ovl = eachM (\<lambda>y. eachM (\<lambda>x. put32 d ovl (of_nat x) (of_nat y) 0x800000ff) [0..<512]) [0..<512]"

definition run_frames :: "'k drm \<Rightarrow> u64 \<Rightarrow> scen \<Rightarrow> modeinfo \<Rightarrow> u32 \<Rightarrow> wbuf \<Rightarrow> wbuf \<Rightarrow> wbuf \<Rightarrow> ('k, int option) wprog" where
  "run_frames d fp s m blob prim ovl w = do {
     rv \<leftarrow> frame_loop d fp s m blob prim ovl w 0 (nat (frames s));
     whenM (1 < frames s \<and> rv = 0) (print ''  avg later frames'' []);
     saved \<leftarrow> (if rv = 0 then save_image d s w else ret True);
     if \<not> saved then ret None
     else do {
       whenM (rv = 0 \<and> d_getenv d ''DUMP_DEBUGFS'' \<noteq> None) (keffect (d_system d ''debugfs''));
       tear_down d s blob prim ovl w;
       ret (Some rv)
     }
   }"

definition run_scen :: "'k drm \<Rightarrow> u64 \<Rightarrow> scen \<Rightarrow> ('k, int option) wprog" where
  "run_scen d fp s = do {
     ms \<leftarrow> get wb_modes;
     let m = mode_at ms (sc_mode s) in do {
       print ''=== %s: mode %ux%u, prim %ux%u pat %d, overlay %d (%s), wb %ux%u %.4s''
         [S (sc_name s), U (ucast (hdisplay m)), U (ucast (vdisplay m)), U32 (prim_w s), U32 (prim_h s),
          I (case prim_pat s of P_GRAD \<Rightarrow> 0 | P_STRIPES_1PX \<Rightarrow> 1 | P_COLORBARS \<Rightarrow> 2), I (of_bool (overlay s)),
          S (case blend s of None \<Rightarrow> ''-'' | Some b \<Rightarrow> b), U32 (wb_w s), U32 (wb_h s), S (fourcc_text (wb_fmt s))];
       (r, prim, ovl, w) \<leftarrow> make_bufs d s;
       if r \<noteq> 0 then do { print ''  mkbuf failed: %d'' [I r]; ret (Some r) }
       else do {
         ok \<leftarrow> fill d prim (prim_pat s);
         if \<not> ok then ret None
         else do {
           whenM (overlay s) (fill_overlay d ovl);
           b \<leftarrow> kcall (d_createblob d m);
           case b of
             Inl e \<Rightarrow> do { print ''  blob failed %d'' [I e]; ret (Some (- e)) }
           | Inr blob \<Rightarrow> run_frames d fp s m blob prim ovl w
         }
       }
     }
   }"

text \<open>
  \<open>main\<close>: the exit status, \<open>None\<close> when a scenario runs into undefined behaviour. \<open>atoi\<close> of
  \<open>FRAMES\<close> reads a leading number.
\<close>

fun run_wanted :: "'k drm \<Rightarrow> u64 \<Rightarrow> string list \<Rightarrow> scen list \<Rightarrow> int \<Rightarrow> ('k, int option) wprog" where
  "run_wanted d fp args [] fails = ret (Some fails)"
| "run_wanted d fp args (s # ss) fails =
     (if args = [] \<or> sc_name s \<in> set args
      then do {
        r \<leftarrow> run_scen d fp s;
        case r of None \<Rightarrow> ret None
        | Some v \<Rightarrow> run_wanted d fp args ss (if v \<noteq> 0 then fails + 1 else fails)
      }
      else run_wanted d fp args ss fails)"

definition custom_scen :: "'k drm \<Rightarrow> modeinfo \<Rightarrow> scen" where
  "custom_scen d m = scen_of ''custom'' 0 (ucast (hdisplay m)) (ucast (vdisplay m)) P_GRAD None
     (ucast (hdisplay m)) (ucast (vdisplay m)) FMT_ARGB8888
     (case d_getenv d ''FRAMES'' of None \<Rightarrow> 10
      | Some v \<Rightarrow> (case scan_ld v of None \<Rightarrow> 0 | Some (n, _) \<Rightarrow> n))"

definition finish :: "'k drm \<Rightarrow> int option \<Rightarrow> ('k, int option) wprog" where
  "finish d fails = (case fails of
       None \<Rightarrow> ret None
     | Some n \<Rightarrow> do {
         keffect (d_drop_master d);
         print ''done, %d failed'' [I n];
         ret (Some (if n \<noteq> 0 then 2 else 0))
       })"

definition client_caps :: "'k drm \<Rightarrow> ('k, unit) wprog" where
  "client_caps d = eachM (\<lambda>c. do {
     e \<leftarrow> kcall (d_client_cap d c);
     whenM (e \<noteq> 0) (print ''client cap %llu: %s'' [U c])
   }) [2, 3, 5]"

definition wbtest_main :: "'k drm \<Rightarrow> u64 \<Rightarrow> string list \<Rightarrow> ('k, int option) wprog" where
  "wbtest_main d fp args = do {
     ok \<leftarrow> kcall (d_open_card d);
     if \<not> ok then do { print ''open card0'' []; ret (Some 1) }
     else do {
       e \<leftarrow> kcall (d_set_master d);
       whenM (e \<noteq> 0) (print ''SET_MASTER: %s'' [I e]);
       client_caps d;
       r \<leftarrow> find_resources d;
       case r of
         None \<Rightarrow> ret None
       | Some v \<Rightarrow>
           if v \<noteq> 0 then ret (Some 1)
           else if args \<noteq> [] \<and> hd args = ''custom'' then do {
             ms \<leftarrow> get wb_modes;
             x \<leftarrow> run_scen d fp (custom_scen d (mode_at ms 0));
             finish d (map_option (\<lambda>v. if v \<noteq> 0 then 1 else 0) x)
           }
           else do {
             x \<leftarrow> run_wanted d fp args scens 0;
             finish d x
           }
     }
   }"

section \<open>Lemmas\<close>

subsection \<open>The request never outgrows its arrays\<close>

text \<open>A predicate on the program's variables that does not look at the kernel.\<close>

definition kern_free :: "('k wb \<Rightarrow> bool) \<Rightarrow> bool" where
  "kern_free J \<longleftrightarrow> (\<forall>s k. J (s\<lparr>kern := k\<rparr>) = J s)"

lemma kern_freeD: "kern_free J \<Longrightarrow> J (s\<lparr>kern := k\<rparr>) = J s"
  by (simp add: kern_free_def)

lemma keeps_kcall [triples]: "kern_free J \<Longrightarrow> keeps J (kcall f)"
  unfolding kcall_def by (rule keeps_call) (simp add: kern_freeD split: prod.split)

lemma keeps_keffect [triples]: "kern_free J \<Longrightarrow> keeps J (keffect f)"
  unfolding keffect_def by (rule keeps_effect) (simp add: kern_freeD)

lemma keeps_get [triples]: "keeps J (get f)"
  unfolding get_def by (rule keeps_call) simp

lemma keeps_let [triples]: "(\<And>x. keeps J (f x)) \<Longrightarrow> keeps J (let x = v in f x)"
  by simp

lemma keeps_prod [triples]: "(\<And>x y. keeps J (f x y)) \<Longrightarrow> keeps J (case p of (x, y) \<Rightarrow> f x y)"
  by (simp split: prod.split)

lemma keeps_sum [triples]:
  "(\<And>x. keeps J (f x)) \<Longrightarrow> (\<And>x. keeps J (g x)) \<Longrightarrow> keeps J (case r of Inl x \<Rightarrow> f x | Inr x \<Rightarrow> g x)"
  by (simp split: sum.split)

lemma keeps_prop_scan [triples]: "kern_free J \<Longrightarrow> keeps J (prop_scan d name ps)"
  by (induction d name ps rule: prop_scan.induct) (auto intro!: triples)

lemma keeps_prop_id [triples]: "kern_free J \<Longrightarrow> keeps J (prop_id d obj ty name)"
  unfolding prop_id_def prop_find_def by (intro triples)

lemma keeps_dump_enums [triples]: "keeps J (dump_enums i en)"
  by (induction i en rule: dump_enums.induct) (auto intro!: triples)

lemma keeps_prop_enum [triples]: "kern_free J \<Longrightarrow> keeps J (prop_enum d p name)"
  unfolding prop_enum_def by (intro triples)

lemma keeps_mkbuf [triples]: "kern_free J \<Longrightarrow> keeps J (mkbuf d w h fmt)"
  unfolding mkbuf_def by (intro triples)

lemma keeps_rmbuf [triples]: "kern_free J \<Longrightarrow> keeps J (rmbuf d b)"
  unfolding rmbuf_def by (intro triples)

lemma keeps_put32 [triples]: "kern_free J \<Longrightarrow> keeps J (put32 d b x y c)"
  unfolding put32_def by (intro triples)

lemma keeps_fill [triples]: "kern_free J \<Longrightarrow> keeps J (fill d b pat)"
  unfolding fill_def by (intro triples)

lemma keeps_fill_overlay [triples]: "kern_free J \<Longrightarrow> keeps J (fill_overlay d b)"
  unfolding fill_overlay_def by (intro triples)

lemma keeps_make_bufs [triples]: "kern_free J \<Longrightarrow> keeps J (make_bufs d s)"
  unfolding make_bufs_def by (intro triples)

lemma keeps_save_image [triples]: "kern_free J \<Longrightarrow> keeps J (save_image d s w)"
  unfolding save_image_def by (intro triples)

definition room :: "nat \<Rightarrow> 'k wb \<Rightarrow> bool" where
  "room n s \<longleftrightarrow> \<not> oob s \<and> request_wf s \<and> length (a_props s) \<le> n"

lemma room_kern_free [simp]: "kern_free (room n)"
  by (simp add: kern_free_def room_def request_wf_def)

lemma room_mono: "room n s \<Longrightarrow> n \<le> m \<Longrightarrow> room m s"
  by (auto simp: room_def)

lemma room_aadd: "n < MAXP \<Longrightarrow> hoare (room n) (aadd obj p v) (\<lambda>_. room (Suc n))"
proof (cases "p = 0")
  case True
  then show ?thesis by (simp add: aadd_def) (rule hoare_print, simp add: room_def)
next
  case False
  moreover assume n: "n < MAXP"
  have "room (Suc n) (aadd_state obj p v s)" if r: "room n s" for s
  proof -
    have "request_wf (aadd_state obj p v s)" using r by (simp add: room_def request_wf_add)
    moreover from this have "length (a_objs (aadd_state obj p v s)) \<le> length (a_props (aadd_state obj p v s))"
      using groups_le by (metis request_wf_def)
    ultimately show ?thesis using r n by (auto simp: room_def aadd_state_def)
  qed
  ultimately show ?thesis by (simp add: aadd_def) (rule hoare_effect)
qed

lemma room_add_prop: "n < MAXP \<Longrightarrow> hoare (room n) (add_prop d obj ty name v) (\<lambda>_. room (Suc n))"
  unfolding add_prop_def by (intro hoare_keeps room_aadd triples) simp


lemma room_weaken: "n \<le> m \<Longrightarrow> hoare (room n) (ret ()) (\<lambda>_. room m)"
  by (rule hoare_ret) (rule room_mono)

lemmas room_step = hoare_bind [OF room_add_prop] hoare_keeps [OF keeps_get]

lemma room_plane_set: "n + 10 \<le> MAXP \<Longrightarrow> hoare (room n) (plane_set d p b cx cy cw ch) (\<lambda>_. room (n + 10))"
proof -
  assume n: "n + 10 \<le> MAXP"
  show ?thesis
  proof (cases b)
    case None
    show ?thesis unfolding plane_set_def None option.case
      using n by (intro room_step room_weaken) auto
  next
    case (Some w)
    have "hoare (room n) (plane_set d p b cx cy cw ch) (\<lambda>_. room (Suc (Suc (Suc (Suc (Suc (Suc (Suc (Suc (Suc (Suc n)))))))))))"
      unfolding plane_set_def Some option.case using n by (intro room_step room_add_prop) auto
    then show ?thesis by (rule hoare_post) (erule room_mono, simp)
  qed
qed

lemma room_when: "hoare (room n) m (\<lambda>_. room k) \<Longrightarrow> n \<le> k \<Longrightarrow> hoare (room n) (whenM b m) (\<lambda>_. room k)"
  by (simp add: whenM_def room_weaken)

lemma room_set_overlay: "n + 11 \<le> MAXP \<Longrightarrow> hoare (room n) (set_overlay d s ovl) (\<lambda>_. room (n + 11))"
proof -
  assume n: "n + 11 \<le> MAXP"
  have "hoare (room (n + 10)) (if 0 \<le> v then aadd op bp (word_of_int v) else print l vs) (\<lambda>_. room (n + 11))"
    for v op bp l vs
  proof (cases "0 \<le> v")
    case True
    have "hoare (room (n + 10)) (aadd op bp (word_of_int v)) (\<lambda>_. room (Suc (n + 10)))"
      using n by (intro room_aadd) simp
    then have "hoare (room (n + 10)) (aadd op bp (word_of_int v)) (\<lambda>_. room (n + 11))"
      by (rule hoare_post) (erule room_mono, simp)
    with True show ?thesis by simp
  next
    case False
    have "hoare (room (n + 10)) (print l vs) (\<lambda>_. room (n + 11))"
      by (rule hoare_print) (auto intro: room_mono)
    with False show ?thesis by simp
  qed
  note ov = this
  show ?thesis
  proof (cases "blend s")
    case None
    show ?thesis unfolding set_overlay_def None option.case
      using n by (intro hoare_keeps [OF keeps_get] hoare_bind [OF room_plane_set] room_weaken) simp_all
  next
    case (Some bl)
    show ?thesis unfolding set_overlay_def Some option.case
      using n by (intro hoare_keeps [OF keeps_get] hoare_bind [OF room_plane_set] ov
          hoare_keeps [OF keeps_prop_id] hoare_keeps [OF keeps_if [OF keeps_prop_enum keeps_ret]]
          hoare_keeps [OF keeps_print]) simp_all
  qed
qed

lemma room_first_frame: "hoare (room 0) (first_frame d s m blob prim ovl) (\<lambda>_. room 23)"
proof -
  have "hoare (room (Suc (Suc 0) + 10)) (whenM (overlay s) (set_overlay d s ovl)) (\<lambda>_. room (Suc (Suc 0) + 10 + 11))"
    by (intro room_when room_set_overlay) (simp_all add: MAXP_def)
  then have "hoare (room 0) (first_frame d s m blob prim ovl) (\<lambda>_. room (Suc (Suc 0) + 10 + 11))"
    unfolding first_frame_def
    by (intro room_step hoare_bind [OF room_plane_set]) (simp_all add: MAXP_def)
  then show ?thesis by simp
qed

lemma room_writeback: "hoare (room 23) (writeback_props d fp w) (\<lambda>_. room 26)"
proof -
  have "hoare (room 23) (writeback_props d fp w) (\<lambda>_. room (Suc (Suc (Suc 23))))"
    unfolding writeback_props_def by (intro room_step room_add_prop) (simp_all add: MAXP_def)
  then show ?thesis by simp
qed

lemma room_acommit: "hoare (room n) (acommit d flags) (\<lambda>_. room 0)"
  unfolding acommit_def
  by (intro hoare_keeps [OF keeps_get] hoare_keeps [OF keeps_kcall [OF room_kern_free]])
    (rule hoare_bind [where R = "\<lambda>_. room 0"], rule hoare_effect, simp add: room_def request_wf_def,
      rule hoare_ret, assumption)

lemma room_frame: "keeps (room 0) (frame d fp s m blob prim ovl w f)"
  unfolding keeps_def frame_def
proof (rule hoare_bind)
  show "hoare (room 0) (whenM (f = 0) (first_frame d s m blob prim ovl)) (\<lambda>_. room 23)"
    by (rule room_when [OF room_first_frame]) simp
  show "hoare (room 23) (do {
      writeback_props d fp w;
      c \<leftarrow> acommit d (if f = 0 then ALLOW_MODESET else 0);
      if fst c \<noteq> 0 then do { print ''  commit failed: %d (%s)'' [I (fst c)]; ret (fst c) }
      else do {
        p \<leftarrow> kcall (d_poll d (snd c));
        keffect (d_close d (snd c));
        print ''  frame %d: (poll=%d)'' [I (int f), I p];
        ret (if p \<noteq> 1 then - ETIMEDOUT else 0)
      } }) (\<lambda>_. room 0)"
    by (intro hoare_bind [OF room_writeback] hoare_bind [OF room_acommit]
        keeps_if [unfolded keeps_def] triples [unfolded keeps_def]) simp_all
qed

lemma room_frame_loop: "keeps (room 0) (frame_loop d fp s m blob prim ovl w f n)"
  by (induction d fp s m blob prim ovl w f n rule: frame_loop.induct) (auto intro!: triples room_frame)

lemma room_tear_down: "keeps (room 0) (tear_down d s blob prim ovl w)"
proof -
  have wh: "hoare (room 10) (whenM (overlay s) (plane_set d p None 0 0 0 0)) (\<lambda>_. room 20)" for p
    using room_plane_set [of 10 d p None] by (intro room_when) (simp_all add: MAXP_def)
  show ?thesis
    unfolding keeps_def tear_down_def
    by (intro hoare_keeps [OF keeps_get] hoare_bind [OF room_plane_set [of 0, simplified]]
        hoare_bind [OF wh] room_step hoare_bind [OF room_acommit] triples [unfolded keeps_def])
      (simp_all add: MAXP_def)
qed

text \<open>
  C3: A scenario never writes past the request arrays, which \<open>aadd\<close> does not check: whatever the
  kernel answers to every call, at most 26 properties are ever pending, the request is empty
  again when \<open>run\<close> returns, on every path (\<open>oob\<close> is never reset, so it was never set).
\<close>

theorem request_stays_in_bounds:
  fixes d :: "'k drm"
  shows "keeps (\<lambda>s. \<not> oob s \<and> a_objs s = [] \<and> a_props s = []) (run_scen d fp sc)"
proof -
  have "(\<lambda>s :: 'k wb. \<not> oob s \<and> a_objs s = [] \<and> a_props s = []) = room 0"
    using groups_le by (fastforce simp: fun_eq_iff room_def request_wf_def)
  moreover have "keeps (room 0) (run_scen d fp sc)"
    unfolding run_scen_def run_frames_def
    by (intro triples room_frame_loop room_tear_down) simp_all
  ultimately show ?thesis by simp
qed

subsection \<open>Every pixel gets its colour\<close>

text \<open>Memory as the program sees it: a 32-bit store changes that word only.\<close>

definition stores_documented :: "'k drm \<Rightarrow> ('k \<Rightarrow> u64 \<Rightarrow> u32) \<Rightarrow> bool" where
  "stores_documented d mem \<longleftrightarrow> (\<forall>a v k. mem (d_store32 d a v k) = (mem k)(a := v))"

definition buffer_fits :: "wbuf \<Rightarrow> bool" where
  "buffer_fits b \<longleftrightarrow> 4 * unat (bw b) \<le> unat (bpitch b) \<and> unat (bpitch b) * unat (bh b) < 2 ^ 32
     \<and> unat (bpitch b) * unat (bh b) \<le> unat (bsize b) \<and> unat (bmap b) + unat (bsize b) \<le> 2 ^ 64"

lemma pixel_offset:
  assumes "buffer_fits b" "x < unat (bw b)" "y < unat (bh b)"
  shows "unat (pixel_addr b (of_nat x) (of_nat y)) = unat (bmap b) + y * unat (bpitch b) + 4 * x"
    and "y * unat (bpitch b) + 4 * x + 4 \<le> unat (bpitch b) * unat (bh b)"
proof -
  let ?P = "unat (bpitch b)" and ?H = "unat (bh b)"
  have "4 * x + 4 \<le> ?P" using assms by (simp add: buffer_fits_def)
  moreover have "Suc y * ?P \<le> ?H * ?P" using assms(3) by (intro mult_le_mono1) simp
  ultimately show le: "y * ?P + 4 * x + 4 \<le> ?P * ?H" by (simp add: ac_simps)
  have lim: "?P * ?H < 2 ^ 32" "?P * ?H \<le> unat (bsize b)" "unat (bmap b) + unat (bsize b) \<le> 2 ^ 64"
    using assms(1) by (simp_all add: buffer_fits_def)
  have p: "0 < ?P" using assms by (simp add: buffer_fits_def)

  have "of_nat y * bpitch b + of_nat x * 4 = (of_nat (y * ?P + 4 * x) :: u32)"
    by (simp add: ac_simps)
  moreover have "y * ?P + 4 * x < 2 ^ 32" using le lim by linarith
  ultimately have u: "unat (of_nat y * bpitch b + of_nat x * 4) = y * ?P + 4 * x"
    by (simp only: unat_of_nat) (simp add: take_bit_nat_eq_self)
  then have v: "unat (ucast (of_nat y * bpitch b + of_nat x * 4) :: u64) = y * ?P + 4 * x"
    using \<open>y * ?P + 4 * x < 2 ^ 32\<close> by (simp add: unsigned_ucast_eq take_bit_nat_eq_self)
  have "unat (bmap b) + (y * ?P + 4 * x) < 2 ^ 64" using le lim by linarith
  then show "unat (pixel_addr b (of_nat x) (of_nat y)) = unat (bmap b) + y * ?P + 4 * x"
    unfolding pixel_addr_def using v by (simp add: unat_add_lem [THEN iffD1])
qed

lemma pixel_inj:
  assumes b: "buffer_fits b" and l: "x < unat (bw b)" "y < unat (bh b)" "x' < unat (bw b)" "y' < unat (bh b)"
    and e: "pixel_addr b (of_nat x) (of_nat y) = pixel_addr b (of_nat x') (of_nat y')"
  shows "x = x' \<and> y = y'"
proof -
  let ?P = "unat (bpitch b)"
  from e have "y * ?P + 4 * x = y' * ?P + 4 * x'"
    using pixel_offset(1) [OF b l(1,2)] pixel_offset(1) [OF b l(3,4)] by simp
  moreover have "4 * x < ?P" "4 * x' < ?P" using b l by (auto simp: buffer_fits_def)
  ultimately have "y = y'"
    by (metis add.commute div_less div_mult_self3 gr_implies_not0 add_0 mult.commute)
  with \<open>y * ?P + 4 * x = y' * ?P + 4 * x'\<close> show ?thesis by simp
qed

lemma fold_update_inj:
  assumes "inj_on f (set ps)" "p \<in> set ps"
  shows "fold (\<lambda>p m. m(f p := g p)) ps m (f p) = g p"
  using assms
proof (induction ps rule: rev_induct)
  case (snoc q qs)
  show ?case
  proof (cases "p = q")
    case False
    with snoc.prems have "f p \<noteq> f q" "p \<in> set qs" by (auto simp: inj_on_def)
    with snoc show ?thesis by (simp add: inj_on_insert)
  qed simp
qed simp

lemma set_pixels: "set (pixels b) = (\<lambda>(x, y). (of_nat x, of_nat y)) ` ({..<unat (bw b)} \<times> {..<unat (bh b)})"
  by (force simp: pixels_def)

lemma mem_fold_stores:
  assumes "stores_documented d mem"
  shows "mem (kern (fold (\<lambda>(x, y) s. s\<lparr>kern := d_store32 d (f x y) (g x y) (kern s)\<rparr>) ps s))
     = fold (\<lambda>(x, y) m. m(f x y := g x y)) ps (mem (kern s))"
  using assms by (induction ps arbitrary: s) (auto simp: stores_documented_def)

text \<open>
  \<open>fill\<close> paints the pattern: when the buffer has room for its lines and the memory behaves,
  every pixel (x, y) of the buffer ends up holding the opaque colour of the pattern there (no
  two pixels share an address and none lies outside the mapping).
\<close>

theorem fill_exact:
  assumes doc: "stores_documented d mem" and fits: "buffer_fits b" and "\<not> fill_traps pat b"
  shows "hoare (\<lambda>_. True) (fill d b pat) (\<lambda>ok s. ok \<and>
     (\<forall>x<unat (bw b). \<forall>y<unat (bh b). mem (kern s) (pixel_addr b (of_nat x) (of_nat y))
        = 0xff000000 OR colour pat (bw b) (bh b) (of_nat x) (of_nat y)))"
proof -
  let ?a = "\<lambda>(x, y). pixel_addr b x y" and ?c = "\<lambda>(x, y). 0xff000000 OR colour pat (bw b) (bh b) x y"
  have inj: "inj_on ?a (set (pixels b))"
    unfolding set_pixels inj_on_def using pixel_inj [OF fits] by auto
  have run: "run_state (eachM (\<lambda>(x, y). put32 d b x y (?c (x, y))) (pixels b)) (s, out)
      = ((), (fold (\<lambda>(x, y) s. s\<lparr>kern := d_store32 d (?a (x, y)) (?c (x, y)) (kern s)\<rparr>) (pixels b) s, out))" for s out
    by (rule run_eachM_effect) (auto simp: put32_def keffect_def)
  have mem: "mem (kern (fold (\<lambda>(x, y) s. s\<lparr>kern := d_store32 d (?a (x, y)) (?c (x, y)) (kern s)\<rparr>) (pixels b) s)) (?a p) = ?c p"
    if "p \<in> set (pixels b)" for p s
    unfolding mem_fold_stores [OF doc] using fold_update_inj [OF inj that, of ?c "mem (kern s)"]
    by (simp add: case_prod_unfold)
  have "(of_nat x, of_nat y) \<in> set (pixels b)" if "x < unat (bw b)" "y < unat (bh b)" for x y
    unfolding set_pixels using that by force
  then have px: "mem (kern (fold (\<lambda>(x, y) s. s\<lparr>kern := d_store32 d (?a (x, y)) (?c (x, y)) (kern s)\<rparr>) (pixels b) s))
      (pixel_addr b (of_nat x) (of_nat y)) = ?c (of_nat x, of_nat y)"
    if "x < unat (bw b)" "y < unat (bh b)" for x y s
    using mem [of "(of_nat x, of_nat y)" s] that by simp
  show ?thesis
    unfolding fill_def hoare_def using assms(3) run by (auto simp: case_prod_unfold px [simplified case_prod_unfold, simplified])
qed

subsection \<open>Nothing is left behind\<close>

text \<open>
  The kernel objects alive: dumb buffers by handle, framebuffers and property blobs by id.
  Documented: creating one gives a fresh id, destroying removes it, no other call changes them.
\<close>

type_synonym live = "u32 set \<times> u32 set \<times> u32 set"

definition still :: "('k \<Rightarrow> live) \<Rightarrow> ('k \<Rightarrow> 'a \<times> 'k) \<Rightarrow> bool" where
  "still lv f \<longleftrightarrow> (\<forall>k. lv (snd (f k)) = lv k)"

definition calls_keep_objects :: "'k drm \<Rightarrow> ('k \<Rightarrow> live) \<Rightarrow> bool" where
  "calls_keep_objects d lv \<longleftrightarrow>
     (\<forall>i t. still lv (d_objprops_count d i t) \<and> still lv (d_objprops d i t)) \<and>
     (\<forall>i. still lv (d_getprop d i) \<and> still lv (d_getenums d i)) \<and>
     (\<forall>f os ps. still lv (d_atomic d f os ps)) \<and> (\<forall>f. still lv (d_poll d f)) \<and> (\<forall>p. still lv (d_fopen_w d p)) \<and>
     (\<forall>h. still lv (d_map_dumb d h)) \<and> (\<forall>n off. still lv (d_mmap d n off)) \<and>
     (\<forall>a n k. lv (d_munmap d a n k) = lv k) \<and> (\<forall>a v k. lv (d_store32 d a v k) = lv k) \<and>
     (\<forall>a v n k. lv (d_memset d a v n k) = lv k) \<and> (\<forall>f k. lv (d_close d f k) = lv k) \<and>
     (\<forall>p a n k. lv (d_write_file d p a n k) = lv k) \<and> (\<forall>c k. lv (d_system d c k) = lv k)"

definition creates ::
    "('k \<Rightarrow> live) \<Rightarrow> ('k \<Rightarrow> (int + 'a) \<times> 'k) \<Rightarrow> ('a \<Rightarrow> live \<Rightarrow> bool) \<Rightarrow> ('a \<Rightarrow> live \<Rightarrow> live) \<Rightarrow> bool" where
  "creates lv f fresh add \<longleftrightarrow> (\<forall>k. case f k of
       (Inl e, k') \<Rightarrow> e \<noteq> 0 \<and> lv k' = lv k
     | (Inr a, k') \<Rightarrow> fresh a (lv k) \<and> lv k' = add a (lv k))"

definition objects_documented :: "'k drm \<Rightarrow> ('k \<Rightarrow> live) \<Rightarrow> bool" where
  "objects_documented d lv \<longleftrightarrow>
     (\<forall>w h bpp. creates lv (d_create_dumb d w h bpp) (\<lambda>r L. fst r \<notin> fst L) (\<lambda>r L. (insert (fst r) (fst L), snd L))) \<and>
     (\<forall>c. creates lv (d_addfb2 d c) (\<lambda>i L. i \<notin> fst (snd L)) (\<lambda>i L. (fst L, insert i (fst (snd L)), snd (snd L)))) \<and>
     (\<forall>m. creates lv (d_createblob d m) (\<lambda>i L. i \<notin> snd (snd L)) (\<lambda>i L. (fst L, fst (snd L), insert i (snd (snd L))))) \<and>
     (\<forall>i. creates lv (d_map_dumb d i) (\<lambda>_ _. True) (\<lambda>_ L. L)) \<and>
     (\<forall>sz off. creates lv (d_mmap d sz off) (\<lambda>_ _. True) (\<lambda>_ L. L)) \<and>
     (\<forall>i k. lv (d_destroy_dumb d i k) = (fst (lv k) - {i}, snd (lv k))) \<and>
     (\<forall>i k. lv (d_rmfb d i k) = (fst (lv k), fst (snd (lv k)) - {i}, snd (snd (lv k)))) \<and>
     (\<forall>i k. lv (d_destroyblob d i k) = (fst (lv k), fst (snd (lv k)), snd (snd (lv k)) - {i}))"

abbreviation alive :: "('k \<Rightarrow> live) \<Rightarrow> live \<Rightarrow> 'k wb \<Rightarrow> bool" where
  "alive lv L \<equiv> \<lambda>s. lv (kern s) = L"

lemma alive_kcall: "still lv f \<Longrightarrow> keeps (alive lv L) (kcall f)"
  unfolding kcall_def by (rule keeps_call) (simp add: still_def case_prod_unfold)

lemma alive_keffect: "(\<And>k. lv (f k) = lv k) \<Longrightarrow> keeps (alive lv L) (keffect f)"
  unfolding keffect_def by (rule keeps_effect) simp

lemma alive_aadd: "keeps (alive lv L) (aadd obj p v)"
  by (auto simp: aadd_def aadd_state_def intro!: triples keeps_effect)

lemma quiet:
  assumes "calls_keep_objects d lv"
  shows "still lv (d_objprops_count d i t)" "still lv (d_objprops d i t)" "still lv (d_getprop d i)"
    "still lv (d_getenums d i)" "still lv (d_atomic d fl os ps)" "still lv (d_poll d n)" "still lv (d_fopen_w d p)"
    "still lv (d_map_dumb d i)" "still lv (d_mmap d sz off)"
    "lv (d_munmap d a sz k) = lv k" "lv (d_store32 d a v k) = lv k" "lv (d_memset d a c sz k) = lv k"
    "lv (d_close d n k) = lv k" "lv (d_write_file d p a sz k) = lv k" "lv (d_system d p k) = lv k"
  using assms by (simp_all add: calls_keep_objects_def)

lemmas alive = keeps_bind keeps_ret keeps_print keeps_if keeps_whenM keeps_eachM keeps_option keeps_get
  keeps_let keeps_prod keeps_sum alive_kcall alive_keffect alive_aadd quiet

lemma alive_prop_scan: "calls_keep_objects d lv \<Longrightarrow> keeps (alive lv L) (prop_scan d name ps)"
  by (induction d name ps rule: prop_scan.induct) (auto intro!: alive)

lemma alive_prop_id: "calls_keep_objects d lv \<Longrightarrow> keeps (alive lv L) (prop_id d obj ty name)"
  unfolding prop_id_def prop_find_def by (intro alive alive_prop_scan)

lemma alive_prop_enum: "calls_keep_objects d lv \<Longrightarrow> keeps (alive lv L) (prop_enum d p name)"
  unfolding prop_enum_def by (intro alive keeps_dump_enums)

lemma alive_add_prop: "calls_keep_objects d lv \<Longrightarrow> keeps (alive lv L) (add_prop d obj ty name v)"
  unfolding add_prop_def by (intro alive alive_prop_id)

lemma alive_plane_set: "calls_keep_objects d lv \<Longrightarrow> keeps (alive lv L) (plane_set d p b cx cy cw ch)"
  unfolding plane_set_def by (intro alive alive_add_prop)

lemma alive_set_overlay: "calls_keep_objects d lv \<Longrightarrow> keeps (alive lv L) (set_overlay d s ovl)"
  unfolding set_overlay_def by (intro alive alive_plane_set alive_prop_id alive_prop_enum)

lemma alive_acommit: "calls_keep_objects d lv \<Longrightarrow> keeps (alive lv L) (acommit d fl)"
  unfolding acommit_def by (intro alive keeps_effect) simp_all

lemma alive_frame: "calls_keep_objects d lv \<Longrightarrow> keeps (alive lv L) (frame d fp s m blob prim ovl w f)"
  unfolding frame_def first_frame_def writeback_props_def
  by (intro alive alive_add_prop alive_plane_set alive_set_overlay alive_acommit)

lemma alive_frame_loop: "calls_keep_objects d lv \<Longrightarrow> keeps (alive lv L) (frame_loop d fp s m blob prim ovl w f n)"
  by (induction d fp s m blob prim ovl w f n rule: frame_loop.induct) (auto intro!: triples alive_frame)

lemma alive_fill: "calls_keep_objects d lv \<Longrightarrow> keeps (alive lv L) (fill d b pat)"
  unfolding fill_def put32_def by (intro alive)

lemma alive_fill_overlay: "calls_keep_objects d lv \<Longrightarrow> keeps (alive lv L) (fill_overlay d b)"
  unfolding fill_overlay_def put32_def by (intro alive)

lemma alive_save_image: "calls_keep_objects d lv \<Longrightarrow> keeps (alive lv L) (save_image d s w)"
  unfolding save_image_def by (intro alive)

text \<open>What a buffer owns, and the two operations on buffers.\<close>

definition with_buf :: "wbuf \<Rightarrow> live \<Rightarrow> live" where
  "with_buf b L = (insert (bhandle b) (fst L), insert (bfb b) (fst (snd L)), snd (snd L))"

definition fresh_buf :: "wbuf \<Rightarrow> live \<Rightarrow> bool" where
  "fresh_buf b L \<longleftrightarrow> bhandle b \<notin> fst L \<and> bfb b \<notin> fst (snd L)"

lemma creates_Inl: "creates lv f fresh add \<Longrightarrow> f k = (Inl e, k') \<Longrightarrow> e \<noteq> 0 \<and> lv k' = lv k"
  by (auto simp: creates_def split: prod.splits sum.splits dest: spec [of _ k])

lemma creates_Inr: "creates lv f fresh add \<Longrightarrow> f k = (Inr a, k') \<Longrightarrow> fresh a (lv k) \<and> lv k' = add a (lv k)"
  by (auto simp: creates_def split: prod.splits sum.splits dest: spec [of _ k])

lemma objectsD:
  assumes "objects_documented d lv"
  shows "creates lv (d_create_dumb d w h bpp) (\<lambda>r L. fst r \<notin> fst L) (\<lambda>r L. (insert (fst r) (fst L), snd L))"
    and "creates lv (d_addfb2 d c) (\<lambda>i L. i \<notin> fst (snd L)) (\<lambda>i L. (fst L, insert i (fst (snd L)), snd (snd L)))"
    and "creates lv (d_createblob d m) (\<lambda>i L. i \<notin> snd (snd L)) (\<lambda>i L. (fst L, fst (snd L), insert i (snd (snd L))))"
    and "creates lv (d_map_dumb d i) (\<lambda>_ _. True) (\<lambda>_ L. L)"
    and "creates lv (d_mmap d sz off) (\<lambda>_ _. True) (\<lambda>_ L. L)"
    and "lv (d_destroy_dumb d i k) = (fst (lv k) - {i}, snd (lv k))"
    and "lv (d_rmfb d i k) = (fst (lv k), fst (snd (lv k)) - {i}, snd (snd (lv k)))"
    and "lv (d_destroyblob d i k) = (fst (lv k), fst (snd (lv k)), snd (snd (lv k)) - {i})"
  using assms by (simp_all add: objects_documented_def)

lemma alive_mkbuf:
  assumes q: "calls_keep_objects d lv" and o: "objects_documented d lv"
  shows "hoare (alive lv L) (mkbuf d w h fmt) (\<lambda>r s. fst r = 0 \<longrightarrow> fresh_buf (snd r) L \<and> lv (kern s) = with_buf (snd r) L)"
proof (cases "dumb_shape h fmt")
  case None
  then show ?thesis by (simp add: mkbuf_def) (rule hoare_ret, simp add: EINVAL_def)
next
  case (Some bl)
  note step = objectsD(1,2,4,5) [OF o, THEN creates_Inl] objectsD(1,2,4,5) [OF o, THEN creates_Inr]
  show ?thesis
    using Some
    by (auto simp: mkbuf_def hoare_def kcall_def keffect_def with_buf_def fresh_buf_def quiet [OF q] Let_def
        split: prod.splits sum.splits dest!: step)
qed

definition drop_buf :: "wbuf \<Rightarrow> live \<Rightarrow> live" where
  "drop_buf b L = (fst L - {bhandle b}, fst (snd L) - {bfb b}, snd (snd L))"

lemma alive_rmbuf:
  assumes q: "calls_keep_objects d lv" and o: "objects_documented d lv"
  shows "hoare (alive lv L) (rmbuf d b) (\<lambda>_. alive lv (drop_buf b L))"
  unfolding hoare_def rmbuf_def keffect_def
  by (auto simp: objectsD(6,7) [OF o] quiet [OF q] drop_buf_def)

text \<open>The three buffers in the order of creation; the overlay only when there is one.\<close>

definition bufs_made :: "scen \<Rightarrow> wbuf \<Rightarrow> wbuf \<Rightarrow> wbuf \<Rightarrow> live \<Rightarrow> live" where
  "bufs_made s prim ovl w L =
     (let L1 = with_buf prim L in with_buf w (if overlay s then with_buf ovl L1 else L1))"

definition bufs_fresh :: "scen \<Rightarrow> wbuf \<Rightarrow> wbuf \<Rightarrow> wbuf \<Rightarrow> live \<Rightarrow> bool" where
  "bufs_fresh s prim ovl w L \<longleftrightarrow>
     (let L1 = with_buf prim L; L2 = (if overlay s then with_buf ovl L1 else L1)
      in fresh_buf prim L \<and> (overlay s \<longrightarrow> fresh_buf ovl L1) \<and> fresh_buf w L2)"

lemma alive_make_bufs:
  assumes q: "calls_keep_objects d lv" and o: "objects_documented d lv"
  shows "hoare (alive lv L) (make_bufs d s) (\<lambda>(r, prim, ovl, w) st. r = 0 \<longrightarrow>
     bufs_fresh s prim ovl w L \<and> lv (kern st) = bufs_made s prim ovl w L)"
proof -
  show ?thesis
    unfolding hoare_def
  proof (intro allI impI, goal_cases)
    case (1 st out res st' out')
    obtain r1 p st1 out1 where p: "run_state (mkbuf d (prim_w s) (prim_h s) FMT_XRGB8888) (st, out) = ((r1, p), (st1, out1))"
      by (metis prod.exhaust)
    have P: "r1 = 0 \<Longrightarrow> fresh_buf p L \<and> lv (kern st1) = with_buf p L"
      using hoareD [OF alive_mkbuf [OF q o] 1(1) p] by simp
    obtain r2 v st2 out2 where v: "run_state (if overlay s then mkbuf d 512 512 FMT_ARGB8888 else ret (0, no_buf)) (st1, out1)
        = ((r2, v), (st2, out2))" by (metis prod.exhaust)
    have v': "overlay s \<Longrightarrow> run_state (mkbuf d 512 512 FMT_ARGB8888) (st1, out1) = ((r2, v), (st2, out2))"
      "\<not> overlay s \<Longrightarrow> st2 = st1" using v by (auto split: if_splits)
    have V: "r1 = 0 \<Longrightarrow> r2 = 0 \<Longrightarrow> (overlay s \<longrightarrow> fresh_buf v (with_buf p L)) \<and>
        lv (kern st2) = (if overlay s then with_buf v (with_buf p L) else with_buf p L)"
      using hoareD [OF alive_mkbuf [OF q o] _ v'(1)] P v'(2) by (cases "overlay s") auto
    obtain r3 x st3 out3 where x: "run_state (mkbuf d (wb_w s) (wb_h s) (wb_fmt s)) (st2, out2) = ((r3, x), (st3, out3))"
      by (metis prod.exhaust)
    have X: "r1 = 0 \<Longrightarrow> r2 = 0 \<Longrightarrow> r3 = 0 \<Longrightarrow> fresh_buf x (lv (kern st2)) \<and> lv (kern st3) = with_buf x (lv (kern st2))"
      using hoareD [OF alive_mkbuf [OF q o] refl x] by simp
    show ?case
      using 1(2) p v x P V X
      by (auto simp: make_bufs_def bufs_made_def bufs_fresh_def Let_def split: if_splits)
  qed
qed

lemma drop_all:
  assumes "bufs_fresh s prim ovl w L"
  shows "drop_buf w (if overlay s then drop_buf ovl (drop_buf prim (bufs_made s prim ovl w L))
     else drop_buf prim (bufs_made s prim ovl w L)) = L"
  using assms
  by (auto simp: bufs_fresh_def bufs_made_def drop_buf_def with_buf_def fresh_buf_def Let_def prod_eq_iff split: if_splits)

definition with_blob :: "u32 \<Rightarrow> live \<Rightarrow> live" where
  "with_blob b L = (fst L, fst (snd L), insert b (snd (snd L)))"

lemma alive_destroyblob:
  assumes o: "objects_documented d lv" and "blob \<notin> snd (snd L)"
  shows "hoare (alive lv (with_blob blob L)) (keffect (d_destroyblob d blob)) (\<lambda>_. alive lv L)"
  unfolding keffect_def using assms(2)
  by (intro hoare_effect) (auto simp: objectsD(8) [OF o] with_blob_def prod_eq_iff)

lemma alive_createblob:
  assumes o: "objects_documented d lv"
  shows "hoare (alive lv L) (kcall (d_createblob d m))
     (\<lambda>r s. case r of Inl e \<Rightarrow> e \<noteq> 0 | Inr b \<Rightarrow> b \<notin> snd (snd L) \<and> lv (kern s) = with_blob b L)"
  unfolding kcall_def
  by (rule hoare_call)
    (auto split: prod.splits sum.splits simp: with_blob_def
      dest!: creates_Inl [OF objectsD(3) [OF o]] creates_Inr [OF objectsD(3) [OF o]])

lemma alive_system: "calls_keep_objects d lv \<Longrightarrow> keeps (alive lv L) (keffect (d_system d p))"
  by (intro alive)

lemma alive_tear_down:
  assumes q: "calls_keep_objects d lv" and o: "objects_documented d lv"
    and f: "bufs_fresh s prim ovl w L" and b: "blob \<notin> snd (snd L)"
  shows "hoare (alive lv (with_blob blob (bufs_made s prim ovl w L))) (tear_down d s blob prim ovl w) (\<lambda>_. alive lv L)"
proof -
  have b': "blob \<notin> snd (snd (bufs_made s prim ovl w L))"
    using b by (auto simp: bufs_made_def with_buf_def Let_def)
  let ?M = "drop_buf prim (bufs_made s prim ovl w L)"
  have ov: "hoare (alive lv ?M) (whenM (overlay s) (rmbuf d ovl))
      (\<lambda>_. alive lv (if overlay s then drop_buf ovl ?M else ?M))"
    using alive_rmbuf [OF q o, of ?M ovl] by (auto simp: whenM_def intro: hoare_ret)
  have last: "hoare (alive lv (if overlay s then drop_buf ovl ?M else ?M)) (rmbuf d w) (\<lambda>_. alive lv L)"
    using alive_rmbuf [OF q o, of "if overlay s then drop_buf ovl ?M else ?M" w] unfolding drop_all [OF f] .
  show ?thesis
    unfolding tear_down_def
    by (intro hoare_keeps [OF keeps_get] hoare_keeps [OF alive_plane_set [OF q]] hoare_keeps [OF alive_add_prop [OF q]]
        hoare_keeps [OF keeps_whenM [OF alive_plane_set [OF q]]] hoare_keeps [OF alive_acommit [OF q]]
        hoare_keeps [OF keeps_whenM [OF keeps_print]] hoare_bind [OF alive_destroyblob [OF o b']]
        hoare_bind [OF alive_rmbuf [OF q o]] hoare_bind [OF ov] last)
qed

lemma alive_run_frames:
  assumes q: "calls_keep_objects d lv" and o: "objects_documented d lv"
    and f: "bufs_fresh s prim ovl w L" and b: "blob \<notin> snd (snd L)"
  shows "hoare (alive lv (with_blob blob (bufs_made s prim ovl w L))) (run_frames d fp s m blob prim ovl w)
     (\<lambda>r st. r \<noteq> None \<longrightarrow> lv (kern st) = L)"
  unfolding run_frames_def
  by (intro hoare_keeps [OF alive_frame_loop [OF q]] hoare_keeps [OF keeps_whenM [OF keeps_print]]
      hoare_keeps [OF keeps_if [OF alive_save_image [OF q] keeps_ret]] hoare_if hoare_ret
      hoare_keeps [OF keeps_whenM [OF alive_system [OF q]]]
      hoare_bind [OF alive_tear_down [OF q o f b]]) simp_all

lemma alive_run_scen:
  assumes q: "calls_keep_objects d lv" and o: "objects_documented d lv"
  shows "hoare (alive lv L) (run_scen d fp s) (\<lambda>r st. r = Some 0 \<longrightarrow> lv (kern st) = L)"
  unfolding run_scen_def Let_def
proof (intro hoare_keeps [OF keeps_get] hoare_keeps [OF keeps_print] hoare_bind [OF alive_make_bufs [OF q o]], goal_cases)
  case (1 ms u res)
  obtain r prim ovl w where res: "res = (r, prim, ovl, w)" by (cases res) auto
  let ?m = "mode_at ms (sc_mode s)"
  show ?case
  proof (cases "r = 0 \<and> bufs_fresh s prim ovl w L")
    case False
    then show ?thesis
      unfolding res prod.case hoare_def by (auto simp: bufs_made_def)
  next
    case True
    let ?L = "bufs_made s prim ovl w L"
    have blob: "hoare (\<lambda>st. case x of Inl e \<Rightarrow> e \<noteq> 0 | Inr b \<Rightarrow> b \<notin> snd (snd ?L) \<and> lv (kern st) = with_blob b ?L)
        (case x of Inl e \<Rightarrow> do { print ''  blob failed %d'' [I e]; ret (Some (- e)) }
         | Inr blob \<Rightarrow> run_frames d fp s ?m blob prim ovl w) (\<lambda>r st. r = Some 0 \<longrightarrow> lv (kern st) = L)" for x
    proof (cases x)
      case (Inl e)
      then show ?thesis by (auto simp: hoare_def)
    next
      case (Inr b)
      have "snd (snd ?L) = snd (snd L)" by (simp add: bufs_made_def with_buf_def Let_def)
      then have "b \<notin> snd (snd ?L) \<Longrightarrow> hoare (alive lv (with_blob b ?L)) (run_frames d fp s ?m b prim ovl w)
          (\<lambda>r st. r = Some 0 \<longrightarrow> lv (kern st) = L)"
        using True by (auto intro!: hoare_post [OF alive_run_frames [OF q o, of s prim ovl w L b]])
      then show ?thesis unfolding Inr sum.case by (rule hoare_conj)
    qed
    show ?thesis
      unfolding res prod.case
    proof (rule hoare_if, goal_cases)
      case 1
      with True show ?case by simp
    next
      case 2
      show ?case
        by (rule hoare_pre [of "alive lv ?L"],
            intro hoare_keeps [OF alive_fill [OF q]] hoare_if hoare_ret
              hoare_keeps [OF keeps_whenM [OF alive_fill_overlay [OF q]]]
              hoare_bind [OF alive_createblob [OF o]] blob)
          (use True in simp_all)
    qed
  qed
qed

text \<open>
  C4: A scenario that succeeds leaves no kernel object behind: with creation and destruction as
  documented, the dumb buffers, framebuffers and property blobs alive afterwards are those
  alive before, whichever calls failed in between without ending it.
\<close>

theorem scenario_leaves_nothing:
  assumes "calls_keep_objects d lv" and "objects_documented d lv"
  shows "hoare (\<lambda>st. lv (kern st) = L) (run_scen d fp s) (\<lambda>r st. r = Some 0 \<longrightarrow> lv (kern st) = L)"
  by (rule alive_run_scen [OF assms])

text \<open>A kernel that keeps lists of ids and a memory, for the witnesses.\<close>

record skern =
  sk_dumb :: "u32 list"
  sk_fb :: "u32 list"
  sk_blob :: "u32 list"
  sk_mem :: "u64 \<Rightarrow> u32"

definition new_id :: "u32 list \<Rightarrow> u32" where "new_id l = of_nat (length l) + 1"

definition sample_drm :: "skern drm" where
  "sample_drm = \<lparr>d_objprops_count = (\<lambda>i t k. (Some 1, k)), d_objprops = (\<lambda>i t k. (Some [(5, 1)], k)),
     d_getprop = (\<lambda>i k. (Some (''CRTC_ID'', 0), k)), d_getenums = (\<lambda>i k. (None, k)),
     d_atomic = (\<lambda>f os ps k. (Inr 7, k)),
     d_create_dumb = (\<lambda>w h bpp k. let i = new_id (sk_dumb k) in
        if i \<in> set (sk_dumb k) then (Inl 28, k)
        else (Inr (i, w * 4, ucast (w * 4 * h)), k\<lparr>sk_dumb := i # sk_dumb k\<rparr>)),
     d_addfb2 = (\<lambda>c k. let i = new_id (sk_fb k) in
        if i \<in> set (sk_fb k) then (Inl 28, k) else (Inr i, k\<lparr>sk_fb := i # sk_fb k\<rparr>)),
     d_map_dumb = (\<lambda>i k. (Inr 0, k)), d_mmap = (\<lambda>n off k. (Inr 0x10000, k)), d_munmap = (\<lambda>a n k. k),
     d_rmfb = (\<lambda>i k. k\<lparr>sk_fb := removeAll i (sk_fb k)\<rparr>),
     d_destroy_dumb = (\<lambda>i k. k\<lparr>sk_dumb := removeAll i (sk_dumb k)\<rparr>),
     d_store32 = (\<lambda>a v k. k\<lparr>sk_mem := (sk_mem k)(a := v)\<rparr>), d_memset = (\<lambda>a v n k. k),
     d_createblob = (\<lambda>m k. let i = new_id (sk_blob k) in
        if i \<in> set (sk_blob k) then (Inl 28, k) else (Inr i, k\<lparr>sk_blob := i # sk_blob k\<rparr>)),
     d_destroyblob = (\<lambda>i k. k\<lparr>sk_blob := removeAll i (sk_blob k)\<rparr>),
     d_poll = (\<lambda>f k. (1, k)), d_close = (\<lambda>f k. k), d_getenv = (\<lambda>n. None), d_fopen_w = (\<lambda>p k. (True, k)),
     d_write_file = (\<lambda>p a n k. k), d_system = (\<lambda>c k. k), d_counts = (\<lambda>k. (Inr (1, 1, 1), k)),
     d_resources = (\<lambda>k. (Inr ([3], [4], [6]), k)), d_connector = (\<lambda>c k. (None, k)),
     d_connector_fill = (\<lambda>c m e k. (([], []), k)), d_encoder = (\<lambda>e k. (None, k)),
     d_plane_count = (\<lambda>k. (Inr 1, k)), d_planes = (\<lambda>k. (Inr [9], k)), d_plane = (\<lambda>p k. (Some (1, 1), k)),
     d_open_card = (\<lambda>k. (True, k)), d_set_master = (\<lambda>k. (0, k)), d_client_cap = (\<lambda>c k. (0, k)),
     d_drop_master = (\<lambda>k. k)\<rparr>"

definition sample_live :: "skern \<Rightarrow> live" where
  "sample_live k = (set (sk_dumb k), set (sk_fb k), set (sk_blob k))"

definition sample_st :: "skern wb" where
  "sample_st = \<lparr>kern = \<lparr>sk_dumb = [], sk_fb = [], sk_blob = [], sk_mem = (\<lambda>_. 0)\<rparr>, a_objs = [], a_props = [],
     oob = False, crtc_id = 3, wb_conn = 4, prim_plane = 9, ovl_plane = 0, wb_modes = [default_mode 0]\<rparr>"

definition sample_scen :: scen where
  "sample_scen = scen_of ''s'' 0 2 2 P_GRAD None 2 2 FMT_ARGB8888 1"

lemma sample_quiet: "calls_keep_objects sample_drm sample_live"
  by (simp add: calls_keep_objects_def still_def sample_drm_def sample_live_def)

lemma sample_objects: "objects_documented sample_drm sample_live"
  by (auto simp: objects_documented_def creates_def sample_drm_def sample_live_def Let_def)

theorem scenario_leaves_nothing_witness:
  "\<forall>L. hoare (\<lambda>st. sample_live (kern st) = L) (run_scen sample_drm 0 sample_scen)
     (\<lambda>r st. r = Some 0 \<longrightarrow> sample_live (kern st) = L)"
  by (intro allI scenario_leaves_nothing [OF sample_quiet sample_objects])
theorem fill_exact_witness:
  "hoare (\<lambda>_. True) (fill sample_drm \<lparr>bw = 3, bh = 2, bfmt = FMT_XRGB8888, bhandle = 1, bpitch = 16, bfb = 1,
       bsize = 32, bmap = 0x10000\<rparr> P_GRAD)
     (\<lambda>ok s. ok \<and> (\<forall>x<unat (3 :: u32). \<forall>y<unat (2 :: u32). sk_mem (kern s)
        (pixel_addr \<lparr>bw = 3, bh = 2, bfmt = FMT_XRGB8888, bhandle = 1, bpitch = 16, bfb = 1,
           bsize = 32, bmap = 0x10000\<rparr> (of_nat x) (of_nat y)) = 0xff000000 OR colour P_GRAD 3 2 (of_nat x) (of_nat y)))"
proof -
  have "stores_documented sample_drm sk_mem" by (simp add: stores_documented_def sample_drm_def)
  then show ?thesis
    using fill_exact [of sample_drm sk_mem "\<lparr>bw = 3, bh = 2, bfmt = FMT_XRGB8888, bhandle = 1, bpitch = 16, bfb = 1,
       bsize = 32, bmap = 0x10000\<rparr>" P_GRAD]
    by (simp add: buffer_fits_def fill_traps_def)
qed

subsection \<open>The resource arrays\<close>

lemma oob_kern_free [simp]: "kern_free oob"
  by (simp add: kern_free_def)

lemma oob_prop_find: "keeps oob (prop_find d i t n)"
  unfolding prop_find_def by (intro triples) simp_all

lemma oob_scan_encoders: "keeps oob (scan_encoders d es p)"
  by (induction d es p rule: scan_encoders.induct) (auto intro!: triples)

lemma oob_scan_connectors: "keeps oob (scan_connectors d cs p)"
  by (induction cs arbitrary: p) (auto intro!: triples oob_scan_encoders keeps_effect)

lemma oob_find_modes: "keeps oob (find_modes d)"
  unfolding find_modes_def mode_override_def print_mode_def Let_def by (intro triples keeps_effect) simp_all

lemma oob_find_planes: "keeps oob (find_planes d)"
  unfolding find_planes_def scan_plane_def mark_oob_def Let_def by (intro triples keeps_effect oob_prop_find) simp_all

text \<open>
  The id arrays of \<open>find_resources\<close> are on the stack with 8, 16 and 16 entries, and the counts
  of the first ioctl go back to the kernel unclamped: on a card with more CRTCs, connectors or
  encoders than that, the second ioctl writes past them.
\<close>

theorem resource_arrays_overflow:
  assumes "\<And>k. fst (d_counts d k) = Inr c"
    and "\<And>k. fst (d_resources d k) = Inr (crtcs, conns, encs)"
    and "8 < length crtcs \<or> 16 < length conns \<or> 16 < length encs"
  shows "hoare (\<lambda>_. True) (find_resources d) (\<lambda>_ s. oob s)"
proof -
  have a: "hoare (\<lambda>_. True) (kcall (d_counts d)) (\<lambda>r _. r = Inr c \<and> True)"
    unfolding kcall_def by (rule hoare_call) (use assms(1) in \<open>auto split: prod.splits dest: arg_cong [of _ _ fst]\<close>)
  have b: "hoare (\<lambda>_. True) (kcall (d_resources d)) (\<lambda>r _. r = Inr (crtcs, conns, encs) \<and> True)"
    unfolding kcall_def by (rule hoare_call) (use assms(2) in \<open>auto split: prod.splits dest: arg_cong [of _ _ fst]\<close>)
  have m: "hoare (\<lambda>_. True) (mark_oob (8 < length crtcs \<or> 16 < length conns \<or> 16 < length encs \<or> crtcs = [])) (\<lambda>_. oob)"
    unfolding mark_oob_def by (rule hoare_effect) (use assms(3) in auto)
  show ?thesis
    unfolding find_resources_def
    by (rule hoare_bind_eq [OF a], unfold sum.case, rule hoare_bind_eq [OF b], unfold sum.case prod.case,
        rule hoare_bind [OF m], fold keeps_def)
      (intro triples keeps_effect oob_scan_connectors oob_find_modes oob_find_planes, simp_all)
qed

theorem resource_arrays_overflow_witness:
  "hoare (\<lambda>_. True) (find_resources (sample_drm\<lparr>d_resources := (\<lambda>k. (Inr ([3], replicate 17 4, [6]), k))\<rparr>)) (\<lambda>_ s. oob s)"
  by (rule resource_arrays_overflow [where conns = "replicate 17 4" and crtcs = "[3]" and encs = "[6]" and c = "(1, 1, 1)"])
    (simp_all add: sample_drm_def)

end
