(* ===== verification/Lockup.thy ===== *)
theory Lockup
  imports Proc_Files
begin

section \<open>lockup_lab.c: soft lockups, hard lockups, hung tasks\<close>

text \<open>
  A module with three miniature detectors. Every online CPU has a timer that counts its own
  ticks, checks at every third tick whether the next CPU's count has moved (hard lockup), wakes
  the CPU's watchdog thread, and reports the CPU when that thread has not run for twice
  \<open>thresh\<close> seconds (soft lockup). A scanning thread reports tasks found uninterruptible in two
  scans with no context switch in between (hung task). Commands arrive through a proc file.

  The per-CPU variables are a function of the CPU number; \<open>online\<close> is \<open>cpu_online_mask\<close> in
  increasing order. The interrupt, the thread's turn, a scan and a command are the operations
  below; the system is any sequence of them. \<open>now\<close> is \<open>sched_clock()\<close> in seconds.
\<close>

type_synonym cpu = nat

record pcpu =
  ticks :: u64
  saved :: u64
  touch :: u64
  kick :: bool
  thread :: bool
  soft_rep :: bool
  hard_rep :: bool

definition pcpu_start :: pcpu where
  "pcpu_start = \<lparr>ticks = 0, saved = 0, touch = 0, kick = False, thread = False, soft_rep = False, hard_rep = False\<rparr>"

definition HT_MAX :: nat where "HT_MAX = 512"

record lockup =
  thresh :: int
  hung_timeout :: int
  online :: "cpu list"
  nr_cpu_ids :: nat
  pc :: "cpu \<Rightarrow> pcpu"
  wd_running :: bool
  ht_tab :: "(int \<times> u64) list"
  khung_thread :: bool
  spawned :: "(int \<times> int \<times> int) list" \<comment> \<open>kind, cpu, seconds of the threads started by \<open>trigger\<close>\<close>
  klog :: "line list"

definition lockup_start :: "cpu list \<Rightarrow> nat \<Rightarrow> lockup" where
  "lockup_start onl nr = \<lparr>thresh = 5, hung_timeout = 10, online = onl, nr_cpu_ids = nr, pc = (\<lambda>_. pcpu_start),
     wd_running = False, ht_tab = replicate HT_MAX (0, 0), khung_thread = False, spawned = [], klog = []\<rparr>"

definition say :: "line list \<Rightarrow> lockup \<Rightarrow> lockup" where
  "say ls s = s\<lparr>klog := klog s @ ls\<rparr>"

definition upd :: "cpu \<Rightarrow> (pcpu \<Rightarrow> pcpu) \<Rightarrow> lockup \<Rightarrow> lockup" where
  "upd c f s = s\<lparr>pc := (pc s)(c := f (pc s c))\<rparr>"

subsection \<open>The watchdog timer\<close>

definition NSEC_PER_SEC :: u64 where "NSEC_PER_SEC = 1000000000"

definition sample_period_ns :: "lockup \<Rightarrow> u64" where
  "sample_period_ns s = word_of_int (thresh s) * 2 * (NSEC_PER_SEC div 5)"

text \<open>\<open>watchdog_next_cpu\<close>: the next online CPU in the ring, or \<open>nr_cpu_ids\<close> when there is no other.\<close>

definition next_cpu_of :: "lockup \<Rightarrow> cpu \<Rightarrow> cpu" where
  "next_cpu_of s c =
     (let n = (case filter (\<lambda>d. c < d) (online s) of
          d # _ \<Rightarrow> d
        | [] \<Rightarrow> (case online s of d # _ \<Rightarrow> d | [] \<Rightarrow> nr_cpu_ids s))
      in if n = c then nr_cpu_ids s else n)"

definition check_neighbour :: "cpu \<Rightarrow> lockup \<Rightarrow> lockup" where
  "check_neighbour c s =
     (let nb = next_cpu_of s c in
      if nr_cpu_ids s \<le> nb then s
      else let p = pc s nb in
        if saved p = ticks p
        then (if hard_rep p then s
              else say [(''BUG: hard lockup - CPU#%u %lu CPU#%d'', [I (int nb), U (ticks p), I (int c)]),
                        (''      (NMI)'', [])]
                     (upd nb (\<lambda>p. p\<lparr>hard_rep := True\<rparr>) s))
        else upd nb (\<lambda>p. p\<lparr>hard_rep := False, saved := ticks p\<rparr>)
               (if hard_rep p then say [(''CPU#%u (%lu -> %lu) hard lockup over'',
                  [I (int nb), U (saved p), U (ticks p)])] s else s))"

definition kick_thread :: "cpu \<Rightarrow> lockup \<Rightarrow> lockup" where
  "kick_thread c s = (if \<not> kick (pc s c) \<and> thread (pc s c) then upd c (\<lambda>p. p\<lparr>kick := True\<rparr>) s else s)"

definition soft_limit :: "lockup \<Rightarrow> u64 \<Rightarrow> u64" where
  "soft_limit s ts = ts + word_of_int (to_int (2 * thresh s))"

definition check_soft :: "cpu \<Rightarrow> u64 \<Rightarrow> string \<Rightarrow> int \<Rightarrow> lockup \<Rightarrow> lockup" where
  "check_soft c now comm pid s =
     (let p = pc s c; ts = touch p in
      if ts \<noteq> 0 \<and> soft_limit s ts < now
      then (if soft_rep p then s
            else say [(''BUG: soft lockup - CPU#%d stuck for %llus! [%s:%d]'', [I (int c), U (now - ts), S comm, I pid]),
                      (''      (%lu)'', [U (ticks p)])]
                   (upd c (\<lambda>p. p\<lparr>soft_rep := True\<rparr>) s))
      else if soft_rep p \<and> ts \<noteq> 0 \<and> now \<le> soft_limit s ts
      then say [(''CPU#%d soft lockup over'', [I (int c)])] (upd c (\<lambda>p. p\<lparr>soft_rep := False\<rparr>) s)
      else s)"

definition wd_timer_fn :: "cpu \<Rightarrow> u64 \<Rightarrow> string \<Rightarrow> int \<Rightarrow> lockup \<Rightarrow> lockup" where
  "wd_timer_fn c now comm pid s =
     (let s1 = upd c (\<lambda>p. p\<lparr>ticks := ticks p + 1\<rparr>) s;
          s2 = (if ticks (pc s1 c) mod 3 = 0 then check_neighbour c s1 else s1)
      in check_soft c now comm pid (kick_thread c s2))"

text \<open>One turn of the watchdog thread once it gets the CPU.\<close>

definition wd_thread_turn :: "cpu \<Rightarrow> u64 \<Rightarrow> lockup \<Rightarrow> lockup" where
  "wd_thread_turn c now s = upd c (\<lambda>p. p\<lparr>kick := False, touch := now\<rparr>) s"

subsection \<open>Starting and stopping\<close>

text \<open>\<open>made c\<close>: \<open>kthread_create\<close> for CPU \<open>c\<close> succeeds; \<open>at c\<close>: the time on that CPU.\<close>

definition start_thread :: "(cpu \<Rightarrow> bool) \<Rightarrow> cpu \<Rightarrow> lockup \<Rightarrow> lockup" where
  "start_thread made c s =
     (if made c then upd c (\<lambda>p. p\<lparr>thread := True, soft_rep := False, hard_rep := False\<rparr>) s else s)"

definition start_hrtimer_local :: "(cpu \<Rightarrow> u64) \<Rightarrow> cpu \<Rightarrow> lockup \<Rightarrow> lockup" where
  "start_hrtimer_local at c s = upd c (\<lambda>p. p\<lparr>touch := at c\<rparr>) s"

definition wd_start :: "(cpu \<Rightarrow> bool) \<Rightarrow> (cpu \<Rightarrow> u64) \<Rightarrow> lockup \<Rightarrow> lockup" where
  "wd_start made at s =
     (if wd_running s then s
      else let s1 = fold (start_thread made) (online s) s;
               s2 = fold (start_hrtimer_local at) (online s1) s1
           in say [(''wd on: thresh=%d, sample_period=%llu ms, %d'',
                [I (thresh s2), U (sample_period_ns s2 div 1000000), I (to_int (2 * thresh s2))])]
                (s2\<lparr>wd_running := True\<rparr>))"

definition wd_stop :: "lockup \<Rightarrow> lockup" where
  "wd_stop s =
     (if \<not> wd_running s then s
      else say [(''wd off'', [])]
        ((fold (\<lambda>c. upd c (\<lambda>p. p\<lparr>thread := False\<rparr>)) (online s) s)\<lparr>wd_running := False\<rparr>))"

subsection \<open>Hung tasks\<close>

text \<open>
  What the scan reads of a task: the frame pointer saved when it was switched out, its stack
  page, its counters. \<open>mini_bt\<close> follows the frame records inside the stack, twelve at most.
\<close>

record ktask =
  kt_pid :: int
  kt_comm :: string
  kt_state :: u32
  kt_nvcsw :: u64
  kt_nivcsw :: u64
  kt_fp :: u64
  kt_stack :: u64

fun bt_frames :: "memory \<Rightarrow> u64 \<Rightarrow> u64 \<Rightarrow> nat \<Rightarrow> u64 \<Rightarrow> (u64 \<times> u64) list" where
  "bt_frames m lo hi 0 fp = []"
| "bt_frames m lo hi (Suc n) fp =
     (if lo \<le> fp \<and> fp < hi - 16
      then (let next = load64 m fp in
        (fp, load64 m (fp + 8)) # (if next \<le> fp then [] else bt_frames m lo hi n next))
      else [])"

definition mini_bt :: "u64 \<Rightarrow> (u64 \<Rightarrow> string) \<Rightarrow> memory \<Rightarrow> ktask \<Rightarrow> line list" where
  "mini_bt thread_size ksym m t =
     map (\<lambda>(i, (fp, lr)). (''  #%-2d %s'', [I (int i), S (ksym lr)]))
       (enumerate 0 (bt_frames m (kt_stack t) (kt_stack t + thread_size) 12 (kt_fp t)))"

text \<open>\<open>ht_slot\<close>: the pid's slot, else the first free one (pid 0), else none.\<close>

definition ht_find :: "(int \<times> u64) list \<Rightarrow> int \<Rightarrow> nat option" where
  "ht_find tab p = find_index (\<lambda>e. fst e = p) tab"

definition ht_slot :: "int \<Rightarrow> (int \<times> u64) list \<Rightarrow> (nat \<times> (int \<times> u64) list) option" where
  "ht_slot pid tab =
     (case ht_find tab pid of
        Some i \<Rightarrow> Some (i, tab)
      | None \<Rightarrow> (case ht_find tab 0 of
          None \<Rightarrow> None
        | Some i \<Rightarrow> Some (i, tab[i := (pid, - 1)])))"

record khung_env =
  ke_thread_size :: u64
  ke_ksym :: "u64 \<Rightarrow> string"
  ke_mem :: memory
  ke_unint :: u32 \<comment> \<open>TASK_UNINTERRUPTIBLE\<close>
  ke_wakekill :: u32
  ke_noload :: u32

definition switch_count :: "ktask \<Rightarrow> u64" where "switch_count t = kt_nvcsw t + kt_nivcsw t"

definition check_one :: "khung_env \<Rightarrow> u64 \<Rightarrow> ktask \<Rightarrow> lockup \<Rightarrow> lockup" where
  "check_one e timeout t s =
     (case ht_slot (kt_pid t) (ht_tab s) of
        None \<Rightarrow> s
      | Some (i, tab) \<Rightarrow>
          if switch_count t \<noteq> snd (tab ! i)
          then s\<lparr>ht_tab := tab[i := (fst (tab ! i), switch_count t)]\<rparr>
          else say ([(''INFO: task %s:%d blocked for more than %ld seconds.'', [S (kt_comm t), I (kt_pid t), U timeout]),
                     (''      hung_task_timeout_secs disables this message.'', []),
                     (''      switch_count(nvcsw+nivcsw)=%lu'', [U (switch_count t)])]
                    @ mini_bt (ke_thread_size e) (ke_ksym e) (ke_mem e) t) (s\<lparr>ht_tab := tab\<rparr>))"

definition stuck_state :: "khung_env \<Rightarrow> ktask \<Rightarrow> bool" where
  "stuck_state e t \<longleftrightarrow> kt_state t AND ke_unint e \<noteq> 0 \<and> kt_state t AND ke_wakekill e = 0
     \<and> kt_state t AND ke_noload e = 0"

text \<open>One scan of \<open>khung_fn\<close> over all threads; \<open>timeout\<close> was read before the sleep.\<close>

definition khung_scan :: "khung_env \<Rightarrow> u64 \<Rightarrow> ktask list \<Rightarrow> lockup \<Rightarrow> lockup" where
  "khung_scan e timeout ts s = fold (\<lambda>t s. if stuck_state e t then check_one e timeout t s else s) ts s"

subsection \<open>Making lockups\<close>

text \<open>
  \<open>trig_fn\<close>: what is printed, how the thread then occupies its CPU until the end time, and what
  is printed afterwards.
\<close>

datatype occupation =
    Sleep_Uninterruptible int \<comment> \<open>seconds\<close>
  | Spin_No_Preempt u64 \<comment> \<open>until this time, ns\<close>
  | Spin_No_Irq u64

definition trig_fn :: "int \<Rightarrow> cpu \<Rightarrow> u64 \<Rightarrow> int \<Rightarrow> int \<Rightarrow> line list \<times> occupation \<times> line list" where
  "trig_fn pid on_cpu ns kind secs =
     (let end = ns + word_of_int secs * NSEC_PER_SEC in
      if kind = 2 then
        ([(''[hung   ] pid=%d TASK_UNINTERRUPTIBLE %d'', [I pid, I secs])], Sleep_Uninterruptible secs,
         [(''[hung   ] pid=%d awake'', [I pid])])
      else if kind = 0 then
        ([(''[soft   ] pid=%d CPU%d preempt_disable() %d'', [I pid, I (int on_cpu), I secs])], Spin_No_Preempt end,
         [(''[soft   ] pid=%d done'', [I pid])])
      else
        ([(''[hard   ] pid=%d CPU%d local_irq_disable() %d'', [I pid, I (int on_cpu), I secs])], Spin_No_Irq end,
         [(''[hard   ] pid=%d done'', [I pid])]))"


subsection \<open>Commands\<close>












definition ll_exit :: "lockup \<Rightarrow> lockup" where
  "ll_exit s = say [(''unload'', [])] ((wd_stop s)\<lparr>khung_thread := False\<rparr>)"

section \<open>Lemmas\<close>

interpretation ht: first_match ht_find "\<lambda>e p. fst e = p"
  by unfold_locales (auto simp: ht_find_def dest: find_index_Some simp: find_index_None)

subsection \<open>The ring of watchers\<close>

lemma filter_above:
  "sorted_wrt (<) xs \<Longrightarrow> i < length xs \<Longrightarrow> filter (\<lambda>d. xs ! i < d) xs = drop (Suc i) xs" for xs :: "nat list"
proof (induction xs arbitrary: i)
  case (Cons x xs)
  show ?case
  proof (cases i)
    case 0
    with Cons.prems show ?thesis by (auto simp: filter_id_conv)
  next
    case (Suc j)
    with Cons.prems have "x < xs ! j" by (auto dest: nth_mem)
    then have "\<not> xs ! j < x" by simp
    with Suc Cons show ?thesis by simp
  qed
qed simp

definition cpus_ok :: "lockup \<Rightarrow> bool" where
  "cpus_ok s \<longleftrightarrow> sorted_wrt (<) (online s) \<and> (\<forall>c\<in>set (online s). c < nr_cpu_ids s)"

lemma next_nth:
  assumes "cpus_ok s" "i < length (online s)" "2 \<le> length (online s)"
  shows "next_cpu_of s (online s ! i) = online s ! (Suc i mod length (online s))"
    and "next_cpu_of s (online s ! i) \<noteq> online s ! i"
proof -
  let ?xs = "online s"
  have d: "distinct ?xs" using assms(1) by (auto simp: cpus_ok_def strict_sorted_iff)
  have f: "filter (\<lambda>d. ?xs ! i < d) ?xs = drop (Suc i) ?xs"
    using assms by (auto simp: cpus_ok_def intro: filter_above)
  have n: "(case filter (\<lambda>d. ?xs ! i < d) ?xs of d # _ \<Rightarrow> d
      | [] \<Rightarrow> (case ?xs of d # _ \<Rightarrow> d | [] \<Rightarrow> nr_cpu_ids s)) = ?xs ! (Suc i mod length ?xs)"
  proof (cases "Suc i < length ?xs")
    case True
    then show ?thesis unfolding f by (simp add: Cons_nth_drop_Suc [symmetric])
  next
    case False
    with assms(2) have "Suc i = length ?xs" by simp
    with assms(3) show ?thesis unfolding f by (cases ?xs) auto
  qed
  have ne: "?xs ! (Suc i mod length ?xs) \<noteq> ?xs ! i"
  proof -
    have "Suc i mod length ?xs \<noteq> i" "Suc i mod length ?xs < length ?xs"
      using assms by (cases "Suc i < length ?xs"; auto simp: mod_if)+
    with d assms(2) show ?thesis by (simp add: nth_eq_iff_index_eq)
  qed
  then show "next_cpu_of s (?xs ! i) = ?xs ! (Suc i mod length ?xs)" "next_cpu_of s (?xs ! i) \<noteq> ?xs ! i"
    using n by (simp_all add: next_cpu_of_def Let_def)
qed

lemma next_inj:
  assumes "cpus_ok s" "2 \<le> length (online s)"
  shows "inj_on (next_cpu_of s) (set (online s))" "next_cpu_of s ` set (online s) \<subseteq> set (online s)"
proof -
  let ?xs = "online s" and ?n = "length (online s)"
  have d: "distinct ?xs" using assms(1) by (auto simp: cpus_ok_def strict_sorted_iff)
  have lt: "Suc i mod ?n < ?n" for i using assms(2) by (intro mod_less_divisor) auto
  show "inj_on (next_cpu_of s) (set ?xs)"
  proof (rule inj_onI)
    fix a b
    assume "a \<in> set ?xs" "b \<in> set ?xs" and e: "next_cpu_of s a = next_cpu_of s b"
    then obtain i j where i: "i < ?n" "a = ?xs ! i" and j: "j < ?n" "b = ?xs ! j" by (auto simp: in_set_conv_nth)
    with e next_nth(1) [OF assms(1) _ assms(2)] have "?xs ! (Suc i mod ?n) = ?xs ! (Suc j mod ?n)" by metis
    with d lt have "Suc i mod ?n = Suc j mod ?n" by (simp add: nth_eq_iff_index_eq)
    with i j have "i = j" by (cases "Suc i = ?n"; cases "Suc j = ?n") auto
    with i j show "a = b" by simp
  qed
  show "next_cpu_of s ` set ?xs \<subseteq> set ?xs"
  proof
    fix y assume "y \<in> next_cpu_of s ` set ?xs"
    then obtain i where "i < ?n" "y = next_cpu_of s (?xs ! i)" by (auto simp: in_set_conv_nth)
    with next_nth(1) [OF assms(1) _ assms(2)] have "y = ?xs ! (Suc i mod ?n)" by simp
    with lt show "y \<in> set ?xs" by simp
  qed
qed

lemma every_cpu_has_one_watcher:
  assumes "cpus_ok s" "2 \<le> length (online s)"
  shows "bij_betw (next_cpu_of s) (set (online s)) (set (online s)) \<and> (\<forall>c\<in>set (online s). next_cpu_of s c \<noteq> c)"
  using next_inj [OF assms] next_nth(2) [OF assms(1) _ assms(2)]
  by (auto simp: bij_betw_def endo_inj_surj in_set_conv_nth)

subsection \<open>What an operation leaves alone\<close>

lemma upd_simps [simp]:
  "pc (upd c f s) = (pc s)(c := f (pc s c))" "thresh (upd c f s) = thresh s" "online (upd c f s) = online s"
  "nr_cpu_ids (upd c f s) = nr_cpu_ids s" "ht_tab (upd c f s) = ht_tab s" "wd_running (upd c f s) = wd_running s"
  "klog (upd c f s) = klog s"
  by (simp_all add: upd_def)

lemma say_simps [simp]:
  "pc (say ls s) = pc s" "thresh (say ls s) = thresh s" "online (say ls s) = online s"
  "nr_cpu_ids (say ls s) = nr_cpu_ids s" "ht_tab (say ls s) = ht_tab s" "wd_running (say ls s) = wd_running s"
  "klog (say ls s) = klog s @ ls"
  by (simp_all add: say_def)

lemma next_cpu_cong: "online s = online t \<Longrightarrow> nr_cpu_ids s = nr_cpu_ids t \<Longrightarrow> next_cpu_of s c = next_cpu_of t c"
  unfolding next_cpu_of_def by (simp only:)

lemma check_neighbour_frame [simp]:
  "thresh (check_neighbour c s) = thresh s" "online (check_neighbour c s) = online s"
  "nr_cpu_ids (check_neighbour c s) = nr_cpu_ids s" "ht_tab (check_neighbour c s) = ht_tab s"
  "wd_running (check_neighbour c s) = wd_running s"
  "touch (pc (check_neighbour c s) d) = touch (pc s d)" "thread (pc (check_neighbour c s) d) = thread (pc s d)"
  "ticks (pc (check_neighbour c s) d) = ticks (pc s d)" "kick (pc (check_neighbour c s) d) = kick (pc s d)"
  "soft_rep (pc (check_neighbour c s) d) = soft_rep (pc s d)"
  by (simp_all add: check_neighbour_def Let_def)

lemma kick_thread_frame [simp]:
  "thresh (kick_thread c s) = thresh s" "online (kick_thread c s) = online s"
  "nr_cpu_ids (kick_thread c s) = nr_cpu_ids s" "ht_tab (kick_thread c s) = ht_tab s"
  "wd_running (kick_thread c s) = wd_running s" "klog (kick_thread c s) = klog s"
  "touch (pc (kick_thread c s) d) = touch (pc s d)" "thread (pc (kick_thread c s) d) = thread (pc s d)"
  "ticks (pc (kick_thread c s) d) = ticks (pc s d)" "saved (pc (kick_thread c s) d) = saved (pc s d)"
  "soft_rep (pc (kick_thread c s) d) = soft_rep (pc s d)" "hard_rep (pc (kick_thread c s) d) = hard_rep (pc s d)"
  by (simp_all add: kick_thread_def)

lemma check_soft_frame [simp]:
  "thresh (check_soft c n w p s) = thresh s" "online (check_soft c n w p s) = online s"
  "nr_cpu_ids (check_soft c n w p s) = nr_cpu_ids s" "ht_tab (check_soft c n w p s) = ht_tab s"
  "wd_running (check_soft c n w p s) = wd_running s"
  "touch (pc (check_soft c n w p s) d) = touch (pc s d)" "thread (pc (check_soft c n w p s) d) = thread (pc s d)"
  "ticks (pc (check_soft c n w p s) d) = ticks (pc s d)" "saved (pc (check_soft c n w p s) d) = saved (pc s d)"
  "kick (pc (check_soft c n w p s) d) = kick (pc s d)" "hard_rep (pc (check_soft c n w p s) d) = hard_rep (pc s d)"
  by (simp_all add: check_soft_def Let_def)

lemma wd_timer_frame [simp]:
  "thresh (wd_timer_fn c n w p s) = thresh s" "online (wd_timer_fn c n w p s) = online s"
  "nr_cpu_ids (wd_timer_fn c n w p s) = nr_cpu_ids s" "ht_tab (wd_timer_fn c n w p s) = ht_tab s"
  "wd_running (wd_timer_fn c n w p s) = wd_running s"
  "touch (pc (wd_timer_fn c n w p s) d) = touch (pc s d)" "thread (pc (wd_timer_fn c n w p s) d) = thread (pc s d)"
  by (simp_all add: wd_timer_fn_def Let_def)

lemma wd_timer_ticks:
  "ticks (pc (wd_timer_fn c n w p s) d) = ticks (pc s d) + (if c = d then 1 else 0)"
  by (simp add: wd_timer_fn_def Let_def)

lemma soft_limit_frame [simp]:
  "soft_limit (upd c f s) ts = soft_limit s ts" "soft_limit (check_neighbour c s) ts = soft_limit s ts"
  "soft_limit (kick_thread c s) ts = soft_limit s ts" "soft_limit (wd_timer_fn c n w p s) ts = soft_limit s ts"
  by (simp_all add: soft_limit_def)

lemma check_soft_rep:
  "soft_rep (pc (check_soft c n w p s) d) =
     (if c = d \<and> touch (pc s c) \<noteq> 0 then soft_limit s (touch (pc s c)) < n else soft_rep (pc s d))"
  by (auto simp: check_soft_def Let_def not_less)

lemma wd_timer_soft:
  "soft_rep (pc (wd_timer_fn c n w p s) d) =
     (if c = d \<and> touch (pc s c) \<noteq> 0 then soft_limit s (touch (pc s c)) < n else soft_rep (pc s d))"
  by (simp add: wd_timer_fn_def Let_def check_soft_rep)


lemma check_neighbour_hard:
  "saved (pc (check_neighbour c s) d)
     = (if next_cpu_of s c = d \<and> d < nr_cpu_ids s then ticks (pc s d) else saved (pc s d))"
  "hard_rep (pc (check_neighbour c s) d)
     = (if next_cpu_of s c = d \<and> d < nr_cpu_ids s then saved (pc s d) = ticks (pc s d) else hard_rep (pc s d))"
  by (auto simp: check_neighbour_def Let_def)

lemma next_upd [simp]: "next_cpu_of (upd c f s) d = next_cpu_of s d" "next_cpu_of (wd_timer_fn c n w p s) d = next_cpu_of s d"
  by (rule next_cpu_cong; simp)+

lemma next_ne: "next_cpu_of s c < nr_cpu_ids s \<Longrightarrow> next_cpu_of s c \<noteq> c"
  by (auto simp: next_cpu_of_def Let_def split: if_splits)

lemma wd_timer_hard:
  "saved (pc (wd_timer_fn c n w p s) d) =
     (if (ticks (pc s c) + 1) mod 3 = 0 \<and> next_cpu_of s c = d \<and> d < nr_cpu_ids s then ticks (pc s d) else saved (pc s d))"
  "hard_rep (pc (wd_timer_fn c n w p s) d) =
     (if (ticks (pc s c) + 1) mod 3 = 0 \<and> next_cpu_of s c = d \<and> d < nr_cpu_ids s
      then saved (pc s d) = ticks (pc s d) else hard_rep (pc s d))"
  using next_ne [of s c] by (auto simp: wd_timer_fn_def Let_def check_neighbour_hard)

subsection \<open>Interrupts and thread turns in any order\<close>

datatype ev = Tick cpu u64 string int | Turn cpu u64

fun ll_ev :: "ev \<Rightarrow> lockup \<Rightarrow> lockup" where
  "ll_ev (Tick c n w p) s = wd_timer_fn c n w p s"
| "ll_ev (Turn c n) s = wd_thread_turn c n s"

fun tick_of :: "cpu \<Rightarrow> ev \<Rightarrow> bool" where
  "tick_of c (Tick d _ _ _) = (c = d)"
| "tick_of c (Turn _ _) = False"

fun turn_of :: "cpu \<Rightarrow> ev \<Rightarrow> bool" where
  "turn_of c (Tick _ _ _ _) = False"
| "turn_of c (Turn d _) = (c = d)"

fun ev_cpu :: "ev \<Rightarrow> cpu" where
  "ev_cpu (Tick c _ _ _) = c" | "ev_cpu (Turn c _) = c"

definition ticks_in :: "cpu \<Rightarrow> ev list \<Rightarrow> nat" where
  "ticks_in c evs = length (filter (tick_of c) evs)"

lemma ticks_in_simps [simp]:
  "ticks_in c [] = 0" "ticks_in c (e # es) = of_bool (tick_of c e) + ticks_in c es"
  "ticks_in c (xs @ ys) = ticks_in c xs + ticks_in c ys"
  by (simp_all add: ticks_in_def)

lemma turn_frame [simp]:
  "ticks (pc (wd_thread_turn c n s) d) = ticks (pc s d)" "saved (pc (wd_thread_turn c n s) d) = saved (pc s d)"
  "hard_rep (pc (wd_thread_turn c n s) d) = hard_rep (pc s d)" "soft_rep (pc (wd_thread_turn c n s) d) = soft_rep (pc s d)"
  "thread (pc (wd_thread_turn c n s) d) = thread (pc s d)" "next_cpu_of (wd_thread_turn c n s) d = next_cpu_of s d"
  "online (wd_thread_turn c n s) = online s" "nr_cpu_ids (wd_thread_turn c n s) = nr_cpu_ids s"
  "thresh (wd_thread_turn c n s) = thresh s"
  by (simp_all add: wd_thread_turn_def)

lemma ev_frame [simp]:
  "online (ll_ev e s) = online s" "nr_cpu_ids (ll_ev e s) = nr_cpu_ids s" "thresh (ll_ev e s) = thresh s"
  "next_cpu_of (ll_ev e s) d = next_cpu_of s d" "thread (pc (ll_ev e s) d) = thread (pc s d)"
  by (cases e; simp)+

lemma ev_ticks: "ticks (pc (ll_ev e s) d) = ticks (pc s d) + of_bool (tick_of d e)"
  by (cases e) (simp_all add: wd_timer_ticks)

lemma evs_frame [simp]:
  "online (fold ll_ev es s) = online s" "nr_cpu_ids (fold ll_ev es s) = nr_cpu_ids s" "thresh (fold ll_ev es s) = thresh s"
  "next_cpu_of (fold ll_ev es s) d = next_cpu_of s d" "thread (pc (fold ll_ev es s) d) = thread (pc s d)"
  by (induction es arbitrary: s) simp_all

lemma evs_ticks: "ticks (pc (fold ll_ev es s) d) = ticks (pc s d) + of_nat (ticks_in d es)"
  by (induction es arbitrary: s) (simp_all add: ev_ticks)

text \<open>Between two checks of the watcher nobody else touches what it saved.\<close>

lemma saved_between:
  assumes "cpus_ok s" "2 \<le> length (online s)" "w \<in> set (online s)"
    and "\<forall>e\<in>set es. ev_cpu e \<in> set (online s)"
    and "unat (ticks (pc s w)) mod 3 + ticks_in w es \<le> 2" "unat (ticks (pc s w)) + ticks_in w es + 1 < 2 ^ 64"
  shows "saved (pc (fold ll_ev es s) (next_cpu_of s w)) = saved (pc s (next_cpu_of s w))"
  using assms
proof (induction es arbitrary: s)
  case (Cons e es)
  let ?nb = "next_cpu_of s w" and ?t = "unat (ticks (pc s w))"
  have eq: "saved (pc (ll_ev e s) ?nb) = saved (pc s ?nb)"
  proof (cases e)
    case (Tick c n cm p)
    have "c = w" if "next_cpu_of s c = ?nb"
      using that next_inj(1) [OF Cons.prems(1,2)] Cons.prems(3,4) Tick by (auto dest: inj_onD)
    moreover have "(ticks (pc s w) + 1) mod 3 \<noteq> 0" if "c = w"
    proof
      assume "(ticks (pc s w) + 1) mod 3 = 0"
      then have "unat ((ticks (pc s w) + 1) mod 3) = 0" by (simp only: unat_0)
      then have "(?t + 1) mod 3 = 0"
        using Cons.prems(6) by (simp add: unat_mod_distrib unat_word_ariths)
      with Cons.prems(5) that Tick show False by simp presburger
    qed
    ultimately have "\<not> ((ticks (pc s c) + 1) mod 3 = 0 \<and> next_cpu_of s c = ?nb \<and> ?nb < nr_cpu_ids s)" by metis
    then show ?thesis unfolding Tick ll_ev.simps wd_timer_hard by (simp only: if_False)
  qed simp
  have t: "unat (ticks (pc (ll_ev e s) w)) = ?t + of_bool (tick_of w e)"
    using Cons.prems(6) by (simp add: ev_ticks unat_word_ariths)
  have "?t mod 3 + of_bool (tick_of w e) \<le> 2" using Cons.prems(5) by simp
  then have m: "(?t + of_bool (tick_of w e)) mod 3 = ?t mod 3 + of_bool (tick_of w e)"
    by (cases "tick_of w e"; simp add: mod_Suc)
  have "saved (pc (fold ll_ev es (ll_ev e s)) (next_cpu_of (ll_ev e s) w)) = saved (pc (ll_ev e s) (next_cpu_of (ll_ev e s) w))"
    using Cons.prems by (intro Cons.IH) (simp_all add: t m cpus_ok_def)
  with eq show ?case by simp
qed simp

text \<open>
  C7: The verdict on a neighbour is exact: from a watcher's check, when its tick count is a
  multiple of three and the neighbour's count is saved, through any interleaving of interrupts
  and thread turns on the online CPUs up to the watcher's third tick, the neighbour ends up
  marked as hard locked exactly when not one of its timer interrupts came in between, and its
  count is saved for the next round.
\<close>

theorem hard_verdict_exact:
  assumes "cpus_ok s" "2 \<le> length (online s)" "w \<in> set (online s)"
    and "\<forall>e\<in>set es. ev_cpu e \<in> set (online s)" and "ticks_in w es = 2"
    and "unat (ticks (pc s w)) mod 3 = 0" "unat (ticks (pc s w)) + 3 < 2 ^ 64"
    and "saved (pc s (next_cpu_of s w)) = ticks (pc s (next_cpu_of s w))"
    and "ticks_in (next_cpu_of s w) es < 2 ^ 64"
  shows "let t = fold ll_ev (es @ [Tick w n c p]) s; nb = pc t (next_cpu_of s w)
     in (hard_rep nb \<longleftrightarrow> ticks_in (next_cpu_of s w) es = 0) \<and> saved nb = ticks nb"
proof -
  let ?nb = "next_cpu_of s w" and ?u = "fold ll_ev es s"
  have nb: "?nb \<noteq> w" "?nb < nr_cpu_ids s"
    using every_cpu_has_one_watcher [OF assms(1,2)] assms(1,3) by (auto simp: cpus_ok_def bij_betw_def)
  have sv: "saved (pc ?u ?nb) = ticks (pc s ?nb)"
    using assms by (simp add: saved_between)
  have "unat (ticks (pc ?u w)) = unat (ticks (pc s w)) + 2"
    using assms(5,7) by (simp add: evs_ticks unat_word_ariths)
  then have "unat ((ticks (pc ?u w) + 1) mod 3) = 0"
    using assms(6,7) by (simp add: unat_mod_distrib unat_word_ariths)
  then have z: "(ticks (pc ?u w) + 1) mod 3 = 0" by (simp only: unat_eq_zero)
  have "ticks (pc s ?nb) = ticks (pc ?u ?nb) \<longleftrightarrow> of_nat (ticks_in ?nb es) = (0 :: u64)"
    by (simp add: evs_ticks)
  also have "\<dots> \<longleftrightarrow> ticks_in ?nb es = 0"
    using assms(9) by (auto simp: word_of_nat_eq_0_iff dest: dvd_imp_le)
  finally have h: "ticks (pc s ?nb) = ticks (pc ?u ?nb) \<longleftrightarrow> ticks_in ?nb es = 0" .
  show ?thesis
    unfolding Let_def fold_append comp_def fold_simps ll_ev.simps wd_timer_hard wd_timer_ticks
    using nb z sv h by simp
qed


theorem hard_verdict_exact_witness:
  "hard_rep (pc (fold ll_ev [Tick 0 3 ''a'' 1, Turn 0 4, Tick 2 4 ''b'' 2, Tick 0 5 ''a'' 1, Tick 0 7 ''a'' 1]
     (lockup_start [0, 1, 2] 4)) 1)"
  using hard_verdict_exact [of "lockup_start [0, 1, 2] 4" 0 "[Tick 0 3 ''a'' 1, Turn 0 4, Tick 2 4 ''b'' 2, Tick 0 5 ''a'' 1]" 7 "''a''" 1]
  by (simp add: cpus_ok_def lockup_start_def next_cpu_of_def pcpu_start_def Let_def)

subsection \<open>Soft lockups\<close>

lemma ev_touch: "\<not> turn_of c e \<Longrightarrow> touch (pc (ll_ev e s) c) = touch (pc s c)"
  by (cases e) (simp_all add: wd_thread_turn_def)

definition soft_msg :: string where "soft_msg = ''BUG: soft lockup - CPU#%d stuck for %llus! [%s:%d]''"
definition soft_over :: string where "soft_over = ''CPU#%d soft lockup over''"
definition hard_msg :: string where "hard_msg = ''BUG: hard lockup - CPU#%u %lu CPU#%d''"
definition hard_over :: string where "hard_over = ''CPU#%u (%lu -> %lu) hard lockup over''"

lemmas msgs = soft_msg_def soft_over_def hard_msg_def hard_over_def

text \<open>How often a message was logged for a CPU.\<close>

definition about :: "string \<Rightarrow> cpu \<Rightarrow> line \<Rightarrow> bool" where
  "about f c l \<longleftrightarrow> fst l = f \<and> take 1 (snd l) = [I (int c)]"

definition logged :: "string \<Rightarrow> cpu \<Rightarrow> lockup \<Rightarrow> nat" where
  "logged f c s = length (filter (about f c) (klog s))"

lemma logged_simps [simp]:
  "logged f c (upd d g s) = logged f c s"
  "logged f c (say ls s) = logged f c s + length (filter (about f c) ls)"
  "logged f c (kick_thread d s) = logged f c s"
  "logged f c (wd_thread_turn d n s) = logged f c s"
  by (simp_all add: logged_def wd_thread_turn_def)


text \<open>
  Reports and recoveries balance: a CPU's flag is set exactly when its last report has not been
  followed by a recovery. \<open>soft_owed\<close> and \<open>hard_owed\<close> count reports that nothing accounts for.
\<close>

definition soft_owed :: "lockup \<Rightarrow> cpu \<Rightarrow> int" where
  "soft_owed s c = int (logged soft_msg c s) - int (logged soft_over c s) - of_bool (soft_rep (pc s c))"

definition hard_owed :: "lockup \<Rightarrow> cpu \<Rightarrow> int" where
  "hard_owed s c = int (logged hard_msg c s) - int (logged hard_over c s) - of_bool (hard_rep (pc s c))"

lemmas owed = soft_owed_def hard_owed_def

definition balance :: "lockup \<Rightarrow> lockup \<Rightarrow> bool" where
  "balance s t \<longleftrightarrow> soft_owed t = soft_owed s \<and> hard_owed t = hard_owed s"

lemma balance_refl [simp]: "balance s s" by (simp add: balance_def)

lemma balance_trans [trans]: "balance s t \<Longrightarrow> balance t u \<Longrightarrow> balance s u"
  by (simp add: balance_def)

lemma balance_quiet:
  "(\<And>c. soft_rep (pc t c) = soft_rep (pc s c)) \<Longrightarrow> (\<And>c. hard_rep (pc t c) = hard_rep (pc s c))
    \<Longrightarrow> (\<And>f c. f \<in> {soft_msg, soft_over, hard_msg, hard_over} \<Longrightarrow> logged f c t = logged f c s) \<Longrightarrow> balance s t"
  by (simp add: balance_def owed fun_eq_iff)

lemma balance_neighbour: "balance s (check_neighbour c s)"
  by (simp add: balance_def owed fun_eq_iff check_neighbour_def Let_def about_def msgs)

lemma balance_soft: "balance s (check_soft c n w p s)"
  by (simp add: balance_def owed fun_eq_iff check_soft_def Let_def about_def msgs)

lemma balance_kick: "balance s (kick_thread c s)"
  by (rule balance_quiet) simp_all

lemma balance_timer: "balance s (wd_timer_fn c n w p s)"
proof -
  let ?s1 = "upd c (\<lambda>p. p\<lparr>ticks := ticks p + 1\<rparr>) s"
  let ?s2 = "if ticks (pc ?s1 c) mod 3 = 0 then check_neighbour c ?s1 else ?s1"
  have "balance s ?s1" by (rule balance_quiet) simp_all
  also have "balance ?s1 ?s2" using balance_neighbour by simp
  also have "balance ?s2 (kick_thread c ?s2)" by (rule balance_kick)
  also have "balance (kick_thread c ?s2) (check_soft c n w p (kick_thread c ?s2))" by (rule balance_soft)
  finally show ?thesis by (simp only: wd_timer_fn_def Let_def)
qed

lemma balance_turn: "balance s (wd_thread_turn c n s)"
  by (rule balance_quiet) simp_all

lemma balance_evs: "balance s (fold ll_ev es s)"
proof (induction es arbitrary: s)
  case (Cons e es)
  have "balance s (ll_ev e s)" by (cases e) (simp_all add: balance_timer balance_turn)
  from balance_trans [OF this Cons.IH] show ?case by simp
qed simp

text \<open>The flag of a CPU whose thread never gets its turn: decided by the last tick.\<close>

lemma evs_soft:
  assumes "\<forall>e\<in>set es. \<not> turn_of c e" and "touch (pc s c) \<noteq> 0"
  shows "touch (pc (fold ll_ev es s) c) = touch (pc s c)"
    "soft_rep (pc (fold ll_ev (es @ [Tick c n w p]) s) c) \<longleftrightarrow> soft_limit s (touch (pc s c)) < n"
proof -
  show t: "touch (pc (fold ll_ev es s) c) = touch (pc s c)"
    using assms(1) by (induction es arbitrary: s) (simp_all add: ev_touch)
  show "soft_rep (pc (fold ll_ev (es @ [Tick c n w p]) s) c) \<longleftrightarrow> soft_limit s (touch (pc s c)) < n"
    using assms(2) t by (simp add: wd_timer_soft) (simp add: soft_limit_def)
qed

fun ev_now :: "ev \<Rightarrow> u64" where
  "ev_now (Tick _ n _ _) = n" | "ev_now (Turn _ n) = n"

lemma check_neighbour_soft_over: "logged soft_over d (check_neighbour c s) = logged soft_over d s"
  by (simp add: check_neighbour_def Let_def about_def msgs)

lemma check_soft_over:
  "logged soft_over d (check_soft c n w p s) = logged soft_over d s
     + of_bool (c = d \<and> soft_rep (pc s c) \<and> touch (pc s c) \<noteq> 0 \<and> n \<le> soft_limit s (touch (pc s c)))"
  by (auto simp: check_soft_def Let_def about_def msgs not_less dest: leD)

lemma wd_timer_over:
  "logged soft_over d (wd_timer_fn c n w p s) = logged soft_over d s
     + of_bool (c = d \<and> soft_rep (pc s c) \<and> touch (pc s c) \<noteq> 0 \<and> n \<le> soft_limit s (touch (pc s c)))"
  by (simp add: wd_timer_fn_def Let_def check_soft_over check_neighbour_soft_over)

lemma ev_over:
  "soft_rep (pc s c) \<and> tick_of c e \<longrightarrow> soft_limit s (touch (pc s c)) < ev_now e
    \<Longrightarrow> logged soft_over c (ll_ev e s) = logged soft_over c s"
  by (cases e) (auto simp: wd_timer_over)

lemma soft_limit_ev [simp]: "soft_limit (ll_ev e s) = soft_limit s"
  by (simp add: soft_limit_def fun_eq_iff)

lemma ev_soft:
  "touch (pc s c) \<noteq> 0 \<Longrightarrow> soft_rep (pc (ll_ev e s) c)
     \<longleftrightarrow> (if tick_of c e then soft_limit s (touch (pc s c)) < ev_now e else soft_rep (pc s c))"
  by (cases e) (auto simp: wd_timer_soft)

lemma no_recovery_without_turn:
  assumes "\<forall>e\<in>set es. \<not> turn_of c e" "touch (pc s c) \<noteq> 0"
    and "sorted (map ev_now (filter (tick_of c) es))"
    and "soft_rep (pc s c) \<longrightarrow> (\<forall>e\<in>set es. tick_of c e \<longrightarrow> soft_limit s (touch (pc s c)) < ev_now e)"
  shows "logged soft_over c (fold ll_ev es s) = logged soft_over c s"
  using assms
proof (induction es arbitrary: s)
  case (Cons e es)
  then have t: "touch (pc (ll_ev e s) c) = touch (pc s c)" by (simp add: ev_touch)
  have "logged soft_over c (fold ll_ev es (ll_ev e s)) = logged soft_over c (ll_ev e s)"
  proof (rule Cons.IH)
    show "soft_rep (pc (ll_ev e s) c) \<longrightarrow>
        (\<forall>e'\<in>set es. tick_of c e' \<longrightarrow> soft_limit (ll_ev e s) (touch (pc (ll_ev e s) c)) < ev_now e')"
      using Cons.prems unfolding t ev_soft [OF Cons.prems(2)]
      by (cases "tick_of c e") (auto intro: less_le_trans)
  qed (use Cons.prems t in \<open>auto split: if_splits\<close>)
  also have "\<dots> = logged soft_over c s" using Cons.prems(4) by (intro ev_over) auto
  finally show ?case by simp
qed simp

text \<open>
  A soft lockup is reported exactly once: from a moment when CPU \<open>c\<close> is not marked, through
  any interleaving of events in which its watchdog thread gets no turn and its ticks come in
  the order of the clock, one report about \<open>c\<close> is added if the last tick is past the limit and
  none otherwise, and no recovery is announced.
\<close>

theorem soft_lockup_reported_once:
  assumes "\<forall>e\<in>set es. \<not> turn_of c e" "touch (pc s c) \<noteq> 0" "\<not> soft_rep (pc s c)"
    and "sorted (map ev_now (filter (tick_of c) (es @ [Tick c n w p])))"
  shows "let t = fold ll_ev (es @ [Tick c n w p]) s in
     logged soft_msg c t = logged soft_msg c s + of_bool (soft_limit s (touch (pc s c)) < n) \<and>
     logged soft_over c t = logged soft_over c s"
proof -
  let ?t = "fold ll_ev (es @ [Tick c n w p]) s"
  have o: "logged soft_over c ?t = logged soft_over c s"
    using assms by (intro no_recovery_without_turn) auto
  have "soft_owed ?t c = soft_owed s c" using balance_evs [of s "es @ [Tick c n w p]"] by (simp only: balance_def)
  with o evs_soft(2) [OF assms(1,2), of n w p] assms(3) show ?thesis
    unfolding Let_def by (auto simp: owed)
qed

theorem soft_lockup_reported_once_witness:
  "logged soft_msg 0 (fold ll_ev [Turn 0 100, Tick 0 105 ''hog'' 7, Tick 1 109 ''x'' 1, Tick 0 111 ''hog'' 7, Tick 0 113 ''hog'' 7]
     (lockup_start [0, 1] 2)) = 1"
  using soft_lockup_reported_once [of "[Tick 0 105 ''hog'' 7, Tick 1 109 ''x'' 1, Tick 0 111 ''hog'' 7]" 0
      "wd_thread_turn 0 100 (lockup_start [0, 1] 2)" 113 "''hog''" 7]
  by (simp add: lockup_start_def pcpu_start_def wd_thread_turn_def logged_def soft_limit_def to_int_def upd_def Let_def)


subsection \<open>Everything the module can be asked to do\<close>







lemma mini_bt_fmt: "(f, b) \<in> set (mini_bt z k m t) \<Longrightarrow> f = ''  #%-2d %s''"
  by (auto simp: mini_bt_def)









subsection \<open>The hung task table\<close>

text \<open>What the table means: the last switch count of each pid it holds.\<close>

definition ht_map :: "(int \<times> u64) list \<Rightarrow> int \<Rightarrow> u64 option" where
  "ht_map tab = (map_of tab)(0 := None)"

definition free_slots :: "(int \<times> u64) list \<Rightarrow> nat" where
  "free_slots tab = length (filter (\<lambda>e. fst e = 0) tab)"

lemma ht_find_Nil [simp]: "ht_find [] p = None" by (simp add: ht_find_def find_index_None)

lemma ht_find_Cons [simp]:
  "ht_find (e # tab) p = (if fst e = p then Some 0 else map_option Suc (ht_find tab p))"
  by (simp add: ht_find_def find_index_Cons)

lemma ht_find_map: "p \<noteq> 0 \<Longrightarrow> ht_map tab p = map_option (\<lambda>i. snd (tab ! i)) (ht_find tab p)"
  by (induction tab) (auto simp: ht_map_def option.map_comp comp_def)

lemma ht_find_free: "ht_find tab 0 = None \<longleftrightarrow> free_slots tab = 0"
  by (induction tab) (auto simp: free_slots_def)

lemma ht_map_hit:
  "ht_find tab p = Some i \<Longrightarrow> p \<noteq> 0 \<Longrightarrow> map_of (tab[i := (fst (tab ! i), v)]) = (map_of tab)(p \<mapsto> v)
     \<and> free_slots (tab[i := (fst (tab ! i), v)]) = free_slots tab"
  by (induction tab arbitrary: i) (auto simp: free_slots_def split: if_splits)

lemma ht_map_new:
  "ht_find tab p = None \<Longrightarrow> ht_find tab 0 = Some i \<Longrightarrow> p \<noteq> 0 \<Longrightarrow>
     (map_of (tab[i := (p, v)]))(0 := None) = ((map_of tab)(0 := None))(p \<mapsto> v)
       \<and> free_slots tab = Suc (free_slots (tab[i := (p, v)])) \<and> i < length tab"
  by (induction tab arbitrary: i) (auto simp: free_slots_def fun_eq_iff split: if_splits)

text \<open>What a scan is meant to do with one stuck task, on the map alone.\<close>

definition hung_seen :: "(int \<Rightarrow> u64 option) \<Rightarrow> ktask \<Rightarrow> bool" where
  "hung_seen m t \<longleftrightarrow> (case m (kt_pid t) of Some v \<Rightarrow> v | None \<Rightarrow> - 1) = switch_count t"

definition hung_msg :: string where "hung_msg = ''INFO: task %s:%d blocked for more than %ld seconds.''"

definition hung_reports :: "line list \<Rightarrow> val list" where
  "hung_reports ls = map (\<lambda>l. snd l ! 1) (filter (\<lambda>l. fst l = hung_msg) ls)"

lemma hung_reports_simps [simp]:
  "hung_reports [] = []" "hung_reports (xs @ ys) = hung_reports xs @ hung_reports ys"
  "hung_reports (l # ls) = (if fst l = hung_msg then [snd l ! 1] else []) @ hung_reports ls"
  by (simp_all add: hung_reports_def)

lemma hung_reports_bt [simp]: "hung_reports (mini_bt z k m t) = []"
  by (auto simp: hung_reports_def filter_empty_conv hung_msg_def dest!: mini_bt_fmt)

lemma check_one_map:
  assumes "kt_pid t \<noteq> 0" and "0 < free_slots (ht_tab s)"
  shows "ht_map (ht_tab (check_one e to t s)) = (ht_map (ht_tab s))(kt_pid t \<mapsto> switch_count t)"
    and "hung_reports (klog (check_one e to t s)) = hung_reports (klog s)
      @ (if hung_seen (ht_map (ht_tab s)) t then [I (kt_pid t)] else [])"
    and "free_slots (ht_tab s) \<le> Suc (free_slots (ht_tab (check_one e to t s)))"
proof -
  let ?p = "kt_pid t" and ?tab = "ht_tab s" and ?v = "switch_count t" and ?s' = "check_one e to t s"
  have "ht_map (ht_tab ?s') = (ht_map ?tab)(?p \<mapsto> ?v) \<and>
    hung_reports (klog ?s') = hung_reports (klog s) @ (if hung_seen (ht_map ?tab) t then [I ?p] else []) \<and>
    free_slots ?tab \<le> Suc (free_slots (ht_tab ?s'))"
  proof (cases "ht_find ?tab ?p")
    case (Some i)
    note h = ht_map_hit [OF Some assms(1), of ?v]
    have m: "ht_map ?tab ?p = Some (snd (?tab ! i))" using Some assms(1) by (simp add: ht_find_map)
    have upd: "ht_map (?tab[i := (fst (?tab ! i), ?v)]) = (ht_map ?tab)(?p \<mapsto> ?v)"
      using h assms(1) by (simp add: ht_map_def fun_upd_twist)
    show ?thesis
    proof (cases "snd (?tab ! i) = ?v")
      case True
      with m have "(ht_map ?tab)(?p \<mapsto> ?v) = ht_map ?tab" by (simp add: fun_upd_idem)
      with True Some m show ?thesis by (simp add: check_one_def ht_slot_def hung_seen_def hung_msg_def)
    qed (use Some m h upd in \<open>simp add: check_one_def ht_slot_def hung_seen_def\<close>)
  next
    case None
    obtain i where i: "ht_find ?tab 0 = Some i" using assms(2) ht_find_free [of ?tab] by auto
    note h = ht_map_new [OF None i assms(1)]
    have m: "ht_map ?tab ?p = None" using None assms(1) by (simp add: ht_find_map)
    have upd: "ht_map (?tab[i := (?p, v)]) = (ht_map ?tab)(?p \<mapsto> v)" and fr: "free_slots ?tab = Suc (free_slots (?tab[i := (?p, v)]))"
      and il: "i < length ?tab" for v
      using h [of v] by (simp_all add: ht_map_def)
    from None i il m fr upd show ?thesis
      by (auto simp: check_one_def ht_slot_def hung_seen_def hung_msg_def)
  qed
  then show "ht_map (ht_tab ?s') = (ht_map ?tab)(?p \<mapsto> ?v)"
    and "hung_reports (klog ?s') = hung_reports (klog s) @ (if hung_seen (ht_map ?tab) t then [I ?p] else [])"
    and "free_slots ?tab \<le> Suc (free_slots (ht_tab ?s'))" by blast+
qed

text \<open>
  C28: A scan refines its map: when no pid is listed twice and the table has room for the stuck
  tasks, the scan reports, in order, exactly the stuck tasks whose switch count is the one the
  map holds for them (for a pid not in the map, \<open>ULONG_MAX\<close>), and afterwards the map holds the
  counts of this scan. So a task stuck in two consecutive scans is reported by the second
  exactly when it was not switched in between.
\<close>

theorem hung_scan_exact:
  assumes "distinct (map kt_pid ts)" "0 \<notin> kt_pid ` set ts"
    and "length (filter (stuck_state e) ts) \<le> free_slots (ht_tab s)"
  shows "ht_map (ht_tab (khung_scan e to ts s))
      = ht_map (ht_tab s) ++ map_of (rev (map (\<lambda>t. (kt_pid t, switch_count t)) (filter (stuck_state e) ts))) \<and>
    hung_reports (klog (khung_scan e to ts s)) = hung_reports (klog s)
      @ map (\<lambda>t. I (kt_pid t)) (filter (\<lambda>t. stuck_state e t \<and> hung_seen (ht_map (ht_tab s)) t) ts)"
  using assms
proof (induction ts arbitrary: s)
  case Nil
  show ?case by (simp add: khung_scan_def)
next
  case (Cons t ts)
  show ?case
  proof (cases "stuck_state e t")
    case True
    let ?s = "check_one e to t s"
    have pos: "kt_pid t \<noteq> 0" "0 < free_slots (ht_tab s)" using Cons.prems True by auto
    note c = check_one_map [OF pos, of e to]
    have seen: "hung_seen ((ht_map (ht_tab s))(kt_pid t \<mapsto> switch_count t)) u = hung_seen (ht_map (ht_tab s)) u"
      if "u \<in> set ts" for u
    proof -
      have "kt_pid u \<noteq> kt_pid t" using Cons.prems(1) that by (auto simp: image_iff)
      then show ?thesis by (simp add: hung_seen_def)
    qed
    have "filter (\<lambda>u. stuck_state e u \<and> hung_seen ((ht_map (ht_tab s))(kt_pid t \<mapsto> switch_count t)) u) ts
        = filter (\<lambda>u. stuck_state e u \<and> hung_seen (ht_map (ht_tab s)) u) ts"
      by (rule filter_cong) (simp_all add: seen)
    with True c Cons.IH [of ?s] Cons.prems show ?thesis
      by (simp add: khung_scan_def map_add_assoc del: fun_upd_apply)
  qed (use Cons in \<open>simp add: khung_scan_def\<close>)
qed

definition sample_task :: "int \<Rightarrow> u64 \<Rightarrow> ktask" where
  "sample_task p n = \<lparr>kt_pid = p, kt_comm = ''x'', kt_state = 2, kt_nvcsw = n, kt_nivcsw = 0, kt_fp = 0, kt_stack = 4096\<rparr>"

definition sample_khung :: khung_env where
  "sample_khung = \<lparr>ke_thread_size = 16384, ke_ksym = (\<lambda>_. []), ke_mem = (\<lambda>_. 0), ke_unint = 2, ke_wakekill = 256, ke_noload = 1024\<rparr>"

theorem hung_scan_exact_witness:
  "hung_reports (klog (khung_scan sample_khung 10 [sample_task 7 5, sample_task 9 4]
     (lockup_start [0] 1 \<lparr>ht_tab := [(9, 3), (7, 5), (0, 0), (0, 0)]\<rparr>))) = [I 7]"
  by (subst hung_scan_exact [THEN conjunct2])
    (simp_all add: sample_task_def sample_khung_def lockup_start_def stuck_state_def hung_seen_def switch_count_def
      free_slots_def ht_map_def hung_reports_def)

text \<open>
  The table of 512 pids is never emptied: once it holds 512 other pids (tasks that were
  stuck in some scan since the module was loaded, most of them long gone), a task that is not
  among them is never examined, whatever its state and however often it is scanned.
\<close>

theorem hung_table_full:
  assumes "free_slots (ht_tab s) = 0" "kt_pid t \<noteq> 0" "ht_map (ht_tab s) (kt_pid t) = None"
  shows "((\<lambda>s. khung_scan e to [t] s) ^^ n) s = s"
proof -
  have "ht_find (ht_tab s) (kt_pid t) = None" using assms(2,3) by (simp add: ht_find_map)
  then have "khung_scan e to [t] s = s"
    using assms(1) ht_find_free [of "ht_tab s"] by (simp add: khung_scan_def check_one_def ht_slot_def)
  then show ?thesis by (induction n) simp_all
qed

theorem hung_table_full_witness:
  "((\<lambda>s. khung_scan sample_khung 10 [sample_task 700 0] s) ^^ 5)
     (lockup_start [0] 1 \<lparr>ht_tab := map (\<lambda>i. (int i + 1, 0)) [0..<512]\<rparr>)
   = lockup_start [0] 1 \<lparr>ht_tab := map (\<lambda>i. (int i + 1, 0)) [0..<512]\<rparr>"
proof (rule hung_table_full)
  show "free_slots (ht_tab (lockup_start [0] 1 \<lparr>ht_tab := map (\<lambda>i. (int i + 1, 0)) [0..<512]\<rparr>)) = 0"
    by (auto simp: free_slots_def filter_empty_conv)
  show "ht_map (ht_tab (lockup_start [0] 1 \<lparr>ht_tab := map (\<lambda>i. (int i + 1, 0)) [0..<512]\<rparr>)) (kt_pid (sample_task 700 0)) = None"
    by (auto simp: ht_map_def map_of_eq_None_iff sample_task_def)
qed (simp add: sample_task_def)

subsection \<open>The stack walk\<close>

text \<open>
  The stack walk stays on the stack: whatever the memory holds, every frame pointer it
  dereferences lies with the two words it reads inside the task's stack, the pointers strictly
  increase (so no corrupted chain makes it loop), and there are at most twelve.
\<close>

theorem bt_stays_on_stack:
  assumes "16 \<le> hi"
  shows "length (bt_frames m lo hi n fp) \<le> n \<and> sorted_wrt (<) (map fst (bt_frames m lo hi n fp)) \<and>
    (\<forall>(f, r)\<in>set (bt_frames m lo hi n fp). lo \<le> f \<and> fp \<le> f \<and> uint f + 16 < uint hi)"
  using assms
proof (induction m lo hi n fp rule: bt_frames.induct)
  case (2 m lo hi n fp)
  have "uint fp + 16 < uint hi" if "fp < hi - 16"
  proof -
    have "uint (hi - 16) = uint hi - 16" using 2(2) by (simp add: uint_sub_if' word_le_def)
    with that show ?thesis by (simp add: word_less_def)
  qed
  then show ?case
    using 2 by (auto simp: Let_def not_le) (fastforce dest: less_le_trans order.trans)+
qed simp

theorem bt_stays_on_stack_witness:
  "length (bt_frames (\<lambda>a. 0xff) 0x1000 0x5000 12 0x1010) \<le> 12"
  using bt_stays_on_stack [of "0x5000" "\<lambda>a. 0xff" "0x1000" 12 "0x1010"] by simp

subsection \<open>A CPU without a watchdog thread\<close>

text \<open>
  When \<open>kthread_create\<close> fails for a CPU, starting the watchdog carries on and stamps that
  CPU all the same; no thread will ever refresh the stamp, so an idle, healthy CPU is reported
  as soft locked at its first tick past the limit.
\<close>

theorem missing_thread_false_alarm:
  assumes "\<not> wd_running s" "c \<in> set (online s)" "\<not> made c" "\<not> thread (pc s c)" "\<not> soft_rep (pc s c)" "at c \<noteq> 0"
    and "soft_limit s (at c) < n"
  shows "\<not> thread (pc (wd_start made at s) c) \<and>
    soft_rep (pc (wd_timer_fn c n ''swapper'' 0 (wd_start made at s)) c)"
proof -
  have on: "online (fold (start_thread made) cs s) = online s \<and> thresh (fold (start_thread made) cs s) = thresh s" for cs s
    by (induction cs arbitrary: s) (simp_all add: start_thread_def)
  have one: "thread (pc (start_thread made d s) c) = thread (pc s c)" for d s
    using assms(3) by (cases "d = c") (simp_all add: start_thread_def)
  have th: "thread (pc (fold (start_thread made) cs s) c) = thread (pc s c)" for cs s
    by (induction cs arbitrary: s) (simp_all add: one)
  have hr: "thread (pc (fold (start_hrtimer_local at) cs s) c) = thread (pc s c)
      \<and> thresh (fold (start_hrtimer_local at) cs s) = thresh s" for cs s
    by (induction cs arbitrary: s) (simp_all add: start_hrtimer_local_def)
  have tc: "touch (pc (fold (start_hrtimer_local at) cs s) c) = (if c \<in> set cs then at c else touch (pc s c))" for cs s
    by (induction cs arbitrary: s) (simp_all add: start_hrtimer_local_def)
  let ?t = "wd_start made at s"
  have t: "\<not> thread (pc ?t c)" "touch (pc ?t c) = at c" "soft_limit ?t (at c) = soft_limit s (at c)"
    using assms(1,2,4) on th hr tc by (simp_all add: wd_start_def Let_def soft_limit_def)
  with assms(6,7) show ?thesis by (simp add: wd_timer_soft)
qed

theorem missing_thread_false_alarm_witness:
  "soft_rep (pc (wd_timer_fn 1 112 ''swapper'' 0 (wd_start (\<lambda>c. c = 0) (\<lambda>_. 100) (lockup_start [0, 1] 2))) 1)"
  by (rule missing_thread_false_alarm [THEN conjunct2])
    (simp_all add: lockup_start_def pcpu_start_def soft_limit_def to_int_def)

end
