(* ===== verification/Litmus.thy ===== *)
theory Litmus
  imports Proc_Files
begin

section \<open>barrier\_sb.c, barrier\_mp.c: litmus tests of memory ordering\<close>

text \<open>
  Two programs that run two pinned threads against each other and count outcomes that an
  in-order machine cannot produce. A thread is the list of its memory accesses in program
  order; the machine takes them one at a time, and may take a later one before an earlier one
  unless the two are ordered. Which pairs are ordered is the hardware's business: it is the
  parameter \<open>ord\<close>, and \<open>armv8\<close> states what the architecture promises of it (same location,
  barriers, acquire and release accesses, control dependencies to a store). A schedule says
  which thread moves and which of its pending accesses it performs.
\<close>

datatype order = Relaxed | Acquire | Release | Seq_Cst

datatype test = Is_Zero | Nonzero | At_Least int

datatype 'l access =
    Store 'l int order
  | Load 'l order
  | Await 'l test order \<comment> \<open>a loop around a load\<close>
  | Fetch_Add 'l order
  | Dmb

fun holds :: "test \<Rightarrow> int \<Rightarrow> bool" where
  "holds Is_Zero v = (v = 0)"
| "holds Nonzero v = (v \<noteq> 0)"
| "holds (At_Least n) v = (n \<le> v)"

fun loc :: "'l access \<Rightarrow> 'l option" where
  "loc (Store l v q) = Some l"
| "loc (Load l q) = Some l"
| "loc (Await l t q) = Some l"
| "loc (Fetch_Add l q) = Some l"
| "loc Dmb = None"

fun acquires :: "'l access \<Rightarrow> bool" where
  "acquires (Load l q) = (q \<in> {Acquire, Seq_Cst})"
| "acquires (Await l t q) = (q \<in> {Acquire, Seq_Cst})"
| "acquires (Fetch_Add l q) = (q \<in> {Acquire, Seq_Cst})"
| "acquires _ = False"

fun releases :: "'l access \<Rightarrow> bool" where
  "releases (Store l v q) = (q \<in> {Release, Seq_Cst})"
| "releases (Fetch_Add l q) = (q \<in> {Release, Seq_Cst})"
| "releases _ = False"

fun writes :: "'l access \<Rightarrow> bool" where
  "writes (Store l v q) = True"
| "writes (Fetch_Add l q) = True"
| "writes _ = False"

fun awaits :: "'l access \<Rightarrow> bool" where
  "awaits (Await l t q) = True"
| "awaits _ = False"

definition must_order :: "'l access \<Rightarrow> 'l access \<Rightarrow> bool" where
  "must_order i j \<longleftrightarrow> i = Dmb \<or> j = Dmb \<or> loc i = loc j \<or> acquires i \<or> releases j
     \<or> releases i \<and> acquires j \<or> awaits i \<and> writes j"

definition armv8 :: "('l access \<Rightarrow> 'l access \<Rightarrow> bool) \<Rightarrow> bool" where
  "armv8 ord \<longleftrightarrow> (\<forall>i j. must_order i j \<longrightarrow> ord i j)"

subsection \<open>The machine\<close>

record 'l machine =
  mem :: "'l \<Rightarrow> int"
  todo :: "bool \<Rightarrow> 'l access list"
  got :: "bool \<Rightarrow> ('l \<times> int) list" \<comment> \<open>what each thread loaded\<close>

definition drop_nth :: "nat \<Rightarrow> 'a list \<Rightarrow> 'a list" where
  "drop_nth k xs = take k xs @ drop (Suc k) xs"

definition ready :: "('l access \<Rightarrow> 'l access \<Rightarrow> bool) \<Rightarrow> ('l \<Rightarrow> int) \<Rightarrow> 'l access list \<Rightarrow> nat \<Rightarrow> bool" where
  "ready ord m is k \<longleftrightarrow> k < length is \<and> (\<forall>j\<in>set (take k is). \<not> ord j (is ! k)) \<and>
     (case is ! k of Await l t q \<Rightarrow> holds t (m l) | _ \<Rightarrow> True)"

fun perform :: "bool \<Rightarrow> 'l access \<Rightarrow> 'l machine \<Rightarrow> 'l machine" where
  "perform t (Store l v q) s = s\<lparr>mem := (mem s)(l := v)\<rparr>"
| "perform t (Load l q) s = s\<lparr>got := (got s)(t := got s t @ [(l, mem s l)])\<rparr>"
| "perform t (Await l b q) s = s"
| "perform t (Fetch_Add l q) s = s\<lparr>mem := (mem s)(l := mem s l + 1)\<rparr>"
| "perform t Dmb s = s"

definition fire :: "('l access \<Rightarrow> 'l access \<Rightarrow> bool) \<Rightarrow> bool \<times> nat \<Rightarrow> 'l machine \<Rightarrow> 'l machine option" where
  "fire ord = (\<lambda>(t, k) s.
     if ready ord (mem s) (todo s t) k
     then Some ((perform t (todo s t ! k) s)\<lparr>todo := (todo s)(t := drop_nth k (todo s t))\<rparr>)
     else None)"

fun play :: "('l access \<Rightarrow> 'l access \<Rightarrow> bool) \<Rightarrow> (bool \<times> nat) list \<Rightarrow> 'l machine \<Rightarrow> 'l machine option" where
  "play ord [] s = Some s"
| "play ord (c # cs) s = Option.bind (fire ord c s) (play ord cs)"

definition threads :: "'l access list \<Rightarrow> 'l access list \<Rightarrow> 'l machine" where
  "threads p q = \<lparr>mem = (\<lambda>_. 0), todo = (\<lambda>t. if t then q else p), got = (\<lambda>_. [])\<rparr>"

definition finished :: "'l machine \<Rightarrow> bool" where
  "finished s \<longleftrightarrow> todo s False = [] \<and> todo s True = []"

subsection \<open>barrier\_sb.c\<close>

text \<open>Slot \<open>i\<close>'s \<open>x\<close> and \<open>y\<close>, and the start counter \<open>go\<close>. \<open>N\<close> slots, \<open>REP\<close> rounds.\<close>

datatype sb_loc = Slot_x nat | Slot_y nat | Go

definition sb_mode :: "string \<Rightarrow> nat" where
  "sb_mode m = (if m = ''dmb'' then 1 else if m = ''seqcst'' then 2 else 0)"

definition sb_start :: "sb_loc access list" where
  "sb_start = [Fetch_Add Go Seq_Cst, Await Go (At_Least 2) Seq_Cst]"

definition sb_body :: "nat \<Rightarrow> sb_loc \<Rightarrow> sb_loc \<Rightarrow> sb_loc access list" where
  "sb_body md st ld =
     (if md = 2 then [Store st 1 Seq_Cst, Load ld Seq_Cst]
      else Store st 1 Relaxed # (if md = 1 then [Dmb] else []) @ [Load ld Relaxed])"

definition th0 :: "nat \<Rightarrow> nat \<Rightarrow> sb_loc access list" where
  "th0 md n = sb_start @ concat (map (\<lambda>i. sb_body md (Slot_x i) (Slot_y i)) [0..<n])"

definition th1 :: "nat \<Rightarrow> nat \<Rightarrow> sb_loc access list" where
  "th1 md n = sb_start @ concat (map (\<lambda>i. sb_body md (Slot_y i) (Slot_x i)) [0..<n])"

text \<open>\<open>S[i].r0\<close> and \<open>S[i].r1\<close> after the threads were joined: zero unless loaded.\<close>

definition loaded :: "'l machine \<Rightarrow> bool \<Rightarrow> 'l \<Rightarrow> int" where
  "loaded s t l = (case map_of (got s t) l of Some v \<Rightarrow> v | None \<Rightarrow> 0)"

type_synonym counts = "nat \<times> nat \<times> nat \<times> nat"

definition count_slot :: "sb_loc machine \<Rightarrow> nat \<Rightarrow> counts \<Rightarrow> counts" where
  "count_slot s i = (\<lambda>(n00, n01, n10, n11).
     let p = loaded s False (Slot_y i); q = loaded s True (Slot_x i)
     in if p = 0 \<and> q = 0 then (n00 + 1, n01, n10, n11)
        else if p = 0 \<and> q \<noteq> 0 then (n00, n01 + 1, n10, n11)
        else if p \<noteq> 0 \<and> q = 0 then (n00, n01, n10 + 1, n11)
        else (n00, n01, n10, n11 + 1))"

text \<open>The rounds, each given by its schedule; none if a schedule is not one of the machine.\<close>

fun sb_rounds :: "(sb_loc access \<Rightarrow> sb_loc access \<Rightarrow> bool) \<Rightarrow> nat \<Rightarrow> nat \<Rightarrow> (bool \<times> nat) list list \<Rightarrow> counts
    \<Rightarrow> counts option" where
  "sb_rounds ord md n [] c = Some c"
| "sb_rounds ord md n (sc # scs) c =
     (case play ord sc (threads (th0 md n) (th1 md n)) of
        None \<Rightarrow> None
      | Some s \<Rightarrow> if finished s then sb_rounds ord md n scs (fold (count_slot s) [0..<n] c) else None)"

definition sb_main :: "(sb_loc access \<Rightarrow> sb_loc access \<Rightarrow> bool) \<Rightarrow> nat \<Rightarrow> (bool \<times> nat) list list \<Rightarrow> string list
    \<Rightarrow> line list option" where
  "sb_main ord n scs args =
     (let m = (if 1 < length args then args ! 1 else ''none'');
          c0 = (if 2 < length args then atoi (args ! 2) else 4);
          c1 = (if 3 < length args then atoi (args ! 3) else 5)
      in case sb_rounds ord (sb_mode m) n scs (0, 0, 0, 0) of
           None \<Rightarrow> None
         | Some (n00, n01, n10, n11) \<Rightarrow> Some
             [(''SB litmus  T0(cpu%d): x=1; r0=y   |   T1(cpu%d): y=1; r1=x   mode=%-6s  %d'',
                 [I c0, I c1, S m, I (int (n * length scs))]),
              (''  r0=0,r1=0 : %9ld'', [I (int n00)]), (''  r0=0,r1=1 : %9ld'', [I (int n01)]),
              (''  r0=1,r1=0 : %9ld'', [I (int n10)]), (''  r0=1,r1=1 : %9ld'', [I (int n11)]),
              (''  => (%ld / %ld)'', [I (int n00), I (int (n * length scs))])])"

subsection \<open>barrier\_mp.c\<close>

datatype mp_loc = Data | Flag

definition mp_mode :: "string \<Rightarrow> nat" where
  "mp_mode m = (if m = ''acqrel'' then 1 else if m = ''dmb'' then 2 else 0)"

definition mp_write_round :: "nat \<Rightarrow> mp_loc access list" where
  "mp_write_round md =
     [Await Flag Is_Zero Relaxed, Store Data 42 Relaxed] @ (if md = 2 then [Dmb] else [])
     @ [if md = 1 then Store Flag 1 Release else Store Flag 1 Relaxed]"

definition mp_writer :: "nat \<Rightarrow> nat \<Rightarrow> mp_loc access list" where
  "mp_writer md iters = concat (replicate iters (mp_write_round md))"

definition mp_read_round :: "nat \<Rightarrow> mp_loc access list" where
  "mp_read_round md =
     [if md = 1 then Await Flag Nonzero Acquire else Await Flag Nonzero Relaxed]
     @ (if md = 2 then [Dmb] else [])
     @ [Load Data Relaxed, Store Data 0 Relaxed, Store Flag 0 Release]"

definition mp_reader :: "nat \<Rightarrow> nat \<Rightarrow> mp_loc access list" where
  "mp_reader md iters = concat (replicate iters (mp_read_round md))"

definition violations :: "mp_loc machine \<Rightarrow> nat" where
  "violations s = length (filter (\<lambda>(l, d). d \<noteq> 42) (got s True))"

definition observed :: "mp_loc machine \<Rightarrow> nat" where
  "observed s = length (got s True)"

definition mp_main :: "(mp_loc access \<Rightarrow> mp_loc access \<Rightarrow> bool) \<Rightarrow> nat \<Rightarrow> (bool \<times> nat) list \<Rightarrow> string list
    \<Rightarrow> line list option" where
  "mp_main ord iters sc args =
     (let m = (if 1 < length args then args ! 1 else ''relaxed'');
          w = (if 2 < length args then atoi (args ! 2) else 0);
          r = (if 3 < length args then atoi (args ! 3) else 4)
      in case play ord sc (threads (mp_writer (mp_mode m) iters) (mp_reader (mp_mode m) iters)) of
           None \<Rightarrow> None
         | Some s \<Rightarrow> if \<not> finished s then None else Some
             [(''mode=%-8s writer=cpu%d reader=cpu%d  iters=%ld'', [S m, I w, I r, I (int iters)]),
              ('' %ld %ld flag==1 data!=42'', [I (int (observed s)), I (int (violations s))])])"

subsection \<open>Pending accesses\<close>

lemma nth_drop_nth: "k < length xs \<Longrightarrow> p < length xs - 1 \<Longrightarrow> drop_nth k xs ! p = (if p < k then xs ! p else xs ! Suc p)"
  by (auto simp: drop_nth_def nth_append min_def)

lemma length_drop_nth [simp]: "k < length xs \<Longrightarrow> length (drop_nth k xs) = length xs - 1"
  by (auto simp: drop_nth_def)

lemma drop_nth_0 [simp]: "drop_nth 0 (x # xs) = xs" by (simp add: drop_nth_def)

lemma set_drop_nth: "set (drop_nth k xs) \<subseteq> set xs"
  by (auto simp: drop_nth_def dest: in_set_takeD in_set_dropD)

lemma set_drop_nth_or: "k < length xs \<Longrightarrow> x \<in> set xs \<Longrightarrow> x = xs ! k \<or> x \<in> set (drop_nth k xs)"
  using id_take_nth_drop [of k xs] by (auto simp: drop_nth_def) (metis Un_iff insert_iff list.set(2) set_append)

lemma nth_in_take: "j < k \<Longrightarrow> k < length xs \<Longrightarrow> xs ! j \<in> set (take k xs)"
  by (auto simp: in_set_conv_nth intro!: exI [of _ j])

lemma ready_not_before: "ready ord m is k \<Longrightarrow> j < k \<Longrightarrow> \<not> ord (is ! j) (is ! k)"
  using nth_in_take [of j k "is"] by (simp add: ready_def)

text \<open>
  \<open>held ord a b is\<close>: as long as \<open>a\<close> is pending, \<open>b\<close> comes after it and cannot be performed
  before it, directly or because of an access in between.
\<close>

definition held :: "('l access \<Rightarrow> 'l access \<Rightarrow> bool) \<Rightarrow> 'l access \<Rightarrow> 'l access \<Rightarrow> 'l access list \<Rightarrow> bool" where
  "held ord a b is \<longleftrightarrow> (\<forall>p<length is. \<forall>r<length is. is ! p = a \<longrightarrow> is ! r = b \<longrightarrow> p < r \<and>
     (ord a b \<or> (\<exists>q. p < q \<and> q < r \<and> ord a (is ! q) \<and> ord (is ! q) b)))"

lemma held_ready:
  assumes "held ord a b is" "ready ord m is k" "is ! k = b"
  shows "a \<notin> set is"
proof
  assume "a \<in> set is"
  then obtain p where p: "p < length is" "is ! p = a" by (auto simp: in_set_conv_nth)
  have "k < length is" using assms(2) by (simp add: ready_def)
  with assms(1,3) p have "p < k" and "ord a b \<or> (\<exists>q. p < q \<and> q < k \<and> ord a (is ! q) \<and> ord (is ! q) b)"
    unfolding held_def by blast+
  with ready_not_before [OF assms(2)] p(2) assms(3) show False by blast
qed

lemma held_step:
  assumes h: "held ord a b is" and r: "ready ord m is k"
  shows "held ord a b (drop_nth k is)"
  unfolding held_def
proof (intro allI impI)
  have k: "k < length is" using r by (simp add: ready_def)
  fix p z
  assume p: "p < length (drop_nth k is)" "drop_nth k is ! p = a"
    and z: "z < length (drop_nth k is)" "drop_nth k is ! z = b"
  let ?up = "\<lambda>p. if p < k then p else Suc p" and ?dn = "\<lambda>p. if p < k then p else p - 1"
  have P: "?up p < length is" "is ! ?up p = a" "?up p \<noteq> k" using p k by (auto simp: nth_drop_nth split: if_splits)
  have Z: "?up z < length is" "is ! ?up z = b" "?up z \<noteq> k" using z k by (auto simp: nth_drop_nth split: if_splits)
  have H: "?up p < ?up z" "ord a b \<or> (\<exists>q. ?up p < q \<and> q < ?up z \<and> ord a (is ! q) \<and> ord (is ! q) b)"
    using h P Z unfolding held_def by blast+
  have pz: "p < z" using H(1) by (simp split: if_splits)
  show "p < z \<and> (ord a b \<or> (\<exists>q. p < q \<and> q < z \<and> ord a (drop_nth k is ! q) \<and> ord (drop_nth k is ! q) b))"
  proof (cases "ord a b")
    case False
    with H obtain q where q: "?up p < q" "q < ?up z" "ord a (is ! q)" "ord (is ! q) b" by blast
    have "q \<noteq> k" using ready_not_before [OF r, of "?up p"] P q by auto
    then have "p < ?dn q" "?dn q < z" "drop_nth k is ! ?dn q = is ! q"
      using q Z(1) k by (auto simp: nth_drop_nth split: if_splits)
    with pz q show ?thesis by metis
  qed (use pz in simp)
qed

text \<open>When each access is ordered before the next one, only the first can be performed.\<close>

lemma chain_head:
  assumes "\<forall>j. Suc j < length is \<longrightarrow> ord (is ! j) (is ! Suc j)" "ready ord m is k"
  shows "k = 0"
  using ready_not_before [OF assms(2), of "k - 1"] assms by (cases k) (auto simp: ready_def)

lemma held_Cons:
  assumes "held ord a b is" "x \<noteq> a" "x \<noteq> b"
  shows "held ord a b (x # is)"
  unfolding held_def
proof (intro allI impI)
  fix p r
  assume "p < length (x # is)" "r < length (x # is)" "(x # is) ! p = a" "(x # is) ! r = b"
  then obtain p' r' where e: "p = Suc p'" "r = Suc r'" "p' < length is" "r' < length is" "is ! p' = a" "is ! r' = b"
    using assms(2,3) by (cases p; cases r) auto
  then have "p' < r' \<and> (ord a b \<or> (\<exists>q. p' < q \<and> q < r' \<and> ord a (is ! q) \<and> ord (is ! q) b))"
    using assms(1) unfolding held_def by blast
  with e show "p < r \<and> (ord a b \<or> (\<exists>q. p < q \<and> q < r \<and> ord a ((x # is) ! q) \<and> ord ((x # is) ! q) b))"
    by (metis Suc_less_eq nth_Cons_Suc)
qed

lemma held_prepend: "held ord a b is \<Longrightarrow> a \<notin> set xs \<Longrightarrow> b \<notin> set xs \<Longrightarrow> held ord a b (xs @ is)"
  by (induction xs) (auto intro!: held_Cons)

lemma held_append:
  assumes "held ord a b is" "a \<notin> set ys" "b \<notin> set ys"
  shows "held ord a b (is @ ys)"
  unfolding held_def
proof (intro allI impI)
  fix p r
  assume "p < length (is @ ys)" "r < length (is @ ys)" "(is @ ys) ! p = a" "(is @ ys) ! r = b"
  then have e: "p < length is" "r < length is" "is ! p = a" "is ! r = b"
    using assms(2,3) by (auto simp: nth_append in_set_conv_nth split: if_splits)
  then have "p < r \<and> (ord a b \<or> (\<exists>q. p < q \<and> q < r \<and> ord a (is ! q) \<and> ord (is ! q) b))"
    using assms(1) unfolding held_def by blast
  with e show "p < r \<and> (ord a b \<or> (\<exists>q. p < q \<and> q < r \<and> ord a ((is @ ys) ! q) \<and> ord ((is @ ys) ! q) b))"
    by (metis nth_append order.strict_trans)
qed

lemma held_inside:
  "held ord a b is \<Longrightarrow> a \<notin> set xs \<union> set ys \<Longrightarrow> b \<notin> set xs \<union> set ys \<Longrightarrow> held ord a b (xs @ is @ ys)"
  by (simp add: held_prepend held_append)

lemma held_pair: "ord a b \<Longrightarrow> a \<noteq> b \<Longrightarrow> held ord a b [a, b]"
  by (auto simp: held_def less_Suc_eq nth_Cons')

lemma held_through: "ord a c \<Longrightarrow> ord c b \<Longrightarrow> distinct [a, c, b] \<Longrightarrow> held ord a b [a, c, b]"
  by (auto simp: held_def less_Suc_eq nth_Cons' numeral_eq_Suc intro!: exI [of _ "Suc 0"])

subsection \<open>Store buffering\<close>

definition own :: "bool \<Rightarrow> nat \<Rightarrow> sb_loc" where
  "own t i = (if t then Slot_y i else Slot_x i)"

definition sb_thread :: "nat \<Rightarrow> nat \<Rightarrow> bool \<Rightarrow> sb_loc access list" where
  "sb_thread md n t = sb_start @ concat (map (\<lambda>i. sb_body md (own t i) (own (\<not> t) i)) [0..<n])"

lemma threads_sb: "threads (th0 md n) (th1 md n) = \<lparr>mem = (\<lambda>_. 0), todo = sb_thread md n, got = (\<lambda>_. [])\<rparr>"
  by (auto simp: threads_def th0_def th1_def sb_thread_def own_def)

definition sb_st :: "nat \<Rightarrow> bool \<Rightarrow> nat \<Rightarrow> sb_loc access" where
  "sb_st md t i = Store (own t i) 1 (if md = 2 then Seq_Cst else Relaxed)"

definition sb_ld :: "nat \<Rightarrow> bool \<Rightarrow> nat \<Rightarrow> sb_loc access" where
  "sb_ld md t i = Load (own (\<not> t) i) (if md = 2 then Seq_Cst else Relaxed)"

lemmas sb_acc = sb_st_def sb_ld_def

lemma own_eq [simp]: "own t i = own u j \<longleftrightarrow> t = u \<and> i = j" "own t i \<noteq> Go" "Go \<noteq> own t i"
  by (auto simp: own_def)

lemma sb_body_eq:
  "sb_body md (own t i) (own (\<not> t) i) = sb_st md t i # (if md = 1 then [Dmb] else []) @ [sb_ld md t i]"
  by (simp add: sb_body_def sb_acc)

lemma sb_thread_set:
  "set (sb_thread md n t) \<subseteq> set sb_start \<union> {Dmb} \<union> (\<Union>i<n. {sb_st md t i, sb_ld md t i})"
  by (auto simp: sb_thread_def sb_body_eq split: if_splits)

lemma sb_thread_held:
  assumes "armv8 ord" "md \<in> {1, 2}" "i < n"
  shows "held ord (sb_st md t i) (sb_ld md t i) (sb_thread md n t)"
proof -
  let ?f = "\<lambda>i. sb_body md (own t i) (own (\<not> t) i)" and ?a = "sb_st md t i" and ?b = "sb_ld md t i"
  have split: "[0..<n] = [0..<i] @ i # [Suc i..<n]" using assms(3) using upt_add_eq_append [of 0 i "n - i"] by (simp add: upt_conv_Cons)
  have "ord ?a Dmb" "ord Dmb ?b" "md = 2 \<Longrightarrow> ord ?a ?b"
    using assms(1) by (auto simp: armv8_def must_order_def sb_acc)
  then have "held ord ?a ?b (?f i)"
    using assms(2) by (auto simp: sb_body_eq intro!: held_pair held_through) (auto simp: sb_acc)
  moreover have "?a \<notin> set (?f x)" "?b \<notin> set (?f x)" if "x \<noteq> i" for x
    using that by (auto simp: sb_body_eq sb_acc split: if_splits)
  moreover have "?a \<notin> set sb_start" "?b \<notin> set sb_start" by (auto simp: sb_start_def sb_acc)
  ultimately have "held ord ?a ?b ((sb_start @ concat (map ?f [0..<i])) @ ?f i @ concat (map ?f [Suc i..<n]))"
    by (intro held_inside) auto
  moreover have "sb_thread md n t = (sb_start @ concat (map ?f [0..<i])) @ ?f i @ concat (map ?f [Suc i..<n])"
    unfolding sb_thread_def split by simp
  ultimately show ?thesis by (simp only:)
qed

text \<open>
  What holds at every moment of a fenced run: the pending accesses are the program's, a pending
  store holds back its load, a store no longer pending is visible, a load that saw 0 came after
  its own thread's store and before the other's, and a load no longer pending was done.
\<close>

definition sb_held :: "(sb_loc access \<Rightarrow> sb_loc access \<Rightarrow> bool) \<Rightarrow> nat \<Rightarrow> nat \<Rightarrow> sb_loc machine \<Rightarrow> bool" where
  "sb_held ord md n s \<longleftrightarrow> (\<forall>t. set (todo s t) \<subseteq> set (sb_thread md n t)) \<and>
     (\<forall>t. \<forall>i<n. held ord (sb_st md t i) (sb_ld md t i) (todo s t))"

definition sb_done :: "nat \<Rightarrow> nat \<Rightarrow> sb_loc machine \<Rightarrow> bool" where
  "sb_done md n s \<longleftrightarrow> (\<forall>t. \<forall>i<n. (sb_st md t i \<in> set (todo s t) \<or> mem s (own t i) = 1) \<and>
     (sb_ld md t i \<in> set (todo s t) \<or> own (\<not> t) i \<in> fst ` set (got s t)))"

definition sb_seen :: "nat \<Rightarrow> sb_loc machine \<Rightarrow> bool" where
  "sb_seen n s \<longleftrightarrow> (\<forall>t. \<forall>i<n. (own (\<not> t) i, 0) \<in> set (got s t) \<longrightarrow>
     mem s (own t i) = 1 \<and> (own t i, 0) \<notin> set (got s (\<not> t)))"

lemma sb_start_inv:
  assumes "armv8 ord" "md \<in> {1, 2}"
  shows "sb_held ord md n (threads (th0 md n) (th1 md n))" "sb_done md n (threads (th0 md n) (th1 md n))"
    "sb_seen n (threads (th0 md n) (th1 md n))"
  using assms unfolding threads_sb
  by (auto simp: sb_held_def sb_done_def sb_seen_def sb_thread_held) (auto simp: sb_thread_def sb_body_eq)

fun load_result :: "('l \<Rightarrow> int) \<Rightarrow> 'l access \<Rightarrow> ('l \<times> int) list" where
  "load_result m (Load l q) = [(l, m l)]"
| "load_result m (Store l v q) = []"
| "load_result m (Await l t q) = []"
| "load_result m (Fetch_Add l q) = []"
| "load_result m Dmb = []"

lemma load_result_mem: "(l, v) \<in> set (load_result m a) \<longleftrightarrow> (\<exists>q. a = Load l q \<and> v = m l)"
  by (cases a) auto

lemma sb_step:
  assumes h: "sb_held ord md n s" and d: "sb_done md n s" and e: "sb_seen n s" and f: "fire ord c s = Some s'"
  shows "sb_held ord md n s' \<and> sb_done md n s' \<and> sb_seen n s'"
proof -
  obtain t k where c: "c = (t, k)" by (cases c)
  let ?a = "todo s t ! k"
  have r: "ready ord (mem s) (todo s t) k"
    and s': "s' = (perform t ?a s)\<lparr>todo := (todo s)(t := drop_nth k (todo s t))\<rparr>"
    using f by (auto simp: fire_def c split: if_splits)
  have k: "k < length (todo s t)" using r by (simp add: ready_def)
  have td: "todo s' u = (if u = t then drop_nth k (todo s t) else todo s u)" for u by (simp add: s')
  have left: "x = ?a \<and> u = t \<or> x \<in> set (todo s' u)" if "x \<in> set (todo s u)" for x u
    using that set_drop_nth_or [OF k] by (auto simp: td)
  have "set (todo s t) \<subseteq> set (sb_thread md n t)" using h by (simp add: sb_held_def)
  with k have "?a \<in> set (sb_thread md n t)" by (meson nth_mem subsetD)
  then consider (quiet) "?a \<in> set sb_start \<union> {Dmb}" | (st) i where "i < n" "?a = sb_st md t i"
    | (ld) i where "i < n" "?a = sb_ld md t i"
    using sb_thread_set [of md n t] by blast
  then have mg: "(\<forall>l q. ?a = Load l q \<longrightarrow> (\<exists>j<n. l = own (\<not> t) j \<and> ?a = sb_ld md t j)) \<and> (\<forall>u j. mem s' (own u j) = (if ?a = sb_st md u j then 1 else mem s (own u j))) \<and>
      (\<forall>u. got s' u = got s u @ (if u = t then load_result (mem s) ?a else []))"
    by cases (auto simp: s' sb_start_def sb_acc)
  have m: "mem s' (own u j) = (if ?a = sb_st md u j then 1 else mem s (own u j))" for u j using mg by blast
  have g: "got s' u = got s u @ (if u = t then load_result (mem s) ?a else [])" for u using mg by blast
  have ml: "\<exists>j<n. l = own (\<not> t) j \<and> ?a = sb_ld md t j" if "?a = Load l q" for l q
    using mg that by blast
  have H: "sb_held ord md n s'"
  proof -
    have "set (drop_nth k (todo s t)) \<subseteq> set (sb_thread md n t)"
      by (rule subset_trans [OF set_drop_nth]) (use h in \<open>simp add: sb_held_def\<close>)
    with h held_step [OF _ r] show ?thesis by (simp add: sb_held_def td)
  qed
  have D: "sb_done md n s'"
    unfolding sb_done_def
  proof (intro allI impI conjI)
    fix u i assume i: "i < n"
    have now: "sb_st md u i \<in> set (todo s u) \<or> mem s (own u i) = 1"
        "sb_ld md u i \<in> set (todo s u) \<or> own (\<not> u) i \<in> fst ` set (got s u)"
      using d i unfolding sb_done_def by blast+
    show "sb_st md u i \<in> set (todo s' u) \<or> mem s' (own u i) = 1"
      using now(1) left [of "sb_st md u i" u] by (auto simp: m)
    show "sb_ld md u i \<in> set (todo s' u) \<or> own (\<not> u) i \<in> fst ` set (got s' u)"
    proof (cases "?a = sb_ld md u i \<and> u = t")
      case True
      then have "?a = Load (own (\<not> u) i) (if md = 2 then Seq_Cst else Relaxed)" "u = t" by (simp_all add: sb_ld_def)
      then have "got s' u = got s u @ [(own (\<not> u) i, mem s (own (\<not> u) i))]" using g [of u] by simp
      then show ?thesis by simp
    next
      case False
      have "fst ` set (got s u) \<subseteq> fst ` set (got s' u)"
        unfolding g [of u] set_append by (rule image_mono, rule Un_upper1)
      with False now(2) left [of "sb_ld md u i" u] show ?thesis by auto
    qed
  qed
  have E: "sb_seen n s'"
    unfolding sb_seen_def
  proof (intro allI impI)
    have new: "u = t \<and> ?a = sb_ld md u i \<and> mem s (own (\<not> u) i) = 0"
      if "(own (\<not> u) i, 0) \<in> set (got s' u)" "(own (\<not> u) i, 0) \<notin> set (got s u)" for u i
    proof -
      from that obtain q where q: "u = t" "?a = Load (own (\<not> u) i) q" "mem s (own (\<not> u) i) = 0"
        unfolding g by (auto simp: load_result_mem split: if_splits)
      with ml [OF q(2)] obtain j where "own (\<not> t) i = own (\<not> t) j" "?a = sb_ld md t j" by auto
      with q show ?thesis by simp
    qed
    fix u i assume i: "i < n" and z: "(own (\<not> u) i, 0) \<in> set (got s' u)"
    show "mem s' (own u i) = 1 \<and> (own u i, 0) \<notin> set (got s' (\<not> u))"
    proof (cases "(own (\<not> u) i, 0) \<in> set (got s u)")
      case True
      with e i have "mem s (own u i) = 1" "(own u i, 0) \<notin> set (got s (\<not> u))" by (auto simp: sb_seen_def)
      with new [of "\<not> u" i] show ?thesis by (auto simp: m)
    next
      case False
      with new z have n: "u = t" "?a = sb_ld md u i" "mem s (own (\<not> u) i) = 0" by blast+
      have "sb_st md u i \<notin> set (todo s u)"
        using h i n held_ready [of ord "sb_st md u i" "sb_ld md u i", OF _ r] by (auto simp: sb_held_def)
      with d i have one: "mem s (own u i) = 1" by (auto simp: sb_done_def)
      have "(own u i, 0) \<notin> set (got s (\<not> u))"
      proof
        assume "(own u i, 0) \<in> set (got s (\<not> u))"
        then have "mem s (own (\<not> u) i) = 1" using e [unfolded sb_seen_def, rule_format, of i "\<not> u"] i by simp
        with n(3) show False by simp
      qed
      with n(1) one show ?thesis by (auto simp: m g)
    qed
  qed
  from H D E show ?thesis by blast
qed

lemma play_induct:
  assumes "play ord cs s = Some s'" "P s" "\<And>c s s'. P s \<Longrightarrow> fire ord c s = Some s' \<Longrightarrow> P s'"
  shows "P s'"
  using assms(1,2)
proof (induction cs arbitrary: s)
  case (Cons c cs)
  from Cons.prems obtain t where "fire ord c s = Some t" "play ord cs t = Some s'" by (auto simp: bind_eq_Some_conv)
  with Cons.IH Cons.prems(2) assms(3) show ?case by blast
qed simp

lemma sb_fenced_round:
  assumes "armv8 ord" "md \<in> {1, 2}" "play ord sc (threads (th0 md n) (th1 md n)) = Some s" "finished s" "i < n"
  shows "loaded s False (Slot_y i) \<noteq> 0 \<or> loaded s True (Slot_x i) \<noteq> 0"
proof -
  have inv: "sb_held ord md n s \<and> sb_done md n s \<and> sb_seen n s"
    using assms(3) sb_start_inv [OF assms(1,2)] sb_step
    by (elim play_induct [where P = "\<lambda>s. sb_held ord md n s \<and> sb_done md n s \<and> sb_seen n s"]) blast+
  have td: "todo s t = []" for t using assms(4) by (cases t) (simp_all add: finished_def)
  have "own (\<not> t) i \<in> fst ` set (got s t)" for t
    using inv assms(5) td [of t] unfolding sb_done_def by (metis empty_iff list.set(1))
  then have ne: "map_of (got s t) (own (\<not> t) i) \<noteq> None" for t by (simp add: map_of_eq_None_iff)
  define v where "v t = the (map_of (got s t) (own (\<not> t) i))" for t
  have v: "map_of (got s t) (own (\<not> t) i) = Some (v t)" for t using ne [of t] by (simp add: v_def)
  have "(own (\<not> t) i, v t) \<in> set (got s t)" for t using v by (rule map_of_SomeD)
  then have "v False \<noteq> 0 \<or> v True \<noteq> 0"
    using inv assms(5) unfolding sb_seen_def by (metis (full_types))
  with v [of False] v [of True] show ?thesis by (auto simp: loaded_def own_def)
qed

text \<open>
  C9: With a \<open>dmb ish\<close> or with sequentially consistent accesses the reordering counter stays at
  zero: for every machine that keeps the orders the architecture promises, every number of
  slots and rounds and every schedule of the two threads, the program that ran to its end has
  counted no slot in which both loads returned 0.
\<close>

theorem sb_fenced_never_reorders:
  assumes "armv8 ord" "md \<in> {1, 2}" "sb_rounds ord md n scs (0, n01, n10, n11) = Some (m00, m01, m10, m11)"
  shows "m00 = 0 \<and> m01 + m10 + m11 = n01 + n10 + n11 + n * length scs"
proof -
  have round: "\<exists>b c d. fold (count_slot s) is (0, n01, n10, n11) = (0, b, c, d) \<and> b + c + d = n01 + n10 + n11 + length is"
    if "\<And>i. i \<in> set is \<Longrightarrow> loaded s False (Slot_y i) \<noteq> 0 \<or> loaded s True (Slot_x i) \<noteq> 0"
    for s "is" n01 n10 n11
    using that
  proof (induction "is" arbitrary: n01 n10 n11)
    case (Cons i "is")
    have "\<exists>b c d. count_slot s i (0, n01, n10, n11) = (0, b, c, d) \<and> b + c + d = n01 + n10 + n11 + 1"
      using Cons.prems [of i] by (auto simp: count_slot_def Let_def)
    then obtain b c d where "count_slot s i (0, n01, n10, n11) = (0, b, c, d)" "b + c + d = n01 + n10 + n11 + 1" by blast
    with Cons.IH [of b c d] Cons.prems show ?case by fastforce
  qed simp
  show ?thesis
    using assms(3)
  proof (induction scs arbitrary: n01 n10 n11)
    case (Cons sc scs)
    then obtain s where s: "play ord sc (threads (th0 md n) (th1 md n)) = Some s" "finished s"
      and rest: "sb_rounds ord md n scs (fold (count_slot s) [0..<n] (0, n01, n10, n11)) = Some (m00, m01, m10, m11)"
      by (auto split: option.splits if_splits)
    obtain b c d where "fold (count_slot s) [0..<n] (0, n01, n10, n11) = (0, b, c, d)" "b + c + d = n01 + n10 + n11 + n"
      using round [of "[0..<n]" s n01 n10 n11] sb_fenced_round [OF assms(1,2) s] by auto
    with Cons.IH [of b c d] rest show ?case by simp
  qed simp
qed

lemma armv8_weakest: "armv8 must_order" by (simp add: armv8_def)

theorem sb_fenced_never_reorders_witness:
  "\<exists>m01 m10 m11. sb_rounds must_order 1 1 [[(False, 0), (True, 0), (False, 0), (True, 0), (False, 0), (True, 0),
     (False, 0), (False, 0), (True, 0), (True, 0)]] (0, 0, 0, 0) = Some (0, m01, m10, m11) \<and> m01 + m10 + m11 = 1"
proof -
  have run: "sb_rounds must_order 1 1 [[(False, 0), (True, 0), (False, 0), (True, 0), (False, 0), (True, 0),
     (False, 0), (False, 0), (True, 0), (True, 0)]] (0, 0, 0, 0) = Some (0, 0, 0, 1)"
    by code_simp
  from sb_fenced_never_reorders [OF armv8_weakest _ run] run show ?thesis by auto
qed

text \<open>
  Without a barrier the counters can be what the tests look for: on a machine that keeps no
  order beyond the architecture's, a thread may do its load before its store, so one slot of
  \<open>barrier_sb none\<close> can count both loads as 0, and a reader of \<open>barrier_mp relaxed\<close> can see
  the flag and then the old data.
\<close>

theorem relaxed_reorders:
  "sb_rounds must_order 0 1 [[(False, 0), (True, 0), (False, 0), (True, 0), (False, 1), (True, 1), (False, 0), (True, 0)]]
     (0, 0, 0, 0) = Some (1, 0, 0, 0) \<and>
   mp_main must_order 1 [(False, 0), (False, 1), (True, 0), (True, 0), (False, 0), (True, 0), (True, 0)] [''mp'', ''relaxed'']
     = Some [(''mode=%-8s writer=cpu%d reader=cpu%d  iters=%ld'', [S ''relaxed'', I 0, I 4, I 1]),
             ('' %ld %ld flag==1 data!=42'', [I 1, I 1])]"
  by code_simp

subsection \<open>Message passing\<close>

definition chained :: "('l access \<Rightarrow> 'l access \<Rightarrow> bool) \<Rightarrow> 'l machine \<Rightarrow> bool" where
  "chained ord s \<longleftrightarrow> (\<forall>t. successively ord (todo s t))"

lemma successively_tl: "successively P xs \<Longrightarrow> successively P (tl xs)"
  by (cases xs) (auto simp: successively_Cons)

text \<open>A thread whose accesses are all ordered performs them one after the other.\<close>

lemma chained_fire:
  assumes "chained ord s" "fire ord (t, k) s = Some s'"
  shows "k = 0 \<and> chained ord s' \<and> (\<exists>a is. todo s t = a # is \<and>
     (case a of Await l b q \<Rightarrow> holds b (mem s l) | _ \<Rightarrow> True) \<and> s' = (perform t a s)\<lparr>todo := (todo s)(t := is)\<rparr>)"
proof -
  have r: "ready ord (mem s) (todo s t) k"
    and s': "s' = (perform t (todo s t ! k) s)\<lparr>todo := (todo s)(t := drop_nth k (todo s t))\<rparr>"
    using assms(2) by (auto simp: fire_def split: if_splits)
  have k: "k = 0"
    using assms(1) by (intro chain_head [OF _ r]) (auto simp: chained_def successively_conv_nth)
  obtain a "is" where td: "todo s t = a # is" using r k by (cases "todo s t") (auto simp: ready_def)
  have "chained ord s'"
  proof -
    have "successively ord (a # is)" using assms(1) td by (metis chained_def)
    then have "successively ord is" using successively_tl [of ord "a # is"] by simp
    with assms(1) td k show ?thesis by (simp add: chained_def s')
  qed
  with k td r show ?thesis by (auto simp: s' ready_def)
qed

lemma chained_fire_0:
  "chained ord s \<Longrightarrow> todo s t = a # is \<Longrightarrow> (case a of Await l b q \<Rightarrow> holds b (mem s l) | _ \<Rightarrow> True)
    \<Longrightarrow> fire ord (t, 0) s = Some ((perform t a s)\<lparr>todo := (todo s)(t := is)\<rparr>)"
  by (simp add: fire_def ready_def)

lemma mp_ends:
  "mp_write_round md \<noteq> []" "mp_read_round md \<noteq> []"
  "loc (last (mp_write_round md)) = Some Flag" "loc (hd (mp_write_round md)) = Some Flag"
  "loc (last (mp_read_round md)) = Some Flag" "loc (hd (mp_read_round md)) = Some Flag"
  by (simp_all add: mp_write_round_def mp_read_round_def)

lemma successively_rounds:
  assumes "successively P r" "r \<noteq> []" "P (last r) (hd r)"
  shows "successively P (concat (replicate n r))"
proof (induction n)
  case (Suc n)
  have "n = 0 \<or> hd (concat (replicate n r)) = hd r" using assms(2) by (cases n) auto
  with Suc assms show ?case by (auto simp: successively_append_iff)
qed simp

lemma mp_chained:
  assumes "armv8 ord" "md \<in> {1, 2}"
  shows "chained ord (threads (mp_writer md n) (mp_reader md n))"
proof -
  have o: "must_order i j \<Longrightarrow> ord i j" for i j using assms(1) by (simp add: armv8_def)
  have "successively ord (mp_write_round md)" "successively ord (mp_read_round md)"
    using assms(2) by (auto simp: mp_write_round_def mp_read_round_def intro!: o) (auto simp: must_order_def)
  moreover have "ord (last (mp_write_round md)) (hd (mp_write_round md))" "ord (last (mp_read_round md)) (hd (mp_read_round md))"
    by (auto intro!: o simp: must_order_def mp_ends)
  ultimately show ?thesis
    by (auto simp: chained_def threads_def mp_writer_def mp_reader_def mp_ends intro!: successively_rounds)
qed

text \<open>
  The protocol: what the writer and the reader still have to do, the flag, the data and the
  number of loads so far, in a run of \<open>n\<close> rounds. A message is in the box exactly when the flag
  is set, and from then until the reader's load the data is 42.
\<close>

inductive mp_phase :: "nat \<Rightarrow> nat \<Rightarrow> mp_loc access list \<Rightarrow> mp_loc access list \<Rightarrow> int \<Rightarrow> int \<Rightarrow> nat \<Rightarrow> bool" for md n where
  Idle: "c + k = n \<Longrightarrow> mp_phase md n (mp_writer md k) (mp_reader md k) 0 d c"
| Filling: "c + Suc k = n \<Longrightarrow> mp_phase md n (drop 1 (mp_write_round md) @ mp_writer md k) (mp_reader md (Suc k)) 0 d c"
| Filled: "c + Suc k = n \<Longrightarrow> 2 \<le> j \<Longrightarrow> j < length (mp_write_round md) \<Longrightarrow>
    mp_phase md n (drop j (mp_write_round md) @ mp_writer md k) (mp_reader md (Suc k)) 0 42 c"
| Posted: "c + Suc k = n \<Longrightarrow> j + 3 \<le> length (mp_read_round md) \<Longrightarrow>
    mp_phase md n (mp_writer md k) (drop j (mp_read_round md) @ mp_reader md k) 1 42 c"
| Drained: "c + k = n \<Longrightarrow> length (mp_read_round md) \<le> j + 2 \<Longrightarrow> j < length (mp_read_round md) \<Longrightarrow>
    mp_phase md n (mp_writer md k) (drop j (mp_read_round md) @ mp_reader md k) 1 d c"

definition mp_inv :: "nat \<Rightarrow> nat \<Rightarrow> mp_loc machine \<Rightarrow> bool" where
  "mp_inv md n s \<longleftrightarrow> mp_phase md n (todo s False) (todo s True) (mem s Flag) (mem s Data) (length (got s True)) \<and>
     list_all (\<lambda>x. snd x = 42) (got s True)"

lemma mp_Suc: "mp_writer md (Suc k) = mp_write_round md @ mp_writer md k" "mp_reader md (Suc k) = mp_read_round md @ mp_reader md k"
  "mp_writer md 0 = []" "mp_reader md 0 = []"
  by (simp_all add: mp_writer_def mp_reader_def)

lemma mp_inv_start: "mp_inv md n (threads (mp_writer md n) (mp_reader md n))"
  using mp_phase.Idle [of 0 n n md 0] by (simp add: mp_inv_def threads_def)

definition sc_step :: "bool \<Rightarrow> 'l machine \<Rightarrow> 'l machine \<Rightarrow> bool" where
  "sc_step t s s' \<longleftrightarrow> (\<exists>a is. todo s t = a # is \<and>
     (case a of Await l b q \<Rightarrow> holds b (mem s l) | _ \<Rightarrow> True) \<and> s' = (perform t a s)\<lparr>todo := (todo s)(t := is)\<rparr>)"

lemma mp_rounds:
  "mp_write_round (Suc 0) = [Await Flag Is_Zero Relaxed, Store Data 42 Relaxed, Store Flag 1 Release]"
  "mp_write_round 2 = [Await Flag Is_Zero Relaxed, Store Data 42 Relaxed, Dmb, Store Flag 1 Relaxed]"
  "mp_read_round (Suc 0) = [Await Flag Nonzero Acquire, Load Data Relaxed, Store Data 0 Relaxed, Store Flag 0 Release]"
  "mp_read_round 2 = [Await Flag Nonzero Relaxed, Dmb, Load Data Relaxed, Store Data 0 Relaxed, Store Flag 0 Release]"
  by (simp_all add: mp_write_round_def mp_read_round_def)

lemmas phases_acqrel =
  mp_phase.Idle [where md = "Suc 0"]
  mp_phase.Filling [where md = "Suc 0", simplified mp_rounds mp_Suc, simplified]
  mp_phase.Filled [where md = "Suc 0" and j = 2, simplified mp_rounds mp_Suc, simplified]
  mp_phase.Posted [where md = "Suc 0" and j = 0, simplified mp_rounds mp_Suc, simplified]
  mp_phase.Posted [where md = "Suc 0" and j = 1, simplified mp_rounds mp_Suc, simplified]
  mp_phase.Drained [where md = "Suc 0" and j = 2, simplified mp_rounds mp_Suc, simplified]
  mp_phase.Drained [where md = "Suc 0" and j = 3, simplified mp_rounds mp_Suc, simplified]

lemmas phases_dmb =
  mp_phase.Idle [where md = 2]
  mp_phase.Filling [where md = 2, simplified mp_rounds mp_Suc, simplified]
  mp_phase.Filled [where md = 2 and j = 2, simplified mp_rounds mp_Suc, simplified]
  mp_phase.Filled [where md = 2 and j = 3, simplified mp_rounds mp_Suc, simplified]
  mp_phase.Posted [where md = 2 and j = 0, simplified mp_rounds mp_Suc, simplified]
  mp_phase.Posted [where md = 2 and j = 1, simplified mp_rounds mp_Suc, simplified]
  mp_phase.Posted [where md = 2 and j = 2, simplified mp_rounds mp_Suc, simplified]
  mp_phase.Drained [where md = 2 and j = 3, simplified mp_rounds mp_Suc, simplified]
  mp_phase.Drained [where md = 2 and j = 4, simplified mp_rounds mp_Suc, simplified]

lemma mp_invI:
  "mp_phase md n (todo s False) (todo s True) (mem s Flag) (mem s Data) (length (got s True))
    \<Longrightarrow> list_all (\<lambda>x. snd x = 42) (got s True) \<Longrightarrow> mp_inv md n s"
  by (simp add: mp_inv_def)

lemma mp_write_stuck:
  "mp_writer md k = a # is \<Longrightarrow> a = Await Flag Is_Zero Relaxed"
  "a # is = mp_writer md k \<Longrightarrow> a = Await Flag Is_Zero Relaxed"
  by (cases k; auto simp: mp_Suc mp_write_round_def)+

lemma mp_inv_step_acqrel:
  assumes "mp_inv (Suc 0) n s" "sc_step t s s'"
  shows "mp_inv (Suc 0) n s'"
proof -
  have p: "mp_phase (Suc 0) n (todo s False) (todo s True) (mem s Flag) (mem s Data) (length (got s True))"
    and g: "list_all (\<lambda>x. snd x = 42) (got s True)"
    using assms(1) by (simp_all add: mp_inv_def)
  from p show ?thesis
  proof cases
    case (Idle k)
    with assms(2) g show ?thesis
      by (cases t; cases k) (auto simp: sc_step_def mp_Suc mp_rounds intro!: mp_invI phases_acqrel)
  next
    case (Filling k)
    with assms(2) g show ?thesis
      by (cases t) (auto simp: sc_step_def mp_Suc mp_rounds intro!: mp_invI phases_acqrel)
  next
    case (Filled k j)
    then have "j = 2" by (simp add: mp_rounds)
    with Filled assms(2) g show ?thesis
      by (cases t) (auto simp: sc_step_def mp_Suc mp_rounds intro!: mp_invI phases_acqrel)
  next
    case (Posted k j)
    then have "j = 0 \<or> j = 1" by (auto simp: mp_rounds)
    with Posted assms(2) g show ?thesis
      by (cases t) (auto simp: sc_step_def mp_Suc mp_rounds dest!: mp_write_stuck intro!: mp_invI phases_acqrel)
  next
    case (Drained k j)
    then have "j = 2 \<or> j = 3" by (auto simp: mp_rounds)
    with Drained assms(2) g show ?thesis
      by (cases t) (auto simp: sc_step_def mp_Suc mp_rounds dest!: mp_write_stuck intro!: mp_invI phases_acqrel)
  qed
qed

lemma mp_inv_step_dmb:
  assumes "mp_inv 2 n s" "sc_step t s s'"
  shows "mp_inv 2 n s'"
proof -
  have p: "mp_phase 2 n (todo s False) (todo s True) (mem s Flag) (mem s Data) (length (got s True))"
    and g: "list_all (\<lambda>x. snd x = 42) (got s True)"
    using assms(1) by (simp_all add: mp_inv_def)
  from p show ?thesis
  proof cases
    case (Idle k)
    with assms(2) g show ?thesis
      by (cases t; cases k) (auto simp: sc_step_def mp_Suc mp_rounds intro!: mp_invI phases_dmb)
  next
    case (Filling k)
    with assms(2) g show ?thesis
      by (cases t) (auto simp: sc_step_def mp_Suc mp_rounds intro!: mp_invI phases_dmb)
  next
    case (Filled k j)
    then have "j = 2 \<or> j = 3" by (auto simp: mp_rounds)
    with Filled assms(2) g show ?thesis
      by (cases t) (auto simp: sc_step_def mp_Suc mp_rounds intro!: mp_invI phases_dmb)
  next
    case (Posted k j)
    then have "j = 0 \<or> j = 1 \<or> j = 2" by (auto simp: mp_rounds)
    with Posted assms(2) g show ?thesis
      by (cases t) (auto simp: sc_step_def mp_Suc mp_rounds dest!: mp_write_stuck intro!: mp_invI phases_dmb)
  next
    case (Drained k j)
    then have "j = 3 \<or> j = 4" by (auto simp: mp_rounds)
    with Drained assms(2) g show ?thesis
      by (cases t) (auto simp: sc_step_def mp_Suc mp_rounds dest!: mp_write_stuck intro!: mp_invI phases_dmb)
  qed
qed


lemma mp_inv_step: "md \<in> {1, 2} \<Longrightarrow> mp_inv md n s \<Longrightarrow> sc_step t s s' \<Longrightarrow> mp_inv md n s'"
  using mp_inv_step_acqrel mp_inv_step_dmb by auto

lemma mp_play:
  assumes "armv8 ord" "md \<in> {1, 2}" "play ord sc (threads (mp_writer md n) (mp_reader md n)) = Some s"
  shows "chained ord s \<and> mp_inv md n s"
proof (rule play_induct [OF assms(3), where P = "\<lambda>s. chained ord s \<and> mp_inv md n s"])
  show "chained ord (threads (mp_writer md n) (mp_reader md n)) \<and> mp_inv md n (threads (mp_writer md n) (mp_reader md n))"
    using mp_chained [OF assms(1,2)] mp_inv_start by blast
  fix c s s'
  assume s: "chained ord s \<and> mp_inv md n s" and f: "fire ord c s = Some s'"
  obtain t k where "c = (t, k)" by (cases c)
  with chained_fire [of ord s t k s'] s f have "chained ord s'" "sc_step t s s'" by (auto simp: sc_step_def)
  with s mp_inv_step [OF assms(2)] show "chained ord s' \<and> mp_inv md n s'" by blast
qed

text \<open>
  C10: With release and acquire or with \<open>dmb ish\<close> the message always arrives: on every machine
  that keeps the architecture's orders, at every moment of every schedule the reader has
  never seen the flag without the data, and when both threads are done it has observed each
  of the \<open>iters\<close> rounds.
\<close>

theorem mp_ordered_no_violation:
  assumes "armv8 ord" "md \<in> {1, 2}" "play ord sc (threads (mp_writer md iters) (mp_reader md iters)) = Some s"
  shows "violations s = 0 \<and> (finished s \<longrightarrow> observed s = iters)"
proof -
  have i: "mp_inv md iters s" using mp_play [OF assms] by blast
  have "violations s = 0" using i by (auto simp: mp_inv_def violations_def filter_empty_conv list_all_iff)
  moreover have "observed s = iters" if "finished s"
  proof -
    have "mp_phase md iters [] [] (mem s Flag) (mem s Data) (observed s)"
      using i that by (simp add: mp_inv_def finished_def observed_def)
    then show ?thesis
      using assms(2) by cases (auto simp: mp_rounds mp_Suc, (case_tac k; simp add: mp_Suc mp_rounds)+)
  qed
  ultimately show ?thesis by blast
qed

definition mp_sample :: "(bool \<times> nat) list" where
  "mp_sample = [(False, 0), (False, 0), (False, 0), (False, 0), (True, 0), (True, 0), (True, 0), (True, 0), (True, 0)]"

theorem mp_ordered_no_violation_witness:
  "\<exists>s. play must_order mp_sample (threads (mp_writer 2 1) (mp_reader 2 1)) = Some s \<and> violations s = 0"
proof -
  have "\<exists>s. play must_order mp_sample (threads (mp_writer 2 1) (mp_reader 2 1)) = Some s"
    by (simp add: mp_sample_def fire_def threads_def mp_writer_def mp_reader_def mp_write_round_def mp_read_round_def ready_def)
  then obtain s where "play must_order mp_sample (threads (mp_writer 2 1) (mp_reader 2 1)) = Some s" by blast
  with mp_ordered_no_violation [OF armv8_weakest _ this] show ?thesis by blast
qed

lemma mp_progress:
  assumes "md \<in> {1, 2}" "mp_inv md n s" "\<not> finished s"
  shows "\<exists>t a is. todo s t = a # is \<and> (case a of Await l b q \<Rightarrow> holds b (mem s l) | _ \<Rightarrow> True)"
proof -
  have "mp_phase md n (todo s False) (todo s True) (mem s Flag) (mem s Data) (length (got s True))"
    using assms(2) by (simp add: mp_inv_def)
  then show ?thesis
  proof cases
    case (Idle k)
    with assms(3) obtain k' where "k = Suc k'" by (cases k) (auto simp: mp_Suc finished_def)
    with Idle show ?thesis by (intro exI [of _ False]) (simp add: mp_Suc mp_write_round_def)
  next
    case (Filling k)
    then show ?thesis by (intro exI [of _ False]) (simp add: mp_write_round_def)
  next
    case (Filled k j)
    then have "(md = 1 \<and> j = 2) \<or> (md = 2 \<and> (j = 2 \<or> j = 3))" using assms(1) by (auto simp: mp_rounds)
    with Filled show ?thesis by (intro exI [of _ False]) (auto simp: mp_rounds)
  next
    case (Posted k j)
    then have "(md = 1 \<and> (j = 0 \<or> j = 1)) \<or> (md = 2 \<and> (j = 0 \<or> j = 1 \<or> j = 2))"
      using assms(1) by (auto simp: mp_rounds)
    with Posted show ?thesis by (intro exI [of _ True]) (auto simp: mp_rounds)
  next
    case (Drained k j)
    then have "(md = 1 \<and> (j = 2 \<or> j = 3)) \<or> (md = 2 \<and> (j = 3 \<or> j = 4))"
      using assms(1) by (auto simp: mp_rounds)
    with Drained show ?thesis by (intro exI [of _ True]) (auto simp: mp_rounds)
  qed
qed

lemma play_append: "play ord (xs @ ys) s = Option.bind (play ord xs s) (play ord ys)"
  by (induction xs arbitrary: s) (auto simp: bind_eq_None_conv split: bind_split)

lemma mp_finish:
  assumes "md \<in> {1, 2}"
  shows "chained ord s \<Longrightarrow> mp_inv md n s \<Longrightarrow> length (todo s False) + length (todo s True) = m \<Longrightarrow>
    \<exists>sc s'. play ord sc s = Some s' \<and> finished s'"
proof (induction m arbitrary: s)
  case 0
  then show ?case by (intro exI [of _ "[]"]) (simp add: finished_def)
next
  case (Suc m)
  then have "\<not> finished s" by (auto simp: finished_def)
  with mp_progress [OF assms] Suc.prems(2) obtain t a "is"
    where a: "todo s t = a # is" "case a of Await l b q \<Rightarrow> holds b (mem s l) | _ \<Rightarrow> True" by blast
  let ?s = "(perform t a s)\<lparr>todo := (todo s)(t := is)\<rparr>"
  have f: "fire ord (t, 0) s = Some ?s" using Suc.prems(1) a by (rule chained_fire_0)
  have "chained ord ?s" using chained_fire [OF Suc.prems(1) f] by blast
  moreover have "mp_inv md n ?s"
    using a by (intro mp_inv_step [OF assms Suc.prems(2), of t]) (auto simp: sc_step_def)
  moreover have "length (todo ?s False) + length (todo ?s True) = m"
    using Suc.prems(3) a(1) by (cases t) auto
  ultimately obtain sc s' where "play ord sc ?s = Some s'" "finished s'" using Suc.IH by blast
  with f show ?case by (intro exI [of _ "(t, 0) # sc"] exI [of _ s']) simp
qed

text \<open>
  C11: Neither thread can wait for ever: in the ordered modes, whatever has been scheduled so
  far, the run can be completed, both threads doing all their rounds.
\<close>

theorem mp_never_stuck:
  assumes "armv8 ord" "md \<in> {1, 2}" "play ord sc (threads (mp_writer md iters) (mp_reader md iters)) = Some s"
  shows "\<exists>more s'. play ord (sc @ more) (threads (mp_writer md iters) (mp_reader md iters)) = Some s' \<and> finished s'"
  using mp_finish [OF assms(2) conjunct1 conjunct2 refl] mp_play [OF assms] assms(3)
  by (fastforce simp: play_append)

theorem mp_never_stuck_witness:
  "\<exists>more s'. play must_order ([(False, 0), (False, 0)] @ more) (threads (mp_writer 2 1) (mp_reader 2 1)) = Some s' \<and> finished s'"
proof -
  have "\<exists>s. play must_order [(False, 0), (False, 0)] (threads (mp_writer 2 1) (mp_reader 2 1)) = Some s"
    by (simp add: fire_def threads_def mp_writer_def mp_reader_def mp_write_round_def mp_read_round_def ready_def)
  with mp_never_stuck [OF armv8_weakest, of 2 "[(False, 0), (False, 0)]" 1] show ?thesis by blast
qed

end
