(* ===== verification/Runs.thy ===== *)
theory Runs
  imports Prelude
begin

section \<open>Interface: a system of steps, its invariant, and how it winds down\<close>

text \<open>
  The modules with several threads are step relations. What is proved about them has two
  shapes: an invariant of the start states that every step keeps, and the promise that from
  every reachable state some steps lead to the end. The locales hold the inductions.
\<close>

locale kept_by_steps =
  fixes start :: "'s \<Rightarrow> bool" and step :: "'s \<Rightarrow> 's \<Rightarrow> bool" and inv :: "'s \<Rightarrow> bool"
  assumes inv_start: "start s \<Longrightarrow> inv s"
    and inv_step: "inv s \<Longrightarrow> step s t \<Longrightarrow> inv t"
begin

lemma inv_steps: "step\<^sup>*\<^sup>* s t \<Longrightarrow> inv s \<Longrightarrow> inv t"
  by (induction rule: rtranclp_induct) (auto intro: inv_step)

lemma inv_reach: "start s \<Longrightarrow> step\<^sup>*\<^sup>* s t \<Longrightarrow> inv t"
  using inv_start inv_steps by blast

end

text \<open>A rank that some step lowers as long as the end is not reached.\<close>

locale winding_down = kept_by_steps +
  fixes over :: "'s \<Rightarrow> bool" and rank :: "'s \<Rightarrow> nat"
  assumes lower: "inv s \<Longrightarrow> \<not> over s \<Longrightarrow> \<exists>t. step s t \<and> rank t < rank s"
begin

lemma winds_down: "inv s \<Longrightarrow> \<exists>t. step\<^sup>*\<^sup>* s t \<and> over t \<and> inv t"
proof (induction s rule: measure_induct_rule [of rank])
  case (less s)
  show ?case
  proof (cases "over s")
    case False
    then obtain t where t: "step s t" "rank t < rank s" using lower less.prems by blast
    with less obtain u where "step\<^sup>*\<^sup>* t u" "over u" "inv u" using inv_step by blast
    with t(1) show ?thesis by (meson converse_rtranclp_into_rtranclp)
  qed (use less.prems in blast)
qed

lemma reach_over: "start s \<Longrightarrow> step\<^sup>*\<^sup>* s t \<Longrightarrow> \<exists>u. step\<^sup>*\<^sup>* t u \<and> over u \<and> inv u"
  using inv_reach winds_down by blast

end

text \<open>
  A system that is followed, state by state, by one with the finitely many states \<open>seen\<close>: being
  related to one of them is an invariant.
\<close>

locale finitely_followed =
  fixes start :: "'s \<Rightarrow> bool" and step :: "'s \<Rightarrow> 's \<Rightarrow> bool" and rel :: "'a \<Rightarrow> 's \<Rightarrow> bool" and seen :: "'a list"
  assumes rel_start: "start s \<Longrightarrow> \<exists>a\<in>set seen. rel a s"
    and rel_step: "a \<in> set seen \<Longrightarrow> rel a s \<Longrightarrow> step s t \<Longrightarrow> \<exists>b\<in>set seen. rel b t"

sublocale finitely_followed \<subseteq> kept_by_steps start step "\<lambda>s. \<exists>a\<in>set seen. rel a s"
  by unfold_locales (use rel_start rel_step in blast)+

context finitely_followed
begin

lemma followed: "start s \<Longrightarrow> step\<^sup>*\<^sup>* s t \<Longrightarrow> \<exists>a\<in>set seen. rel a t"
  by (rule inv_reach)

end

text \<open>The states are found by a search, which has found them all when its result is closed.\<close>

fun explore :: "('a \<Rightarrow> 'a list) \<Rightarrow> nat \<Rightarrow> 'a list \<Rightarrow> 'a list \<Rightarrow> 'a list" where
  "explore f 0 fr seen = seen"
| "explore f (Suc n) [] seen = seen"
| "explore f (Suc n) (a # fr) seen =
     (let new = filter (\<lambda>b. \<not> List.member seen b) (remdups (f a)) in explore f n (fr @ new) (seen @ new))"

definition closed_under :: "('a \<Rightarrow> 'a list) \<Rightarrow> 'a list \<Rightarrow> bool" where
  "closed_under f seen \<longleftrightarrow> list_all (\<lambda>a. list_all (List.member seen) (f a)) seen"

lemma explore_seen: "set seen \<subseteq> set (explore f n fr seen)"
  by (induction f n fr seen rule: explore.induct) (auto simp: Let_def)

lemma closed_underD: "closed_under f seen \<Longrightarrow> a \<in> set seen \<Longrightarrow> b \<in> set (f a) \<Longrightarrow> b \<in> set seen"
  by (auto simp: closed_under_def list_all_iff)

text \<open>Steps given by a partial function of an event, and lists of them.\<close>

fun run_events :: "('e \<Rightarrow> 's \<Rightarrow> 's option) \<Rightarrow> 'e list \<Rightarrow> 's \<Rightarrow> 's option" where
  "run_events f [] s = Some s"
| "run_events f (e # es) s = Option.bind (f e s) (run_events f es)"

definition by_event :: "('e \<Rightarrow> 's \<Rightarrow> 's option) \<Rightarrow> 's \<Rightarrow> 's \<Rightarrow> bool" where
  "by_event f s t \<longleftrightarrow> (\<exists>e. f e s = Some t)"

lemma run_events_steps: "(\<exists>es. run_events f es s = Some t) \<longleftrightarrow> (by_event f)\<^sup>*\<^sup>* s t"
proof
  assume "\<exists>es. run_events f es s = Some t"
  then obtain es where "run_events f es s = Some t" ..
  then show "(by_event f)\<^sup>*\<^sup>* s t"
  proof (induction es arbitrary: s)
    case (Cons e es)
    then obtain u where "f e s = Some u" "(by_event f)\<^sup>*\<^sup>* u t" by (auto simp: bind_eq_Some_conv)
    then show ?case by (meson by_event_def converse_rtranclp_into_rtranclp)
  qed simp
next
  assume "(by_event f)\<^sup>*\<^sup>* s t"
  then show "\<exists>es. run_events f es s = Some t"
  proof (induction rule: converse_rtranclp_induct)
    case base
    show ?case by (rule exI [of _ "[]"]) simp
  next
    case (step s u)
    then obtain e es where "f e s = Some u" "run_events f es u = Some t" by (auto simp: by_event_def)
    then show ?case by (intro exI [of _ "e # es"]) simp
  qed
qed

lemma run_events_append:
  "run_events f (es @ es') s = Option.bind (run_events f es s) (run_events f es')"
proof (induction es arbitrary: s)
  case (Cons e es)
  then show ?case by (cases "f e s") simp_all
qed simp

end
