(* ===== verification/Rcu_Demo.thy ===== *)
theory Rcu_Demo
  imports Runs
begin

section \<open>rcu\_demo.c: readers, a writer and grace periods\<close>

text \<open>
  The module's first mode runs a reader and a writer thread over one published structure. The
  reader enters a read-side section, follows the published pointer and prints; the writer
  copies the structure, changes the copy, publishes it and hands the old one to \<open>call_rcu\<close>; a
  callback frees it later. Objects live at addresses; \<open>foos\<close> holds the field \<open>a\<close> of those
  allocated. Following a pointer to memory that is not allocated sets \<open>crashed\<close>.

  When a callback may run is RCU's business, so it is a parameter \<open>over\<close> of the step relation.
  What RCU documents, \<open>rcu_documented\<close>, is that every read-side section that had begun when
  \<open>call_rcu\<close> was called has ended. A pending callback therefore records whether the reader was
  in a section at that time; leaving the section clears the mark.
\<close>

type_synonym addr = nat

datatype reader_pc =
    R_Loop \<comment> \<open>at the loop test\<close>
  | R_In "addr option" \<comment> \<open>in the section, with the pointer it read\<close>
  | R_Out \<comment> \<open>in the section, after the print\<close>
  | R_Done

datatype writer_pc =
    W_Loop
  | W_Ready addr addr \<comment> \<open>the new copy and the old object\<close>
  | W_Published addr \<comment> \<open>the old object\<close>
  | W_Done

record rcu =
  rounds :: int
  foos :: "addr \<Rightarrow> int option"
  g_ptr :: "addr option"
  pending :: "(addr \<times> bool) list" \<comment> \<open>callbacks; whether an earlier section is still open\<close>
  r_pc :: reader_pc
  r_i :: int
  w_pc :: writer_pc
  w_i :: int
  w_value :: int
  done_cnt :: nat
  nr_freed :: nat
  crashed :: bool
  out :: "line list"

definition emit :: "line list \<Rightarrow> rcu \<Rightarrow> rcu" where
  "emit ls s = s\<lparr>out := out s @ ls\<rparr>"

definition is_in_section :: "rcu \<Rightarrow> bool" where
  "is_in_section s \<longleftrightarrow> (case r_pc s of R_In p \<Rightarrow> True | R_Out \<Rightarrow> True | _ \<Rightarrow> False)"

text \<open>
  What a thread reads through a pointer; \<open>sees\<close> is the reader's line, on which CPU it runs is
  not modelled.
\<close>

definition deref :: "addr \<Rightarrow> (int \<Rightarrow> rcu \<Rightarrow> rcu) \<Rightarrow> rcu \<Rightarrow> rcu" where
  "deref p k s = (case foos s p of None \<Rightarrow> s\<lparr>crashed := True\<rparr> | Some a \<Rightarrow> k a s)"

definition sees :: "int \<Rightarrow> line" where "sees a = (''  [reader ] a = %d'', [I a])"

subsection \<open>The threads\<close>

definition reader_loop :: "rcu \<Rightarrow> rcu" where
  "reader_loop s =
     (if r_i s < 2 * rounds s then s\<lparr>r_i := r_i s + 1, r_pc := R_In (g_ptr s)\<rparr>
      else s\<lparr>r_i := r_i s + 1, r_pc := R_Done, done_cnt := done_cnt s + 1\<rparr>)"

definition reader_print :: "addr option \<Rightarrow> rcu \<Rightarrow> rcu" where
  "reader_print p s = (case p of None \<Rightarrow> s | Some x \<Rightarrow> deref x (\<lambda>a. emit [sees a]) s)\<lparr>r_pc := R_Out\<rparr>"

definition reader_unlock :: "rcu \<Rightarrow> rcu" where
  "reader_unlock s = s\<lparr>r_pc := R_Loop, pending := map (\<lambda>(a, _). (a, False)) (pending s)\<rparr>"

text \<open>\<open>got\<close>: what \<open>kmalloc\<close> returned, some address that was not allocated or nothing.\<close>

definition writer_alloc :: "addr option \<Rightarrow> rcu \<Rightarrow> rcu" where
  "writer_alloc got s =
     (if w_i s < rounds s
      then (case got of
          None \<Rightarrow> s\<lparr>w_i := w_i s + 1, w_pc := W_Done, done_cnt := done_cnt s + 1\<rparr>
        | Some n \<Rightarrow> (case g_ptr s of
            None \<Rightarrow> s\<lparr>crashed := True\<rparr>
          | Some q \<Rightarrow> deref q (\<lambda>a s. emit [(''  [writer ] a %d -> %d'', [I a, I (w_value s)])]
              (s\<lparr>w_i := w_i s + 1, foos := (foos s)(n \<mapsto> w_value s), w_pc := W_Ready n q\<rparr>)) s))
      else s\<lparr>w_i := w_i s + 1, w_pc := W_Done, done_cnt := done_cnt s + 1\<rparr>)"

definition writer_publish :: "addr \<Rightarrow> addr \<Rightarrow> rcu \<Rightarrow> rcu" where
  "writer_publish n q s = s\<lparr>g_ptr := Some n, w_pc := W_Published q\<rparr>"

definition writer_retire :: "addr \<Rightarrow> rcu \<Rightarrow> rcu" where
  "writer_retire q s =
     emit [(''  [writer ] rcu_assign_pointer(); call_rcu()'', [])]
       (s\<lparr>pending := pending s @ [(q, is_in_section s)], w_value := w_value s + 1, w_pc := W_Loop\<rparr>)"

definition myrcu_del :: "addr \<Rightarrow> rcu \<Rightarrow> rcu" where
  "myrcu_del q s = deref q (\<lambda>a s. (emit [(''  [callback] a=%d'', [I a])] s)
       \<lparr>nr_freed := nr_freed s + 1, foos := (foos s)(q := None)\<rparr>) s"

text \<open>A callback: the oldest one RCU lets run.\<close>

definition run_callback :: "nat \<Rightarrow> rcu \<Rightarrow> rcu" where
  "run_callback i s = myrcu_del (fst (pending s ! i)) (s\<lparr>pending := take i (pending s) @ drop (Suc i) (pending s)\<rparr>)"

inductive rcu_step :: "(rcu \<Rightarrow> nat \<Rightarrow> bool) \<Rightarrow> rcu \<Rightarrow> rcu \<Rightarrow> bool" for over where
  Reader_Loop: "r_pc s = R_Loop \<Longrightarrow> rcu_step over s (reader_loop s)"
| Reader_Print: "r_pc s = R_In p \<Longrightarrow> rcu_step over s (reader_print p s)"
| Reader_Unlock: "r_pc s = R_Out \<Longrightarrow> rcu_step over s (reader_unlock s)"
| Writer_Alloc: "w_pc s = W_Loop \<Longrightarrow> (\<forall>n. got = Some n \<longrightarrow> foos s n = None) \<Longrightarrow> rcu_step over s (writer_alloc got s)"
| Writer_Publish: "w_pc s = W_Ready n q \<Longrightarrow> rcu_step over s (writer_publish n q s)"
| Writer_Retire: "w_pc s = W_Published q \<Longrightarrow> rcu_step over s (writer_retire q s)"
| Callback: "i < length (pending s) \<Longrightarrow> over s i \<Longrightarrow> rcu_step over s (run_callback i s)"

inductive_cases rcu_stepE: "rcu_step over s t"

definition rcu_documented :: "(rcu \<Rightarrow> nat \<Rightarrow> bool) \<Rightarrow> bool" where
  "rcu_documented over \<longleftrightarrow> (\<forall>s i. i < length (pending s) \<longrightarrow> over s i \<longrightarrow> \<not> snd (pending s ! i))"

text \<open>
  \<open>run_example\<close> before the threads start; \<open>made\<close>: the address from \<open>kzalloc\<close>, if any. A thread
  that \<open>kthread_run\<close> could not create never runs: nothing looks at its result.
\<close>

definition run_example :: "int \<Rightarrow> addr option \<Rightarrow> bool \<Rightarrow> bool \<Rightarrow> rcu" where
  "run_example n made reader writer =
     \<lparr>rounds = n, foos = (case made of None \<Rightarrow> (\<lambda>_. None) | Some p \<Rightarrow> [p \<mapsto> 0]), g_ptr = made, pending = [],
      r_pc = (if made \<noteq> None \<and> reader then R_Loop else R_Done), r_i = 0,
      w_pc = (if made \<noteq> None \<and> writer then W_Loop else W_Done), w_i = 0, w_value = 5,
      done_cnt = 0, nr_freed = 0, crashed = False, out = []\<rparr>"

text \<open>The wait at the end of \<open>run_example\<close> is over when both threads have counted themselves.\<close>

definition example_over :: "rcu \<Rightarrow> bool" where
  "example_over s \<longleftrightarrow> 2 \<le> done_cnt s"

definition example_report :: "rcu \<Rightarrow> rcu" where
  "example_report s = emit [(''  %d'', [I (int (nr_freed s))])] s"

text \<open>
  \<open>cleanup_example\<close>, called when the module is unloaded: unpublish, wait, free, and let the
  remaining callbacks run (\<open>rcu_barrier\<close>).
\<close>

definition kfree_foo :: "addr option \<Rightarrow> rcu \<Rightarrow> rcu" where
  "kfree_foo p s = (case p of None \<Rightarrow> s | Some q \<Rightarrow> s\<lparr>foos := (foos s)(q := None)\<rparr>)"

definition rcu_barrier :: "rcu \<Rightarrow> rcu" where
  "rcu_barrier s = (fold (\<lambda>(q, _). myrcu_del q) (pending s) s)\<lparr>pending := []\<rparr>"

definition cleanup_example :: "rcu \<Rightarrow> rcu" where
  "cleanup_example s = rcu_barrier (kfree_foo (g_ptr s) (s\<lparr>g_ptr := None\<rparr>))"

definition rcu_demo_exit :: "int \<Rightarrow> rcu \<Rightarrow> rcu" where
  "rcu_demo_exit mode s = emit [(''bye'', [])] (rcu_barrier (if mode = 0 then cleanup_example s else s))"

subsection \<open>Timing\<close>

text \<open>
  \<open>run_timing\<close>: ten measured waits of each kind, given as nanoseconds; then the delays of a
  callback and of a barrier.
\<close>

definition timing_step :: "u64 \<Rightarrow> u64 \<times> u64 \<times> u64 \<Rightarrow> u64 \<times> u64 \<times> u64" where
  "timing_step d = (\<lambda>(tot, mn, mx). (tot + d, if d < mn then d else mn, if mx < d then d else mx))"

definition timing :: "u64 list \<Rightarrow> u64 \<times> u64 \<times> u64" where
  "timing ds = fold timing_step ds (0, - 1, 0)"

definition timing_line :: "u64 list \<Rightarrow> line" where
  "timing_line ds = (case timing ds of (tot, mn, mx) \<Rightarrow>
     (''      %llu us %llu us %llu us'', [U (tot div 10 div 1000), U (mn div 1000), U (mx div 1000)]))"

definition run_timing :: "u64 list \<Rightarrow> u64 list \<Rightarrow> u64 \<Rightarrow> u64 \<Rightarrow> int \<Rightarrow> line list" where
  "run_timing sync exped cb_lat barrier hz =
     [(''  (a) synchronize_rcu()'', [])]
     @ map (\<lambda>(i, d). (''      %2d: %6llu us'', [I (int i + 1), U (d div 1000)])) (enumerate 0 (take 10 sync))
     @ [timing_line (take 10 sync), (''  (b) synchronize_rcu_expedited()'', []), timing_line (take 10 exped),
        (''  (c) call_rcu()'', []), (''      call_rcu() = %llu us'', [U (cb_lat div 1000)]),
        (''  (d) rcu_barrier()'', []), (''      rcu_barrier() %llu us'', [U (barrier div 1000)]),
        (''    HZ=%d %d ms'', [I hz, I (1000 div hz)])]"

subsection \<open>A type-safe slab\<close>

text \<open>
  \<open>run_typesafe\<close>: the cache's \<open>alloc\<close> hands out an address or nothing; the slab's memory stays
  readable after a free. \<open>keys\<close> is the \<open>key\<close> field by address.
\<close>

definition run_typesafe :: "bool \<Rightarrow> addr option \<Rightarrow> addr option \<Rightarrow> (addr \<Rightarrow> u64) \<Rightarrow> line list \<times> (addr \<Rightarrow> u64)" where
  "run_typesafe cache a b keys =
     (if \<not> cache then ([(''  slab cache'', [])], keys)
      else case a of
        None \<Rightarrow> ([], keys)
      | Some a \<Rightarrow>
          let k1 = keys(a := 0xdeadbeef);
              pre = [(''  a = %px  key = 0x%lx  refcount = %d'', [U (of_nat a), U (k1 a), I 1]),
                     (''  kmem_cache_free(a)'', []), (''  a->key = 0x%lx'', [U (k1 a)]),
                     (''  b = %px  %s'', [U (case b of None \<Rightarrow> 0 | Some b \<Rightarrow> of_nat b), S (if b = Some a then ''same'' else ''other'')])]
          in case b of
            None \<Rightarrow> (pre, k1)
          | Some b \<Rightarrow> let k2 = k1(b := 0x12345678)
              in (pre @ [(''    b->key = 0x%lx a->key = 0x%lx'', [U (k2 b), U (k2 a)])], k2))"

subsection \<open>A stall\<close>

text \<open>The busy wait of \<open>stall_thread\<close>: the number of \<open>mdelay(100)\<close> calls.\<close>

function stall_delays :: "int \<Rightarrow> nat" where
  "stall_delays left = (if 0 < left then Suc (stall_delays (left - 100)) else 0)"
  by auto
termination by (relation "measure nat") auto

definition stall_thread :: "int \<Rightarrow> line list \<times> nat" where
  "stall_thread ms = ([(''  [stall] mdelay(%d)'', [I ms]), (''  [stall]'', [])], stall_delays ms)"

definition run_stall :: "bool \<Rightarrow> int \<Rightarrow> line list \<times> nat" where
  "run_stall made ms = (if made then stall_thread ms else ([], 0))"

section \<open>Lemmas\<close>

lemma rcu_emit_simps [simp]:
  "foos (emit ls s) = foos s" "g_ptr (emit ls s) = g_ptr s" "pending (emit ls s) = pending s" "r_pc (emit ls s) = r_pc s"
  "w_pc (emit ls s) = w_pc s" "w_value (emit ls s) = w_value s" "done_cnt (emit ls s) = done_cnt s"
  "nr_freed (emit ls s) = nr_freed s" "crashed (emit ls s) = crashed s" "out (emit ls s) = out s @ ls"
  "rounds (emit ls s) = rounds s" "r_i (emit ls s) = r_i s" "w_i (emit ls s) = w_i s"
  by (simp_all add: emit_def)

text \<open>
  What is allocated: the published object, the one in the writer's hands, and those whose
  callback is pending. The reader's pointer is one that its own section keeps alive.
\<close>

definition in_hand :: "rcu \<Rightarrow> addr list" where
  "in_hand s = (case w_pc s of W_Ready n q \<Rightarrow> [n] | W_Published q \<Rightarrow> [q] | _ \<Rightarrow> [])"

definition objects :: "rcu \<Rightarrow> addr \<Rightarrow> addr list" where
  "objects s g = g # in_hand s @ map fst (pending s)"

definition kept :: "rcu \<Rightarrow> addr \<Rightarrow> bool" where
  "kept s x \<longleftrightarrow> g_ptr s = Some x \<or> w_pc s = W_Published x \<or> (x, True) \<in> set (pending s)"

definition rcu_ok :: "rcu \<Rightarrow> bool" where
  "rcu_ok s \<longleftrightarrow> \<not> crashed s \<and>
     (\<exists>g. g_ptr s = Some g \<and> distinct (objects s g) \<and> dom (foos s) = set (objects s g)) \<and>
     (\<forall>n q. w_pc s = W_Ready n q \<longrightarrow> g_ptr s = Some q) \<and>
     (\<forall>p. r_pc s = R_In p \<longrightarrow> (\<exists>x. p = Some x \<and> kept s x))"

lemma rcu_okE:
  assumes "rcu_ok s"
  obtains g where "\<not> crashed s" "g_ptr s = Some g" "distinct (objects s g)" "dom (foos s) = set (objects s g)"
  using assms by (auto simp: rcu_ok_def)

lemma kept_alive: "rcu_ok s \<Longrightarrow> kept s x \<Longrightarrow> \<exists>a. foos s x = Some a"
proof (erule rcu_okE)
  fix g assume k: "kept s x" and g: "g_ptr s = Some g" "dom (foos s) = set (objects s g)"
  from k have "x \<in> set (objects s g)"
    using g(1) by (auto simp: kept_def objects_def in_hand_def intro: rev_image_eqI)
  then show ?thesis using g(2) by (metis domIff not_None_eq)
qed

lemma ok_reader_loop: "rcu_ok s \<Longrightarrow> r_pc s = R_Loop \<Longrightarrow> rcu_ok (reader_loop s)"
  by (auto simp: rcu_ok_def reader_loop_def objects_def in_hand_def kept_def)

lemma ok_reader_print:
  assumes "rcu_ok s" "r_pc s = R_In p"
  shows "rcu_ok (reader_print p s)"
proof -
  obtain x where "p = Some x" "kept s x" using assms by (auto simp: rcu_ok_def)
  moreover then obtain a where "foos s x = Some a" using kept_alive assms(1) by blast
  ultimately show ?thesis
    using assms by (auto simp: rcu_ok_def reader_print_def deref_def objects_def in_hand_def)
qed

lemma ok_reader_unlock: "rcu_ok s \<Longrightarrow> rcu_ok (reader_unlock s)"
  by (auto simp: rcu_ok_def reader_unlock_def objects_def in_hand_def comp_def split_def)

lemma ok_writer_alloc:
  assumes "rcu_ok s" "w_pc s = W_Loop" "\<forall>n. got = Some n \<longrightarrow> foos s n = None"
  shows "rcu_ok (writer_alloc got s)"
proof -
  obtain g where g: "\<not> crashed s" "g_ptr s = Some g" "distinct (objects s g)" "dom (foos s) = set (objects s g)"
    using assms(1) by (rule rcu_okE)
  then have "g \<in> dom (foos s)" by (simp add: objects_def)
  then obtain a where a: "foos s g = Some a" by blast
  show ?thesis
  proof (cases got)
    case None
    with assms g show ?thesis by (auto simp: rcu_ok_def writer_alloc_def objects_def in_hand_def kept_def)
  next
    case (Some n)
    then have "n \<notin> set (objects s g)" using assms(3) g(4) by auto
    with Some assms g a show ?thesis
      by (auto simp: rcu_ok_def writer_alloc_def deref_def objects_def in_hand_def kept_def)
  qed
qed

lemma ok_writer_publish: "rcu_ok s \<Longrightarrow> w_pc s = W_Ready n q \<Longrightarrow> rcu_ok (writer_publish n q s)"
  by (auto simp: rcu_ok_def writer_publish_def objects_def in_hand_def kept_def image_iff)

lemma ok_writer_retire: "rcu_ok s \<Longrightarrow> w_pc s = W_Published q \<Longrightarrow> rcu_ok (writer_retire q s)"
  by (auto simp: rcu_ok_def writer_retire_def objects_def in_hand_def kept_def is_in_section_def)

lemma split_nth: "i < length xs \<Longrightarrow> xs = take i xs @ xs ! i # drop (Suc i) xs"
  by (rule id_take_nth_drop)

lemma ok_callback:
  assumes "rcu_ok s" "i < length (pending s)" "\<not> snd (pending s ! i)"
  shows "rcu_ok (run_callback i s)"
proof -
  obtain g where g: "\<not> crashed s" "g_ptr s = Some g" "distinct (objects s g)" "dom (foos s) = set (objects s g)"
    using assms(1) by (rule rcu_okE)
  obtain q where q: "pending s ! i = (q, False)" using assms(3) by (cases "pending s ! i") auto
  define xs ys where "xs = take i (pending s)" and "ys = drop (Suc i) (pending s)"
  with q split_nth [OF assms(2)] have p: "pending s = xs @ (q, False) # ys" "take i (pending s) = xs" "drop (Suc i) (pending s) = ys"
      "pending s ! i = (q, False)" by metis+
  have "q \<in> dom (foos s)" using g(4) p(1) by (simp add: objects_def)
  then obtain a where "foos s q = Some a" by blast
  with assms(1) g p show ?thesis
    by (auto simp: rcu_ok_def run_callback_def myrcu_del_def deref_def objects_def in_hand_def kept_def)
qed

lemma ok_step: "rcu_documented over \<Longrightarrow> rcu_step over s t \<Longrightarrow> rcu_ok s \<Longrightarrow> rcu_ok t"
  by (erule rcu_stepE)
    (auto simp: rcu_documented_def intro: ok_reader_loop ok_reader_print ok_reader_unlock ok_writer_alloc ok_writer_publish
      ok_writer_retire ok_callback)

lemma ok_start: "rcu_ok (run_example n (Some p) r w)"
  by (auto simp: rcu_ok_def run_example_def objects_def in_hand_def)

interpretation rcu: kept_by_steps "\<lambda>s. rcu_documented over \<and> (\<exists>n p r w. s = run_example n (Some p) r w)" "rcu_step over"
    "\<lambda>s. rcu_documented over \<and> rcu_ok s" for over
  by unfold_locales (auto intro: ok_start ok_step)

lemma ok_reach:
  assumes "rcu_documented over" "(rcu_step over)\<^sup>*\<^sup>* (run_example n (Some p) r w) s"
  shows "rcu_ok s"
  using rcu.inv_reach [OF _ assms(2)] assms(1) by blast

text \<open>
  C12: No thread touches freed memory: whenever RCU keeps its promise, in every interleaving of
  the reader, the writer and the callbacks, whatever \<open>kmalloc\<close> returns, no step follows a
  pointer to memory that is not allocated; and nothing is lost: every allocated object is
  published, in the writer's hands or waiting for its callback.
\<close>

theorem rcu_never_uses_freed:
  assumes "rcu_documented over" "(rcu_step over)\<^sup>*\<^sup>* (run_example n (Some p) reader writer) s"
  shows "\<not> crashed s \<and> (\<exists>g. g_ptr s = Some g \<and> dom (foos s) = set (g # in_hand s @ map fst (pending s)))"
  using ok_reach [OF assms] by (auto simp: rcu_ok_def objects_def)

definition rcu_after :: "rcu \<Rightarrow> nat \<Rightarrow> bool" where
  "rcu_after s i \<longleftrightarrow> \<not> snd (pending s ! i)"

lemma rcu_after_documented: "rcu_documented rcu_after"
  by (simp add: rcu_documented_def rcu_after_def)

text \<open>The reader enters its section, then the writer makes one update; the callback must wait.\<close>

definition rcu_sample :: rcu where
  "rcu_sample = writer_retire 100 (writer_publish 200 100 (writer_alloc (Some 200)
     (reader_loop (run_example 5 (Some 100) True True))))"

lemma rcu_sample_reach: "(rcu_step rcu_after)\<^sup>*\<^sup>* (run_example 5 (Some 100) True True) rcu_sample"
proof -
  let ?s0 = "run_example 5 (Some 100) True True"
  let ?s1 = "reader_loop ?s0" let ?s2 = "writer_alloc (Some 200) ?s1" let ?s3 = "writer_publish 200 100 ?s2"
  have 1: "rcu_step rcu_after ?s0 ?s1" by (rule Reader_Loop) (simp add: run_example_def)
  have 2: "rcu_step rcu_after ?s1 ?s2" by (rule Writer_Alloc) (auto simp: run_example_def reader_loop_def)
  have 3: "rcu_step rcu_after ?s2 ?s3"
    by (rule Writer_Publish) (simp add: run_example_def reader_loop_def writer_alloc_def deref_def)
  have 4: "rcu_step rcu_after ?s3 rcu_sample"
    unfolding rcu_sample_def
    by (rule Writer_Retire) (simp add: run_example_def reader_loop_def writer_alloc_def deref_def writer_publish_def)
  show ?thesis
    by (rule converse_rtranclp_into_rtranclp, rule 1, rule converse_rtranclp_into_rtranclp, rule 2,
        rule converse_rtranclp_into_rtranclp, rule 3, rule r_into_rtranclp, rule 4)
qed

theorem rcu_never_uses_freed_witness:
  "\<not> crashed rcu_sample \<and> pending rcu_sample = [(100, True)]"
  using rcu_never_uses_freed [OF rcu_after_documented rcu_sample_reach]
  by (simp add: rcu_sample_def run_example_def reader_loop_def writer_alloc_def deref_def writer_publish_def
      writer_retire_def is_in_section_def)

subsection \<open>Unloading\<close>

text \<open>The threads still to count themselves, and the updates made so far.\<close>

definition to_count :: "rcu \<Rightarrow> nat" where
  "to_count s = done_cnt s + of_bool (r_pc s \<noteq> R_Done) + of_bool (w_pc s \<noteq> W_Done)"

definition freed_ok :: "rcu \<Rightarrow> bool" where
  "freed_ok s \<longleftrightarrow> int (nr_freed s) + int (length (pending s)) = w_value s - 5"

lemmas rcu_defs = reader_loop_def reader_print_def reader_unlock_def writer_alloc_def writer_publish_def writer_retire_def
  run_callback_def myrcu_del_def deref_def

lemma step_to_count: "rcu_step over s t \<Longrightarrow> to_count t = to_count s"
  by (erule rcu_stepE) (auto simp: rcu_defs to_count_def split: option.splits)

lemma step_freed:
  assumes "rcu_documented over" "rcu_step over s t" "rcu_ok s" "freed_ok s"
  shows "freed_ok t"
  using ok_step [OF assms(1,2,3)] assms(2-4)
  by (elim rcu_stepE) (auto simp: rcu_defs freed_ok_def rcu_ok_def split: option.splits)

lemma freed_reach:
  assumes "rcu_documented over" "(rcu_step over)\<^sup>*\<^sup>* (run_example n (Some p) r w) s"
  shows "freed_ok s"
  using assms(2)
proof (induction rule: rtranclp_induct)
  case base
  show ?case by (simp add: freed_ok_def run_example_def)
next
  case (step t u)
  then show ?case using step_freed [OF assms(1)] ok_reach [OF assms(1)] by blast
qed

lemma to_count_reach: "(rcu_step over)\<^sup>*\<^sup>* s t \<Longrightarrow> to_count t = to_count s"
  by (induction rule: rtranclp_induct) (simp_all add: step_to_count)

lemma barrier_drains:
  assumes "distinct (map fst ps)" "fst ` set ps \<subseteq> dom (foos s)"
  shows "foos (fold (\<lambda>(q, _). myrcu_del q) ps s) = foos s |` (- fst ` set ps) \<and>
    crashed (fold (\<lambda>(q, _). myrcu_del q) ps s) = crashed s \<and>
    nr_freed (fold (\<lambda>(q, _). myrcu_del q) ps s) = nr_freed s + length ps"
  using assms
proof (induction ps arbitrary: s)
  case (Cons e ps)
  obtain q b where e: "e = (q, b)" by (cases e)
  obtain a where a: "foos s q = Some a" using Cons.prems e by auto
  let ?s = "myrcu_del q s"
  have d: "foos ?s = (foos s)(q := None)" "crashed ?s = crashed s" "nr_freed ?s = nr_freed s + 1"
    using a by (simp_all add: myrcu_del_def deref_def)
  have "fst ` set ps \<subseteq> dom (foos ?s)" using Cons.prems e d by auto
  moreover have "distinct (map fst ps)" using Cons.prems by simp
  moreover have r: "foos ?s |` (- fst ` set ps) = foos s |` (- insert q (fst ` set ps))"
    unfolding d(1) by (auto simp: restrict_map_def)
  ultimately have "foos (fold (\<lambda>(q, _). myrcu_del q) ps ?s) = foos ?s |` (- fst ` set ps) \<and>
      crashed (fold (\<lambda>(q, _). myrcu_del q) ps ?s) = crashed ?s \<and> nr_freed (fold (\<lambda>(q, _). myrcu_del q) ps ?s) = nr_freed ?s + length ps"
    using Cons.IH by blast
  then show ?case unfolding r d(2,3) by (simp add: e)
qed (simp add: restrict_map_def)

text \<open>
  C13: Unloading the module frees everything exactly once: after the example is over, whatever
  callbacks are still pending, the cleanup leaves no object allocated, follows no dangling
  pointer, and the callbacks have freed as many objects as the writer replaced.
\<close>

theorem rcu_unload_frees_all:
  assumes "rcu_documented over" "(rcu_step over)\<^sup>*\<^sup>* (run_example n (Some p) True True) s" "example_over s"
  shows "let t = cleanup_example s in foos t = Map.empty \<and> \<not> crashed t \<and> pending t = [] \<and> int (nr_freed t) = w_value s - 5"
proof -
  have ok: "rcu_ok s" using ok_reach [OF assms(1,2)] .
  have "to_count s = 2" using to_count_reach [OF assms(2)] by (simp add: to_count_def run_example_def)
  with assms(3) have "w_pc s = W_Done"
    by (cases "r_pc s = R_Done"; cases "w_pc s = W_Done"; simp add: to_count_def example_over_def)
  then have h: "in_hand s = []" by (simp add: in_hand_def)
  obtain g where g: "\<not> crashed s" "g_ptr s = Some g" "distinct (objects s g)" "dom (foos s) = set (objects s g)"
    using ok by (rule rcu_okE)
  let ?s = "kfree_foo (g_ptr s) (s\<lparr>g_ptr := None\<rparr>)"
  have k: "pending ?s = pending s" "foos ?s = (foos s)(g := None)" "crashed ?s = crashed s" "nr_freed ?s = nr_freed s"
    using g(2) by (simp_all add: kfree_foo_def)
  have "distinct (map fst (pending ?s))" "fst ` set (pending ?s) \<subseteq> dom (foos ?s)"
    using g(3,4) h k by (auto simp: objects_def)
  from barrier_drains [OF this] have b: "foos (cleanup_example s) = foos ?s |` (- fst ` set (pending s))"
      "crashed (cleanup_example s) = crashed s" "nr_freed (cleanup_example s) = nr_freed s + length (pending s)"
      "pending (cleanup_example s) = []"
    by (simp_all add: cleanup_example_def rcu_barrier_def k)
  have "foos (cleanup_example s) x = None" for x
  proof (cases "x \<in> dom (foos s)")
    case True
    with g(4) h k(2) show ?thesis unfolding b(1) by (auto simp: objects_def restrict_map_def)
  qed (use b(1) k(2) in \<open>auto simp: restrict_map_def\<close>)
  moreover have "freed_ok s" using freed_reach [OF assms(1,2)] .
  ultimately show ?thesis using b g(1) by (auto simp: freed_ok_def)
qed

text \<open>No rounds, and both threads leave at once.\<close>

definition rcu_idle :: rcu where
  "rcu_idle = writer_alloc None (reader_loop (run_example 0 (Some 100) True True))"

theorem rcu_unload_frees_all_witness: "foos (cleanup_example rcu_idle) = Map.empty \<and> example_over rcu_idle \<and> g_ptr rcu_idle = Some 100"
proof -
  let ?s0 = "run_example 0 (Some 100) True True"
  have "rcu_step rcu_after ?s0 (reader_loop ?s0)" by (rule Reader_Loop) (simp add: run_example_def)
  moreover have "rcu_step rcu_after (reader_loop ?s0) rcu_idle"
    unfolding rcu_idle_def by (rule Writer_Alloc) (auto simp: run_example_def reader_loop_def)
  ultimately have r: "(rcu_step rcu_after)\<^sup>*\<^sup>* ?s0 rcu_idle" by (meson converse_rtranclp_into_rtranclp r_into_rtranclp)
  have e: "example_over rcu_idle" "g_ptr rcu_idle = Some 100"
    by (simp_all add: rcu_idle_def example_over_def writer_alloc_def reader_loop_def run_example_def)
  show ?thesis using rcu_unload_frees_all [OF rcu_after_documented r e(1)] e by (simp add: Let_def)
qed

text \<open>
  The load of the module can hang: \<open>run_example\<close> waits for both threads to count themselves
  and never looks at what \<open>kthread_run\<close> returned; if a thread could not be created, the wait
  is never over.
\<close>

theorem rcu_load_hangs:
  assumes "\<not> (reader \<and> writer)" "(rcu_step over)\<^sup>*\<^sup>* (run_example n (Some p) reader writer) s"
  shows "\<not> example_over s"
proof -
  have "to_count s \<le> 1" using to_count_reach [OF assms(2)] assms(1) by (auto simp: to_count_def run_example_def)
  then show ?thesis by (simp add: to_count_def example_over_def)
qed

theorem rcu_load_hangs_witness: "\<not> example_over (reader_loop (run_example 5 (Some 100) True False))"
proof (rule rcu_load_hangs)
  show "(rcu_step rcu_after)\<^sup>*\<^sup>* (run_example 5 (Some 100) True False) (reader_loop (run_example 5 (Some 100) True False))"
    by (rule r_into_rtranclp, rule Reader_Loop) (simp add: run_example_def)
qed simp


subsection \<open>What the reader sees\<close>

definition seen :: "rcu \<Rightarrow> int list" where
  "seen s = concat (map (\<lambda>l. case snd l of [I a] \<Rightarrow> [a] | _ \<Rightarrow> []) (filter (\<lambda>l. fst l = fst (sees 0)) (out s)))"

text \<open>
  The published value, what the reader has printed and what it holds, in order; a copy not yet
  published is newer than all of them.
\<close>

fun newer :: "writer_pc \<Rightarrow> (addr \<Rightarrow> int option) \<Rightarrow> int \<Rightarrow> int \<Rightarrow> bool" where
  "newer (W_Ready n q) f v a = (f n = Some v \<and> a < v)"
| "newer (W_Published q) f v a = (a = v)"
| "newer W_Loop f v a = (a < v)"
| "newer W_Done f v a = (a < v)"

definition forward_at :: "rcu \<Rightarrow> int \<Rightarrow> bool" where
  "forward_at s a \<longleftrightarrow> sorted (seen s) \<and> (\<forall>v\<in>set (seen s). v \<le> a) \<and> newer (w_pc s) (foos s) (w_value s) a \<and>
     (\<forall>x. r_pc s = R_In (Some x) \<longrightarrow> (\<exists>b. foos s x = Some b \<and> b \<le> a \<and> (\<forall>v\<in>set (seen s). v \<le> b)))"

definition forward :: "rcu \<Rightarrow> bool" where
  "forward s \<longleftrightarrow> (\<exists>g a. g_ptr s = Some g \<and> foos s g = Some a \<and> forward_at s a)"

lemma seen_out: "out t = out s \<Longrightarrow> seen t = seen s"
  by (simp add: seen_def)

lemma seen_emit:
  "seen (emit [sees a] s) = seen s @ [a]" "fst l \<noteq> fst (sees 0) \<Longrightarrow> seen (emit [l] s) = seen s"
  by (simp_all add: seen_def sees_def)

lemma forward_step:
  assumes "rcu_documented over" "rcu_step over s t" "rcu_ok s" "forward s"
  shows "forward t"
proof -
  obtain g a where g: "g_ptr s = Some g" "foos s g = Some a" and f: "forward_at s a"
    using assms(4) by (auto simp: forward_def)
  have new: "v \<le> a" if "v \<in> set (seen s)" for v using f that by (simp add: forward_at_def)
  from assms(2) show ?thesis
  proof cases
    case Reader_Loop
    then have "seen t = seen s" by (intro seen_out) (simp add: reader_loop_def)
    with Reader_Loop f g show ?thesis by (auto simp: forward_def forward_at_def reader_loop_def)
  next
    case (Reader_Print p)
    then obtain x where x: "p = Some x" using assms(3) by (auto simp: rcu_ok_def)
    with Reader_Print f obtain b where b: "foos s x = Some b" "b \<le> a" "\<forall>v\<in>set (seen s). v \<le> b"
      by (auto simp: forward_at_def)
    with x Reader_Print have t: "t = (emit [sees b] s)\<lparr>r_pc := R_Out\<rparr>" by (simp add: reader_print_def deref_def)
    have "seen t = seen s @ [b]" unfolding t by (subst seen_out [of _ "emit [sees b] s"]) (simp_all add: seen_emit)
    with t b f g show ?thesis by (auto simp: forward_def forward_at_def sorted_append)
  next
    case Reader_Unlock
    then have "seen t = seen s" by (intro seen_out) (simp add: reader_unlock_def)
    with Reader_Unlock f g show ?thesis by (auto simp: forward_def forward_at_def reader_unlock_def)
  next
    case (Writer_Alloc got)
    show ?thesis
    proof (cases "w_i s < rounds s \<and> got \<noteq> None")
      case True
      then obtain n where n: "got = Some n" by auto
      with Writer_Alloc have "foos s n = None" by simp
      moreover from n True Writer_Alloc g have t: "t = emit [(''  [writer ] a %d -> %d'', [I a, I (w_value s)])]
          (s\<lparr>w_i := w_i s + 1, foos := (foos s)(n \<mapsto> w_value s), w_pc := W_Ready n g\<rparr>)"
        by (simp add: writer_alloc_def deref_def)
      moreover have "seen t = seen s" unfolding t by (simp add: seen_def sees_def)
      ultimately show ?thesis using Writer_Alloc(2) f g unfolding forward_def forward_at_def
        by (intro exI [of _ g] exI [of _ a]) auto
    next
      case False
      with Writer_Alloc have t: "t = s\<lparr>w_i := w_i s + 1, w_pc := W_Done, done_cnt := done_cnt s + 1\<rparr>"
        by (auto simp: writer_alloc_def split: option.splits)
      then have "seen t = seen s" by (intro seen_out) simp
      with t Writer_Alloc(2) f g show ?thesis by (auto simp: forward_def forward_at_def)
    qed
  next
    case (Writer_Publish n q)
    have "seen t = seen s" using Writer_Publish by (intro seen_out) (simp add: writer_publish_def)
    moreover have "foos s n = Some (w_value s)" "a < w_value s" using f Writer_Publish by (simp_all add: forward_at_def)
    ultimately show ?thesis using Writer_Publish f
      unfolding forward_def forward_at_def by (intro exI [of _ n] exI [of _ "w_value s"]) (force simp: writer_publish_def)
  next
    case (Writer_Retire q)
    then have "seen t = seen s" by (simp add: writer_retire_def seen_def sees_def)
    with Writer_Retire f g show ?thesis by (auto simp: forward_def forward_at_def writer_retire_def)
  next
    case (Callback i)
    define q where "q = fst (pending s ! i)"
    have q: "q \<in> fst ` set (pending s)" "\<not> snd (pending s ! i)"
      using Callback assms(1) by (auto simp: q_def rcu_documented_def)
    have d: "distinct (objects s g)" "dom (foos s) = set (objects s g)" and k: "rcu_ok t"
      using assms(3) g ok_step [OF assms(1,2,3)] by (auto simp: rcu_ok_def)
    have "q \<in> dom (foos s)" unfolding d(2) using q(1) by (simp add: objects_def)
    then obtain c where "foos s q = Some c" by blast
    then have t: "foos t = (foos s)(q := None)" "out t = out s @ [(''  [callback] a=%d'', [I c])]" "g_ptr t = g_ptr s"
        "r_pc t = r_pc s" "w_pc t = w_pc s" "w_value t = w_value s"
      using Callback by (simp_all add: run_callback_def myrcu_del_def deref_def q_def)
    have "seen t = seen s" by (simp add: seen_def sees_def t)
    moreover have "q \<noteq> g" "q \<notin> set (in_hand s)" using d q by (auto simp: objects_def)
    moreover have "q \<noteq> x" if "r_pc s = R_In (Some x)" for x
      using kept_alive [OF k, of x] k that by (auto simp: rcu_ok_def t)
    ultimately show ?thesis using f g unfolding forward_def forward_at_def
      by (intro exI [of _ g] exI [of _ a]) (auto simp: t in_hand_def split: writer_pc.splits)
  qed
qed

text \<open>
  A reader never goes back in time: the values the reader prints, in any interleaving with
  the writer and the callbacks, never decrease.
\<close>

theorem rcu_readers_move_forward:
  assumes "rcu_documented over" "(rcu_step over)\<^sup>*\<^sup>* (run_example n (Some p) reader writer) s"
  shows "sorted (seen s)"
proof -
  have "forward s"
    using assms(2)
  proof (induction rule: rtranclp_induct)
    case base
    show ?case by (auto simp: forward_def forward_at_def run_example_def seen_def)
  next
    case (step t u)
    then show ?case using forward_step [OF assms(1)] ok_reach [OF assms(1)] by blast
  qed
  then show ?thesis by (auto simp: forward_def forward_at_def)
qed

theorem rcu_readers_move_forward_witness: "sorted (seen rcu_sample)"
  by (rule rcu_readers_move_forward [OF rcu_after_documented rcu_sample_reach])

section \<open>Timing and the stall\<close>

lemma stall_delays_ceiling: "0 \<le> ms \<Longrightarrow> ms \<le> 100 * int (stall_delays ms) \<and> 100 * int (stall_delays ms) < ms + 100"
proof (induction ms rule: stall_delays.induct)
  case (1 left)
  show ?case
  proof (cases "100 \<le> left")
    case True
    with 1 show ?thesis by (subst (1 2) stall_delays.simps) simp
  next
    case False
    with 1 show ?thesis
      by (subst (1 2) stall_delays.simps, subst (1 2) stall_delays.simps) auto
  qed
qed

end
