(* ===== verification/Dl_Lab.thy ===== *)
theory Dl_Lab
  imports Runs
begin

section \<open>dl\_lab.c: deadlocks that come undone\<close>

text \<open>
  The module makes deadlocks on purpose. In modes 2 and 3 two kernel threads take two mutexes
  in opposite orders; in mode 2 they really block, and a watchdog thread sends them SIGKILL
  after \<open>escape_ms\<close>; in mode 3 they poll with \<open>mutex_trylock\<close> and give up by themselves.
  Threads are named by a truth value: \<open>False\<close> is \<open>th_ab\<close>, \<open>True\<close> is \<open>th_ba\<close>. A move of a
  thread is one function below; the system is any sequence of moves that are possible.
\<close>

datatype mtx = Mutex_A | Mutex_B

record abba_arg =
  fst_lock :: mtx
  snd_lock :: mtx
  arg_name :: string
  try_only :: bool

datatype pc =
    Start
  | First \<comment> \<open>holds the first mutex\<close>
  | Waiting nat \<comment> \<open>for the second; tries that failed\<close>
  | Both nat
  | Leaving
  | Idle \<comment> \<open>waiting to be stopped\<close>

record dl =
  dl_mode :: int
  escape_ms :: int
  owner :: "mtx \<Rightarrow> bool option"
  pcs :: "bool \<Rightarrow> pc"
  killed :: "bool \<Rightarrow> bool"
  blocked :: int
  dog :: bool \<comment> \<open>the watchdog thread runs and has not fired\<close>
  dlog :: "line list"

definition mname :: "mtx \<Rightarrow> val" where
  "mname m = S (if m = Mutex_A then ''mutex_a'' else ''mutex_b'')"

definition dnote :: "line list \<Rightarrow> dl \<Rightarrow> dl" where
  "dnote ls s = s\<lparr>dlog := dlog s @ ls\<rparr>"

definition arg :: "dl \<Rightarrow> bool \<Rightarrow> abba_arg" where
  "arg s t = (if t then \<lparr>fst_lock = Mutex_B, snd_lock = Mutex_A, arg_name = ''B->A'', try_only = (dl_mode s = 3)\<rparr>
              else \<lparr>fst_lock = Mutex_A, snd_lock = Mutex_B, arg_name = ''A->B'', try_only = (dl_mode s = 3)\<rparr>)"

definition move :: "bool \<Rightarrow> pc \<Rightarrow> dl \<Rightarrow> dl" where
  "move t p s = s\<lparr>pcs := (pcs s)(t := p)\<rparr>"

definition own :: "mtx \<Rightarrow> bool option \<Rightarrow> dl \<Rightarrow> dl" where
  "own m x s = s\<lparr>owner := (owner s)(m := x)\<rparr>"

subsection \<open>One thread of the pair: \<open>abba_fn\<close>\<close>

definition abba_first :: "bool \<Rightarrow> dl \<Rightarrow> dl option" where
  "abba_first t s = (let a = arg s t in
     if pcs s t = Start \<and> owner s (fst_lock a) = None
     then Some (dnote [(''dl_lab: [%s] %s'', [S (arg_name a), mname (fst_lock a)])] (own (fst_lock a) (Some t) (move t First s)))
     else None)"

definition abba_want :: "bool \<Rightarrow> dl \<Rightarrow> dl option" where
  "abba_want t s = (let a = arg s t in
     if pcs s t = First
     then Some (dnote [(''dl_lab: [%s] %s'', [S (arg_name a), mname (snd_lock a)])] ((move t (Waiting 0) s)\<lparr>blocked := blocked s + 1\<rparr>))
     else None)"

text \<open>\<open>mutex_lock_interruptible\<close>: it gets the mutex, or returns \<open>-EINTR\<close> because of the signal.\<close>

definition abba_take :: "bool \<Rightarrow> int \<Rightarrow> dl \<Rightarrow> dl option" where
  "abba_take t ms s = (let a = arg s t in
     case pcs s t of
       Waiting n \<Rightarrow>
         if \<not> try_only a \<and> owner s (snd_lock a) = None
         then Some (dnote [(''dl_lab: [%s] ret=%d %lld ms %s'', [S (arg_name a), I 0, I ms, S []])] (own (snd_lock a) (Some t) (move t (Both n) s)))
         else None
     | _ \<Rightarrow> None)"

definition abba_escape :: "bool \<Rightarrow> int \<Rightarrow> dl \<Rightarrow> dl option" where
  "abba_escape t ms s = (let a = arg s t in
     case pcs s t of
       Waiting n \<Rightarrow>
         if \<not> try_only a \<and> killed s t
         then Some (dnote [(''dl_lab: [%s] ret=%d %lld ms %s'', [S (arg_name a), I (- 4), I ms, S ''SIGKILL''])] (move t Leaving s))
         else None
     | _ \<Rightarrow> None)"

text \<open>
  One round of the polling loop, \<open>us\<close> microseconds after it began; \<open>stop\<close>: \<open>kthread_should_stop\<close>.
\<close>

definition abba_try :: "bool \<Rightarrow> bool \<Rightarrow> int \<Rightarrow> dl \<Rightarrow> dl option" where
  "abba_try t stop us s = (let a = arg s t; report = (\<lambda>n. (''dl_lab: [%s] trylock %d / %lld ms'', [S (arg_name a), I (int n), I (us div 1000)])) in
     case pcs s t of
       Waiting n \<Rightarrow>
         if \<not> try_only a then None
         else if \<not> stop \<and> us < escape_ms s * 1000
         then (if owner s (snd_lock a) = None
               then Some (dnote [(''dl_lab: [%s] trylock ok'', [S (arg_name a)]), report n] (own (snd_lock a) (Some t) (move t (Both n) s)))
               else Some (move t (Waiting (Suc n)) s))
         else Some (dnote [report n] (move t Leaving s))
     | _ \<Rightarrow> None)"

definition abba_drop :: "bool \<Rightarrow> dl \<Rightarrow> dl option" where
  "abba_drop t s = (case pcs s t of Both n \<Rightarrow> Some (own (snd_lock (arg s t)) None (move t Leaving s)) | _ \<Rightarrow> None)"

definition abba_leave :: "bool \<Rightarrow> dl \<Rightarrow> dl option" where
  "abba_leave t s = (if pcs s t = Leaving
     then Some (own (fst_lock (arg s t)) None ((move t Idle s)\<lparr>blocked := blocked s - 1\<rparr>)) else None)"

definition watchdog_fn :: "dl \<Rightarrow> dl option" where
  "watchdog_fn s = (if dog s
     then Some (dnote [(''dl_lab: [watchdog] %d ms SIGKILL'', [I (escape_ms s)])] (s\<lparr>killed := (\<lambda>_. True), dog := False\<rparr>)) else None)"

datatype mv =
    First_Lock bool | Want bool | Take bool int | Escape bool int | Try bool bool int | Drop bool | Leave bool | Watchdog

fun dl_move :: "mv \<Rightarrow> dl \<Rightarrow> dl option" where
  "dl_move (First_Lock t) s = abba_first t s"
| "dl_move (Want t) s = abba_want t s"
| "dl_move (Take t ms) s = abba_take t ms s"
| "dl_move (Escape t ms) s = abba_escape t ms s"
| "dl_move (Try t stop us) s = abba_try t stop us s"
| "dl_move (Drop t) s = abba_drop t s"
| "dl_move (Leave t) s = abba_leave t s"
| "dl_move Watchdog s = watchdog_fn s"

abbreviation dl_run :: "mv list \<Rightarrow> dl \<Rightarrow> dl option" where
  "dl_run \<equiv> run_events dl_move"

text \<open>
  \<open>dl_lab_init\<close> in modes 2 and 3; \<open>made\<close>: the watchdog thread could be created (nobody checks).
\<close>

definition abba_start :: "int \<Rightarrow> int \<Rightarrow> bool \<Rightarrow> dl" where
  "abba_start md esc made = \<lparr>dl_mode = md, escape_ms = esc, owner = (\<lambda>_. None), pcs = (\<lambda>_. Start), killed = (\<lambda>_. False),
     blocked = 0, dog = (md = 2 \<and> made), dlog = []\<rparr>"

subsection \<open>The other modes\<close>

text \<open>
  \<open>aa_spinlock_safe\<close>: the lock is held by the thread itself, so \<open>spin_trylock\<close> fails; one try
  for each time the loop finds the 500 ms not over (\<open>before\<close>). \<open>dbg\<close> is there with
  \<open>CONFIG_DEBUG_SPINLOCK\<close>: what the lock records and what the thread is.
\<close>

fun aa_tries :: "bool list \<Rightarrow> bool \<Rightarrow> nat \<Rightarrow> nat" where
  "aa_tries [] held n = n"
| "aa_tries (before # bs) held n = (if before then (if held then aa_tries bs held (Suc n) else Suc n) else n)"

record spin_debug =
  raw_owner :: u64
  cur_task :: u64
  owner_cpu :: int
  this_cpu :: int

definition aa_spinlock_safe :: "spin_debug option \<Rightarrow> bool list \<Rightarrow> line list" where
  "aa_spinlock_safe dbg before = (''dl_lab: [AA/spinlock] lock_s'', [])
     # (case dbg of None \<Rightarrow> [] | Some d \<Rightarrow>
         [(''dl_lab: raw_lock.owner=%px(current=%px) owner_cpu=%d(this=%d)'',
            [U (raw_owner d), U (cur_task d), I (owner_cpu d), I (this_cpu d)]),
          (''dl_lab: spinlock_debug.c debug_spin_lock_before() (owner==current, owner_cpu==this_cpu)'', []),
          (''dl_lab: BUG: spinlock recursion on CPU#%d arch_spin_lock()'', [I (this_cpu d)])])
     @ [(''dl_lab: [AA/spinlock] 500ms trylock %d'', [I (int (aa_tries before True 0))])]"

text \<open>
  \<open>aa_mutex_fn\<close>: \<open>ret\<close> and \<open>us\<close> are what the second, recursive lock returned and how long it
  took, \<open>pending\<close> and \<open>fatal\<close> the signal tests after it, \<open>cur\<close> the thread itself. The result has
  the number of unlocks that follow.
\<close>

definition aa_mutex_fn :: "int \<Rightarrow> int \<Rightarrow> u64 \<Rightarrow> int \<Rightarrow> int \<Rightarrow> u64 \<Rightarrow> line list \<times> nat" where
  "aa_mutex_fn ret us cur pending fatal raw =
     ([(''dl_lab: [AA/mutex] mutex_lock(&mutex_a) owner=%px'', [U cur]), (''dl_lab: [AA/mutex] TASK_KILLABLE'', []),
       (''dl_lab: [AA/mutex] ret=%d %lld us %s'', [I ret, I us, S (if ret \<noteq> 0 then ''SIGKILL'' else [])]),
       (''dl_lab: [AA/mutex] signal_pending=%d fatal=%d current=%px'', [I pending, I fatal, U cur]),
       (''dl_lab: [AA/mutex] mutex_a.owner = %#lx'', [U raw]), (''dl_lab: [AA/mutex] mutex.c:689'', [])],
      (if ret = 0 then 2 else 1))"

text \<open>
  \<open>book_worker\<close>: each round of its loop sees the mutex free or not and the milliseconds since
  it began. \<open>Inl ms\<close>: it gave up; \<open>Inr\<close>: it got the mutex.
\<close>

fun book_worker :: "int \<Rightarrow> (bool \<times> int) list \<Rightarrow> (int + unit) option" where
  "book_worker esc [] = None"
| "book_worker esc ((free, ms) # rs) =
     (if free then Some (Inr ()) else if esc < ms then Some (Inl ms) else book_worker esc rs)"

text \<open>
  \<open>book_thread\<close> holds \<open>mutex_a\<close> while \<open>cancel_delayed_work_sync\<close> waits for the worker, so no
  round of the worker sees it free; \<open>seen_ms\<close>: the milliseconds its rounds see, \<open>took\<close>: how long
  the cancel took. It returns only if the worker does.
\<close>

definition book_thread :: "int \<Rightarrow> int list \<Rightarrow> int \<Rightarrow> line list option" where
  "book_thread esc seen_ms took =
     (case book_worker esc (map (\<lambda>ms. (False, ms)) seen_ms) of
        None \<Rightarrow> None
      | Some r \<Rightarrow> Some ([(''dl_lab: [book_thread] mutex_a'', []), (''dl_lab: [worker] mutex_a'', []),
            (''dl_lab: [book_thread] cancel_delayed_work_sync()'', [])]
          @ (case r of Inl ms \<Rightarrow> [(''dl_lab: [worker] mutex_a %lld ms'', [I ms])] | Inr _ \<Rightarrow> [(''dl_lab: [worker] mutex_a ok'', [])])
          @ [(''dl_lab: [book_thread] cancel_delayed_work_sync() %lld ms'', [I took])]))"

text \<open>What \<open>dl_lab_init\<close> starts: \<open>made\<close> as above, \<open>before\<close> as for \<open>aa_spinlock_safe\<close>.\<close>

datatype started = Done_Spin "line list" | Run_Self_Mutex | Run_Pair dl | Run_Book

definition dl_lab_init :: "int \<Rightarrow> int \<Rightarrow> bool \<Rightarrow> spin_debug option \<Rightarrow> bool \<Rightarrow> bool list \<Rightarrow> bool \<Rightarrow> (int + started) \<times> line list" where
  "dl_lab_init md esc prove spin hung before made =
     (let yn = (\<lambda>b. S (if b then ''y'' else ''n'')) in
      (if md = 0 then Inr (Done_Spin (aa_spinlock_safe spin before))
       else if md = 1 then Inr Run_Self_Mutex
       else if md = 2 \<or> md = 3 then Inr (Run_Pair (abba_start md esc made))
       else if md = 4 then Inr Run_Book
       else Inl (- 22),
       [(''======== dl_lab mode=%d escape_ms=%d ========'', [I md, I esc]),
        (''dl_lab: CONFIG_PROVE_LOCKING=%s CONFIG_DEBUG_SPINLOCK=%s CONFIG_DETECT_HUNG_TASK=%s'', [yn prove, yn (spin \<noteq> None), yn hung])]))"


section \<open>Properties\<close>

text \<open>What a thread at each place of the code holds, and whether it is counted as blocked.\<close>

fun holds_first :: "pc \<Rightarrow> bool" where
  "holds_first Start = False" | "holds_first Idle = False" | "holds_first First = True" | "holds_first (Waiting n) = True"
| "holds_first (Both n) = True" | "holds_first Leaving = True"

fun holds_second :: "pc \<Rightarrow> bool" where
  "holds_second (Both n) = True" | "holds_second Start = False" | "holds_second Idle = False" | "holds_second First = False"
| "holds_second (Waiting n) = False" | "holds_second Leaving = False"

fun counted :: "pc \<Rightarrow> bool" where
  "counted (Waiting n) = True" | "counted (Both n) = True" | "counted Leaving = True" | "counted Start = False"
| "counted First = False" | "counted Idle = False"

lemma second_first: "holds_second p \<Longrightarrow> holds_first p"
  by (cases p) simp_all

text \<open>
  Every mutex is owned by exactly the thread whose place in the code says so, \<open>blocked\<close> counts
  the threads between taking the first mutex and leaving, and only mode 2 has a watchdog.
\<close>

definition dl_ok :: "dl \<Rightarrow> bool" where
  "dl_ok s \<longleftrightarrow> (owner s Mutex_A = Some False \<longleftrightarrow> holds_first (pcs s False)) \<and>
     (owner s Mutex_A = Some True \<longleftrightarrow> holds_second (pcs s True)) \<and>
     (owner s Mutex_B = Some True \<longleftrightarrow> holds_first (pcs s True)) \<and>
     (owner s Mutex_B = Some False \<longleftrightarrow> holds_second (pcs s False)) \<and>
     blocked s = of_bool (counted (pcs s False)) + of_bool (counted (pcs s True))"

lemma frame [simp]:
  "owner (dnote ls s) = owner s" "pcs (dnote ls s) = pcs s" "dl_mode (dnote ls s) = dl_mode s" "blocked (dnote ls s) = blocked s"
  "killed (dnote ls s) = killed s" "dog (dnote ls s) = dog s" "escape_ms (dnote ls s) = escape_ms s"
  "owner (move t p s) = owner s" "pcs (move t p s) = (pcs s)(t := p)" "dl_mode (move t p s) = dl_mode s"
  "blocked (move t p s) = blocked s" "killed (move t p s) = killed s" "dog (move t p s) = dog s" "escape_ms (move t p s) = escape_ms s"
  "owner (own m x s) = (owner s)(m := x)" "pcs (own m x s) = pcs s" "dl_mode (own m x s) = dl_mode s"
  "blocked (own m x s) = blocked s" "killed (own m x s) = killed s" "dog (own m x s) = dog s" "escape_ms (own m x s) = escape_ms s"
  by (simp_all add: dnote_def move_def own_def)

lemma arg_locks [simp]:
  "fst_lock (arg s t) = (if t then Mutex_B else Mutex_A)" "snd_lock (arg s t) = (if t then Mutex_A else Mutex_B)"
  "try_only (arg s t) = (dl_mode s = 3)"
  by (simp_all add: arg_def)

lemma dl_ok_start: "dl_ok (abba_start md esc made)"
  by (simp add: dl_ok_def abba_start_def)

lemma moved:
  "abba_first t s = Some s' \<Longrightarrow> pcs s t = Start \<and> owner s (fst_lock (arg s t)) = None \<and>
     pcs s' = (pcs s)(t := First) \<and> owner s' = (owner s)(fst_lock (arg s t) := Some t) \<and> blocked s' = blocked s"
  "abba_want t s = Some s' \<Longrightarrow> pcs s t = First \<and>
     pcs s' = (pcs s)(t := Waiting 0) \<and> owner s' = owner s \<and> blocked s' = blocked s + 1"
  "abba_take t ms s = Some s' \<Longrightarrow> \<exists>n. pcs s t = Waiting n \<and> owner s (snd_lock (arg s t)) = None \<and>
     pcs s' = (pcs s)(t := Both n) \<and> owner s' = (owner s)(snd_lock (arg s t) := Some t) \<and> blocked s' = blocked s"
  "abba_escape t ms s = Some s' \<Longrightarrow> \<exists>n. pcs s t = Waiting n \<and>
     pcs s' = (pcs s)(t := Leaving) \<and> owner s' = owner s \<and> blocked s' = blocked s"
  "abba_try t stop us s = Some s' \<Longrightarrow> \<exists>n. pcs s t = Waiting n \<and> blocked s' = blocked s \<and>
     (pcs s' = (pcs s)(t := Both n) \<and> owner s (snd_lock (arg s t)) = None \<and> owner s' = (owner s)(snd_lock (arg s t) := Some t) \<or>
      pcs s' = (pcs s)(t := Waiting (Suc n)) \<and> owner s' = owner s \<or> pcs s' = (pcs s)(t := Leaving) \<and> owner s' = owner s)"
  "abba_drop t s = Some s' \<Longrightarrow> \<exists>n. pcs s t = Both n \<and>
     pcs s' = (pcs s)(t := Leaving) \<and> owner s' = (owner s)(snd_lock (arg s t) := None) \<and> blocked s' = blocked s"
  "abba_leave t s = Some s' \<Longrightarrow> pcs s t = Leaving \<and>
     pcs s' = (pcs s)(t := Idle) \<and> owner s' = (owner s)(fst_lock (arg s t) := None) \<and> blocked s' = blocked s - 1"
  "watchdog_fn s = Some s' \<Longrightarrow> pcs s' = pcs s \<and> owner s' = owner s \<and> blocked s' = blocked s"
  by (auto simp: abba_first_def abba_want_def abba_take_def abba_escape_def abba_try_def abba_drop_def abba_leave_def
      watchdog_fn_def Let_def split: if_splits pc.splits)

lemma ok_second:
  assumes "dl_ok s" "pcs s t = Waiting n" "owner s (snd_lock (arg s t)) = None" "pcs s' = (pcs s)(t := Both n)"
    "owner s' = (owner s)(snd_lock (arg s t) := Some t)" "blocked s' = blocked s"
  shows "dl_ok s'"
proof -
  have "holds_second (pcs s (\<not> t)) \<longrightarrow> holds_first (pcs s (\<not> t))" using second_first by blast
  with assms show ?thesis unfolding dl_ok_def by (elim conjE; cases t; auto)
qed

lemma ok_place:
  assumes "dl_ok s" "pcs s t = Waiting n" "p = Leaving \<or> (\<exists>k. p = Waiting k)" "pcs s' = (pcs s)(t := p)" "owner s' = owner s" "blocked s' = blocked s"
  shows "dl_ok s'"
  using assms(3)
proof
  assume "p = Leaving"
  with assms show ?thesis unfolding dl_ok_def by (cases t) auto
next
  assume "\<exists>k. p = Waiting k"
  with assms show ?thesis unfolding dl_ok_def by (cases t) auto
qed

lemma dl_ok_move:
  assumes "dl_move m s = Some s'" "dl_ok s"
  shows "dl_ok s'"
proof (cases m)
  case (First_Lock t)
  with assms(1) have "abba_first t s = Some s'" by simp
  note moved(1) [OF this]
  with assms(2) show ?thesis by (cases t) (auto simp: dl_ok_def)
next
  case (Want t)
  with assms(1) have "abba_want t s = Some s'" by simp
  note moved(2) [OF this]
  with assms(2) show ?thesis by (cases t) (auto simp: dl_ok_def)
next
  case (Take t ms)
  with assms(1) have "abba_take t ms s = Some s'" by simp
  then show ?thesis using moved(3) ok_second assms(2) by blast
next
  case (Escape t ms)
  with assms(1) have "abba_escape t ms s = Some s'" by simp
  then show ?thesis using moved(4) ok_place [OF assms(2)] by blast
next
  case (Try t stop us)
  with assms(1) have "abba_try t stop us s = Some s'" by simp
  from moved(5) [OF this] obtain n where n: "pcs s t = Waiting n" "blocked s' = blocked s"
    and "pcs s' = (pcs s)(t := Both n) \<and> owner s (snd_lock (arg s t)) = None \<and> owner s' = (owner s)(snd_lock (arg s t) := Some t) \<or>
      pcs s' = (pcs s)(t := Waiting (Suc n)) \<and> owner s' = owner s \<or> pcs s' = (pcs s)(t := Leaving) \<and> owner s' = owner s" by blast
  then show ?thesis using ok_second [OF assms(2) n(1)] ok_place [OF assms(2) n(1)] by blast
next
  case (Drop t)
  with assms(1) have "abba_drop t s = Some s'" by simp
  note moved(6) [OF this]
  with assms(2) show ?thesis by (cases t) (auto simp: dl_ok_def)
next
  case (Leave t)
  with assms(1) have "abba_leave t s = Some s'" by simp
  note moved(7) [OF this]
  with assms(2) show ?thesis by (cases t) (auto simp: dl_ok_def)
next
  case Watchdog
  with assms(1) have "watchdog_fn s = Some s'" by simp
  note moved(8) [OF this]
  with assms(2) show ?thesis by (auto simp: dl_ok_def)
qed


interpretation dl: kept_by_steps "\<lambda>s. \<exists>md esc made. s = abba_start md esc made" "by_event dl_move" dl_ok
  by unfold_locales (auto simp: by_event_def intro: dl_ok_start dl_ok_move)

lemma dl_ok_reach: "dl_run ms (abba_start md esc made) = Some s \<Longrightarrow> dl_ok s"
  by (rule dl.inv_reach) (auto simp: run_events_steps [symmetric])

text \<open>
  C19: The mutexes exclude: in every reachable state of modes 2 and 3 each mutex has at most one
  holder and it is the thread whose place in the code holds it, a thread about to release a
  mutex owns it, and \<open>blocked\<close> is the number of threads between its increment and decrement.
\<close>

theorem abba_excludes:
  assumes "dl_run ms (abba_start md esc made) = Some s"
  shows "(owner s (fst_lock (arg s t)) = Some t \<longleftrightarrow> holds_first (pcs s t)) \<and>
    (owner s (snd_lock (arg s t)) = Some t \<longleftrightarrow> holds_second (pcs s t)) \<and>
    blocked s = of_bool (counted (pcs s False)) + of_bool (counted (pcs s True))"
  using dl_ok_reach [OF assms] by (cases t) (simp_all add: dl_ok_def)

definition crossing :: "mv list" where
  "crossing = [First_Lock False, First_Lock True, Want True, Want False]"

theorem abba_excludes_witness:
  "\<exists>s. dl_run crossing (abba_start 2 6000 True) = Some s \<and> owner s Mutex_A = Some False \<and> blocked s = 2"
proof -
  obtain s where s: "dl_run crossing (abba_start 2 6000 True) = Some s" "pcs s False = Waiting 0" "pcs s True = Waiting 0"
    by (simp add: crossing_def abba_first_def abba_want_def abba_start_def Let_def)
  with abba_excludes [OF s(1), of False] show ?thesis by auto
qed

lemma dl_frame: "dl_move m s = Some s' \<Longrightarrow> dl_mode s' = dl_mode s \<and> escape_ms s' = escape_ms s \<and>
    (if m = Watchdog then dog s \<and> \<not> dog s' \<and> (\<forall>t. killed s' t) else dog s' = dog s \<and> killed s' = killed s)"
  by (cases m) (auto simp: abba_first_def abba_want_def abba_take_def abba_escape_def abba_try_def abba_drop_def abba_leave_def
      watchdog_fn_def Let_def split: if_splits pc.splits)

definition dog_ok :: "int \<Rightarrow> bool \<Rightarrow> dl \<Rightarrow> bool" where
  "dog_ok md made s \<longleftrightarrow> dl_mode s = md \<and> (if md = 2 \<and> made then dog s = (\<not> killed s False) \<and> killed s False = killed s True else \<not> dog s)"

interpretation dog: kept_by_steps "\<lambda>s. \<exists>esc. s = abba_start md esc made" "by_event dl_move" "dog_ok md made" for md made
proof
  fix s assume "\<exists>esc. s = abba_start md esc made"
  then show "dog_ok md made s" by (auto simp: dog_ok_def abba_start_def)
next
  fix s t assume "dog_ok md made s" "by_event dl_move s t"
  then show "dog_ok md made t" using dl_frame unfolding by_event_def dog_ok_def by (fastforce split: if_splits)
qed

lemma dog_ok_reach: "dl_run ms (abba_start md esc made) = Some s \<Longrightarrow> dog_ok md made s"
  by (rule dog.inv_reach) (auto simp: run_events_steps [symmetric])

text \<open>
  The deadlock is real and only the watchdog ends it: when both threads of mode 2 wait for
  their second mutex and neither was killed, no move of either thread is possible; the one
  move left is the watchdog's, and if that thread could not be created, which
  \<open>dl_lab_init\<close> does not check, none is left at all.
\<close>

theorem abba_deadlock:
  assumes "dl_run ms (abba_start 2 esc made) = Some s"
    and "pcs s False = Waiting i" "pcs s True = Waiting j" "\<not> killed s False" "\<not> killed s True"
  shows "dl_move m s \<noteq> None \<longleftrightarrow> m = Watchdog \<and> made"
proof -
  have ok: "dl_ok s" and d: "dog_ok 2 made s" using dl_ok_reach dog_ok_reach assms(1) by blast+
  have o: "owner s Mutex_A = Some False" "owner s Mutex_B = Some True" using ok assms(2,3) by (simp_all add: dl_ok_def)
  have w: "pcs s t = Waiting (if t then j else i)" "\<not> killed s t" for t using assms(2-5) by (cases t; simp)+
  have "owner s (snd_lock (arg s t)) \<noteq> None" for t using o by (cases t) simp_all
  with w d assms(4) show ?thesis
    by (cases m) (auto simp: abba_first_def abba_want_def abba_take_def abba_escape_def abba_try_def abba_drop_def abba_leave_def
        watchdog_fn_def Let_def dog_ok_def split: if_splits)
qed

theorem abba_deadlock_witness:
  "\<exists>s. dl_run crossing (abba_start 2 6000 False) = Some s \<and> (\<forall>m. dl_move m s = None)"
proof -
  obtain s where s: "dl_run crossing (abba_start 2 6000 False) = Some s" "pcs s False = Waiting 0" "pcs s True = Waiting 0"
      "\<not> killed s False" "\<not> killed s True"
    by (simp add: crossing_def abba_first_def abba_want_def abba_start_def Let_def)
  with abba_deadlock [OF s] show ?thesis by blast
qed

subsection \<open>It always comes undone\<close>












lemma aa_never_gets: "aa_tries bs True n = n + length (takeWhile id bs)"
  by (induction bs arbitrary: n) auto

lemma book_gives_up:
  assumes "book_thread esc ms took = Some ls"
  shows "\<exists>ms0\<in>set ms. esc < ms0"
proof -
  have "book_worker esc (map (\<lambda>ms. (False, ms)) ms) \<noteq> None \<Longrightarrow> \<exists>ms0\<in>set ms. esc < ms0"
    by (induction ms) (auto split: if_splits)
  with assms show ?thesis by (auto simp: book_thread_def split: option.splits)
qed

end
