(* ===== verification/Meter.thy ===== *)
theory Meter
  imports Runs
begin

section \<open>Interface: counting how many are inside at once\<close>

text \<open>
  \<open>softirq_par.c\<close> and \<open>wq_probe.c\<close> measure how many callbacks run at the same time with the
  same lock-free idiom: increment a counter, raise a maximum to the value reached with a
  compare and exchange that is repeated until it succeeds or the maximum is high enough, and
  decrement at the end. The locale says what the clients' steps do to the two counters and to
  the phase of the agent that moves; its lemmas say what the maximum is worth.
\<close>

datatype phase =
    Outside
  | Counting int \<comment> \<open>the count it reached\<close>
  | Trying int int \<comment> \<open>its count and the maximum it read\<close>
  | Metered

inductive meter_move :: "phase \<Rightarrow> int \<Rightarrow> int \<Rightarrow> phase \<Rightarrow> int \<Rightarrow> int \<Rightarrow> bool" where
  Stay: "meter_move p n m p n m"
| Enters: "meter_move Outside n m (Counting (n + 1)) (n + 1) m"
| Enough: "v \<le> m \<Longrightarrow> meter_move (Counting v) n m Metered n m"
| Reads: "m < v \<Longrightarrow> meter_move (Counting v) n m (Trying v m) n m"
| Raises: "meter_move (Trying v m) n m Metered n v"
| Loses: "m \<noteq> x \<Longrightarrow> meter_move (Trying v x) n m (Counting v) n m"
| Leaves: "meter_move Metered n m Outside (n - 1) m"

inductive_cases meter_moveE: "meter_move p n m p' n' m'"

fun pend :: "phase \<Rightarrow> int option" where
  "pend (Counting v) = Some v" | "pend (Trying v m) = Some v" | "pend Outside = None" | "pend Metered = None"

definition crowd_of :: "(nat \<Rightarrow> phase) \<Rightarrow> nat set" where
  "crowd_of ph = {i. ph i \<noteq> Outside}"

text \<open>How many are inside at each moment of a run.\<close>

fun crowds :: "('e \<Rightarrow> 's \<Rightarrow> 's option) \<Rightarrow> ('s \<Rightarrow> nat \<Rightarrow> phase) \<Rightarrow> 'e list \<Rightarrow> 's \<Rightarrow> nat list" where
  "crowds f ph [] s = [card (crowd_of (ph s))]"
| "crowds f ph (e # es) s = card (crowd_of (ph s)) # (case f e s of None \<Rightarrow> [] | Some t \<Rightarrow> crowds f ph es t)"

lemma crowds_hd: "\<exists>ls. crowds f ph es s = card (crowd_of (ph s)) # ls"
  by (cases es) simp_all

text \<open>The exchanges that agent \<open>i\<close> loses, given the events that are its exchanges.\<close>

fun lost :: "('e \<Rightarrow> 's \<Rightarrow> 's option) \<Rightarrow> ('s \<Rightarrow> nat \<Rightarrow> phase) \<Rightarrow> nat \<Rightarrow> 'e list \<Rightarrow> 's \<Rightarrow> nat" where
  "lost f ph i [] s = 0"
| "lost f ph i (e # es) s = (case f e s of None \<Rightarrow> 0
     | Some t \<Rightarrow> (case (ph s i, ph t i) of (Trying v x, Counting w) \<Rightarrow> 1 | _ \<Rightarrow> 0) + lost f ph i es t)"

text \<open>The highest count so far is in the maximum, or on its way there.\<close>

definition peak_ok :: "int \<Rightarrow> (nat \<Rightarrow> phase) \<Rightarrow> int \<Rightarrow> int \<Rightarrow> bool" where
  "peak_ok P ph n m \<longleftrightarrow> m \<le> P \<and> n \<le> P \<and> (\<forall>i v. pend (ph i) = Some v \<longrightarrow> v \<le> P) \<and>
     (\<forall>i v x. ph i = Trying v x \<longrightarrow> x < v \<and> x \<le> m) \<and> (P \<le> m \<or> (\<exists>i. pend (ph i) = Some P))"

definition level_ok :: "(nat \<Rightarrow> phase) \<Rightarrow> int \<Rightarrow> bool" where
  "level_ok ph n \<longleftrightarrow> finite (crowd_of ph) \<and> n = int (card (crowd_of ph))"

lemma crowd_point:
  assumes "finite (crowd_of ph)" "\<And>j. j \<noteq> i \<Longrightarrow> ph' j = ph j"
  shows "finite (crowd_of ph') \<and>
    int (card (crowd_of ph')) = int (card (crowd_of ph)) + of_bool (ph' i \<noteq> Outside) - of_bool (ph i \<noteq> Outside)"
proof -
  let ?A = "crowd_of ph"
  have "j \<in> crowd_of ph' \<longleftrightarrow> j \<in> (if ph' i \<noteq> Outside then insert i (?A - {i}) else ?A - {i})" for j
    using assms(2) [of j] by (cases "j = i") (simp_all add: crowd_of_def)
  then have "crowd_of ph' = (if ph' i \<noteq> Outside then insert i (?A - {i}) else ?A - {i})" by blast
  moreover have "int (card (?A - {i})) = int (card ?A) - of_bool (ph i \<noteq> Outside)"
  proof (cases "ph i \<noteq> Outside")
    case True
    then have "card ?A = Suc (card (?A - {i}))" using assms(1) by (intro card.remove) (auto simp: crowd_of_def)
    then show ?thesis using True by simp
  qed (simp add: Diff_triv crowd_of_def)
  moreover have "card (insert i (?A - {i})) = Suc (card (?A - {i}))" using assms(1) by (intro card_insert_disjoint) auto
  ultimately show ?thesis using assms(1) by auto
qed

lemma peak_okD:
  assumes "peak_ok P ph n m"
  shows "m \<le> P" "n \<le> P" "pend (ph i) = Some v \<Longrightarrow> v \<le> P" "ph i = Trying v x \<Longrightarrow> x < v" "ph i = Trying v x \<Longrightarrow> x \<le> m"
    "P \<le> m \<or> (\<exists>i. pend (ph i) = Some P)"
  using assms unfolding peak_ok_def by blast+

lemma peak_ok_move:
  assumes ok: "peak_ok P ph n m" and ph': "\<And>j. j \<noteq> i \<Longrightarrow> ph' j = ph j" and le: "m \<le> m'" "m' \<le> P'" "P \<le> P'" "n' \<le> P'"
    and own: "\<And>v. pend (ph' i) = Some v \<Longrightarrow> v \<le> P'" "\<And>v x. ph' i = Trying v x \<Longrightarrow> x < v \<and> x \<le> m'"
    and top: "P' \<le> m' \<or> pend (ph' i) = Some P' \<or> P' = P \<and> pend (ph i) \<noteq> Some P"
  shows "peak_ok P' ph' n' m'"
proof -
  have "v \<le> P'" if "pend (ph' j) = Some v" for j v
    using that own(1) ph' [of j] peak_okD(3) [OF ok, of j v] le(3) by (cases "j = i") auto
  moreover have "x < v \<and> x \<le> m'" if "ph' j = Trying v x" for j v x
    using that own(2) ph' [of j] peak_okD(4,5) [OF ok, of j v x] le(1) by (cases "j = i") auto
  moreover have "P' \<le> m' \<or> (\<exists>j. pend (ph' j) = Some P')"
    using top
  proof (elim disjE conjE)
    assume p: "P' = P" "pend (ph i) \<noteq> Some P"
    from peak_okD(6) [OF ok] show ?thesis
    proof
      assume "\<exists>j. pend (ph j) = Some P"
      then obtain j where "pend (ph j) = Some P" ..
      moreover with p(2) have "j \<noteq> i" by auto
      ultimately show ?thesis using p(1) ph' by metis
    qed (use le(1) p(1) in simp)
  qed auto
  ultimately show ?thesis using le by (simp add: peak_ok_def)
qed

lemma peak_ok_step:
  assumes ok: "peak_ok P ph n m" and ph': "\<And>j. j \<noteq> i \<Longrightarrow> ph' j = ph j" and mv: "meter_move (ph i) n m (ph' i) n' m'"
  shows "peak_ok (max P n') ph' n' m'" and "m \<le> m'"
proof -
  note old = peak_okD [OF ok]
  show "m \<le> m'" using mv by (rule meter_moveE) (use old(4) [of i] in auto)
  have same: "ph' = ph" if "ph' i = ph i" using that ph' by (metis ext)
  show "peak_ok (max P n') ph' n' m'"
    using mv
  proof (rule meter_moveE)
    assume s: "ph' i = ph i" "n' = n" "m' = m"
    have "max P n' = P" using old(2) s(2) by simp
    then show ?thesis using ok same [OF s(1)] s by simp
  next
    assume s: "ph i = Outside" "ph' i = Counting (n + 1)" "n' = n + 1" "m' = m"
    show ?thesis using s old(1,2) by (intro peak_ok_move [OF ok ph']) auto
  next
    fix v assume s: "ph i = Counting v" "ph' i = Metered" "n' = n" "m' = m" "v \<le> m"
    then have "v \<le> P" using old(3) [of i v] by simp
    then show ?thesis using s old(1,2) by (intro peak_ok_move [OF ok ph']) auto
  next
    fix v assume s: "ph i = Counting v" "ph' i = Trying v m" "n' = n" "m' = m" "m < v"
    then have "v \<le> P" using old(3) [of i v] by simp
    then show ?thesis using s old(1,2) by (intro peak_ok_move [OF ok ph']) auto
  next
    assume s: "ph i = Trying m' m" "ph' i = Metered" "n' = n"
    then have "m' \<le> P" "m < m'" using old(3) [of i m'] old(4) [of i m' m] by simp_all
    then show ?thesis using s old(1,2) by (intro peak_ok_move [OF ok ph']) auto
  next
    fix v x assume s: "ph i = Trying v x" "ph' i = Counting v" "n' = n" "m' = m" "m \<noteq> x"
    then have "v \<le> P" using old(3) [of i v] by simp
    then show ?thesis using s old(1,2) by (intro peak_ok_move [OF ok ph']) auto
  next
    assume s: "ph i = Metered" "ph' i = Outside" "n' = n - 1" "m' = m"
    show ?thesis using s old(1,2) by (intro peak_ok_move [OF ok ph']) auto
  qed
qed

lemma level_ok_step:
  assumes "level_ok ph n" "\<And>j. j \<noteq> i \<Longrightarrow> ph' j = ph j" "meter_move (ph i) n m (ph' i) n' m'"
  shows "level_ok ph' n'"
  using assms(3) crowd_point [of ph i ph'] assms(1,2) unfolding level_ok_def by (elim meter_moveE) auto

definition gap :: "phase \<Rightarrow> int \<Rightarrow> nat" where
  "gap p m = (case p of Counting v \<Rightarrow> nat (v - m) | Trying v x \<Rightarrow> nat (v - x) | _ \<Rightarrow> 0)"

locale concurrency_meter =
  fixes step :: "'e \<Rightarrow> 's \<Rightarrow> 's option" and ph :: "'s \<Rightarrow> nat \<Rightarrow> phase" and level high :: "'s \<Rightarrow> int" and agent :: "'e \<Rightarrow> nat"
  assumes others: "step e s = Some t \<Longrightarrow> j \<noteq> agent e \<Longrightarrow> ph t j = ph s j"
    and moves: "step e s = Some t \<Longrightarrow> meter_move (ph s (agent e)) (level s) (high s) (ph t (agent e)) (level t) (high t)"
begin

lemma step_ok:
  assumes "step e s = Some t" "level_ok (ph s) (level s)" "peak_ok P (ph s) (level s) (high s)"
  shows "level_ok (ph t) (level t) \<and> peak_ok (max P (level t)) (ph t) (level t) (high t) \<and> high s \<le> high t"
  using level_ok_step [OF assms(2) others [OF assms(1)] moves [OF assms(1)]]
    peak_ok_step [OF assms(3) others [OF assms(1)] moves [OF assms(1)]] by blast

lemma run_ok:
  "run_events step es s = Some t \<Longrightarrow> level_ok (ph s) (level s) \<Longrightarrow> peak_ok P (ph s) (level s) (high s) \<Longrightarrow>
    level_ok (ph t) (level t) \<and> peak_ok (max P (int (Max (set (crowds step ph es s))))) (ph t) (level t) (high t)"
proof (induction es arbitrary: s P)
  case Nil
  then show ?case by (simp add: level_ok_def peak_ok_def max_absorb1)
next
  case (Cons e es)
  then obtain u where u: "step e s = Some u" "run_events step es u = Some t" by (auto simp: bind_eq_Some_conv)
  let ?l = "crowds step ph es u"
  obtain ls where "?l = card (crowd_of (ph u)) # ls" using crowds_hd by metis
  then have ne: "?l \<noteq> []" "card (crowd_of (ph u)) \<in> set ?l" by simp_all
  have k: "level_ok (ph u) (level u)" "peak_ok (max P (level u)) (ph u) (level u) (high u)"
    using step_ok [OF u(1) Cons.prems(2,3)] by blast+
  have ih: "level_ok (ph t) (level t) \<and> peak_ok (max (max P (level u)) (int (Max (set ?l)))) (ph t) (level t) (high t)"
    using Cons.IH [OF u(2) k] .
  have "card (crowd_of (ph u)) \<le> Max (set ?l)" using ne by (intro Max_ge) auto
  moreover have "int (card (crowd_of (ph s))) \<le> P" using Cons.prems(2,3) by (simp add: level_ok_def peak_ok_def)
  moreover have "Max (set (crowds step ph (e # es) s)) = max (card (crowd_of (ph s))) (Max (set ?l))" using u(1) ne by simp
  moreover have "level u = int (card (crowd_of (ph u)))" using k(1) by (simp add: level_ok_def)
  ultimately have "max (max P (level u)) (int (Max (set ?l))) = max P (int (Max (set (crowds step ph (e # es) s))))"
    by linarith
  with ih show ?case by metis
qed

lemma from_start:
  assumes "run_events step es s = Some t" "\<forall>i. ph s i = Outside" "level s = 0" "high s = 0"
  shows "level_ok (ph t) (level t) \<and> peak_ok (int (Max (set (crowds step ph es s)))) (ph t) (level t) (high t)"
proof -
  have "level_ok (ph s) (level s)" "peak_ok 0 (ph s) (level s) (high s)"
    using assms(2-4) by (simp_all add: level_ok_def crowd_of_def peak_ok_def)
  from run_ok [OF assms(1) this] show ?thesis by simp
qed

text \<open>When nobody is on the way, the maximum is the largest crowd there has been.\<close>

lemma finds_maximum:
  assumes "run_events step es s = Some t" "\<forall>i. ph s i = Outside" "level s = 0" "high s = 0" "\<forall>i. pend (ph t i) = None"
  shows "high t = int (Max (set (crowds step ph es s))) \<and> level t = int (card (crowd_of (ph t)))"
  using from_start [OF assms(1-4)] assms(5) by (simp add: level_ok_def peak_ok_def)

lemma high_le:
  assumes "run_events step es s = Some t" "\<forall>i. ph s i = Outside" "level s = 0" "high s = 0" "\<forall>n\<in>set (crowds step ph es s). n \<le> k"
  shows "high t \<le> int k"
proof -
  have "crowds step ph es s \<noteq> []" using crowds_hd by (metis list.distinct(1))
  then have "Max (set (crowds step ph es s)) \<le> k" using assms(5) by simp
  then show ?thesis using from_start [OF assms(1-4)] by (auto simp: peak_ok_def)
qed

text \<open>Each exchange lost has narrowed the gap between the agent's count and the maximum.\<close>

lemma lost_step:
  assumes "step e s = Some t" "peak_ok P (ph s) (level s) (high s)" "\<not> (ph s i = Outside \<and> ph t i \<noteq> Outside)"
  shows "(case (ph s i, ph t i) of (Trying v x, Counting w) \<Rightarrow> 1 | _ \<Rightarrow> 0) + gap (ph t i) (high t) \<le> gap (ph s i) (high s)"
proof (cases "agent e = i")
  case True
  from moves [OF assms(1)] show ?thesis
    unfolding True using assms(3) peak_okD(4,5) [OF assms(2), of i] by (elim meter_moveE) (auto simp: gap_def split: phase.splits)
next
  case False
  then have "ph t i = ph s i" using others [OF assms(1)] by simp
  moreover have "high s \<le> high t" using peak_ok_step(2) [OF assms(2) others [OF assms(1)] moves [OF assms(1)]] by blast
  ultimately show ?thesis by (auto simp: gap_def split: phase.splits)
qed

lemma lost_le_gap:
  "run_events step es s = Some t \<Longrightarrow> level_ok (ph s) (level s) \<Longrightarrow> peak_ok P (ph s) (level s) (high s) \<Longrightarrow>
    \<forall>e\<in>set es. \<forall>s t. step e s = Some t \<longrightarrow> \<not> (ph s i = Outside \<and> ph t i \<noteq> Outside) \<Longrightarrow>
    lost step ph i es s + gap (ph t i) (high t) \<le> gap (ph s i) (high s)"
proof (induction es arbitrary: s P)
  case (Cons e es)
  then obtain u where u: "step e s = Some u" "run_events step es u = Some t" by (auto simp: bind_eq_Some_conv)
  have k: "level_ok (ph u) (level u)" "peak_ok (max P (level u)) (ph u) (level u) (high u)"
    using step_ok [OF u(1) Cons.prems(2,3)] by blast+
  have "lost step ph i es u + gap (ph t i) (high t) \<le> gap (ph u i) (high u)"
    using Cons.IH [OF u(2) k] Cons.prems(4) by simp
  moreover have "(case (ph s i, ph u i) of (Trying v x, Counting w) \<Rightarrow> 1 | _ \<Rightarrow> 0) + gap (ph u i) (high u) \<le> gap (ph s i) (high s)"
    using Cons.prems(4) u(1) by (intro lost_step [OF u(1) Cons.prems(3)]) auto
  ultimately show ?case using u(1) by simp
qed simp

end

end
