(* ===== verification/Softirq_Par.thy ===== *)
theory Softirq_Par
  imports Meter
begin

section \<open>softirq\_par.c: how many CPUs run a callback at once\<close>

text \<open>
  The module hangs tasklets on the CPUs and measures, with the lock-free counters of \<open>bump\<close>,
  how many CPUs are inside the callback at the same time. Each shared access of a callback is a
  step of its own, so the steps of different CPUs interleave freely. When the kernel starts a
  scheduled callback on a CPU is its own business: the parameter \<open>may\<close>. The counters are far
  from the limits of an \<open>int\<close> (every CPU schedules once or twice) and are integers here.
\<close>

datatype callback = Many_Fn | One_Fn | One2_Fn

datatype place =
    Idle
  | First bool \<comment> \<open>saw \<open>t_first\<close> zero\<close>
  | Bump
  | Counted int \<comment> \<open>the count it brought \<open>cur\<close> to\<close>
  | Try int int \<comment> \<open>its count and the maximum it read\<close>
  | Peek
  | Spin
  | Left
  | Ran

record softirq =
  cur :: int
  maxcur :: int
  runs :: int
  sched_calls :: int
  cpu_seen :: u64
  t_first :: u64
  t_last :: u64
  done_cnt :: "nat \<Rightarrow> int"
  per_cpu_runs :: "nat \<Rightarrow> int"
  state_at_entry :: u64
  state_during_run :: u64
  late_sched_ok :: int
  hung :: "(nat \<times> nat option) list" \<comment> \<open>\<open>tasklet_schedule\<close> calls: the CPU and which of \<open>tl_many\<close>, or \<open>tl_one\<close>\<close>
  oob :: bool \<comment> \<open>some array was indexed past its end\<close>
  places :: "nat \<Rightarrow> place"

definition MAXCPU :: nat where "MAXCPU = 8"
definition NSEC_PER_MSEC :: int where "NSEC_PER_MSEC = 1000000"

definition reset_stats :: "softirq \<Rightarrow> softirq" where
  "reset_stats s = s\<lparr>cur := 0, maxcur := 0, runs := 0, sched_calls := 0, cpu_seen := 0, t_first := 0, t_last := 0\<rparr>"

text \<open>The module's variables when it is loaded.\<close>

definition softirq_load :: softirq where
  "softirq_load = \<lparr>cur = 0, maxcur = 0, runs = 0, sched_calls = 0, cpu_seen = 0, t_first = 0, t_last = 0,
     done_cnt = (\<lambda>_. 0), per_cpu_runs = (\<lambda>_. 0), state_at_entry = 0, state_during_run = 0, late_sched_ok = 0, hung = [],
     oob = False, places = (\<lambda>_. Idle)\<rparr>"

definition goes :: "nat \<Rightarrow> place \<Rightarrow> softirq \<Rightarrow> softirq" where
  "goes c p s = s\<lparr>places := (places s)(c := p)\<rparr>"

subsection \<open>The callbacks\<close>

text \<open>\<open>st\<close>: the tasklet's state word as the callback reads it.\<close>

definition enter :: "callback \<Rightarrow> nat \<Rightarrow> u64 \<Rightarrow> softirq \<Rightarrow> softirq" where
  "enter f c st s = (case f of
       Many_Fn \<Rightarrow> goes c (First (t_first s = 0)) s
     | One_Fn \<Rightarrow> goes c (First (t_first s = 0)) (s\<lparr>state_at_entry := st\<rparr>)
     | One2_Fn \<Rightarrow> goes c (First False) s)"

text \<open>\<open>now\<close>: the time read on entry; the CPU's bit and its slot of the array.\<close>

definition mark :: "callback \<Rightarrow> nat \<Rightarrow> bool \<Rightarrow> u64 \<Rightarrow> softirq \<Rightarrow> softirq" where
  "mark f c zero now s =
     (let s1 = s\<lparr>t_first := if zero then now else t_first s, cpu_seen := cpu_seen s OR push_bit c 1,
                 oob := oob s \<or> MAXCPU \<le> c\<rparr>
      in goes c Bump (case f of
           Many_Fn \<Rightarrow> s1\<lparr>done_cnt := (done_cnt s)(c := done_cnt s c + 1)\<rparr>
         | _ \<Rightarrow> s1\<lparr>per_cpu_runs := (per_cpu_runs s)(c := per_cpu_runs s c + 1)\<rparr>))"

text \<open>The three accesses of \<open>bump\<close>: the increment, the read, the compare and exchange.\<close>

definition bump_inc :: "nat \<Rightarrow> softirq \<Rightarrow> softirq" where
  "bump_inc c s = goes c (Counted (cur s + 1)) (s\<lparr>cur := cur s + 1\<rparr>)"

definition bump_read :: "nat \<Rightarrow> int \<Rightarrow> softirq \<Rightarrow> softirq" where
  "bump_read c v s = goes c (if v \<le> maxcur s then Peek else Try v (maxcur s)) s"

definition bump_cas :: "nat \<Rightarrow> int \<Rightarrow> int \<Rightarrow> softirq \<Rightarrow> softirq" where
  "bump_cas c v m s = (if maxcur s = m then goes c Peek (s\<lparr>maxcur := v\<rparr>) else goes c (Counted v) s)"

text \<open>
  \<open>spin_for\<close>: the number of \<open>cpu_relax\<close> calls, given the nanoseconds since the start that the
  clock shows at each test.
\<close>

fun spin_for :: "int \<Rightarrow> int list \<Rightarrow> nat option" where
  "spin_for ms [] = None"
| "spin_for ms (ns # rest) = (if ns < ms * NSEC_PER_MSEC then map_option Suc (spin_for ms rest) else Some 0)"

text \<open>Only \<open>one2_fn\<close> reads the tasklet's state after \<open>bump\<close>.\<close>

definition peek :: "callback \<Rightarrow> nat \<Rightarrow> u64 \<Rightarrow> softirq \<Rightarrow> softirq" where
  "peek f c st s = goes c Spin (if f = One2_Fn then s\<lparr>state_during_run := st\<rparr> else s)"

definition spun :: "nat \<Rightarrow> softirq \<Rightarrow> softirq" where
  "spun c s = goes c Left (s\<lparr>cur := cur s - 1\<rparr>)"

definition ran :: "nat \<Rightarrow> softirq \<Rightarrow> softirq" where
  "ran c s = goes c Ran (s\<lparr>runs := runs s + 1\<rparr>)"

definition cb_finish :: "nat \<Rightarrow> u64 \<Rightarrow> softirq \<Rightarrow> softirq" where
  "cb_finish c now s = goes c Idle (s\<lparr>t_last := now\<rparr>)"

subsection \<open>Scheduling\<close>

definition sched_many :: "nat \<Rightarrow> softirq \<Rightarrow> softirq" where
  "sched_many c s = s\<lparr>sched_calls := sched_calls s + 1, hung := hung s @ [(c, Some c)], oob := oob s \<or> MAXCPU \<le> c\<rparr>"

definition sched_one :: "nat \<Rightarrow> softirq \<Rightarrow> softirq" where
  "sched_one c s = s\<lparr>sched_calls := sched_calls s + 1, hung := hung s @ [(c, None)]\<rparr>"

definition late_sched :: "nat \<Rightarrow> softirq \<Rightarrow> softirq" where
  "late_sched c s = (sched_one c s)\<lparr>late_sched_ok := late_sched_ok s + 1\<rparr>"

datatype ev =
    Sched nat | Late nat
  | Enter nat u64 | Mark nat u64 | Inc nat | Rd nat | Cas nat | Look nat u64 | Spun nat | Count nat | Finish nat u64

fun ev_step :: "callback \<Rightarrow> (softirq \<Rightarrow> nat \<Rightarrow> bool) \<Rightarrow> ev \<Rightarrow> softirq \<Rightarrow> softirq option" where
  "ev_step f may (Sched c) s = Some (if f = Many_Fn then sched_many c s else sched_one c s)"
| "ev_step f may (Late c) s = (if f = One2_Fn then Some (late_sched c s) else None)"
| "ev_step f may (Enter c st) s = (if places s c = Idle \<and> may s c then Some (enter f c st s) else None)"
| "ev_step f may (Mark c now) s = (case places s c of First z \<Rightarrow> Some (mark f c z now s) | _ \<Rightarrow> None)"
| "ev_step f may (Inc c) s = (if places s c = Bump then Some (bump_inc c s) else None)"
| "ev_step f may (Rd c) s = (case places s c of Counted v \<Rightarrow> Some (bump_read c v s) | _ \<Rightarrow> None)"
| "ev_step f may (Cas c) s = (case places s c of Try v m \<Rightarrow> Some (bump_cas c v m s) | _ \<Rightarrow> None)"
| "ev_step f may (Look c st) s = (if places s c = Peek then Some (peek f c st s) else None)"
| "ev_step f may (Spun c) s = (if places s c = Spin then Some (spun c s) else None)"
| "ev_step f may (Count c) s = (if places s c = Left then Some (ran c s) else None)"
| "ev_step f may (Finish c now) s = (if places s c = Ran then Some (cb_finish c now s) else None)"

subsection \<open>The three modes\<close>

definition clear :: "(nat \<Rightarrow> int) \<Rightarrow> nat \<Rightarrow> int" where
  "clear a c = (if c < MAXCPU then 0 else a c)"

definition mode_start :: "callback \<Rightarrow> softirq \<Rightarrow> softirq" where
  "mode_start f s = (let s1 = reset_stats s in case f of
       Many_Fn \<Rightarrow> s1\<lparr>done_cnt := clear (done_cnt s)\<rparr>
     | One_Fn \<Rightarrow> s1\<lparr>per_cpu_runs := clear (per_cpu_runs s)\<rparr>
     | One2_Fn \<Rightarrow> s1\<lparr>per_cpu_runs := clear (per_cpu_runs s), late_sched_ok := 0\<rparr>)"

text \<open>The CPUs that a list of events makes schedule: each of the online ones once, for \<open>on_each_cpu\<close>.\<close>

definition scheds :: "ev list \<Rightarrow> nat list" where
  "scheds es = concat (map (\<lambda>e. case e of Sched c \<Rightarrow> [c] | _ \<Rightarrow> []) es)"

definition lates :: "ev list \<Rightarrow> nat list" where
  "lates es = concat (map (\<lambda>e. case e of Late c \<Rightarrow> [c] | _ \<Rightarrow> []) es)"

definition on_each_cpu :: "nat list \<Rightarrow> ev list \<Rightarrow> bool" where
  "on_each_cpu onl es \<longleftrightarrow> distinct (scheds es) \<and> set (scheds es) = set onl \<and> lates es = []"

definition mode0_head :: "int \<Rightarrow> nat list \<Rightarrow> line list" where
  "mode0_head spin_ms onl = [(''mode=0 TASKLET_SOFTIRQ'', []), (''%d on_each_cpu()'', [I (int (length onl))]), (''      %d ms'', [I spin_ms])]"

definition mode1_head :: "int \<Rightarrow> nat list \<Rightarrow> line list" where
  "mode1_head spin_ms onl = [(''mode=1 tasklet'', []), (''on_each_cpu() %d'', [I (int (length onl))]), (''      %d ms'', [I spin_ms])]"

definition report_counts :: "softirq \<Rightarrow> line list" where
  "report_counts s = [(''  tasklet_schedule() = %d'', [I (sched_calls s)]), (''  runs = %d'', [I (runs s)]), (''  max = %d'', [I (maxcur s)])]"

definition mode0_report :: "int \<Rightarrow> nat list \<Rightarrow> softirq \<Rightarrow> line list" where
  "mode0_report spin_ms onl s = [([], [])] @ report_counts s
     @ [(''  CPU = 0x%02lx'', [U (cpu_seen s)])]
     @ map (\<lambda>c. (''    cpu%d: %d'', [I (int c), I (done_cnt s c)])) onl
     @ [(''  = %llu ms (%d ms)'', [U ((t_last s - t_first s) div word_of_int NSEC_PER_MSEC), I (to_int (spin_ms * runs s))]), ([], []),
        (if 1 < maxcur s then (''  parallel %d'', [I (maxcur s)]) else (''  only 1, spin_ms'', [])), (''    '', [])]"

definition mode1_report :: "nat list \<Rightarrow> softirq \<Rightarrow> line list" where
  "mode1_report onl s = [([], []), (''  tasklet_schedule() = %d (%d CPU)'', [I (sched_calls s), I (int (length onl))])]
     @ tl (report_counts s)
     @ [(''  CPU = 0x%02lx'', [U (cpu_seen s)])]
     @ map (\<lambda>c. (''    cpu%d: %d'', [I (int c), I (per_cpu_runs s c)])) (filter (\<lambda>c. per_cpu_runs s c \<noteq> 0) onl)
     @ [(''  t->state = 0x%lx'', [U (state_at_entry s)]), ([], []),
        (''  %d tasklet_schedule() %d'', [I (sched_calls s), I (runs s)]),
        (''    TASKLET_STATE_SCHED'', []), (''    '', []),
        (if maxcur s = 1 then (''  never parallel'', []) else (''  unexpected %d'', [I (maxcur s)]))]"

definition mode2_report :: "nat list \<Rightarrow> int \<Rightarrow> int \<Rightarrow> softirq \<Rightarrow> line list" where
  "mode2_report onl me other s = [([], [])] @ report_counts s
     @ map (\<lambda>c. (''    cpu%d: %d'', [I (int c), I (per_cpu_runs s c)])) (filter (\<lambda>c. per_cpu_runs s c \<noteq> 0) onl)
     @ [([], []), (''  schedule cpu%d cpu%d'', [I other, I me]), (''    TASKLET_STATE_RUN'', []), (''    %d'', [I (maxcur s)])]"

text \<open>
  The modes, given the events from the scheduling to the end of the wait; none when the events
  are not possible. In mode 2 there are two waits, before and after the second scheduling.
\<close>

type_synonym starts = "softirq \<Rightarrow> nat \<Rightarrow> bool"

definition run_mode0 :: "int \<Rightarrow> nat list \<Rightarrow> starts \<Rightarrow> ev list \<Rightarrow> softirq \<Rightarrow> (softirq \<times> line list) option" where
  "run_mode0 spin_ms onl may es s =
     (if \<not> on_each_cpu onl es then None
      else map_option (\<lambda>t. (t, mode0_head spin_ms onl
             @ mode0_report spin_ms onl t))
        (run_events (ev_step Many_Fn may) es (mode_start Many_Fn s)))"

definition run_mode1 :: "int \<Rightarrow> nat list \<Rightarrow> starts \<Rightarrow> ev list \<Rightarrow> softirq \<Rightarrow> (softirq \<times> line list) option" where
  "run_mode1 spin_ms onl may es s =
     (if \<not> on_each_cpu onl es then None
      else map_option (\<lambda>t. (t, mode1_head spin_ms onl
             @ mode1_report onl t))
        (run_events (ev_step One_Fn may) es (mode_start One_Fn s)))"

definition run_mode2 :: "int \<Rightarrow> nat list \<Rightarrow> starts \<Rightarrow> ev list \<Rightarrow> ev list \<Rightarrow> softirq \<Rightarrow> (softirq \<times> line list) option" where
  "run_mode2 spin_ms onl may es es' s =
     (let other = (if 4 < length onl then 4 else 1)
      in if scheds es \<noteq> [0] \<or> lates es \<noteq> [] \<or> scheds es' \<noteq> [] \<or> lates es' \<noteq> [other] then None
         else Option.bind (run_events (ev_step One2_Fn may) es (mode_start One2_Fn s))
           (\<lambda>t. map_option (\<lambda>u. (u, [(''mode=2 CPU0/CPU1'', []), (''tasklet cpu0 %d ms'', [I spin_ms]), (''      tasklet_schedule()'', []),
               (''      tasklet_action_common()'', []), (''      tasklet_trylock()'', []), ([], []),
               (''  t->state = 0x%lx'', [U (state_during_run t)])]
               @ mode2_report onl 0 (int other) u))
             (run_events (ev_step One2_Fn may) es' t)))"

definition softirq_par_init :: "int \<Rightarrow> int \<Rightarrow> nat list \<Rightarrow> starts \<Rightarrow> ev list \<Rightarrow> ev list \<Rightarrow> line list option" where
  "softirq_par_init md spin_ms onl may es es' =
     map_option (\<lambda>ls. [(''================'', []), (''softirq_par.ko  mode=%d  spin_ms=%d  online_cpus=%d'', [I md, I spin_ms, I (int (length onl))]),
         (''================'', [])] @ ls)
       (if md = 0 then map_option snd (run_mode0 spin_ms onl may es softirq_load)
        else if md = 1 then map_option snd (run_mode1 spin_ms onl may es softirq_load)
        else if md = 2 then map_option snd (run_mode2 spin_ms onl may es es' softirq_load)
        else Some [(''mode'', [])])"

section \<open>Lemmas\<close>

text \<open>Where a CPU is, for the meter.\<close>

fun phase_of :: "place \<Rightarrow> phase" where
  "phase_of (Counted v) = Counting v" | "phase_of (Try v m) = Trying v m" | "phase_of Peek = Metered" | "phase_of Spin = Metered"
| "phase_of Idle = Outside" | "phase_of (First z) = Outside" | "phase_of Bump = Outside" | "phase_of Left = Outside" | "phase_of Ran = Outside"

definition phases :: "softirq \<Rightarrow> nat \<Rightarrow> phase" where
  "phases s c = phase_of (places s c)"

lemma goes_simps [simp]:
  "places (goes c p s) = (places s)(c := p)" "cur (goes c p s) = cur s" "maxcur (goes c p s) = maxcur s" "runs (goes c p s) = runs s"
  "t_first (goes c p s) = t_first s" "oob (goes c p s) = oob s" "done_cnt (goes c p s) = done_cnt s"
  by (simp_all add: goes_def)

lemmas callback_defs = enter_def mark_def bump_inc_def bump_read_def bump_cas_def peek_def spun_def ran_def cb_finish_def
  sched_many_def sched_one_def late_sched_def Let_def

text \<open>What an event does to the counters and to the place of its CPU.\<close>

fun ev_cpu :: "ev \<Rightarrow> nat" where
  "ev_cpu (Sched c) = c" | "ev_cpu (Late c) = c" | "ev_cpu (Enter c st) = c" | "ev_cpu (Mark c now) = c" | "ev_cpu (Inc c) = c"
| "ev_cpu (Rd c) = c" | "ev_cpu (Cas c) = c" | "ev_cpu (Look c st) = c" | "ev_cpu (Spun c) = c" | "ev_cpu (Count c) = c" | "ev_cpu (Finish c now) = c"

lemma ev_others: "ev_step f may e s = Some t \<Longrightarrow> c \<noteq> ev_cpu e \<Longrightarrow> places t c = places s c"
  by (cases e; cases f) (auto simp: callback_defs split: if_splits place.splits)

lemmas meter_intros = meter_move.intros

lemma ev_meter: "ev_step f may e s = Some t \<Longrightarrow>
    meter_move (phase_of (places s (ev_cpu e))) (cur s) (maxcur s) (phase_of (places t (ev_cpu e))) (cur t) (maxcur t)"
  by (cases e; cases f) (auto simp: callback_defs not_le intro: meter_intros split: if_splits place.splits)

interpretation meter: concurrency_meter "ev_step f may" phases cur maxcur ev_cpu for f may
  by unfold_locales (simp_all add: phases_def ev_others ev_meter)

section \<open>Properties\<close>

lemma meter_start: "phases (mode_start f softirq_load) c = Outside" "cur (mode_start f softirq_load) = 0" "maxcur (mode_start f softirq_load) = 0"
  by (cases f; simp add: phases_def mode_start_def reset_stats_def softirq_load_def)+

text \<open>
  C14: \<open>bump\<close> finds the true maximum: however the increments, reads and compare-and-exchanges of
  the CPUs interleave, once no CPU is in the middle of \<open>bump\<close>, \<open>maxcur\<close> is the largest number
  of CPUs that were in the callback at the same moment since the start, and \<open>cur\<close> at every
  moment is the number of CPUs inside.
\<close>

theorem bump_finds_maximum:
  assumes "run_events (ev_step f may) es (mode_start f softirq_load) = Some t" "\<forall>c. pend (phases t c) = None"
  shows "maxcur t = int (Max (set (crowds (ev_step f may) phases es (mode_start f softirq_load)))) \<and> cur t = int (card (crowd_of (phases t)))"
  using meter.finds_maximum [OF assms(1) _ _ _ assms(2)] meter_start by blast

text \<open>Two CPUs; the second reads the maximum before the first has raised it, and must retry.\<close>

definition two_at_once :: "ev list" where
  "two_at_once = [Sched 0, Sched 1, Enter 0 0, Enter 1 0, Mark 0 7, Mark 1 8, Inc 0, Inc 1, Rd 1, Rd 0, Cas 0, Cas 1, Rd 1, Cas 1]"

lemma two_at_once_run:
  "\<exists>t. run_events (ev_step Many_Fn (\<lambda>s c. True)) two_at_once (mode_start Many_Fn softirq_load) = Some t \<and>
     places t = (\<lambda>_. Idle)(0 := Peek, 1 := Peek) \<and> maxcur t = 2"
  by (simp add: two_at_once_def mode_start_def reset_stats_def softirq_load_def callback_defs goes_def)

theorem bump_finds_maximum_witness:
  "\<exists>t. run_events (ev_step Many_Fn (\<lambda>s c. True)) two_at_once (mode_start Many_Fn softirq_load) = Some t \<and>
     Max (set (crowds (ev_step Many_Fn (\<lambda>s c. True)) phases two_at_once (mode_start Many_Fn softirq_load))) = 2"
proof -
  obtain t where t: "run_events (ev_step Many_Fn (\<lambda>s c. True)) two_at_once (mode_start Many_Fn softirq_load) = Some t"
      "places t = (\<lambda>_. Idle)(0 := Peek, 1 := Peek)" "maxcur t = 2" using two_at_once_run by blast
  have "\<forall>c. pend (phases t c) = None" by (simp add: t(2) phases_def)
  with bump_finds_maximum [OF t(1)] t(1,3) show ?thesis by auto
qed

subsection \<open>A tasklet never runs twice at once\<close>

text \<open>What the kernel documents of one tasklet: it is started only while no CPU runs it.\<close>

definition one_at_a_time :: "starts \<Rightarrow> bool" where
  "one_at_a_time may \<longleftrightarrow> (\<forall>s c. may s c \<longrightarrow> (\<forall>d. places s d = Idle))"

text \<open>
  At most one CPU is in the callback, it counts itself as the first, and then \<open>maxcur\<close> is 1:
  what its place says of \<open>cur\<close>, \<open>maxcur\<close> and \<open>runs\<close>.
\<close>

fun serial_pc :: "place \<Rightarrow> int \<Rightarrow> int \<Rightarrow> int \<Rightarrow> bool" where
  "serial_pc Idle n m r = (n = 0 \<and> (m = 0 \<and> r = 0 \<or> m = 1))"
| "serial_pc (First z) n m r = (n = 0 \<and> (m = 0 \<and> r = 0 \<or> m = 1))"
| "serial_pc Bump n m r = (n = 0 \<and> (m = 0 \<and> r = 0 \<or> m = 1))"
| "serial_pc (Counted v) n m r = (n = 1 \<and> v = 1 \<and> (m = 0 \<and> r = 0 \<or> m = 1))"
| "serial_pc (Try v x) n m r = (n = 1 \<and> v = 1 \<and> x = 0 \<and> m = 0 \<and> r = 0)"
| "serial_pc Peek n m r = (n = 1 \<and> m = 1)"
| "serial_pc Spin n m r = (n = 1 \<and> m = 1)"
| "serial_pc Left n m r = (n = 0 \<and> m = 1)"
| "serial_pc Ran n m r = (n = 0 \<and> m = 1)"

definition serial_at :: "nat \<Rightarrow> softirq \<Rightarrow> bool" where
  "serial_at c s \<longleftrightarrow> (\<forall>d. d \<noteq> c \<longrightarrow> places s d = Idle) \<and> serial_pc (places s c) (cur s) (maxcur s) (runs s)"

lemma serial_pc_step:
  "ev_step f may e s = Some t \<Longrightarrow> serial_pc (places s (ev_cpu e)) (cur s) (maxcur s) (runs s) \<Longrightarrow>
    serial_pc (places t (ev_cpu e)) (cur t) (maxcur t) (runs t)"
  by (cases e; cases f) (auto simp: callback_defs split: place.splits if_splits)

lemma idle_step:
  "ev_step f may e s = Some t \<Longrightarrow> places s (ev_cpu e) = Idle \<Longrightarrow>
    (\<exists>c st. e = Enter c st \<and> may s c) \<or> places t = places s \<and> cur t = cur s \<and> maxcur t = maxcur s \<and> runs t = runs s"
  by (cases e; cases f) (auto simp: callback_defs split: if_splits)

lemma serial_step:
  assumes "one_at_a_time may" "serial_at c s" "ev_step f may e s = Some t"
  shows "\<exists>d. serial_at d t"
proof (cases "places s (ev_cpu e) = Idle \<and> (\<forall>d st. e = Enter d st \<longrightarrow> \<not> may s d)")
  case True
  with idle_step [OF assms(3)] assms(2) have "serial_at c t" by (auto simp: serial_at_def)
  then show ?thesis ..
next
  case False
  have here: "\<forall>d. d \<noteq> ev_cpu e \<longrightarrow> places s d = Idle"
  proof (cases "places s (ev_cpu e) = Idle")
    case True
    with False obtain d st where "e = Enter d st" "may s d" by blast
    then show ?thesis using assms(1) unfolding one_at_a_time_def by blast
  next
    case False
    then have "ev_cpu e = c" using assms(2) by (auto simp: serial_at_def)
    then show ?thesis using assms(2) by (simp add: serial_at_def)
  qed
  have "serial_pc (places s (ev_cpu e)) (cur s) (maxcur s) (runs s)"
  proof (cases "ev_cpu e = c")
    case False
    then have "places s c = Idle" "places s (ev_cpu e) = Idle" using here assms(2) by (auto simp: serial_at_def)
    then show ?thesis using assms(2) by (simp add: serial_at_def)
  qed (use assms(2) in \<open>simp add: serial_at_def\<close>)
  from serial_pc_step [OF assms(3) this] here ev_others [OF assms(3)] have "serial_at (ev_cpu e) t" by (simp add: serial_at_def)
  then show ?thesis ..
qed

lemma serial_start: "serial_at 0 (mode_start f softirq_load)"
  by (cases f) (simp_all add: serial_at_def mode_start_def reset_stats_def softirq_load_def)

interpretation serial: kept_by_steps "\<lambda>s. one_at_a_time may \<and> s = mode_start f softirq_load" "by_event (ev_step f may)"
    "\<lambda>s. one_at_a_time may \<and> (\<exists>c. serial_at c s)" for f may
  by unfold_locales (auto simp: by_event_def intro: serial_start serial_step)

text \<open>
  C15: Mode 1 always reaches the verdict it expects: when the kernel keeps its promise about a
  tasklet, then however many CPUs schedule it and whenever they do, \<open>maxcur\<close> never exceeds 1,
  and a run in which the callback ran at all reports that it never ran in parallel.
\<close>

theorem one_tasklet_is_serial:
  assumes "one_at_a_time may" "run_mode1 spin_ms onl may es softirq_load = Some (t, ls)"
  shows "maxcur t \<le> 1 \<and> (0 < runs t \<longrightarrow> last ls = (''  never parallel'', []))"
proof -
  have r: "run_events (ev_step One_Fn may) es (mode_start One_Fn softirq_load) = Some t" and ls: "ls = mode1_head spin_ms onl @ mode1_report onl t"
    using assms(2) by (auto simp: run_mode1_def split: if_splits)
  have "(by_event (ev_step One_Fn may))\<^sup>*\<^sup>* (mode_start One_Fn softirq_load) t"
    unfolding run_events_steps [symmetric] using r by (rule exI)
  then have "\<exists>c. serial_at c t" using serial.inv_reach assms(1) by blast
  then obtain c where "serial_at c t" ..
  then have "serial_pc (places t c) (cur t) (maxcur t) (runs t)" by (simp add: serial_at_def)
  then have "maxcur t \<le> 1" "0 < runs t \<longrightarrow> maxcur t = 1" by (cases "places t c"; auto)+
  with ls show ?thesis by (auto simp: mode1_report_def)
qed

definition whole_run :: "ev list" where
  "whole_run = [Sched 0, Sched 1, Enter 1 2, Mark 1 5, Inc 1, Rd 1, Cas 1, Look 1 2, Spun 1, Count 1, Finish 1 30]"

theorem one_tasklet_is_serial_witness:
  "\<exists>t ls. run_mode1 30 [0, 1] (\<lambda>s c. \<forall>d. places s d = Idle) whole_run softirq_load = Some (t, ls) \<and> runs t = 1 \<and>
     last ls = (''  never parallel'', [])"
proof -
  have l: "one_at_a_time (\<lambda>s c. \<forall>d. places s d = Idle)" by (simp add: one_at_a_time_def)
  have e: "on_each_cpu [0, 1] whole_run"
    by (auto simp: on_each_cpu_def scheds_def lates_def whole_run_def)
  obtain t where t: "run_events (ev_step One_Fn (\<lambda>s c. \<forall>d. places s d = Idle)) whole_run (mode_start One_Fn softirq_load) = Some t"
      "runs t = 1"
    by (simp add: whole_run_def mode_start_def reset_stats_def softirq_load_def callback_defs goes_def)
  then obtain ls where "run_mode1 30 [0, 1] (\<lambda>s c. \<forall>d. places s d = Idle) whole_run softirq_load = Some (t, ls)"
    unfolding run_mode1_def using e by (simp only: not_True_eq_False if_False) simp
  with one_tasklet_is_serial [OF l this] t(2) show ?thesis by auto
qed

subsection \<open>The retries end\<close>

lemma only_inc_enters: "ev_step f may e s = Some t \<Longrightarrow> phases s c = Outside \<Longrightarrow> phases t c \<noteq> Outside \<Longrightarrow> e = Inc c"
  by (cases e; cases f) (auto simp: phases_def callback_defs split: if_splits place.splits)

text \<open>
  The loop of \<open>bump\<close> ends after few rounds, whatever the other CPUs do: a CPU that has just
  counted itself loses its compare and exchange at most as often as there are CPUs inside,
  less the maximum already recorded.
\<close>

theorem bump_retries_bounded:
  assumes "run_events (ev_step f may) es (mode_start f softirq_load) = Some s" "ev_step f may (Inc c) s = Some t"
    and "run_events (ev_step f may) es' t = Some u" "Inc c \<notin> set es'"
  shows "int (lost (ev_step f may) phases c es' t) \<le> max 0 (int (card (crowd_of (phases t))) - maxcur s)"
proof -
  obtain P where s: "level_ok (phases s) (cur s)" "peak_ok P (phases s) (cur s) (maxcur s)"
    using meter.from_start [OF assms(1)] meter_start by blast
  from meter.step_ok [OF assms(2) s]
  have t: "level_ok (phases t) (cur t)" "peak_ok (max P (cur t)) (phases t) (cur t) (maxcur t)" by blast+
  have "gap (phases t c) (maxcur t) = nat (cur t - maxcur s)" using assms(2) by (auto simp: gap_def phases_def bump_inc_def split: if_splits)
  moreover have "lost (ev_step f may) phases c es' t \<le> gap (phases t c) (maxcur t)"
  proof (rule add_leD1, rule meter.lost_le_gap [OF assms(3) t])
    show "\<forall>e\<in>set es'. \<forall>s t. ev_step f may e s = Some t \<longrightarrow> \<not> (phases s c = Outside \<and> phases t c \<noteq> Outside)"
      using assms(4) by (auto dest: only_inc_enters)
  qed
  ultimately show ?thesis using t(1) by (simp add: level_ok_def)
qed

theorem bump_retries_bounded_witness:
  "\<exists>s t u. run_events (ev_step Many_Fn (\<lambda>s c. True)) (take 7 two_at_once) (mode_start Many_Fn softirq_load) = Some s \<and>
     ev_step Many_Fn (\<lambda>s c. True) (Inc 1) s = Some t \<and> run_events (ev_step Many_Fn (\<lambda>s c. True)) (drop 8 two_at_once) t = Some u \<and>
     lost (ev_step Many_Fn (\<lambda>s c. True)) phases 1 (drop 8 two_at_once) t = 1 \<and> int 1 \<le> max 0 (int (card (crowd_of (phases t))) - maxcur s)"
proof -
  obtain s t u where s: "run_events (ev_step Many_Fn (\<lambda>s c. True)) (take 7 two_at_once) (mode_start Many_Fn softirq_load) = Some s"
      "ev_step Many_Fn (\<lambda>s c. True) (Inc 1) s = Some t" "run_events (ev_step Many_Fn (\<lambda>s c. True)) (drop 8 two_at_once) t = Some u"
      "lost (ev_step Many_Fn (\<lambda>s c. True)) phases 1 (drop 8 two_at_once) t = 1"
    by (simp add: two_at_once_def mode_start_def reset_stats_def softirq_load_def callback_defs goes_def phases_def)
  moreover have "Inc 1 \<notin> set (drop 8 two_at_once)" by (simp add: two_at_once_def)
  ultimately show ?thesis using bump_retries_bounded [OF s(1,2,3)] by metis
qed

text \<open>
  On a machine with more than eight CPUs the module writes past its arrays: \<open>MAXCPU\<close> is 8 and
  \<open>on_each_cpu\<close> reaches every CPU.
\<close>

lemma ninth_cpu_out_of_bounds: "8 \<le> c \<Longrightarrow> oob (sched_many c s) \<and> oob (mark f c z now s)"
  by (cases f) (simp_all add: sched_many_def mark_def Let_def goes_def MAXCPU_def)

end
