(* ===== verification/Wq_Probe.thy ===== *)
theory Wq_Probe
  imports Meter Proc_Files
begin

section \<open>wq\_probe.c: how many workers a work queue uses\<close>

text \<open>
  The module queues up to 32 works that sleep or burn time, lets the kernel's worker threads run
  them, and reports which thread ran each, how many ran at once, and how long it took. The
  works run interleaved, each shared access a step; when the kernel lets a work start is the
  parameter \<open>may\<close>. \<open>system_wq\<close> and the module's own queues differ only in that parameter.
\<close>

definition MAXW :: nat where "MAXW = 32"
definition MSEC_NS :: u64 where "MSEC_NS = 1000000"

record probe_work =
  idx :: int
  wcpu :: int
  wcomm :: string
  wpid :: int
  pre_count :: u32
  in_task :: int
  in_intr :: int
  t_start :: u64
  t_end :: u64
  slept_ok :: int

definition zero_work :: probe_work where
  "zero_work = \<lparr>idx = 0, wcpu = 0, wcomm = [], wpid = 0, pre_count = 0, in_task = 0, in_intr = 0, t_start = 0, t_end = 0, slept_ok = 0\<rparr>"

datatype wplace =
    W_None \<comment> \<open>not queued\<close>
  | W_Queued | W_Bump | W_Counted int | W_Try int int | W_Work | W_Left | W_Ended | W_Done

record wq =
  pw :: "nat \<Rightarrow> probe_work"
  remaining :: int
  all_done :: bool
  concur :: int
  maxconcur :: int
  t0_global :: u64
  wplaces :: "nat \<Rightarrow> wplace"

definition wgoes :: "nat \<Rightarrow> wplace \<Rightarrow> wq \<Rightarrow> wq" where
  "wgoes i p s = s\<lparr>wplaces := (wplaces s)(i := p)\<rparr>"

definition upd_work :: "nat \<Rightarrow> (probe_work \<Rightarrow> probe_work) \<Rightarrow> wq \<Rightarrow> wq" where
  "upd_work i f s = s\<lparr>pw := (pw s)(i := f (pw s i))\<rparr>"

subsection \<open>The kernel's workers\<close>

text \<open>
  \<open>list_kworkers\<close> over the processes as (name, pid): the count, and the text that fits into
  \<open>n\<close> bytes. \<open>scnprintf\<close> returns what it wrote.
\<close>

definition kworker_pfx :: "int \<Rightarrow> string" where
  "kworker_pfx c = take 15 (''kworker/'' @ show_int c @ '':'')"

definition kworker_text :: "string \<times> int \<Rightarrow> string" where
  "kworker_text p = fst p @ ''('' @ show_int (snd p) @ '') ''"

fun list_from :: "string \<Rightarrow> nat \<Rightarrow> (string \<times> int) list \<Rightarrow> int \<Rightarrow> string \<Rightarrow> int \<times> string" where
  "list_from pfx n [] cnt out = (cnt, out)"
| "list_from pfx n (p # ps) cnt out =
     (if take (length pfx) (fst p) \<noteq> pfx then list_from pfx n ps cnt out
      else list_from pfx n ps (cnt + 1) (if length out < n - 1 then out @ take (n - length out - 1) (kworker_text p) else out))"

definition list_kworkers :: "int \<Rightarrow> nat \<Rightarrow> (string \<times> int) list \<Rightarrow> int \<times> string" where
  "list_kworkers c n ps = list_from (kworker_pfx c) n ps 0 []"

subsection \<open>The works\<close>

text \<open>What a work sees when it starts: CPU, thread name and pid, counters, the time.\<close>

record seen_by =
  s_cpu :: int
  s_comm :: string
  s_pid :: int
  s_pc :: u32
  s_task :: int
  s_intr :: int

definition work_begin :: "nat \<Rightarrow> seen_by \<Rightarrow> u64 \<Rightarrow> wq \<Rightarrow> wq" where
  "work_begin i b ns s = wgoes i W_Bump (upd_work i (\<lambda>p. p\<lparr>wcpu := s_cpu b, wcomm := take 15 (s_comm b), wpid := s_pid b,
      pre_count := s_pc b, in_task := s_task b, in_intr := s_intr b, t_start := ns\<rparr>) s)"

definition wbump_inc :: "nat \<Rightarrow> wq \<Rightarrow> wq" where
  "wbump_inc i s = wgoes i (W_Counted (concur s + 1)) (s\<lparr>concur := concur s + 1\<rparr>)"

definition wbump_read :: "nat \<Rightarrow> int \<Rightarrow> wq \<Rightarrow> wq" where
  "wbump_read i v s = wgoes i (if v \<le> maxconcur s then W_Work else W_Try v (maxconcur s)) s"

definition wbump_cas :: "nat \<Rightarrow> int \<Rightarrow> int \<Rightarrow> wq \<Rightarrow> wq" where
  "wbump_cas i v m s = (if maxconcur s = m then wgoes i W_Work (s\<lparr>maxconcur := v\<rparr>) else wgoes i (W_Counted v) s)"

text \<open>\<open>work_sleep_fn\<close> notes that its sleep returned; \<open>work_burn_fn\<close> has no such line.\<close>

definition work_left :: "bool \<Rightarrow> nat \<Rightarrow> wq \<Rightarrow> wq" where
  "work_left sleeps i s = wgoes i W_Left ((if sleeps then upd_work i (\<lambda>p. p\<lparr>slept_ok := 1\<rparr>) s else s)\<lparr>concur := concur s - 1\<rparr>)"

definition work_end :: "nat \<Rightarrow> u64 \<Rightarrow> wq \<Rightarrow> wq" where
  "work_end i ns s = wgoes i W_Ended (upd_work i (\<lambda>p. p\<lparr>t_end := ns\<rparr>) s)"

definition work_done :: "nat \<Rightarrow> wq \<Rightarrow> wq" where
  "work_done i s = wgoes i W_Done (s\<lparr>remaining := remaining s - 1, all_done := all_done s \<or> remaining s - 1 = 0\<rparr>)"

datatype wqev = W_Begin nat seen_by u64 | W_Inc nat | W_Rd nat | W_Cas nat | W_Wake nat | W_Stamp nat u64 | W_Finish nat

fun wq_step :: "bool \<Rightarrow> (wq \<Rightarrow> nat \<Rightarrow> bool) \<Rightarrow> wqev \<Rightarrow> wq \<Rightarrow> wq option" where
  "wq_step sl may (W_Begin i b ns) s = (if wplaces s i = W_Queued \<and> may s i then Some (work_begin i b ns s) else None)"
| "wq_step sl may (W_Inc i) s = (if wplaces s i = W_Bump then Some (wbump_inc i s) else None)"
| "wq_step sl may (W_Rd i) s = (case wplaces s i of W_Counted v \<Rightarrow> Some (wbump_read i v s) | _ \<Rightarrow> None)"
| "wq_step sl may (W_Cas i) s = (case wplaces s i of W_Try v m \<Rightarrow> Some (wbump_cas i v m s) | _ \<Rightarrow> None)"
| "wq_step sl may (W_Wake i) s = (if wplaces s i = W_Work then Some (work_left sl i s) else None)"
| "wq_step sl may (W_Stamp i ns) s = (if wplaces s i = W_Left then Some (work_end i ns s) else None)"
| "wq_step sl may (W_Finish i) s = (if wplaces s i = W_Ended then Some (work_done i s) else None)"

subsection \<open>The report\<close>

text \<open>\<open>seen\<close>, \<open>distinct\<close> and \<open>last\<close> of \<open>report\<close>, work by work.\<close>

fun report_scan :: "probe_work list \<Rightarrow> int list \<Rightarrow> u64 \<Rightarrow> int list \<times> u64" where
  "report_scan [] seen lst = (seen, lst)"
| "report_scan (p # ps) seen lst =
     report_scan ps (if wpid p \<notin> set seen \<and> wpid p \<noteq> 0 then seen @ [wpid p] else seen) (if lst < t_end p then t_end p else lst)"

definition work_line :: "u64 \<Rightarrow> probe_work \<Rightarrow> line" where
  "work_line t0 p = (''%-4d %-4d %-18s %-7d 0x%08x %-10llu %-10llu %d / %d'',
     [I (idx p), I (wcpu p), S (wcomm p), I (wpid p), U32 (pre_count p), U ((t_start p - t0) div MSEC_NS), U ((t_end p - t0) div MSEC_NS),
      I (in_task p), I (in_intr p)])"

definition report :: "string \<Rightarrow> int \<Rightarrow> int \<Rightarrow> wq \<Rightarrow> line list" where
  "report title nwork unit s =
     (let ps = map (pw s) [0..<nat nwork]; (seen, lst) = report_scan ps [] 0 in
      [([], []), (''---------------- %s ----------------'', [S title]), (''%-4s %-4s %-18s %-7s %-11s %-10s %-10s %s'', [])]
      @ map (work_line (t0_global s)) ps
      @ [([], []), (''  worker = %d'', [I (int (length seen))]), (''  work = %d'', [I (maxconcur s)]),
         (''  = %llu ms'', [U ((lst - t0_global s) div MSEC_NS)]), (''  = %d ms'', [I (to_int (nwork * unit))])])"

subsection \<open>The modes\<close>

text \<open>Queueing: every work is cleared, numbered and queued.\<close>

definition queue_works :: "int \<Rightarrow> u64 \<Rightarrow> wq \<Rightarrow> wq" where
  "queue_works nwork t0 s = s\<lparr>remaining := nwork, concur := 0, maxconcur := 0, all_done := False, t0_global := t0,
     pw := (\<lambda>i. if i < nat nwork then zero_work\<lparr>idx := int i\<rparr> else pw s i),
     wplaces := (\<lambda>i. if i < nat nwork then W_Queued else W_None)\<rparr>"

text \<open>
  Modes 0 and 1: the processes before and in the middle; \<open>es\<close> and \<open>es'\<close>: the events up to the
  middle and up to the end of the wait.
\<close>

definition run_shared ::
  "bool \<Rightarrow> int \<Rightarrow> int \<Rightarrow> int \<Rightarrow> (string \<times> int) list \<Rightarrow> (string \<times> int) list \<Rightarrow> (wq \<Rightarrow> nat \<Rightarrow> bool) \<Rightarrow> u64 \<Rightarrow> wqev list \<Rightarrow> wqev list \<Rightarrow> wq
    \<Rightarrow> (wq \<times> int \<times> int \<times> line list) option" where
  "run_shared sl nwork ms c before mid may t0 es es' s =
     (let (b, btext) = list_kworkers c 512 before; (a, atext) = list_kworkers c 512 mid in
      Option.bind (run_events (wq_step sl may) es (queue_works nwork t0 s)) (\<lambda>t.
        map_option (\<lambda>u. (u, b, a, [(''mode %d work %d ms cpu%d'', [I nwork, I ms, I c]), (''  cpu%d kworker %d: %s'', [I c, I b, S btext]),
            (''  cpu%d kworker %d: %s'', [I c, I a, S atext])]
            @ report (if sl then ''Q13'' else ''Q12'') nwork ms u))
          (run_events (wq_step sl may) es' t)))"

definition wq_mode0 ::
  "int \<Rightarrow> int \<Rightarrow> int \<Rightarrow> (string \<times> int) list \<Rightarrow> (string \<times> int) list \<Rightarrow> (wq \<Rightarrow> nat \<Rightarrow> bool) \<Rightarrow> u64 \<Rightarrow> wqev list \<Rightarrow> wqev list \<Rightarrow> wq
    \<Rightarrow> (wq \<times> line list) option" where
  "wq_mode0 nwork sleep_ms c before mid may t0 es es' s =
     map_option (\<lambda>(u, b, a, ls). (u, ls @ [([], []), (''  cpu%d kworker %d %d (%d)'', [I c, I b, I a, I (a - b)]), (''  CMWQ'', []),
         (''    wq_worker_sleeping()'', []), (''    wake_up_worker()'', []), (''    N'', []), (''    kernel/workqueue.c'', [])]))
       (run_shared True nwork sleep_ms c before mid may t0 es es' s)"

definition wq_mode1 ::
  "int \<Rightarrow> int \<Rightarrow> int \<Rightarrow> (string \<times> int) list \<Rightarrow> (string \<times> int) list \<Rightarrow> (wq \<Rightarrow> nat \<Rightarrow> bool) \<Rightarrow> u64 \<Rightarrow> wqev list \<Rightarrow> wqev list \<Rightarrow> wq
    \<Rightarrow> (wq \<times> line list) option" where
  "wq_mode1 nwork burn_ms c before mid may t0 es es' s =
     map_option (\<lambda>(u, b, a, ls). (u, ls @ [([], []), (''  kworker %d %d'', [I b, I a]), (''  keep_working()'', []), (''    worker'', []),
         (''    N %d ms worker pid'', [I burn_ms])]))
       (run_shared False nwork burn_ms c before mid may t0 es es' s)"

text \<open>Modes 2 and 3; \<open>got\<close>: the queue could be allocated.\<close>

definition run_wq_mode ::
  "string \<Rightarrow> bool \<Rightarrow> int \<Rightarrow> bool \<Rightarrow> int \<Rightarrow> int \<Rightarrow> (wq \<Rightarrow> nat \<Rightarrow> bool) \<Rightarrow> u64 \<Rightarrow> wqev list \<Rightarrow> wq \<Rightarrow> (wq \<times> line list) option" where
  "run_wq_mode title got max_active ordered nwork sleep_ms may t0 es s =
     (if \<not> got then Some (s, [(''alloc_workqueue'', [])])
      else map_option (\<lambda>u. (u, report title nwork sleep_ms u
          @ [([], []), (''  max_active = %d (ordered max_active=1 UNBOUND)'', [I (if ordered then 1 else max_active)]),
             (''    pool_workqueue nr_active pwq->inactive_works'', []), (''    6.1 delayed_works'', [])]))
        (run_events (wq_step True may) es (queue_works nwork t0 s)))"

definition nwork_used :: "int \<Rightarrow> int" where
  "nwork_used n = (if int MAXW < n then int MAXW else n)"

text \<open>
  \<open>wq_probe_init\<close>: the three tests of its own context, then the mode. \<open>wq_probe_exit\<close> waits for
  the module's own queue only.
\<close>

definition wq_probe_init :: "int \<Rightarrow> int \<Rightarrow> int \<Rightarrow> int \<Rightarrow> int \<Rightarrow> int \<Rightarrow> int \<Rightarrow> u32 \<Rightarrow> (int \<Rightarrow> line list) \<Rightarrow> line list" where
  "wq_probe_init md nwork sleep_ms burn_ms c task intr pcount body =
     (let n = nwork_used nwork in
      [(''================'', []), (''wq_probe.ko  mode=%d nwork=%d sleep_ms=%d burn_ms=%d cpu_target=%d'', [I md, I n, I sleep_ms, I burn_ms, I c]),
       (''Q10 insmod in_task()=%d in_interrupt()=%d preempt_count=0x%08x'', [I task, I intr, U32 pcount]), (''================'', [])]
      @ (if md \<in> {0, 1, 2, 3} then body n else [(''mode'', [])]))"

definition wq_probe_exit :: "bool \<Rightarrow> wq \<Rightarrow> bool" where
  "wq_probe_exit own s \<longleftrightarrow> (own \<longrightarrow> (\<forall>i<MAXW. wplaces s i = W_None \<or> wplaces s i = W_Done))"

section \<open>Lemmas\<close>

fun wphase_of :: "wplace \<Rightarrow> phase" where
  "wphase_of (W_Counted v) = Counting v" | "wphase_of (W_Try v m) = Trying v m" | "wphase_of W_Work = Metered"
| "wphase_of W_None = Outside" | "wphase_of W_Queued = Outside" | "wphase_of W_Bump = Outside" | "wphase_of W_Left = Outside"
| "wphase_of W_Ended = Outside" | "wphase_of W_Done = Outside"

definition wphases :: "wq \<Rightarrow> nat \<Rightarrow> phase" where
  "wphases s i = wphase_of (wplaces s i)"

lemma wgoes_simps [simp]:
  "wplaces (wgoes i p s) = (wplaces s)(i := p)" "concur (wgoes i p s) = concur s" "maxconcur (wgoes i p s) = maxconcur s"
  "remaining (wgoes i p s) = remaining s" "all_done (wgoes i p s) = all_done s" "pw (wgoes i p s) = pw s"
  "wplaces (upd_work i f s) = wplaces s" "concur (upd_work i f s) = concur s" "maxconcur (upd_work i f s) = maxconcur s"
  "remaining (upd_work i f s) = remaining s" "all_done (upd_work i f s) = all_done s"
  by (simp_all add: wgoes_def upd_work_def)

lemmas work_defs = work_begin_def wbump_inc_def wbump_read_def wbump_cas_def work_left_def work_end_def work_done_def

fun wq_agent :: "wqev \<Rightarrow> nat" where
  "wq_agent (W_Begin i b ns) = i" | "wq_agent (W_Inc i) = i" | "wq_agent (W_Rd i) = i" | "wq_agent (W_Cas i) = i" | "wq_agent (W_Wake i) = i"
| "wq_agent (W_Stamp i ns) = i" | "wq_agent (W_Finish i) = i"

lemma wq_others: "wq_step sl may e s = Some t \<Longrightarrow> j \<noteq> wq_agent e \<Longrightarrow> wplaces t j = wplaces s j"
  by (cases e) (auto simp: work_defs split: if_splits wplace.splits)

lemma wq_meter: "wq_step sl may e s = Some t \<Longrightarrow>
    meter_move (wphase_of (wplaces s (wq_agent e))) (concur s) (maxconcur s) (wphase_of (wplaces t (wq_agent e))) (concur t) (maxconcur t)"
  by (cases e) (auto simp: work_defs not_le intro: meter_move.intros split: if_splits wplace.splits)

interpretation wqm: concurrency_meter "wq_step sl may" wphases concur maxconcur wq_agent for sl may
  by unfold_locales (simp_all add: wphases_def wq_others wq_meter)

section \<open>Properties\<close>

fun busy :: "wplace \<Rightarrow> bool" where
  "busy W_None = False" | "busy W_Queued = False" | "busy W_Done = False" | "busy W_Bump = True" | "busy (W_Counted v) = True"
| "busy (W_Try v m) = True" | "busy W_Work = True" | "busy W_Left = True" | "busy W_Ended = True"

text \<open>What the kernel documents of \<open>max_active\<close>: a work starts only while fewer are active.\<close>

definition active_limit :: "nat \<Rightarrow> (wq \<Rightarrow> nat \<Rightarrow> bool) \<Rightarrow> bool" where
  "active_limit n may \<longleftrightarrow> (\<forall>s i. may s i \<longrightarrow> card {j. busy (wplaces s j)} < n)"

lemma crowd_busy: "crowd_of (wphases s) \<subseteq> {j. busy (wplaces s j)}"
proof
  fix j assume "j \<in> crowd_of (wphases s)"
  then show "j \<in> {j. busy (wplaces s j)}" by (cases "wplaces s j") (simp_all add: crowd_of_def wphases_def)
qed

definition busy_ok :: "nat \<Rightarrow> wq \<Rightarrow> bool" where
  "busy_ok n s \<longleftrightarrow> finite {j. busy (wplaces s j)} \<and> card {j. busy (wplaces s j)} \<le> n"

lemma busy_step:
  assumes "wq_step sl may e s = Some t"
  shows "busy (wplaces t (wq_agent e)) \<Longrightarrow> busy (wplaces s (wq_agent e)) \<or> may s (wq_agent e)"
  using assms by (cases e) (auto simp: work_defs split: if_splits wplace.splits)

lemma busy_ok_step:
  assumes "active_limit n may" "busy_ok n s" "wq_step sl may e s = Some t"
  shows "busy_ok n t"
proof -
  let ?i = "wq_agent e" and ?A = "{j. busy (wplaces s j)}" and ?B = "{j. busy (wplaces t j)}"
  have sub: "?B \<subseteq> insert ?i ?A" using wq_others [OF assms(3)] by auto
  then have fin: "finite ?B" using assms(2) finite_subset by (auto simp: busy_ok_def)
  have "card ?B \<le> n"
  proof (cases "?B \<subseteq> ?A")
    case True
    then have "card ?B \<le> card ?A" using assms(2) by (intro card_mono) (simp_all add: busy_ok_def)
    then show ?thesis using assms(2) by (simp add: busy_ok_def)
  next
    case False
    then have "busy (wplaces t ?i)" "\<not> busy (wplaces s ?i)" using sub by auto
    then have "card ?A < n" using busy_step [OF assms(3)] assms(1) by (auto simp: active_limit_def)
    moreover have "card ?B \<le> Suc (card ?A)"
      using card_mono [OF _ sub] assms(2) card_insert_le_m1 by (auto simp: busy_ok_def card_insert_if split: if_splits)
    ultimately show ?thesis by simp
  qed
  with fin show ?thesis by (simp add: busy_ok_def)
qed

lemma crowds_limited:
  "active_limit n may \<Longrightarrow> busy_ok n s \<Longrightarrow> \<forall>k\<in>set (crowds (wq_step sl may) wphases es s). k \<le> n"
proof (induction es arbitrary: s)
  case Nil
  then show ?case using card_mono [OF _ crowd_busy [of s]] by (auto simp: busy_ok_def)
next
  case (Cons e es)
  have "card (crowd_of (wphases s)) \<le> n" using card_mono [OF _ crowd_busy [of s]] Cons.prems(2) by (auto simp: busy_ok_def)
  then show ?case using Cons.IH busy_ok_step [OF Cons.prems] Cons.prems(1) by (cases "wq_step sl may e s") auto
qed

lemma queue_start: "wphases (queue_works nwork t0 s) i = Outside" "concur (queue_works nwork t0 s) = 0" "maxconcur (queue_works nwork t0 s) = 0"
    "busy_ok n (queue_works nwork t0 s)"
  by (simp_all add: wphases_def queue_works_def busy_ok_def)

text \<open>
  The queue's limit is what the module measures: when the kernel keeps its promise about
  \<open>max_active\<close>, then in every run of modes 2 and 3, finished or cut short by the timeout, the
  reported maximum is at most that limit, so an ordered queue is seen to run one work at a
  time.
\<close>

theorem max_active_measured:
  assumes "active_limit n may" "run_wq_mode title True max_active ordered nwork sleep_ms may t0 es s = Some (t, ls)"
  shows "maxconcur t \<le> int n"
proof -
  have "run_events (wq_step True may) es (queue_works nwork t0 s) = Some t"
    using assms(2) by (auto simp: run_wq_mode_def)
  from wqm.high_le [OF this _ _ _ crowds_limited [OF assms(1)]] show ?thesis
    using queue_start by blast
qed

text \<open>Two works, one at a time.\<close>

definition ordered_run :: "wqev list" where
  "ordered_run = concat (map (\<lambda>i. [W_Begin i \<lparr>s_cpu = 3, s_comm = ''kworker/u16:1'', s_pid = 77, s_pc = 0, s_task = 1, s_intr = 0\<rparr> 10,
     W_Inc i, W_Rd i, W_Cas i, W_Wake i, W_Stamp i 30, W_Finish i]) [1])
   @ concat (map (\<lambda>i. [W_Begin i \<lparr>s_cpu = 3, s_comm = ''kworker/u16:1'', s_pid = 77, s_pc = 0, s_task = 1, s_intr = 0\<rparr> 40,
     W_Inc i, W_Rd i, W_Wake i, W_Stamp i 60, W_Finish i]) [0])"

definition wq_load :: wq where
  "wq_load = \<lparr>pw = (\<lambda>_. zero_work), remaining = 0, all_done = False, concur = 0, maxconcur = 0, t0_global = 0, wplaces = (\<lambda>_. W_None)\<rparr>"

definition one_active :: "wq \<Rightarrow> nat \<Rightarrow> bool" where
  "one_active s i \<longleftrightarrow> (\<forall>j. \<not> busy (wplaces s j))"

lemma one_active_limit: "active_limit 1 one_active"
  by (simp add: active_limit_def one_active_def)

lemma ordered_runs:
  "\<exists>t. run_events (wq_step True one_active) ordered_run (queue_works 2 5 wq_load) = Some t \<and> maxconcur t = 1 \<and> all_done t"
  by (simp add: ordered_run_def queue_works_def wq_load_def work_defs wgoes_def upd_work_def one_active_def)

theorem max_active_measured_witness:
  "\<exists>t ls. run_wq_mode ''ordered'' True 1 True 2 200 one_active 5 ordered_run wq_load = Some (t, ls) \<and> maxconcur t = 1 \<and> maxconcur t \<le> int 1"
proof -
  obtain t where t: "run_events (wq_step True one_active) ordered_run (queue_works 2 5 wq_load) = Some t" "maxconcur t = 1"
    using ordered_runs by blast
  then obtain ls where "run_wq_mode ''ordered'' True 1 True 2 200 one_active 5 ordered_run wq_load = Some (t, ls)"
    by (simp add: run_wq_mode_def)
  with max_active_measured [OF one_active_limit this] t(2) show ?thesis by blast
qed


subsection \<open>The completion\<close>

definition done_ok :: "nat \<Rightarrow> wq \<Rightarrow> bool" where
  "done_ok n s \<longleftrightarrow> remaining s = int (card {i. i < n \<and> wplaces s i \<noteq> W_Done}) \<and> (\<forall>i\<ge>n. wplaces s i = W_None) \<and>
     (all_done s \<longleftrightarrow> 0 < n \<and> remaining s = 0)"

lemma done_ok_step:
  assumes "done_ok n s" "wq_step sl may e s = Some t"
  shows "done_ok n t"
proof (cases "\<exists>i. e = W_Finish i")
  case True
  then obtain i where e: "e = W_Finish i" "wplaces s i = W_Ended" "t = work_done i s" using assms(2) by (auto split: if_splits)
  let ?A = "{j. j < n \<and> wplaces s j \<noteq> W_Done}"
  have i: "i < n" using e(2) assms(1) by (metis done_ok_def not_le wplace.distinct(13))
  have B: "{j. j < n \<and> wplaces t j \<noteq> W_Done} = ?A - {i}" using e by (auto simp: work_done_def)
  have "card ?A = Suc (card (?A - {i}))" using i e(2) by (intro card.remove) auto
  then have r: "remaining t = int (card {j. j < n \<and> wplaces t j \<noteq> W_Done})" "0 < remaining s" "remaining t = remaining s - 1"
    using assms(1) e(3) unfolding B by (simp_all add: done_ok_def work_done_def)
  have "\<forall>j\<ge>n. wplaces t j = W_None" using i e assms(1) by (auto simp: done_ok_def work_done_def)
  moreover have "all_done t \<longleftrightarrow> 0 < n \<and> remaining t = 0" using r(2) i e(3) assms(1) by (auto simp: done_ok_def work_done_def)
  ultimately show ?thesis using r(1) by (simp add: done_ok_def)
next
  case False
  let ?i = "wq_agent e"
  have f: "remaining t = remaining s" "all_done t = all_done s" "wplaces t ?i \<noteq> W_Done" "wplaces s ?i \<noteq> W_Done" "wplaces s ?i \<noteq> W_None"
    using assms(2) False by (cases e; auto simp: work_defs split: if_splits wplace.splits)+
  have i: "?i < n" using f(5) assms(1) by (metis done_ok_def not_le)
  have "wplaces t j \<noteq> W_Done \<longleftrightarrow> wplaces s j \<noteq> W_Done" for j
    using f(3,4) wq_others [OF assms(2), of j] by (cases "j = ?i") auto
  moreover have "\<forall>j\<ge>n. wplaces t j = W_None" using i wq_others [OF assms(2)] assms(1) by (auto simp: done_ok_def)
  ultimately show ?thesis using assms(1) f by (simp add: done_ok_def)
qed

interpretation wqd: kept_by_steps "\<lambda>s. \<exists>nwork t0 s0. s = queue_works nwork t0 s0 \<and> n = nat nwork \<and> 0 \<le> nwork" "by_event (wq_step sl may)" "done_ok n"
  for n sl may
proof
  fix s assume "\<exists>nwork t0 s0. s = queue_works nwork t0 s0 \<and> n = nat nwork \<and> 0 \<le> nwork"
  then show "done_ok n s" by (auto simp: done_ok_def queue_works_def)
next
  fix s t assume "done_ok n s" "by_event (wq_step sl may) s t"
  then show "done_ok n t" using done_ok_step by (auto simp: by_event_def)
qed

text \<open>
  The completion fires exactly when the last work is done. With a negative number of works,
  which the module does not refuse, it never fires.
\<close>

lemma completion_exact:
  assumes "0 < nwork" "run_events (wq_step sl may) es (queue_works nwork t0 s) = Some t"
  shows "all_done t \<longleftrightarrow> (\<forall>i<nat nwork. wplaces t i = W_Done)"
proof -
  have "(by_event (wq_step sl may))\<^sup>*\<^sup>* (queue_works nwork t0 s) t"
    unfolding run_events_steps [symmetric] using assms(2) by (rule exI)
  then have "done_ok (nat nwork) t" using wqd.inv_reach assms(1) by (metis less_imp_le)
  then have "all_done t \<longleftrightarrow> {i. i < nat nwork \<and> wplaces t i \<noteq> W_Done} = {}"
    using assms(1) by (auto simp: done_ok_def)
  then show ?thesis by blast
qed

subsection \<open>The report\<close>

text \<open>The scan collects the thread ids without repetition, and the latest end.\<close>

lemma report_scan_exact:
  "distinct seen \<Longrightarrow> case report_scan ps seen lst of (seen', lst') \<Rightarrow>
     distinct seen' \<and> set seen' = set seen \<union> (wpid ` set ps - {0}) \<and> lst \<le> lst' \<and> (\<forall>p\<in>set ps. t_end p \<le> lst') \<and>
     (lst' = lst \<or> lst' \<in> t_end ` set ps)"
proof (induction ps seen lst rule: report_scan.induct)
  case (2 p ps seen lst)
  let ?s = "if wpid p \<notin> set seen \<and> wpid p \<noteq> 0 then seen @ [wpid p] else seen" and ?l = "if lst < t_end p then t_end p else lst"
  have "distinct ?s" using 2(2) by auto
  moreover have "set ?s = set seen \<union> ({wpid p} - {0})" by auto
  moreover have "lst \<le> ?l" "t_end p \<le> ?l" "?l = lst \<or> ?l = t_end p" by auto
  ultimately show ?case using 2(1) by (auto split: prod.splits)
qed auto

text \<open>
  The list of kernel workers that fits: the count is of all processes with the prefix, the text
  is the front of their names, cut to the buffer.
\<close>

lemma list_from_exact:
  "length out < n \<Longrightarrow> list_from pfx n ps cnt out =
     (let hits = filter (\<lambda>p. take (length pfx) (fst p) = pfx) ps
      in (cnt + int (length hits), take (n - 1) (out @ concat (map kworker_text hits))))"
proof (induction ps arbitrary: cnt out)
  case Nil
  then show ?case by simp
next
  case (Cons p ps)
  show ?case
  proof (cases "take (length pfx) (fst p) = pfx")
    case True
    let ?o = "if length out < n - 1 then out @ take (n - length out - 1) (kworker_text p) else out"
    have "length ?o < n" using Cons.prems by auto
    moreover have "take (n - 1) (?o @ xs) = take (n - 1) (out @ kworker_text p @ xs)" for xs
      using Cons.prems by (auto simp: min_def)
    ultimately show ?thesis using True Cons.IH [of ?o] by (simp add: Let_def)
  next
    case False
    then show ?thesis using Cons by (simp add: Let_def)
  qed
qed

end
