(* ===== verification/Lock_Bench.thy ===== *)
theory Lock_Bench
  imports Runs Proc_Files
begin

section \<open>lock\_bench.c: threads that count under a lock\<close>

text \<open>
  In its second and third modes the module starts threads that take a lock, add one to a shared
  \<open>int\<close> and release it, as often as the time allows, and compares the kinds of lock. The two
  accesses of the increment are two steps, so that increments without a lock could be lost.
  When a lock is granted is the kernel's business: the parameter \<open>grant\<close>, of a thread and a
  state. The first mode watches the lock word while four threads use one lock.
\<close>

subsection \<open>The lock word\<close>

text \<open>The masks and offsets of the kernel's header are arguments.\<close>

record qlayout =
  locked_mask :: u32
  pending_mask :: u32
  pending_offset :: nat
  tail_idx_mask :: u32
  tail_idx_offset :: nat
  tail_cpu_mask :: u32
  tail_cpu_offset :: nat

definition show_triple :: "qlayout \<Rightarrow> string \<Rightarrow> u32 \<Rightarrow> line" where
  "show_triple q tag v =
     (let locked = v AND locked_mask q; pending = drop_bit (pending_offset q) (v AND pending_mask q);
          tidx = drop_bit (tail_idx_offset q) (v AND tail_idx_mask q); tcpu = drop_bit (tail_cpu_offset q) (v AND tail_cpu_mask q)
      in if tcpu \<noteq> 0
         then (''  %-22s val=0x%08x  {tail=CPU%d, tail_idx=%u, pending=%u, locked=%u}'',
                 [S tag, U32 v, I (to_int (sint tcpu - 1)), U32 tidx, U32 pending, U32 locked])
         else (''  %-22s val=0x%08x  {tail=--,   tail_idx=%u, pending=%u, locked=%u}'', [S tag, U32 v, U32 tidx, U32 pending, U32 locked]))"

subsection \<open>Threads under a lock\<close>

datatype lock_kind = L_SPIN | L_MUTEX | L_RWSEM_R | L_RWSEM_W | L_ATOMIC | L_RCU

definition lock_kinds :: "lock_kind list" where
  "lock_kinds = [L_SPIN, L_MUTEX, L_RWSEM_R, L_RWSEM_W, L_ATOMIC, L_RCU]"

fun lname :: "lock_kind \<Rightarrow> string" where
  "lname L_SPIN = ''spinlock''" | "lname L_MUTEX = ''mutex''" | "lname L_RWSEM_R = ''rwsem(R)''" | "lname L_RWSEM_W = ''rwsem(W)''"
| "lname L_ATOMIC = ''atomic_inc''" | "lname L_RCU = ''rcu_read_lock''"

datatype bpc =
    Out \<comment> \<open>not created, or finished\<close>
  | Fresh
  | Top \<comment> \<open>at the loop test\<close>
  | Want
  | Held
  | Fetched u32 \<comment> \<open>holds the lock and the value read\<close>
  | Stored
  | Round \<comment> \<open>the lock is released, the round not yet counted\<close>

record bench =
  bl_shared :: u32
  bl_atomic :: u32
  ops :: "nat \<Rightarrow> u64"
  t_nvcsw :: "nat \<Rightarrow> u64"
  t_nivcsw :: "nat \<Rightarrow> u64"
  running :: int
  bpcs :: "nat \<Rightarrow> bpc"
  bn :: "nat \<Rightarrow> u64" \<comment> \<open>each thread's own counter\<close>

definition bgo :: "nat \<Rightarrow> bpc \<Rightarrow> bench \<Rightarrow> bench" where
  "bgo i p s = s\<lparr>bpcs := (bpcs s)(i := p)\<rparr>"

text \<open>The kinds whose round writes \<open>bl_shared\<close>, and those whose lock excludes.\<close>

definition writes_shared :: "lock_kind \<Rightarrow> bool" where
  "writes_shared k \<longleftrightarrow> k \<in> {L_SPIN, L_MUTEX, L_RWSEM_W}"

text \<open>\<open>nv\<close> and \<open>niv\<close>: the thread's context switch counts at that time.\<close>

definition bench_enter :: "nat \<Rightarrow> u64 \<Rightarrow> u64 \<Rightarrow> bench \<Rightarrow> bench" where
  "bench_enter i nv niv s = bgo i Top (s\<lparr>t_nvcsw := (t_nvcsw s)(i := nv), t_nivcsw := (t_nivcsw s)(i := niv), bn := (bn s)(i := 0)\<rparr>)"

definition bench_test :: "nat \<Rightarrow> bool \<Rightarrow> u64 \<Rightarrow> u64 \<Rightarrow> bench \<Rightarrow> bench" where
  "bench_test i before nv niv s =
     (if before then bgo i Want s
      else bgo i Out (s\<lparr>ops := (ops s)(i := bn s i), t_nvcsw := (t_nvcsw s)(i := nv - t_nvcsw s i),
             t_nivcsw := (t_nivcsw s)(i := niv - t_nivcsw s i), running := running s - 1\<rparr>))"

definition bench_acquire :: "lock_kind \<Rightarrow> nat \<Rightarrow> bench \<Rightarrow> bench" where
  "bench_acquire k i s = (if k = L_ATOMIC then bgo i Round (s\<lparr>bl_atomic := bl_atomic s + 1\<rparr>) else bgo i Held s)"

definition bench_fetch :: "lock_kind \<Rightarrow> nat \<Rightarrow> bench \<Rightarrow> bench" where
  "bench_fetch k i s = (if writes_shared k then bgo i (Fetched (bl_shared s)) s else bgo i Stored s)"

definition bench_store :: "nat \<Rightarrow> u32 \<Rightarrow> bench \<Rightarrow> bench" where
  "bench_store i v s = bgo i Stored (s\<lparr>bl_shared := v + 1\<rparr>)"

definition bench_count :: "nat \<Rightarrow> bench \<Rightarrow> bench" where
  "bench_count i s = bgo i Top (s\<lparr>bn := (bn s)(i := bn s i + 1)\<rparr>)"

datatype bev = B_Enter nat u64 u64 | B_Test nat bool u64 u64 | B_Acquire nat | B_Fetch nat | B_Store nat | B_Release nat | B_Count nat

fun bench_step :: "lock_kind \<Rightarrow> (bench \<Rightarrow> nat \<Rightarrow> bool) \<Rightarrow> bev \<Rightarrow> bench \<Rightarrow> bench option" where
  "bench_step k grant (B_Enter i nv niv) s = (if bpcs s i = Fresh then Some (bench_enter i nv niv s) else None)"
| "bench_step k grant (B_Test i before nv niv) s = (if bpcs s i = Top then Some (bench_test i before nv niv s) else None)"
| "bench_step k grant (B_Acquire i) s = (if bpcs s i = Want \<and> (k = L_ATOMIC \<or> grant s i) then Some (bench_acquire k i s) else None)"
| "bench_step k grant (B_Fetch i) s = (if bpcs s i = Held then Some (bench_fetch k i s) else None)"
| "bench_step k grant (B_Store i) s = (case bpcs s i of Fetched v \<Rightarrow> Some (bench_store i v s) | _ \<Rightarrow> None)"
| "bench_step k grant (B_Release i) s = (if bpcs s i = Stored then Some (bgo i Round s) else None)"
| "bench_step k grant (B_Count i) s = (if bpcs s i = Round then Some (bench_count i s) else None)"

subsection \<open>One measurement\<close>

text \<open>
  \<open>run_one_bench\<close> before the threads run: \<open>made i\<close> says that \<open>kthread_create\<close> succeeded for
  thread \<open>i\<close>. \<open>memset\<close> clears \<open>ops\<close> only.
\<close>

definition MAXT :: nat where "MAXT = 16"

definition bench_begin :: "nat \<Rightarrow> (nat \<Rightarrow> bool) \<Rightarrow> bench \<Rightarrow> bench" where
  "bench_begin nthr made s = s\<lparr>running := int (length (filter made [0..<nthr])),
     ops := (\<lambda>i. if i < MAXT then 0 else ops s i), bpcs := (\<lambda>i. if i < nthr \<and> made i then Fresh else Out)\<rparr>"

definition sum_of :: "(nat \<Rightarrow> u64) \<Rightarrow> nat \<Rightarrow> u64" where
  "sum_of f nthr = sum_list (map f [0..<nthr])"

text \<open>The line printed when all have finished; a division by zero ends the run.\<close>

definition bench_line :: "lock_kind \<Rightarrow> nat \<Rightarrow> int \<Rightarrow> bench \<Rightarrow> line option" where
  "bench_line k nthr ms s =
     (let total = sum_of (ops s) nthr; wms = word_of_int ms; wn = of_nat nthr in
      if wms = (0 :: u64) \<or> wn = (0 :: u64) then None
      else Some (''  %-14s %2d %4d ms : %9lu = %7lu %lu %lu'',
        [S (lname k), I (int nthr), I ms, U total, U (total div wms div wn), U (sum_of (t_nvcsw s) nthr), U (sum_of (t_nivcsw s) nthr)]))"

definition run_one_bench ::
  "int \<Rightarrow> lock_kind \<Rightarrow> (bench \<Rightarrow> nat \<Rightarrow> bool) \<Rightarrow> nat \<Rightarrow> (nat \<Rightarrow> bool) \<Rightarrow> bev list \<Rightarrow> bench \<Rightarrow> (bench \<times> line) option" where
  "run_one_bench ms k grant nthr made es s =
     Option.bind (run_events (bench_step k grant) es (bench_begin nthr made s))
       (\<lambda>t. if 0 < running t then None else map_option (Pair t) (bench_line k nthr ms t))"

definition clampi :: "int \<Rightarrow> int \<Rightarrow> int \<Rightarrow> int" where
  "clampi v lo hi = min (max v lo) hi"

definition bench_nthr :: "int \<Rightarrow> int \<Rightarrow> nat" where
  "bench_nthr nthread cpus = nat (clampi nthread 1 (min (int MAXT) (cpus - 1)))"

definition optspin_nthr :: "int \<Rightarrow> int \<Rightarrow> nat" where
  "optspin_nthr nthread cpus = nat (clampi nthread 2 (min (int MAXT) (cpus - 1)))"

text \<open>The CPU a thread is bound to: all but the last one, which is kept for the system.\<close>

definition bound_to :: "int \<Rightarrow> nat \<Rightarrow> nat" where
  "bound_to cpus i = i mod nat (max 1 (cpus - 1))"

text \<open>One measurement after the other; for each, which threads could be made and the events.\<close>

fun bench_all ::
  "int \<Rightarrow> (lock_kind \<Rightarrow> bench \<Rightarrow> nat \<Rightarrow> bool) \<Rightarrow> nat \<Rightarrow> (lock_kind \<times> (nat \<Rightarrow> bool) \<times> bev list) list \<Rightarrow> bench \<Rightarrow> (bench \<times> line list) option" where
  "bench_all ms grant nthr [] s = Some (s, [])"
| "bench_all ms grant nthr ((k, made, es) # rest) s =
     Option.bind (run_one_bench ms k (grant k) nthr made es s)
       (\<lambda>(t, l). map_option (\<lambda>(u, ls). (u, l # ls)) (bench_all ms grant nthr rest t))"

definition run_bench ::
  "int \<Rightarrow> int \<Rightarrow> int \<Rightarrow> (lock_kind \<Rightarrow> bench \<Rightarrow> nat \<Rightarrow> bool) \<Rightarrow> (lock_kind \<times> (nat \<Rightarrow> bool) \<times> bev list) list
    \<Rightarrow> (lock_kind \<times> (nat \<Rightarrow> bool) \<times> bev list) list \<Rightarrow> bench \<Rightarrow> (bench \<times> line list) option" where
  "run_bench nthread cpus ms grant one many s =
     (let nthr = bench_nthr nthread cpus in
      if map fst one \<noteq> lock_kinds \<or> map fst many \<noteq> lock_kinds then None
      else Option.bind (bench_all ms grant 1 one s) (\<lambda>(t, ls).
        map_option (\<lambda>(u, ls'). (u, [(''  ---'', [])] @ ls @ [(''  --- %d'', [I (int nthr)])] @ ls')) (bench_all ms grant nthr many t)))"

subsection \<open>Optimistic spinning\<close>

text \<open>
  The threads of the third mode do the same rounds with a mutex and a wait inside. The report
  gives the voluntary switches for each time the lock was taken.
\<close>

definition optspin_lines :: "bool \<Rightarrow> nat \<Rightarrow> bench \<Rightarrow> line list" where
  "optspin_lines sleeps nthr s =
     (let total = sum_of (ops s) nthr; vcsw = sum_of (t_nvcsw s) nthr in
      [(''  %s : %6lu %5lu %lu'', [S (if sleeps then ''(usleep 200us)'' else ''(udelay 5us)''), U total, U vcsw, U (sum_of (t_nivcsw s) nthr)]),
       (''      %lu.%02lu'', [U (if total \<noteq> 0 then vcsw * 100 div total div 100 else 0), U (if total \<noteq> 0 then vcsw * 100 div total mod 100 else 0)])])"

definition run_optspin_case ::
  "bool \<Rightarrow> (bench \<Rightarrow> nat \<Rightarrow> bool) \<Rightarrow> nat \<Rightarrow> (nat \<Rightarrow> bool) \<Rightarrow> bev list \<Rightarrow> bench \<Rightarrow> (bench \<times> line list) option" where
  "run_optspin_case sleeps grant nthr made es s =
     Option.bind (run_events (bench_step L_MUTEX grant) es (bench_begin nthr made s))
       (\<lambda>t. if 0 < running t then None else Some (t, optspin_lines sleeps nthr t))"

definition run_optspin ::
  "int \<Rightarrow> int \<Rightarrow> int \<Rightarrow> bool \<Rightarrow> (bench \<Rightarrow> nat \<Rightarrow> bool) \<Rightarrow> (nat \<Rightarrow> bool) \<times> bev list \<Rightarrow> (nat \<Rightarrow> bool) \<times> bev list \<Rightarrow> bench
    \<Rightarrow> (bench \<times> line list) option" where
  "run_optspin nthread cpus ms spin_on_owner grant c0 c1 s =
     (let nthr = optspin_nthr nthread cpus in
      Option.bind (run_optspin_case False grant nthr (fst c0) (snd c0) s) (\<lambda>(t, ls).
        map_option (\<lambda>(u, ls'). (u, [(''  CONFIG_MUTEX_SPIN_ON_OWNER = %s'', [S (if spin_on_owner then ''y'' else ''n'')]),
             (''  %d mutex %d ms'', [I (int nthr), I ms])] @ ls @ ls'))
          (run_optspin_case True grant nthr (fst c1) (snd c1) t)))"

subsection \<open>Watching the lock word\<close>

text \<open>
  Thread 0 is the holder, 1 to 3 the contenders. \<open>v\<close> in an event is the lock word as the thread
  reads it, \<open>c\<close> the CPU, \<open>us\<close> the microseconds waited.
\<close>

datatype wpc = W_Start | W_Try | W_Held | W_End | W_Out

record watch =
  wpcs :: "nat \<Rightarrow> wpc"
  sampled :: "int option" \<comment> \<open>the monitor's next sample\<close>
  args_left :: "nat set" \<comment> \<open>the \<open>watch_arg\<close>s not yet freed\<close>
  wrunning :: int
  wlog :: "line list"

definition wsay :: "line list \<Rightarrow> watch \<Rightarrow> watch" where
  "wsay ls s = s\<lparr>wlog := wlog s @ ls\<rparr>"

definition wgo :: "nat \<Rightarrow> wpc \<Rightarrow> watch \<Rightarrow> watch" where
  "wgo i p s = s\<lparr>wpcs := (wpcs s)(i := p)\<rparr>"

definition holder_start :: "int \<Rightarrow> int \<Rightarrow> watch \<Rightarrow> watch" where
  "holder_start hold_ms c s = wsay [(''  [holder] CPU%d %d ms'', [I c, I hold_ms])] (wgo 0 W_Try s)"

definition holder_lock :: "qlayout \<Rightarrow> u32 \<Rightarrow> watch \<Rightarrow> watch" where
  "holder_lock q v s = wsay [show_triple q ''holder locked'' v] (wgo 0 W_Held s)"

definition holder_unlock :: "qlayout \<Rightarrow> u32 \<Rightarrow> watch \<Rightarrow> watch" where
  "holder_unlock q v s = wsay [show_triple q ''holder unlocks'' v] (wgo 0 W_End s)"

definition holder_end :: "int \<Rightarrow> watch \<Rightarrow> watch" where
  "holder_end c s = wsay [(''  [holder] CPU%d'', [I c])] (wgo 0 W_Out (s\<lparr>wrunning := wrunning s - 1\<rparr>))"

definition contender_start :: "nat \<Rightarrow> int \<Rightarrow> watch \<Rightarrow> watch" where
  "contender_start i c s = wsay [(''  [contender%d] CPU%d'', [I (int i), I c])] (wgo i W_Try s)"

definition contender_lock :: "nat \<Rightarrow> int \<Rightarrow> u64 \<Rightarrow> watch \<Rightarrow> watch" where
  "contender_lock i c ns s = wsay [(''  [contender%d] CPU%d %llu us'', [I (int i), I c, U (ns div 1000)])] (wgo i W_Held s)"

definition contender_end :: "nat \<Rightarrow> watch \<Rightarrow> watch" where
  "contender_end i s = wgo i W_Out (s\<lparr>args_left := args_left s - {i}, wrunning := wrunning s - 1\<rparr>)"

text \<open>One round of \<open>watch_monitor\<close>, \<open>hold_ms / 10 + 6\<close> samples in all.\<close>

definition monitor_round :: "qlayout \<Rightarrow> int \<Rightarrow> u32 \<Rightarrow> int \<Rightarrow> watch \<Rightarrow> watch" where
  "monitor_round q hold_ms v n s =
     (if n < (if 0 \<le> hold_ms then hold_ms div 10 else - (- hold_ms div 10)) + 6
      then wsay [show_triple q (''t='' @ show_int (n * 10) @ ''ms'') v] (s\<lparr>sampled := Some (n + 1)\<rparr>)
      else s\<lparr>sampled := None, wrunning := wrunning s - 1\<rparr>)"

datatype wev = H_Start int | H_Lock u32 | H_Unlock u32 | H_End int | C_Start nat int | C_Lock nat int u64 | C_Unlock nat | C_End nat | Monitor u32

fun watch_step :: "qlayout \<Rightarrow> int \<Rightarrow> (watch \<Rightarrow> nat \<Rightarrow> bool) \<Rightarrow> wev \<Rightarrow> watch \<Rightarrow> watch option" where
  "watch_step q h grant (H_Start c) s = (if wpcs s 0 = W_Start then Some (holder_start h c s) else None)"
| "watch_step q h grant (H_Lock v) s = (if wpcs s 0 = W_Try \<and> grant s 0 then Some (holder_lock q v s) else None)"
| "watch_step q h grant (H_Unlock v) s = (if wpcs s 0 = W_Held then Some (holder_unlock q v s) else None)"
| "watch_step q h grant (H_End c) s = (if wpcs s 0 = W_End then Some (holder_end c s) else None)"
| "watch_step q h grant (C_Start i c) s = (if i \<noteq> 0 \<and> wpcs s i = W_Start then Some (contender_start i c s) else None)"
| "watch_step q h grant (C_Lock i c ns) s = (if i \<noteq> 0 \<and> wpcs s i = W_Try \<and> grant s i then Some (contender_lock i c ns s) else None)"
| "watch_step q h grant (C_Unlock i) s = (if i \<noteq> 0 \<and> wpcs s i = W_Held then Some (wgo i W_End s) else None)"
| "watch_step q h grant (C_End i) s = (if i \<noteq> 0 \<and> wpcs s i = W_End then Some (contender_end i s) else None)"
| "watch_step q h grant (Monitor v) s = (case sampled s of None \<Rightarrow> None | Some n \<Rightarrow> Some (monitor_round q h v n s))"

text \<open>\<open>got\<close>: how many of the three contenders' arguments \<open>kmalloc\<close> returned before it failed.\<close>

definition watch_begin :: "qlayout \<Rightarrow> u32 \<Rightarrow> nat \<Rightarrow> watch" where
  "watch_begin q v got = \<lparr>wpcs = (\<lambda>i. if i \<le> min 3 got then W_Start else W_Out), sampled = Some 0, args_left = {1..min 3 got},
     wrunning = 2 + int (min 3 got), wlog = [(''== Q12/Q15/Q16'', []), (''  {tail, pending, locked} cpu+1'', []), show_triple q ''start'' v]\<rparr>"

definition run_watch :: "qlayout \<Rightarrow> int \<Rightarrow> (watch \<Rightarrow> nat \<Rightarrow> bool) \<Rightarrow> u32 \<Rightarrow> nat \<Rightarrow> wev list \<Rightarrow> u32 \<Rightarrow> watch option" where
  "run_watch q h grant v got es v' =
     Option.bind (run_events (watch_step q h grant) es (watch_begin q v got))
       (\<lambda>s. if 0 < wrunning s then None
            else Some (wsay [show_triple q ''end'' v', (''    {0,0,1} atomic_try_cmpxchg_acquire'', []), (''    {0,1,1} pending MCS'', []),
                (''    {CPUn,0,1,1} MCS tail'', []), (''    tail mcs_node'', [])] s))"

definition lock_bench_init :: "int \<Rightarrow> line list \<Rightarrow> line list \<Rightarrow> line list \<Rightarrow> line list" where
  "lock_bench_init md w b o2 = [(''######## mode=%d ########'', [I md])]
     @ (if md = 0 then w else if md = 1 then b else if md = 2 then o2 else [(''mode 0/1/2'', [])]) @ [(''######## done ########'', [])]"

section \<open>Lemmas\<close>

lemma down_cast: "ucast (a + b :: u64) = (ucast a + ucast b :: u32)"
proof transfer
  fix a b :: int
  show "take_bit LENGTH(32) (take_bit LENGTH(64) (a + b)) = take_bit LENGTH(32) (take_bit LENGTH(64) a + take_bit LENGTH(64) b)"
    by (subst (2) take_bit_add [symmetric]) (simp add: take_bit_add)
qed

lemma sum_point:
  fixes f g :: "nat \<Rightarrow> 'a::ab_group_add"
  assumes "i < n" "\<And>j. j \<noteq> i \<Longrightarrow> g j = f j"
  shows "(\<Sum>j<n. g j) = (\<Sum>j<n. f j) + (g i - f i)"
proof -
  have "(\<Sum>j<n. g j) = g i + (\<Sum>j\<in>{..<n} - {i}. g j)" using assms(1) by (intro sum.remove) auto
  also have "(\<Sum>j\<in>{..<n} - {i}. g j) = (\<Sum>j\<in>{..<n} - {i}. f j)" using assms(2) by (intro sum.cong) auto
  also have "\<dots> = (\<Sum>j<n. f j) - f i" using assms(1) by (simp add: sum_diff1)
  finally show ?thesis by simp
qed

lemma sum_of_eq: "sum_of f n = (\<Sum>i<n. f i)"
  by (simp add: sum_of_def interv_sum_list_conv_sum_set_nat lessThan_atLeast0)

fun holding :: "bpc \<Rightarrow> bool" where
  "holding Held = True" | "holding (Fetched v) = True" | "holding Stored = True" | "holding Out = False" | "holding Fresh = False"
| "holding Top = False" | "holding Want = False" | "holding Round = False"

text \<open>The rounds of a thread that have done their addition.\<close>

fun share_at :: "bpc \<Rightarrow> u64 \<Rightarrow> u64 \<Rightarrow> u64" where
  "share_at Out n k = k" | "share_at Fresh n k = 0" | "share_at Top n k = n" | "share_at Want n k = n" | "share_at Held n k = n"
| "share_at (Fetched v) n k = n" | "share_at Stored n k = n + 1" | "share_at Round n k = n + 1"

definition share :: "bench \<Rightarrow> nat \<Rightarrow> u64" where
  "share s i = share_at (bpcs s i) (bn s i) (ops s i)"

definition tally :: "lock_kind \<Rightarrow> bench \<Rightarrow> u32" where
  "tally k s = (if k = L_ATOMIC then bl_atomic s else bl_shared s)"

text \<open>A lock that excludes is granted only while no thread holds it; an atomic needs none.\<close>

definition excludes :: "lock_kind \<Rightarrow> (bench \<Rightarrow> nat \<Rightarrow> bool) \<Rightarrow> bool" where
  "excludes k grant \<longleftrightarrow> k = L_ATOMIC \<or> writes_shared k \<and> (\<forall>s i. grant s i \<longrightarrow> (\<forall>j. \<not> holding (bpcs s j)))"

definition bench_ok :: "lock_kind \<Rightarrow> nat \<Rightarrow> u32 \<Rightarrow> bench \<Rightarrow> bool" where
  "bench_ok k nthr base s \<longleftrightarrow>
     (\<forall>i j. holding (bpcs s i) \<longrightarrow> holding (bpcs s j) \<longrightarrow> i = j) \<and> (k = L_ATOMIC \<longrightarrow> (\<forall>i. \<not> holding (bpcs s i))) \<and>
     (\<forall>i v. bpcs s i = Fetched v \<longrightarrow> v = bl_shared s) \<and> (\<forall>i\<ge>nthr. bpcs s i = Out) \<and>
     tally k s = base + ucast (\<Sum>i<nthr. share s i) \<and>
     running s = (\<Sum>i<nthr. of_bool (bpcs s i \<noteq> Out))"

fun bev_thread :: "bev \<Rightarrow> nat" where
  "bev_thread (B_Enter i nv niv) = i" | "bev_thread (B_Test i b nv niv) = i" | "bev_thread (B_Acquire i) = i" | "bev_thread (B_Fetch i) = i"
| "bev_thread (B_Store i) = i" | "bev_thread (B_Release i) = i" | "bev_thread (B_Count i) = i"

lemmas bench_defs = bench_enter_def bench_test_def bench_acquire_def bench_fetch_def bench_store_def bench_count_def bgo_def

lemma bench_others:
  assumes "bench_step k grant e s = Some t" "j \<noteq> bev_thread e"
  shows "bpcs t j = bpcs s j" "share t j = share s j"
  using assms by (cases e; auto simp: bench_defs share_def split: if_splits bpc.splits)+

lemma bench_own:
  assumes "bench_step k grant e s = Some t" "writes_shared k \<or> k = L_ATOMIC" "k = L_ATOMIC \<longrightarrow> \<not> holding (bpcs s (bev_thread e))"
    and "\<forall>v. bpcs s (bev_thread e) = Fetched v \<longrightarrow> v = bl_shared s"
  shows "ucast (share t (bev_thread e) - share s (bev_thread e)) = tally k t - tally k s"
    and "running t - running s = of_bool (bpcs t (bev_thread e) \<noteq> Out) - of_bool (bpcs s (bev_thread e) \<noteq> Out)"
    and "bpcs s (bev_thread e) \<noteq> Out"
    and "holding (bpcs t (bev_thread e)) \<Longrightarrow> holding (bpcs s (bev_thread e)) \<or> k \<noteq> L_ATOMIC \<and> grant s (bev_thread e)"
    and "bpcs t (bev_thread e) = Fetched v \<Longrightarrow> v = bl_shared t"
    and "bl_shared t = bl_shared s \<or> holding (bpcs s (bev_thread e))"
  using assms by (cases e; auto simp: bench_defs share_def tally_def writes_shared_def split: if_splits bpc.splits)+


lemma bench_ok_step:
  assumes "excludes k grant" "bench_ok k nthr base s" "bench_step k grant e s = Some t"
  shows "bench_ok k nthr base t"
proof -
  let ?i = "bev_thread e"
  have w: "writes_shared k \<or> k = L_ATOMIC" using assms(1) by (auto simp: excludes_def)
  have one: "\<And>i j. holding (bpcs s i) \<Longrightarrow> holding (bpcs s j) \<Longrightarrow> i = j" and at: "\<And>i. k = L_ATOMIC \<Longrightarrow> \<not> holding (bpcs s i)"
    and val: "\<And>i v. bpcs s i = Fetched v \<Longrightarrow> v = bl_shared s" and out: "\<And>i. nthr \<le> i \<Longrightarrow> bpcs s i = Out"
    and tal: "tally k s = base + ucast (\<Sum>i<nthr. share s i)" and run: "running s = (\<Sum>i<nthr. of_bool (bpcs s i \<noteq> Out))"
    using assms(2) unfolding bench_ok_def by blast+
  note own = bench_own [OF assms(3) w] and others = bench_others [OF assms(3)]
  have o1: "ucast (share t ?i - share s ?i) = tally k t - tally k s"
      "running t - running s = of_bool (bpcs t ?i \<noteq> Out) - of_bool (bpcs s ?i \<noteq> Out)" "bpcs s ?i \<noteq> Out"
      "bl_shared t = bl_shared s \<or> holding (bpcs s ?i)"
    and got: "holding (bpcs t ?i) \<Longrightarrow> holding (bpcs s ?i) \<or> k \<noteq> L_ATOMIC \<and> grant s ?i"
    and val': "\<And>v. bpcs t ?i = Fetched v \<Longrightarrow> v = bl_shared t"
    using own at val by blast+
  have i: "?i < nthr" using o1(3) out by (meson leI)
  have alone: "j = ?i" if "holding (bpcs t ?i)" "holding (bpcs t j)" for j
  proof (rule ccontr)
    assume j: "j \<noteq> ?i"
    then have "holding (bpcs s j)" using that(2) others(1) by simp
    then show False using got [OF that(1)] one j assms(1) by (auto simp: excludes_def)
  qed
  have "i = j" if "holding (bpcs t i)" "holding (bpcs t j)" for i j
  proof (cases "i = ?i \<or> j = ?i")
    case False
    then show ?thesis using that others(1) one by metis
  qed (use alone that in blast)
  moreover have "\<not> holding (bpcs t j)" if "k = L_ATOMIC" for j
    using at [OF that] got that others(1) [of j] by (cases "j = ?i") auto
  moreover have "v = bl_shared t" if "bpcs t j = Fetched v" for j v
  proof (cases "j = ?i")
    case False
    then have s: "bpcs s j = Fetched v" using that others(1) by simp
    moreover have "\<not> holding (bpcs s ?i)" using one [of j ?i] s False by auto
    ultimately show ?thesis using val o1(4) by auto
  qed (use val' that in simp)
  moreover have "bpcs t j = Out" if "nthr \<le> j" for j
    using that i others(1) [of j] out [of j] by auto
  moreover have "tally k t = base + ucast (\<Sum>i<nthr. share t i)"
  proof -
    have "(\<Sum>i<nthr. share t i) = (\<Sum>i<nthr. share s i) + (share t ?i - share s ?i)"
      using i others(2) by (intro sum_point) auto
    then have "(ucast (\<Sum>i<nthr. share t i) :: u32) = ucast (\<Sum>i<nthr. share s i) + ucast (share t ?i - share s ?i)"
      by (simp add: down_cast)
    then show ?thesis unfolding o1(1) tal by simp
  qed
  moreover have "running t = (\<Sum>i<nthr. of_bool (bpcs t i \<noteq> Out))"
  proof -
    have "(\<Sum>i<nthr. of_bool (bpcs t i \<noteq> Out)) = (\<Sum>i<nthr. of_bool (bpcs s i \<noteq> Out) :: int) + (of_bool (bpcs t ?i \<noteq> Out) - of_bool (bpcs s ?i \<noteq> Out))"
      using i others(1) by (intro sum_point) auto
    then show ?thesis using run o1(2) by simp
  qed
  ultimately show ?thesis unfolding bench_ok_def by blast
qed

section \<open>Properties\<close>

lemma bench_ok_begin:
  assumes "nthr \<le> MAXT"
  shows "bench_ok k nthr (tally k s) (bench_begin nthr made s)"
proof -
  have "share (bench_begin nthr made s) i = 0" if "i < nthr" for i
    using that assms by (simp add: share_def bench_begin_def)
  moreover have "int (length (filter made [0..<nthr])) = (\<Sum>i<nthr. of_bool (made i))"
    by (induction nthr) auto
  moreover have "(\<Sum>i<nthr. of_bool (bpcs (bench_begin nthr made s) i \<noteq> Out)) = (\<Sum>i<nthr. of_bool (made i) :: int)"
    by (intro sum.cong) (auto simp: bench_begin_def)
  moreover have "\<not> holding (bpcs (bench_begin nthr made s) i)" "bpcs (bench_begin nthr made s) i \<noteq> Fetched v" for i v
    by (simp_all add: bench_begin_def)
  ultimately show ?thesis
    by (auto simp: bench_ok_def bench_begin_def tally_def)
qed

interpretation bench: kept_by_steps "\<lambda>u. excludes k grant \<and> nthr \<le> MAXT \<and> (\<exists>made s. u = bench_begin nthr made s \<and> base = tally k s)"
    "by_event (bench_step k grant)" "\<lambda>s. excludes k grant \<and> bench_ok k nthr base s" for k grant nthr base
  by unfold_locales (auto simp: by_event_def intro: bench_ok_begin bench_ok_step)

text \<open>
  C16: No addition is lost: under every kind of lock that excludes, and with the atomic counter,
  whatever threads could be created and however their accesses interleave, when the
  measurement is over every thread has finished and the shared counter has grown by exactly
  the total of the rounds that is printed.
\<close>

theorem no_addition_lost:
  assumes "excludes k grant" "nthr \<le> MAXT" "run_one_bench ms k grant nthr made es s = Some (t, l)"
  shows "tally k t = tally k s + ucast (sum_of (ops t) nthr) \<and> (\<forall>i. bpcs t i = Out)"
proof -
  have r: "run_events (bench_step k grant) es (bench_begin nthr made s) = Some t" and over: "running t \<le> 0"
    using assms(3) by (auto simp: run_one_bench_def bind_eq_Some_conv split: if_splits)
  have "(by_event (bench_step k grant))\<^sup>*\<^sup>* (bench_begin nthr made s) t"
    unfolding run_events_steps [symmetric] using r by (rule exI)
  from bench.inv_reach [OF _ this] have ok: "bench_ok k nthr (tally k s) t" using assms(1,2) by blast
  then have run: "(\<Sum>i<nthr. of_bool (bpcs t i \<noteq> Out) :: int) \<le> 0" and tal: "tally k t = tally k s + ucast (\<Sum>i<nthr. share t i)"
    and rest: "\<forall>i\<ge>nthr. bpcs t i = Out" using over by (simp_all add: bench_ok_def)
  have "(\<Sum>i<nthr. of_bool (bpcs t i \<noteq> Out) :: int) = 0" by (rule antisym [OF run]) (simp add: sum_nonneg)
  then have "\<forall>i\<in>{..<nthr}. of_bool (bpcs t i \<noteq> Out) = (0 :: int)"
    by (subst (asm) sum_nonneg_eq_0_iff) auto
  then have out: "\<forall>i. bpcs t i = Out" using rest by (metis lessThan_iff not_le of_bool_eq_0_iff)
  then have "(\<Sum>i<nthr. share t i) = sum_of (ops t) nthr" unfolding sum_of_eq by (intro sum.cong) (auto simp: share_def)
  with tal out show ?thesis by simp
qed

definition two_rounds :: "bev list" where
  "two_rounds = [B_Enter 0 5 1, B_Enter 1 9 2, B_Test 0 True 0 0, B_Test 1 True 0 0, B_Acquire 1, B_Fetch 1, B_Store 1, B_Release 1,
     B_Acquire 0, B_Fetch 0, B_Count 1, B_Store 0, B_Release 0, B_Count 0, B_Test 0 False 8 1, B_Test 1 False 10 2]"

definition idle_bench :: bench where
  "idle_bench = \<lparr>bl_shared = 0, bl_atomic = 0, ops = (\<lambda>_. 0), t_nvcsw = (\<lambda>_. 0), t_nivcsw = (\<lambda>_. 0), running = 0, bpcs = (\<lambda>_. Out), bn = (\<lambda>_. 0)\<rparr>"

definition free_lock :: "bench \<Rightarrow> nat \<Rightarrow> bool" where
  "free_lock s i \<longleftrightarrow> (\<forall>j. \<not> holding (bpcs s j))"

lemma two_rounds_run:
  "\<exists>t. run_events (bench_step L_SPIN free_lock) two_rounds (bench_begin 2 (\<lambda>_. True) idle_bench) = Some t \<and>
     ops t 0 = 1 \<and> ops t 1 = 1 \<and> running t = 0"
proof -
  have "free_lock s i \<longleftrightarrow> \<not> holding (bpcs s 0) \<and> \<not> holding (bpcs s 1)" if "\<forall>j\<ge>2. bpcs s j = Out" for s i
    using that unfolding free_lock_def by (metis One_nat_def Suc_1 holding.simps(4) less_2_cases not_less)
  then show ?thesis
    by (simp add: two_rounds_def bench_begin_def idle_bench_def bench_defs writes_shared_def upt_conv_Cons)
qed

theorem no_addition_lost_witness:
  "\<exists>t l. run_one_bench 100 L_SPIN free_lock 2 (\<lambda>_. True) two_rounds idle_bench = Some (t, l) \<and> bl_shared t = 2"
proof -
  have e: "excludes L_SPIN free_lock" by (simp add: excludes_def writes_shared_def free_lock_def)
  obtain t where t: "run_events (bench_step L_SPIN free_lock) two_rounds (bench_begin 2 (\<lambda>_. True) idle_bench) = Some t"
    "ops t 0 = 1" "ops t 1 = 1" "running t = 0" using two_rounds_run by blast
  then obtain l where l: "run_one_bench 100 L_SPIN free_lock 2 (\<lambda>_. True) two_rounds idle_bench = Some (t, l)"
    by (simp add: run_one_bench_def bench_line_def Let_def)
  have "sum_of (ops t) 2 = 2" using t(2,3) by (simp add: sum_of_def upt_conv_Cons)
  with no_addition_lost [OF e _ l] l show ?thesis by (auto simp: MAXT_def tally_def idle_bench_def)
qed

text \<open>On a machine with one CPU the number of threads is clamped to none, and the report divides by it.\<close>

lemma bench_one_cpu: "bench_nthr nthread 1 = 0 \<and> bench_line k (bench_nthr nthread 1) ms s = None"
  by (simp add: bench_nthr_def clampi_def bench_line_def MAXT_def)

text \<open>A thread that could not be created contributes the switches its slot holds from before.\<close>

lemma stale_switches:
  assumes "run_events (bench_step k grant) es (bench_begin nthr made s) = Some t" "\<not> made i"
  shows "t_nvcsw t i = t_nvcsw s i \<and> bpcs t i = Out"
proof -
  have "t_nvcsw v i = t_nvcsw u i \<and> bpcs v i = Out" if "bench_step k grant e u = Some v" "bpcs u i = Out" for e u v
    using that by (cases e) (auto simp: bench_defs split: if_splits bpc.splits)
  note step = this
  have "t_nvcsw t i = t_nvcsw u i \<and> bpcs t i = Out" if "run_events (bench_step k grant) es u = Some t" "bpcs u i = Out" for u
    using that
  proof (induction es arbitrary: u)
    case (Cons e es)
    then obtain v where "bench_step k grant e u = Some v" "run_events (bench_step k grant) es v = Some t" by (auto simp: bind_eq_Some_conv)
    with Cons.IH [of v] step [of e u v] Cons.prems(2) show ?case by simp
  qed simp
  from this [OF assms(1)] show ?thesis using assms(2) by (simp add: bench_begin_def)
qed

subsection \<open>The watched lock\<close>

definition watch_grants :: "(watch \<Rightarrow> nat \<Rightarrow> bool) \<Rightarrow> bool" where
  "watch_grants grant \<longleftrightarrow> (\<forall>s i. grant s i \<longrightarrow> (\<forall>j. wpcs s j \<noteq> W_Held))"

definition watch_ok :: "watch \<Rightarrow> bool" where
  "watch_ok s \<longleftrightarrow> (\<forall>i>3. wpcs s i = W_Out) \<and> args_left s = {i. i \<noteq> 0 \<and> wpcs s i \<noteq> W_Out} \<and>
     wrunning s = of_bool (sampled s \<noteq> None) + (\<Sum>i<4. of_bool (wpcs s i \<noteq> W_Out)) \<and>
     (\<forall>i j. wpcs s i = W_Held \<longrightarrow> wpcs s j = W_Held \<longrightarrow> i = j)"

fun wev_thread :: "wev \<Rightarrow> nat" where
  "wev_thread (H_Start c) = 0" | "wev_thread (H_Lock v) = 0" | "wev_thread (H_Unlock v) = 0" | "wev_thread (H_End c) = 0"
| "wev_thread (C_Start i c) = i" | "wev_thread (C_Lock i c ns) = i" | "wev_thread (C_Unlock i) = i" | "wev_thread (C_End i) = i" | "wev_thread (Monitor v) = 0"

lemmas watch_defs = holder_start_def holder_lock_def holder_unlock_def holder_end_def contender_start_def contender_lock_def
  contender_end_def monitor_round_def wgo_def wsay_def

lemma watch_move:
  assumes "watch_step q h grant e s = Some t" "\<forall>v. e \<noteq> Monitor v"
  shows "wpcs t = (wpcs s)(wev_thread e := wpcs t (wev_thread e)) \<and> wpcs s (wev_thread e) \<noteq> W_Out \<and> sampled t = sampled s \<and>
    wrunning t = wrunning s - of_bool (wpcs t (wev_thread e) = W_Out) \<and>
    (wpcs t (wev_thread e) = W_Held \<longrightarrow> grant s (wev_thread e)) \<and>
    args_left t = (if wpcs t (wev_thread e) = W_Out \<and> wev_thread e \<noteq> 0 then args_left s - {wev_thread e} else args_left s)"
  using assms by (cases e) (auto simp: watch_defs split: if_splits)

lemma watch_monitor:
  assumes "watch_step q h grant (Monitor v) s = Some t"
  shows "wpcs t = wpcs s \<and> args_left t = args_left s \<and> sampled s \<noteq> None \<and> wrunning t = wrunning s - of_bool (sampled t = None)"
  using assms by (auto simp: watch_defs split: option.splits if_splits)

lemma watch_ok_step:
  assumes "watch_grants grant" "watch_ok s" "watch_step q h grant e s = Some t"
  shows "watch_ok t"
proof (cases "\<exists>v. e = Monitor v")
  case True
  with watch_monitor assms(3) have "wpcs t = wpcs s" "args_left t = args_left s" "sampled s \<noteq> None"
      "wrunning t = wrunning s - of_bool (sampled t = None)" by blast+
  then show ?thesis using assms(2) by (simp add: watch_ok_def)
next
  case False
  let ?i = "wev_thread e"
  from watch_move [OF assms(3)] False
  have m: "wpcs t = (wpcs s)(?i := wpcs t ?i)" "wpcs s ?i \<noteq> W_Out" "sampled t = sampled s"
      "wrunning t = wrunning s - of_bool (wpcs t ?i = W_Out)" "wpcs t ?i = W_Held \<longrightarrow> grant s ?i"
      "args_left t = (if wpcs t ?i = W_Out \<and> ?i \<noteq> 0 then args_left s - {?i} else args_left s)" by blast+
  have other: "wpcs t j = wpcs s j" if "j \<noteq> ?i" for j using m(1) that by (metis fun_upd_other)
  have i: "?i < 4" using m(2) assms(2) by (auto simp: watch_ok_def)
  have "(\<Sum>j<4. of_bool (wpcs t j \<noteq> W_Out) :: int) = (\<Sum>j<4. of_bool (wpcs s j \<noteq> W_Out)) + (of_bool (wpcs t ?i \<noteq> W_Out) - of_bool (wpcs s ?i \<noteq> W_Out))"
    using i other by (intro sum_point) auto
  moreover have "a = b" if "wpcs t a = W_Held" "wpcs t b = W_Held" for a b
  proof (cases "a = ?i \<or> b = ?i")
    case True
    then have "grant s ?i" using that m(5) by auto
    then have "\<forall>j. wpcs s j \<noteq> W_Held" using assms(1) unfolding watch_grants_def by blast
    then show ?thesis using that other by metis
  next
    case False
    then show ?thesis using that other assms(2) by (metis watch_ok_def)
  qed
  moreover have "\<forall>j>3. wpcs t j = W_Out" using assms(2) other i by (auto simp: watch_ok_def)
  moreover have "args_left t = {j. j \<noteq> 0 \<and> wpcs t j \<noteq> W_Out}"
  proof -
    have "args_left s = {j. j \<noteq> 0 \<and> wpcs s j \<noteq> W_Out}" using assms(2) by (simp add: watch_ok_def)
    then have "j \<in> args_left t \<longleftrightarrow> j \<noteq> 0 \<and> wpcs t j \<noteq> W_Out" for j
      using m(2,6) other [of j] by (cases "j = ?i") auto
    then show ?thesis by blast
  qed
  moreover have "wrunning t = of_bool (sampled t \<noteq> None) + (\<Sum>j<4. of_bool (wpcs t j \<noteq> W_Out))"
  proof -
    have "wrunning s = of_bool (sampled s \<noteq> None) + (\<Sum>j<4. of_bool (wpcs s j \<noteq> W_Out))" using assms(2) by (simp add: watch_ok_def)
    then show ?thesis unfolding calculation(1) m(3,4) using m(2) by simp
  qed
  ultimately show ?thesis unfolding watch_ok_def by blast
qed


interpretation watch: kept_by_steps "\<lambda>s. watch_grants grant \<and> (\<exists>v got. s = watch_begin q v got)" "by_event (watch_step q h grant)"
    "\<lambda>s. watch_grants grant \<and> watch_ok s" for q h grant
proof
  fix s assume s: "watch_grants grant \<and> (\<exists>v got. s = watch_begin q v got)"
  then obtain v got where b: "s = watch_begin q v got" by blast
  have "(\<Sum>i<4. of_bool (i \<le> min 3 n) :: int) = 1 + int (min 3 n)" for n
    by (auto simp: numeral_eq_Suc min_def)
  then have "watch_ok s" unfolding b by (auto simp: watch_ok_def watch_begin_def)
  with s show "watch_grants grant \<and> watch_ok s" by blast
next
  fix s t assume "watch_grants grant \<and> watch_ok s" "by_event (watch_step q h grant) s t"
  then show "watch_grants grant \<and> watch_ok t" using watch_ok_step by (auto simp: by_event_def)
qed

text \<open>
  The wait of the watching mode ends only when the holder, the monitor and every contender
  have finished, and then every contender's argument has been freed.
\<close>

lemma watch_joins_all:
  assumes "watch_grants grant" "run_watch q h grant v got es v' = Some s"
  shows "(\<forall>i. wpcs s i = W_Out) \<and> sampled s = None \<and> args_left s = {}"
proof -
  obtain t where t: "run_events (watch_step q h grant) es (watch_begin q v got) = Some t" "wrunning t \<le> 0"
      "wpcs s = wpcs t" "sampled s = sampled t" "args_left s = args_left t"
    using assms(2) by (auto simp: run_watch_def bind_eq_Some_conv wsay_def split: if_splits)
  have "(by_event (watch_step q h grant))\<^sup>*\<^sup>* (watch_begin q v got) t"
    unfolding run_events_steps [symmetric] using t(1) by (rule exI)
  then have ok: "watch_ok t" using watch.inv_reach assms(1) by blast
  have nn: "0 \<le> (\<Sum>i<4. of_bool (wpcs t i \<noteq> W_Out) :: int)" by (simp add: sum_nonneg)
  then have z: "(\<Sum>i<4. of_bool (wpcs t i \<noteq> W_Out) :: int) = 0" "sampled t = None"
    using ok t(2) by (auto simp: watch_ok_def of_bool_def split: if_splits)
  then have "\<forall>i\<in>{..<4}. of_bool (wpcs t i \<noteq> W_Out) = (0 :: int)" by (subst (asm) sum_nonneg_eq_0_iff) auto
  then have "\<forall>i<4. wpcs t i = W_Out" by simp
  moreover have "\<forall>i>3. wpcs t i = W_Out" using ok by (simp add: watch_ok_def)
  ultimately have "wpcs t i = W_Out" for i by (cases "i < 4") simp_all
  then have "\<forall>i. wpcs t i = W_Out" by blast
  then show ?thesis using t z(2) ok by (auto simp: watch_ok_def)
qed

end
