(* ===== verification/Rwsem_Lab.thy ===== *)
theory Rwsem_Lab
  imports Runs
begin

section \<open>rwsem\_lab.c: waiters behind a writer, and a writer behind itself\<close>

text \<open>
  In mode 1 a thread takes the module's semaphore for writing and keeps it until the module is
  unloaded; a second thread then waits to read and a third to write. The moves of the three
  threads, of loading and of unloading interleave. When the semaphore is granted is a
  parameter, with what the kernel documents of it. In mode 2 the loading process takes its own
  \<open>mmap_lock\<close> for writing and then for reading.
\<close>

datatype tid = Holder | Reader | Writer2

datatype rpc =
    Not_Made | New
  | Waits \<comment> \<open>in \<open>down_read\<close> or \<open>down_write\<close>\<close>
  | Has
  | Idles \<comment> \<open>until it is stopped\<close>
  | Gone

text \<open>Unloading: not begun, or the threads still to be stopped, the first one asked or not.\<close>

datatype unload = Loaded | Stops bool "tid list"

record rwsem =
  rpcs :: "tid \<Rightarrow> rpc"
  stop :: "tid \<Rightarrow> bool"
  release_now :: bool
  to_make :: "tid list"
  unload :: unload
  rlog :: "line list"

definition rsay :: "line list \<Rightarrow> rwsem \<Rightarrow> rwsem" where
  "rsay ls s = s\<lparr>rlog := rlog s @ ls\<rparr>"

definition rgo :: "tid \<Rightarrow> rpc \<Rightarrow> rwsem \<Rightarrow> rwsem" where
  "rgo t p s = s\<lparr>rpcs := (rpcs s)(t := p)\<rparr>"

subsection \<open>The threads\<close>

text \<open>\<open>p\<close>: the thread's pid; \<open>a\<close> and \<open>l\<close>: the addresses of \<open>priv\<close> and of the semaphore.\<close>

definition thread_begin :: "tid \<Rightarrow> int \<Rightarrow> u64 \<Rightarrow> u64 \<Rightarrow> rwsem \<Rightarrow> rwsem" where
  "thread_begin t p a l s = rsay (case t of
       Holder \<Rightarrow> [(''[holder ] pid=%d down_write(&lab_sem)'', [I p])]
     | Reader \<Rightarrow> [(''[reader ] pid=%d &priv=%px'', [I p, U a]), (''[reader ] lab_create_oops: priv=%px sem=%px'', [U a, U l])]
     | Writer2 \<Rightarrow> [(''[writer2] pid=%d down_write(&lab_sem)'', [I p])]) (rgo t Waits s)"

definition thread_take :: "tid \<Rightarrow> int \<Rightarrow> rwsem \<Rightarrow> rwsem" where
  "thread_take t p s = rsay (case t of
       Holder \<Rightarrow> [(''[holder ] pid=%d locked'', [I p])]
     | Reader \<Rightarrow> [(''[reader ] flags=0x%lx name=%s'', [U 0, S ''benshushu''])]
     | Writer2 \<Rightarrow> [(''[writer2] pid=%d locked'', [I p])]) (rgo t Has s)"

definition may_release :: "tid \<Rightarrow> rwsem \<Rightarrow> bool" where
  "may_release t s \<longleftrightarrow> (t = Holder \<longrightarrow> stop s Holder \<or> release_now s)"

definition thread_release :: "tid \<Rightarrow> int \<Rightarrow> rwsem \<Rightarrow> rwsem" where
  "thread_release t p s = rsay (if t = Holder then [(''[holder ] pid=%d released'', [I p])] else []) (rgo t Idles s)"

subsection \<open>Loading and unloading\<close>

definition make_thread :: "rwsem \<Rightarrow> rwsem option" where
  "make_thread s = (case to_make s of [] \<Rightarrow> None | t # ts \<Rightarrow> Some (rgo t New (s\<lparr>to_make := ts\<rparr>)))"

definition exit_begin :: "rwsem \<Rightarrow> rwsem option" where
  "exit_begin s = (if to_make s = [] \<and> unload s = Loaded
     then Some (s\<lparr>release_now := True, unload := Stops False [Reader, Writer2, Holder]\<rparr>) else None)"

text \<open>\<open>kthread_stop\<close>: ask, then wait until the thread has returned.\<close>

definition exit_stop :: "rwsem \<Rightarrow> rwsem option" where
  "exit_stop s = (case unload s of
       Stops False (t # ts) \<Rightarrow> Some (s\<lparr>stop := (stop s)(t := True), unload := Stops True (t # ts)\<rparr>)
     | _ \<Rightarrow> None)"

definition exit_join :: "rwsem \<Rightarrow> rwsem option" where
  "exit_join s = (case unload s of
       Stops True (t # ts) \<Rightarrow>
         if rpcs s t = Gone then Some (rsay (if ts = [] then [(''unloaded'', [])] else []) (s\<lparr>unload := Stops False ts\<rparr>)) else None
     | _ \<Rightarrow> None)"

datatype rev = Make | Begin tid int u64 u64 | Take tid int | Release tid int | Return tid | Exit_Begin | Exit_Stop | Exit_Join

fun rw_move :: "(rwsem \<Rightarrow> tid \<Rightarrow> bool) \<Rightarrow> rev \<Rightarrow> rwsem \<Rightarrow> rwsem option" where
  "rw_move grant Make s = make_thread s"
| "rw_move grant (Begin t p a l) s = (if rpcs s t = New then Some (thread_begin t p a l s) else None)"
| "rw_move grant (Take t p) s = (if rpcs s t = Waits \<and> grant s t then Some (thread_take t p s) else None)"
| "rw_move grant (Release t p) s = (if rpcs s t = Has \<and> may_release t s then Some (thread_release t p s) else None)"
| "rw_move grant (Return t) s = (if rpcs s t = Idles \<and> stop s t then Some (rgo t Gone s) else None)"
| "rw_move grant Exit_Begin s = exit_begin s"
| "rw_move grant Exit_Stop s = exit_stop s"
| "rw_move grant Exit_Join s = exit_join s"

text \<open>\<open>lab_init\<close> in mode 1, before it makes the threads; and the line it prints after.\<close>

definition lab_start :: "u64 \<Rightarrow> u64 \<Rightarrow> rwsem" where
  "lab_start l sz = \<lparr>rpcs = (\<lambda>_. Not_Made), stop = (\<lambda>_. False), release_now = False, to_make = [Holder, Reader, Writer2], unload = Loaded,
     rlog = [(''=== mode=1 rwsem ==='', []), (''&lab_sem = %px'', [U l]), (''sizeof(struct rw_semaphore)=%zu'', [U sz])]\<rparr>"

definition lab_made :: "int option \<Rightarrow> int option \<Rightarrow> int option \<Rightarrow> line" where
  "lab_made h r w = (let p = (\<lambda>x. I (case x of None \<Rightarrow> - 1 | Some n \<Rightarrow> n)) in (''holder=%d rd1=%d wr2=%d'', [p h, p r, p w]))"

subsection \<open>Mode 2\<close>

text \<open>
  \<open>book_case\<close>, then \<open>create_oops\<close>, both in the process that loads the module. \<open>Crashed\<close>: the
  null pointer is followed.
\<close>

datatype bkpc = Bk_Start | Bk_Write | Bk_Locked | Bk_Read | Bk_Inside | Bk_Crashed | Bk_Returned int

record book =
  bk_pc :: bkpc
  write_held :: bool
  mm_refs :: int
  bk_log :: "line list"

text \<open>The addresses printed are those of the task and its memory, of its lock, and of \<open>priv\<close>.\<close>

datatype bkev = Get_Mm "(int \<times> u64 \<times> u64 \<times> u64 \<times> u64) option" | Down_Write | Alloc_Vma bool u64 u64 | Down_Read | Use_Vma

definition bksay :: "line list \<Rightarrow> book \<Rightarrow> book" where
  "bksay ls s = s\<lparr>bk_log := bk_log s @ ls\<rparr>"

fun book_move :: "(book \<Rightarrow> bool) \<Rightarrow> (book \<Rightarrow> bool) \<Rightarrow> bkev \<Rightarrow> book \<Rightarrow> book option" where
  "book_move wgrant rgrant (Get_Mm mm) s =
     (if bk_pc s \<noteq> Bk_Start then None
      else case mm of
        None \<Rightarrow> Some (bksay [(''mm'', [])] (s\<lparr>bk_pc := Bk_Returned (- 22)\<rparr>))
      | Some (p, task, m, lock, off) \<Rightarrow> Some (bksay [(''insmod pid=%d task=%px mm=%px &mm->mmap_lock=%px (offset 0x%lx)'',
            [I p, U task, U m, U lock, U off])] (s\<lparr>bk_pc := Bk_Write, mm_refs := mm_refs s + 1\<rparr>)))"
| "book_move wgrant rgrant Down_Write s =
     (if bk_pc s = Bk_Write \<and> wgrant s then Some (bksay [(''mmap_lock'', [])] (s\<lparr>bk_pc := Bk_Locked, write_held := True\<rparr>)) else None)"
| "book_move wgrant rgrant (Alloc_Vma ok priv sem) s =
     (if bk_pc s \<noteq> Bk_Locked then None
      else Some (if ok then bksay [(''&priv=%px (Q10)'', [U priv]), (''create_oops: priv=%px sem=%px'', [U priv, U sem])] (s\<lparr>bk_pc := Bk_Read\<rparr>)
                 else s\<lparr>bk_pc := Bk_Returned (- 12), write_held := False, mm_refs := mm_refs s - 1\<rparr>))"
| "book_move wgrant rgrant Down_Read s = (if bk_pc s = Bk_Read \<and> rgrant s then Some (s\<lparr>bk_pc := Bk_Inside\<rparr>) else None)"
| "book_move wgrant rgrant Use_Vma s = (if bk_pc s = Bk_Inside then Some (s\<lparr>bk_pc := Bk_Crashed\<rparr>) else None)"

definition book_start :: book where
  "book_start = \<lparr>bk_pc = Bk_Start, write_held = False, mm_refs = 0, bk_log = [(''=== mode=2 ==='', [])]\<rparr>"

section \<open>Lemmas\<close>

text \<open>
  What the kernel documents of a semaphore: a writer is let in when nobody is inside, a reader
  when no writer is; and when nobody is inside and somebody waits, some waiter is let in.
\<close>

definition rwsem_documented :: "(rwsem \<Rightarrow> tid \<Rightarrow> bool) \<Rightarrow> bool" where
  "rwsem_documented grant \<longleftrightarrow>
     (\<forall>s t. grant s t \<longrightarrow> (\<forall>u. rpcs s u = Has \<longrightarrow> t = Reader \<and> u = Reader)) \<and>
     (\<forall>s. (\<forall>u. rpcs s u \<noteq> Has) \<longrightarrow> (\<exists>t. rpcs s t = Waits) \<longrightarrow> (\<exists>t. rpcs s t = Waits \<and> grant s t))"

lemma rgo_simps [simp]:
  "rpcs (rgo t p s) = (rpcs s)(t := p)" "stop (rgo t p s) = stop s" "release_now (rgo t p s) = release_now s" "to_make (rgo t p s) = to_make s"
  "unload (rgo t p s) = unload s" "rpcs (rsay ls s) = rpcs s" "stop (rsay ls s) = stop s" "release_now (rsay ls s) = release_now s"
  "to_make (rsay ls s) = to_make s" "unload (rsay ls s) = unload s"
  by (simp_all add: rgo_def rsay_def)

lemmas rw_defs = thread_begin_def thread_take_def thread_release_def make_thread_def exit_begin_def exit_stop_def exit_join_def may_release_def

text \<open>The threads a list of the unloading still has to stop.\<close>

fun still :: "unload \<Rightarrow> tid list" where
  "still Loaded = [Reader, Writer2, Holder]" | "still (Stops b ts) = ts"

lemma all_tid: "(\<forall>t. P t) \<longleftrightarrow> P Holder \<and> P Reader \<and> P Writer2"
  by (metis tid.exhaust)

lemma ex_tid: "(\<exists>t. P t) \<longleftrightarrow> P Holder \<or> P Reader \<or> P Writer2"
  by (metis tid.exhaust)

text \<open>The threads not yet made, and those unloading has still to stop, are ends of fixed lists.\<close>

definition rw_ok :: "rwsem \<Rightarrow> bool" where
  "rw_ok s \<longleftrightarrow>
     to_make s \<in> {[Holder, Reader, Writer2], [Reader, Writer2], [Writer2], []} \<and> (\<forall>t. rpcs s t = Not_Made \<longleftrightarrow> t \<in> set (to_make s)) \<and>
     (case unload s of
        Loaded \<Rightarrow> \<not> release_now s \<and> (\<forall>t. \<not> stop s t)
      | Stops b ts \<Rightarrow> to_make s = [] \<and> release_now s \<and> ts \<in> {[Reader, Writer2, Holder], [Writer2, Holder], [Holder], []} \<and>
          (\<forall>t. t \<notin> set ts \<longrightarrow> rpcs s t = Gone) \<and> (b \<longrightarrow> ts \<noteq> [] \<and> stop s (hd ts)))"

lemma rw_ok_start: "rw_ok (lab_start l sz)"
  by (auto simp: rw_ok_def lab_start_def all_tid)

lemma rw_ok_thread:
  assumes "rw_ok s" "rpcs t = (rpcs s)(u := p)" "rpcs s u \<notin> {Not_Made, Gone}" "p \<noteq> Not_Made"
    and "to_make t = to_make s" "unload t = unload s" "release_now t = release_now s" "stop t = stop s"
  shows "rw_ok t"
proof -
  have "(rpcs t x = Not_Made) = (rpcs s x = Not_Made)" "rpcs s x = Gone \<longrightarrow> rpcs t x = Gone" for x
    using assms(2-4) by auto
  then have "(\<forall>x. rpcs t x = Not_Made \<longleftrightarrow> x \<in> set (to_make s))" "\<forall>ts. (\<forall>x. x \<notin> set ts \<longrightarrow> rpcs s x = Gone) \<longrightarrow> (\<forall>x. x \<notin> set ts \<longrightarrow> rpcs t x = Gone)"
    using assms(1) by (auto simp: rw_ok_def)
  then show ?thesis using assms(1) unfolding rw_ok_def assms(5-8) by (cases "unload s") (simp_all, blast)
qed

lemma rw_ok_move:
  assumes "rw_move grant m s = Some t" "rw_ok s"
  shows "rw_ok t"
proof (cases m)
  case Make
  with assms(1) obtain x xs where tm: "to_make s = x # xs" "t = rgo x New (s\<lparr>to_make := xs\<rparr>)"
    by (auto simp: make_thread_def split: list.splits)
  then have L: "unload s = Loaded" using assms(2) by (cases "unload s") (simp_all add: rw_ok_def)
  have xs: "x \<notin> set xs" "xs \<in> {[Holder, Reader, Writer2], [Reader, Writer2], [Writer2], []}" using tm(1) assms(2) by (auto simp: rw_ok_def)
  have "(rpcs t y = Not_Made) = (y \<in> set xs)" for y
    using assms(2) tm xs(1) by (cases "y = x") (simp_all add: rw_ok_def)
  then show ?thesis using assms(2) L tm xs(2) by (simp add: rw_ok_def)
next
  case (Begin u p a l)
  with assms show ?thesis by (intro rw_ok_thread [OF assms(2), of t u Waits]) (auto simp: rw_defs split: if_splits)
next
  case (Take u p)
  with assms show ?thesis by (intro rw_ok_thread [OF assms(2), of t u Has]) (auto simp: rw_defs split: if_splits)
next
  case (Release u p)
  with assms show ?thesis by (intro rw_ok_thread [OF assms(2), of t u Idles]) (auto simp: rw_defs split: if_splits)
next
  case (Return u)
  with assms show ?thesis by (intro rw_ok_thread [OF assms(2), of t u Gone]) (auto split: if_splits)
next
  case Exit_Begin
  with assms(1) have t: "to_make s = []" "unload s = Loaded" "t = s\<lparr>release_now := True, unload := Stops False [Reader, Writer2, Holder]\<rparr>"
    by (auto simp: exit_begin_def split: if_splits)
  have "x \<in> set [Reader, Writer2, Holder]" for x by (cases x) simp_all
  then show ?thesis using assms(2) t by (simp add: rw_ok_def)
next
  case Exit_Stop
  with assms(1) obtain x xs where "unload s = Stops False (x # xs)" "t = s\<lparr>stop := (stop s)(x := True), unload := Stops True (x # xs)\<rparr>"
    by (auto simp: exit_stop_def split: unload.splits bool.splits list.splits)
  then show ?thesis using assms(2) by (simp add: rw_ok_def)
next
  case Exit_Join
  with assms(1) obtain x xs where t: "unload s = Stops True (x # xs)" "rpcs s x = Gone" "rpcs t = rpcs s" "to_make t = to_make s"
      "release_now t = release_now s" "unload t = Stops False xs"
    by (auto simp: exit_join_def split: unload.splits bool.splits list.splits if_splits)
  then have "rpcs s y = Gone" if "y \<notin> set xs" for y using assms(2) that by (cases "y = x") (simp_all add: rw_ok_def)
  moreover have "xs \<in> {[Reader, Writer2, Holder], [Writer2, Holder], [Holder], []}" using t(1) assms(2) by (auto simp: rw_ok_def)
  ultimately show ?thesis using assms(2) t by (simp add: rw_ok_def)
qed

text \<open>How far everything is from the end.\<close>

fun rpc_rank :: "rpc \<Rightarrow> nat" where
  "rpc_rank Not_Made = 5" | "rpc_rank New = 4" | "rpc_rank Waits = 3" | "rpc_rank Has = 2" | "rpc_rank Idles = 1" | "rpc_rank Gone = 0"

fun unload_rank :: "unload \<Rightarrow> nat" where
  "unload_rank Loaded = 7" | "unload_rank (Stops b ts) = 2 * length ts - of_bool b"

definition rw_rank :: "rwsem \<Rightarrow> nat" where
  "rw_rank s = rpc_rank (rpcs s Holder) + rpc_rank (rpcs s Reader) + rpc_rank (rpcs s Writer2) + unload_rank (unload s)"

definition unloaded :: "rwsem \<Rightarrow> bool" where
  "unloaded s \<longleftrightarrow> unload s = Stops False []"

lemma rank_thread:
  "rpcs t = (rpcs s)(u := p) \<Longrightarrow> unload t = unload s \<Longrightarrow> rpc_rank p < rpc_rank (rpcs s u) \<Longrightarrow> rw_rank t < rw_rank s"
  by (cases u) (simp_all add: rw_rank_def)

lemma thread_moves:
  assumes "rwsem_documented grant" "release_now s" "rpcs s u \<notin> {Gone, Not_Made}" "stop s u"
  shows "\<exists>m t. rw_move grant m s = Some t \<and> rw_rank t < rw_rank s"
proof -
  have rel: "\<exists>m t. rw_move grant m s = Some t \<and> rw_rank t < rw_rank s" if "rpcs s x = Has" for x
    using that assms(2)
    by (intro exI [of _ "Release x 0"]) (auto simp: rw_defs intro: rank_thread [of _ s x Idles])
  show ?thesis
  proof (cases "rpcs s u")
    case New
    then show ?thesis by (intro exI [of _ "Begin u 0 0 0"]) (auto simp: rw_defs intro: rank_thread [of _ s u Waits])
  next
    case Waits
    show ?thesis
    proof (cases "\<exists>x. rpcs s x = Has")
      case False
      then obtain x where "rpcs s x = Waits" "grant s x" using assms(1) Waits unfolding rwsem_documented_def by blast
      then show ?thesis by (intro exI [of _ "Take x 0"]) (auto simp: rw_defs intro: rank_thread [of _ s x Has])
    qed (use rel in blast)
  next
    case Idles
    with assms(4) show ?thesis by (intro exI [of _ "Return u"]) (auto intro: rank_thread [of _ s u Gone])
  qed (use assms(3) rel in auto)
qed

lemma rw_lower:
  assumes "rwsem_documented grant" "rw_ok s" "\<not> unloaded s"
  shows "\<exists>m t. rw_move grant m s = Some t \<and> rw_rank t < rw_rank s"
proof (cases "to_make s")
  case (Cons u us)
  then have "rpcs s u = Not_Made" using assms(2) by (simp add: rw_ok_def)
  with Cons show ?thesis by (intro exI [of _ Make]) (auto simp: rw_defs intro!: rank_thread [of _ s u New])
next
  case Nil
  show ?thesis
  proof (cases "unload s")
    case Loaded
    with Nil show ?thesis by (intro exI [of _ Exit_Begin]) (auto simp: rw_defs rw_rank_def)
  next
    case (Stops b ts)
    then obtain u us where ts: "ts = u # us" using assms(2,3) by (cases ts) (auto simp: rw_ok_def unloaded_def)
    show ?thesis
    proof (cases b)
      case False
      with Stops ts show ?thesis by (intro exI [of _ Exit_Stop]) (auto simp: rw_defs rw_rank_def)
    next
      case True
      with Stops ts assms(2) have s: "stop s u" "release_now s" "rpcs s u \<noteq> Not_Made" using Nil by (simp_all add: rw_ok_def)
      show ?thesis
      proof (cases "rpcs s u = Gone")
        case gone: True
        with Stops ts True show ?thesis by (intro exI [of _ Exit_Join]) (auto simp: rw_defs rw_rank_def)
      next
        case False
        with s show ?thesis by (intro thread_moves [OF assms(1) s(2), of u]) auto
      qed
    qed
  qed
qed

section \<open>Properties\<close>

interpretation rw: winding_down "\<lambda>s. rwsem_documented grant \<and> (\<exists>l sz. s = lab_start l sz)" "by_event (rw_move grant)"
    "\<lambda>s. rwsem_documented grant \<and> rw_ok s" unloaded rw_rank for grant
proof
  fix s t assume "rwsem_documented grant \<and> rw_ok s" "by_event (rw_move grant) s t"
  then show "rwsem_documented grant \<and> rw_ok t" using rw_ok_move by (auto simp: by_event_def)
next
  fix s assume "rwsem_documented grant \<and> rw_ok s" "\<not> unloaded s"
  then show "\<exists>t. by_event (rw_move grant) s t \<and> rw_rank t < rw_rank s" using rw_lower [of grant s] unfolding by_event_def by metis
qed (auto intro: rw_ok_start)

abbreviation rw_run :: "(rwsem \<Rightarrow> tid \<Rightarrow> bool) \<Rightarrow> rev list \<Rightarrow> rwsem \<Rightarrow> rwsem option" where
  "rw_run grant \<equiv> run_events (rw_move grant)"


definition any_waiter :: "rwsem \<Rightarrow> tid \<Rightarrow> bool" where
  "any_waiter s t \<longleftrightarrow> (\<forall>u. rpcs s u \<noteq> Has)"

lemma any_waiter_documented: "rwsem_documented any_waiter"
  by (auto simp: rwsem_documented_def any_waiter_def)

text \<open>The scene of the notes: the holder inside, a reader and a writer behind it.\<close>

definition scene :: "rev list" where
  "scene = [Make, Begin Holder 100 0 0, Take Holder 100, Make, Begin Reader 101 7 8, Make, Begin Writer2 102 0 0]"

lemma scene_runs: "\<exists>s. rw_run any_waiter scene (lab_start 8 40) = Some s \<and> rpcs s Holder = Has \<and> rpcs s Reader = Waits \<and> rpcs s Writer2 = Waits \<and>
    unload s = Loaded"
  by (simp add: scene_def rw_defs lab_start_def any_waiter_def all_tid rgo_def rsay_def)


definition outside :: "rpc \<Rightarrow> bool" where
  "outside p \<longleftrightarrow> p \<in> {Not_Made, New, Waits}"

lemma loaded_before: "rw_move grant m s = Some t \<Longrightarrow> unload t = Loaded \<Longrightarrow> unload s = Loaded"
  by (cases m) (auto simp: rw_defs split: if_splits unload.splits bool.splits list.splits)

lemma loaded_all_along: "rw_run grant es s = Some t \<Longrightarrow> unload t = Loaded \<Longrightarrow> unload s = Loaded"
  by (induction es arbitrary: s) (auto simp: bind_eq_Some_conv dest: loaded_before)

lemma scene_step:
  assumes "rwsem_documented grant" "rw_ok s" "rpcs s Holder = Has" "rw_move grant m s = Some t" "unload t = Loaded"
  shows "rpcs t Holder = Has \<and> (outside (rpcs s u) \<longrightarrow> outside (rpcs t u))"
proof -
  have L: "unload s = Loaded" using loaded_before assms(4,5) by blast
  have no: "\<not> grant s x" "\<not> may_release Holder s" "\<not> stop s x" for x
    using assms(1,2,3) L unfolding rwsem_documented_def rw_ok_def may_release_def by auto
  have "x \<noteq> Holder" if "to_make s = x # xs" for x xs
  proof
    assume "x = Holder"
    then have "rpcs s Holder = Not_Made" using assms(2) that by (simp add: rw_ok_def)
    then show False using assms(3) by simp
  qed
  with no assms(3,4) L show ?thesis
    by (cases m) (auto simp: thread_begin_def thread_release_def make_thread_def exit_begin_def exit_stop_def exit_join_def outside_def split: if_splits list.splits)
qed

text \<open>
  The scene stands still: once the holder is inside, and until the module is unloaded,
  whatever happens the holder stays inside and a thread that was not yet inside does not get
  in, so the wait list keeps the waiters the notes look at.
\<close>

theorem scene_stands_still:
  assumes "rwsem_documented grant" "rw_run grant es (lab_start l sz) = Some s" "rpcs s Holder = Has"
    and "rw_run grant es' s = Some t" "unload t = Loaded"
  shows "rpcs t Holder = Has \<and> (\<forall>u. outside (rpcs s u) \<longrightarrow> outside (rpcs t u))"
proof -
  have "(by_event (rw_move grant))\<^sup>*\<^sup>* (lab_start l sz) s"
    unfolding run_events_steps [symmetric] using assms(2) by (rule exI)
  then have "rw_ok s" using rw.inv_reach assms(1) by blast
  then show ?thesis
    using assms(3,4)
  proof (induction es' arbitrary: s)
    case (Cons m ms)
    then obtain v where v: "rw_move grant m s = Some v" "rw_run grant ms v = Some t" by (auto simp: bind_eq_Some_conv)
    have "unload v = Loaded" using loaded_all_along [OF v(2) assms(5)] .
    note st = scene_step [OF assms(1) Cons.prems(1,2) v(1) this]
    then show ?case using Cons.IH [OF rw_ok_move [OF v(1) Cons.prems(1)] _ v(2)] by blast
  qed simp
qed

theorem scene_stands_still_witness:
  "\<exists>s. rw_run any_waiter scene (lab_start 8 40) = Some s \<and> (\<forall>es t. rw_run any_waiter es s = Some t \<and> unload t = Loaded \<longrightarrow> outside (rpcs t Reader))"
proof -
  obtain s where s: "rw_run any_waiter scene (lab_start 8 40) = Some s" "rpcs s Holder = Has" "rpcs s Reader = Waits" using scene_runs by blast
  moreover have "outside (rpcs s Reader)" using s(3) by (simp add: outside_def)
  ultimately show ?thesis using scene_stands_still [OF any_waiter_documented s(1,2)] by blast
qed

subsection \<open>The self-made deadlock\<close>

text \<open>Nobody else uses the lock: a reader is let in when no writer is inside.\<close>

definition lock_documented :: "(book \<Rightarrow> bool) \<Rightarrow> bool" where
  "lock_documented rgrant \<longleftrightarrow> (\<forall>s. rgrant s \<longrightarrow> \<not> write_held s)"

definition book_ok :: "book \<Rightarrow> bool" where
  "book_ok s \<longleftrightarrow> (case bk_pc s of
       Bk_Start \<Rightarrow> \<not> write_held s \<and> mm_refs s = 0 | Bk_Write \<Rightarrow> \<not> write_held s \<and> mm_refs s = 1
     | Bk_Locked \<Rightarrow> write_held s \<and> mm_refs s = 1 | Bk_Read \<Rightarrow> write_held s
     | Bk_Returned e \<Rightarrow> \<not> write_held s \<and> mm_refs s = 0 \<and> e \<in> {- 22, - 12}
     | _ \<Rightarrow> False)"

lemma book_ok_move: "lock_documented rgrant \<Longrightarrow> book_ok s \<Longrightarrow> book_move wgrant rgrant m s = Some t \<Longrightarrow> book_ok t"
  by (cases m) (auto simp: book_ok_def bksay_def lock_documented_def split: if_splits option.splits bkpc.splits)

lemma book_ok_start: "book_ok book_start"
  by (simp add: book_ok_def book_start_def)

interpretation bk: kept_by_steps "\<lambda>s. lock_documented rgrant \<and> s = book_start" "by_event (book_move wgrant rgrant)"
    "\<lambda>s. lock_documented rgrant \<and> book_ok s" for wgrant rgrant
  by unfold_locales (auto simp: by_event_def intro: book_ok_start book_ok_move)

text \<open>
  C18: Mode 2 never comes back once it holds the lock: in every run the process ends with an
  error before it keeps the lock, and then it holds neither lock nor memory, or it stands in
  front of its own write lock, where no move is left; the null pointer behind it is never
  followed.
\<close>

theorem book_case_deadlocks:
  assumes "lock_documented rgrant" "run_events (book_move wgrant rgrant) es book_start = Some s"
  shows "bk_pc s \<noteq> Bk_Crashed \<and> (\<forall>e. bk_pc s = Bk_Returned e \<longrightarrow> (e = - 22 \<or> e = - 12) \<and> \<not> write_held s \<and> mm_refs s = 0) \<and>
    (bk_pc s = Bk_Read \<longrightarrow> (\<forall>m. book_move wgrant rgrant m s = None))"
proof -
  have "(by_event (book_move wgrant rgrant))\<^sup>*\<^sup>* book_start s"
    unfolding run_events_steps [symmetric] using assms(2) by (rule exI)
  then have ok: "book_ok s" using bk.inv_reach assms(1) by blast
  have "book_move wgrant rgrant m s = None" if "bk_pc s = Bk_Read" for m
    using that ok assms(1) by (cases m) (auto simp: book_ok_def lock_documented_def)
  then show ?thesis using ok by (auto simp: book_ok_def)
qed

theorem book_case_deadlocks_witness:
  "\<exists>s. run_events (book_move (\<lambda>s. True) (\<lambda>s. \<not> write_held s)) [Get_Mm (Some (9, 1, 2, 3, 4)), Down_Write, Alloc_Vma True 5 3] book_start = Some s \<and>
     (\<forall>m. book_move (\<lambda>s. True) (\<lambda>s. \<not> write_held s) m s = None)"
proof -
  have l: "lock_documented (\<lambda>s. \<not> write_held s)" by (simp add: lock_documented_def)
  obtain s where s: "run_events (book_move (\<lambda>s. True) (\<lambda>s. \<not> write_held s)) [Get_Mm (Some (9, 1, 2, 3, 4)), Down_Write, Alloc_Vma True 5 3] book_start = Some s"
      "bk_pc s = Bk_Read"
    by (simp add: book_start_def bksay_def)
  with book_case_deadlocks [OF l s(1)] show ?thesis by blast
qed

end
