(* ===== verification/Crash_Probe.thy ===== *)
theory Crash_Probe
  imports Kernel_Scan Lockup "HOL-Library.Multiset"
begin

section \<open>crash_probe.c: the commands of \<open>crash\<close> as a module\<close>

text \<open>
  A command written to \<open>/proc/crash_probe\<close> prints something about a task, a lock or a piece of
  kernel memory. The state is the log and the references held (on \<open>struct pid\<close>s and on tasks).
  The kernel's tables are the fields of \<open>cp_env\<close>: pointers are addresses, \<open>0\<close> is \<open>NULL\<close>, and a
  struct at an address is a record. Configuration macros and the constants of the kernel
  headers are fields as well.
\<close>

record ctask =
  ct_pid :: int
  ct_parent :: "int option" \<comment> \<open>the parent's pid\<close>
  ct_cpu :: int
  ct_comm :: string
  ct_state :: u32
  ct_stack :: u64
  ct_fp :: u64
  ct_sp :: u64
  ct_pc :: u64
  ct_mm :: u64
  ct_pcount :: u64
  ct_delay :: u64
  ct_arrival :: u64
  ct_queued :: u64
  ct_nvcsw :: u64
  ct_nivcsw :: u64

datatype rp_rwsem_waiter_type = RP_RWSEM_WAITING_FOR_WRITE | RP_RWSEM_WAITING_FOR_READ

record rp_rwsem_waiter =
  rw_addr :: u64
  rw_task :: u64
  rw_type :: rp_rwsem_waiter_type

record csem =
  sem_count :: u64
  sem_owner :: u64
  sem_list :: u64 \<comment> \<open>the address of \<open>wait_list\<close>\<close>
  sem_waiters :: "rp_rwsem_waiter list"

record cmm =
  mm_users :: int
  mm_count :: int
  mm_maps :: int
  mm_owner :: u64

record cp_env =
  ce_find_pid :: "int \<Rightarrow> u64" \<comment> \<open>\<open>find_get_pid\<close>\<close>
  ce_pid_task :: "u64 \<Rightarrow> u64" \<comment> \<open>\<open>get_pid_task\<close>\<close>
  ce_task :: "u64 \<Rightarrow> ctask"
  ce_sem :: "u64 \<Rightarrow> csem"
  ce_mm :: "u64 \<Rightarrow> cmm"
  ce_threads :: "u64 list"
  ce_current :: u64
  ce_mem :: memory
  ce_ksym :: "u64 \<Rightarrow> string" \<comment> \<open>\<open>sprint_symbol\<close>\<close>
  ce_lookup :: "(string \<Rightarrow> u64) option" \<comment> \<open>\<open>exp_kallsyms_lookup_name\<close>\<close>
  ce_valid :: "u64 \<Rightarrow> bool" \<comment> \<open>\<open>virt_addr_valid\<close>\<close>
  ce_cpus :: "int list"
  ce_clock :: "nat \<Rightarrow> u64" \<comment> \<open>the n-th call of \<open>sched_clock\<close>\<close>
  THREAD_SIZE :: u64
  VMALLOC_START :: u64
  OFF_mmap_lock :: u64
  TASK_RUNNING :: u32
  TASK_UNINTERRUPTIBLE :: u32
  TASK_INTERRUPTIBLE :: u32
  TASK_STOPPED :: u32
  TASK_DEAD :: u32
  TASK_NOLOAD :: u32
  TASK_WAKEKILL :: u32
  CONFIG_MEMCG :: bool
  CONFIG_SCHED_INFO :: bool

record cprobe =
  cp_log :: "line list"
  cp_pids :: "u64 multiset"
  cp_tasks :: "u64 multiset"

definition tell :: "line list \<Rightarrow> cprobe \<Rightarrow> cprobe" where
  "tell ls s = s\<lparr>cp_log := cp_log s @ ls\<rparr>"

subsection \<open>Tasks\<close>

definition is_ktext :: "cp_env \<Rightarrow> u64 \<Rightarrow> bool" where
  "is_ktext e v = (case ce_ksym e v of [] \<Rightarrow> True | c # _ \<Rightarrow> c \<noteq> CHR ''0'')"

definition state_str :: "cp_env \<Rightarrow> ctask \<Rightarrow> string" where
  "state_str e t =
     (let st = ct_state t in
      if st = TASK_RUNNING e then ''RU''
      else if st AND TASK_UNINTERRUPTIBLE e \<noteq> 0 then ''UN(D)''
      else if st AND TASK_INTERRUPTIBLE e \<noteq> 0 then ''IN(S)''
      else if st AND TASK_STOPPED e \<noteq> 0 then ''ST''
      else if st AND TASK_DEAD e \<noteq> 0 then ''DE''
      else ''??'')"

definition ps_line :: "cp_env \<Rightarrow> u64 \<Rightarrow> line" where
  "ps_line e p = (let t = ce_task e p in (''%8d %8d %4d %px %s'',
     [I (ct_pid t), I (case ct_parent t of None \<Rightarrow> 0 | Some q \<Rightarrow> q), I (ct_cpu t), U p, S (ct_comm t)]))"

text \<open>The loop of \<open>cmd_ps\<close>: the lines printed, and the counters \<open>n\<close>, \<open>idle\<close>, \<open>killable\<close>.\<close>

fun ps_scan :: "cp_env \<Rightarrow> u64 list \<Rightarrow> line list \<times> int \<times> int \<times> int" where
  "ps_scan e [] = ([], 0, 0, 0)"
| "ps_scan e (p # ps) =
     (let st = ct_state (ce_task e p); (ls, n, idle, killable) = ps_scan e ps in
      if \<not> st AND TASK_UNINTERRUPTIBLE e \<noteq> 0 then (ls, n, idle, killable)
      else if st AND TASK_NOLOAD e \<noteq> 0 then (ls, n, idle + 1, killable)
      else if st AND TASK_WAKEKILL e \<noteq> 0 then (ls, n, idle, killable + 1)
      else (ps_line e p # ls, n + 1, idle, killable))"

definition cmd_ps :: "cp_env \<Rightarrow> cprobe \<Rightarrow> cprobe" where
  "cmd_ps e s = (let (ls, n, idle, killable) = ps_scan e (ce_threads e) in
     tell ([(''=== UNINTERRUPTIBLE && !NOLOAD && !WAKEKILL ==='', []), (''PID PPID CPU TASK COMM'', [])] @ ls
       @ [(''%d D; %d TASK_IDLE, %d TASK_KILLABLE'', [I n, I idle, I killable])]) s)"

definition get_task :: "cp_env \<Rightarrow> int \<Rightarrow> cprobe \<Rightarrow> u64 \<times> cprobe" where
  "get_task e pid s =
     (let p = ce_find_pid e pid in
      if p = 0 then (0, s)
      else (let s1 = s\<lparr>cp_pids := cp_pids s + {#p#}\<rparr>;
                t = ce_pid_task e p;
                s2 = if t = 0 then s1 else s1\<lparr>cp_tasks := cp_tasks s1 + {#t#}\<rparr>
            in (t, s2\<lparr>cp_pids := cp_pids s2 - {#p#}\<rparr>)))"

definition put_task :: "u64 \<Rightarrow> cprobe \<Rightarrow> cprobe" where
  "put_task t s = s\<lparr>cp_tasks := cp_tasks s - {#t#}\<rparr>"

subsection \<open>The stack\<close>

text \<open>The frame records, at most 32; \<open>n\<close> is what is left, \<open>frame\<close> is \<open>32 - n\<close>.\<close>

fun bt_walk :: "cp_env \<Rightarrow> u64 \<Rightarrow> u64 \<Rightarrow> nat \<Rightarrow> u64 \<Rightarrow> line list" where
  "bt_walk e lo hi 0 fp = []"
| "bt_walk e lo hi (Suc n) fp =
     (if lo \<le> fp \<and> fp < hi - 16
      then (let next = load64 (ce_mem e) fp; lr = load64 (ce_mem e) (fp + 8) in
        (''#%-2d [%lx] %s (x29=%lx -> %lx)'', [I (31 - int n), U (fp + 8), S (ce_ksym e lr), U fp, U next])
        # (if next \<le> fp then [] else bt_walk e lo hi n next))
      else [])"

definition bt_word :: "cp_env \<Rightarrow> u64 \<Rightarrow> u64 \<Rightarrow> u64 \<Rightarrow> u64 \<Rightarrow> line" where
  "bt_word e fp lo hi addr =
     (let v = load64 (ce_mem e) addr; tag = (if addr = fp then ''  <= x29'' else '''') in
      if is_ktext e v then (''%lx: %016lx  %s%s'', [U addr, U v, S (ce_ksym e v), S tag])
      else if lo \<le> v \<and> v < hi then (''%lx: %016lx  [stack]%s'', [U addr, U v, S tag])
      else (''%lx: %016lx%s'', [U addr, U v, S tag]))"

text \<open>\<open>for (addr = sp; addr < stack_hi; addr += 8)\<close>: \<open>addr\<close> may wrap, so not returning is \<open>None\<close>.\<close>

partial_function (option) bt_full :: "cp_env \<Rightarrow> u64 \<Rightarrow> u64 \<Rightarrow> u64 \<Rightarrow> u64 \<Rightarrow> line list option" where
  "bt_full e fp lo hi addr =
     (if addr < hi
      then Option.bind (bt_full e fp lo hi (addr + 8)) (\<lambda>rest. Some (bt_word e fp lo hi addr # rest))
      else Some [])"

definition bt_head :: "cp_env \<Rightarrow> u64 \<Rightarrow> line list" where
  "bt_head e p = (let t = ce_task e p in
     [(''=== PID %d COMMAND %s TASK %px CPU %d STATE %s ==='',
        [I (ct_pid t), S (ct_comm t), U p, I (ct_cpu t), S (state_str e t)]),
      (''stack [%lx, %lx)  THREAD_SIZE=%lu'', [U (ct_stack t), U (ct_stack t + THREAD_SIZE e), U (THREAD_SIZE e)]),
      (''thread.cpu_context: fp(x29)=%lx sp=%lx pc=%lx (%s)'',
        [U (ct_fp t), U (ct_sp t), U (ct_pc t), S (ce_ksym e (ct_pc t))])])"

definition cmd_bt :: "cp_env \<Rightarrow> int \<Rightarrow> bool \<Rightarrow> cprobe \<Rightarrow> cprobe option" where
  "cmd_bt e pid full s =
     (let (p, s1) = get_task e pid s; t = ce_task e p in
      if p = 0 then Some (tell [(''no pid %d'', [I pid])] s1)
      else if p = ce_current e \<or> ct_state t = TASK_RUNNING e
      then Some (put_task p (tell [(''pid %d is running'', [I pid])] s1))
      else (let lo = ct_stack t; hi = lo + THREAD_SIZE e;
                s2 = tell (bt_head e p @ bt_walk e lo hi 32 (ct_fp t)) s1 in
        if full
        then map_option (\<lambda>ls. put_task p (tell ((''--- bt -f ---'', []) # ls) s2)) (bt_full e (ct_fp t) lo hi (ct_sp t))
        else Some (put_task p s2)))"

subsection \<open>Memory\<close>

fun rd_words :: "cp_env \<Rightarrow> u64 \<Rightarrow> nat list \<Rightarrow> line list" where
  "rd_words e addr [] = []"
| "rd_words e addr (i # is) =
     (let a = addr + of_nat (i * 8) in
      if \<not> ce_valid e a \<and> a < VMALLOC_START e then [(''rd: %lx'', [U a])]
      else (''%lx: %016lx  %s'', [U a, U (load64 (ce_mem e) a), S '''']) # rd_words e addr is)"

definition cmd_rd :: "cp_env \<Rightarrow> u64 \<Rightarrow> int \<Rightarrow> cprobe \<Rightarrow> cprobe" where
  "cmd_rd e addr n s =
     (let k = (if n \<le> 0 \<or> 64 < n then 1 else n)
      in tell (rd_words e addr [0..<nat k]) s)"

subsection \<open>Reader-writer semaphores\<close>

definition RP_RWSEM_READER_OWNED :: u64 where "RP_RWSEM_READER_OWNED = 1"
definition RP_RWSEM_NONSPINNABLE :: u64 where "RP_RWSEM_NONSPINNABLE = 2"
definition RP_RWSEM_OWNER_FLAGS :: u64 where
  "RP_RWSEM_OWNER_FLAGS = RP_RWSEM_READER_OWNED OR RP_RWSEM_NONSPINNABLE"
definition RP_RWSEM_WRITER_LOCKED :: u64 where "RP_RWSEM_WRITER_LOCKED = 1"
definition RP_RWSEM_FLAG_WAITERS :: u64 where "RP_RWSEM_FLAG_WAITERS = 2"
definition RP_RWSEM_FLAG_HANDOFF :: u64 where "RP_RWSEM_FLAG_HANDOFF = 4"
definition RP_RWSEM_FLAG_READFAIL :: u64 where "RP_RWSEM_FLAG_READFAIL = push_bit 63 1"
definition RP_RWSEM_READER_SHIFT :: nat where "RP_RWSEM_READER_SHIFT = 8"

lemmas rwsem_bits = RP_RWSEM_READER_OWNED_def RP_RWSEM_NONSPINNABLE_def RP_RWSEM_OWNER_FLAGS_def
  RP_RWSEM_WRITER_LOCKED_def RP_RWSEM_FLAG_WAITERS_def RP_RWSEM_FLAG_HANDOFF_def
  RP_RWSEM_FLAG_READFAIL_def RP_RWSEM_READER_SHIFT_def

definition flag :: "u64 \<Rightarrow> u64 \<Rightarrow> val" where
  "flag w m = I (of_bool (w AND m \<noteq> 0))"

definition sem_readers :: "u64 \<Rightarrow> u64" where
  "sem_readers c = drop_bit RP_RWSEM_READER_SHIFT (c AND NOT 0xff)"

definition sem_owner_task :: "u64 \<Rightarrow> u64" where
  "sem_owner_task raw = raw AND NOT RP_RWSEM_OWNER_FLAGS"

definition rwsem_owner_line :: "cp_env \<Rightarrow> u64 \<Rightarrow> line" where
  "rwsem_owner_line e raw =
     (let p = sem_owner_task raw; t = ce_task e p in
      if raw AND RP_RWSEM_READER_OWNED \<noteq> 0
      then (if p \<noteq> 0 then (''readers; last PID %d (%s)'', [I (ct_pid t), S (ct_comm t)])
            else (''readers, no task'', []))
      else if p \<noteq> 0 then (''writer PID %d (%s) task=%px'', [I (ct_pid t), S (ct_comm t), U p])
      else (''no owner'', []))"

definition waiter_line :: "cp_env \<Rightarrow> nat \<times> rp_rwsem_waiter \<Rightarrow> line" where
  "waiter_line e nw = (case nw of (n, w) \<Rightarrow> (let t = ce_task e (rw_task w) in
     (''waiter[%d] @%px  task=%px PID %d (%s)  type=%s  state=%s'',
       [I (int n), U (rw_addr w), U (rw_task w), I (ct_pid t), S (ct_comm t),
        S (if rw_type w = RP_RWSEM_WAITING_FOR_READ then ''RWSEM_WAITING_FOR_READ'' else ''RWSEM_WAITING_FOR_WRITE''),
        S (state_str e t)])))"

definition rwsem_count_lines :: "u64 \<Rightarrow> u64 \<Rightarrow> line list" where
  "rwsem_count_lines addr c =
     [(''=== struct rw_semaphore %px ==='', [U addr]),
      (''count = 0x%lx'', [U c]),
      (''  bit0 WRITER_LOCKED = %d'', [flag c RP_RWSEM_WRITER_LOCKED]),
      (''  bit1 FLAG_WAITERS  = %d'', [flag c RP_RWSEM_FLAG_WAITERS]),
      (''  bit2 FLAG_HANDOFF  = %d'', [flag c RP_RWSEM_FLAG_HANDOFF]),
      (''  bit63 READFAIL     = %d'', [flag c RP_RWSEM_FLAG_READFAIL]),
      (''  (count >> 8) = %ld'', [I (sint (sem_readers c))])]"

definition rwsem_owner_flags :: "u64 \<Rightarrow> line" where
  "rwsem_owner_flags raw = (''owner = 0x%lx  (READER_OWNED=%d NONSPINNABLE=%d)'',
     [U raw, flag raw RP_RWSEM_READER_OWNED, flag raw RP_RWSEM_NONSPINNABLE])"

definition rwsem_waiters :: "cp_env \<Rightarrow> csem \<Rightarrow> line list" where
  "rwsem_waiters e sem =
     (''--- wait_list --- head=%px'', [U (sem_list sem)])
     # (if sem_waiters sem = [] then [(''(empty)'', [])]
        else map (waiter_line e) (enumerate 0 (sem_waiters sem))
          @ [(''%d waiters'', [I (int (length (sem_waiters sem)))])])"

definition cmd_rwsem :: "cp_env \<Rightarrow> u64 \<Rightarrow> cprobe \<Rightarrow> cprobe" where
  "cmd_rwsem e addr s = (let sem = ce_sem e addr in
     tell (rwsem_count_lines addr (sem_count sem) @ [rwsem_owner_flags (sem_owner sem),
       rwsem_owner_line e (sem_owner sem)] @ rwsem_waiters e sem) s)"

subsection \<open>Address spaces\<close>

definition owner_line :: "cp_env \<Rightarrow> u64 \<Rightarrow> line" where
  "owner_line e p = (''mm->owner     = %px (PID %d %s)'',
     [U p, I (if p \<noteq> 0 then ct_pid (ce_task e p) else - 1), S (if p \<noteq> 0 then ct_comm (ce_task e p) else ''?'')])"

definition cmd_mm :: "cp_env \<Rightarrow> int \<Rightarrow> cprobe \<Rightarrow> cprobe" where
  "cmd_mm e pid s =
     (let (p, s1) = get_task e pid s; t = ce_task e p; a = ct_mm t; m = ce_mm e a in
      if p = 0 then tell [(''no pid %d'', [I pid])] s1
      else if a = 0 then put_task p (tell [(''PID %d (%s) has no mm'', [I (ct_pid t), S (ct_comm t)])] s1)
      else put_task p (tell
        [(''=== PID %d (%s) mm ==='', [I (ct_pid t), S (ct_comm t)]), (''mm            = %px'', [U a]),
         (''&mm->mmap_lock = %px   (offsetof = 0x%lx)'', [U (a + OFF_mmap_lock e), U (OFF_mmap_lock e)]),
         (''mm->mm_users=%d mm->mm_count=%d map_count=%d'', [I (mm_users m), I (mm_count m), I (mm_maps m)]),
         if CONFIG_MEMCG e then owner_line e (mm_owner m) else (''CONFIG_MEMCG=n'', [])] s1))"

definition cmd_mmowner :: "cp_env \<Rightarrow> u64 \<Rightarrow> cprobe \<Rightarrow> cprobe" where
  "cmd_mmowner e sem_addr s =
     (let a = sem_addr - OFF_mmap_lock e; m = ce_mm e a; p = mm_owner m in
      tell [(''=== rw_semaphore -> mm_struct ==='', []),
        (''mmap_lock 0x%lx - offsetof(mm_struct, mmap_lock)=0x%lx mm=%px'', [U sem_addr, U (OFF_mmap_lock e), U a]),
        (''mm->mm_users=%d mm->map_count=%d'', [I (mm_users m), I (mm_maps m)]),
        if CONFIG_MEMCG e
        then (if p \<noteq> 0 then (''mm->owner = %px PID %d (%s)'', [U p, I (ct_pid (ce_task e p)), S (ct_comm (ce_task e p))])
              else (''mm->owner = NULL'', []))
        else (''CONFIG_MEMCG=n'', [])] s)"

subsection \<open>Scheduling data\<close>

definition blocked_for :: "u64 \<Rightarrow> u64 \<Rightarrow> u64" where
  "blocked_for now arrival = (if arrival < now then now - arrival else 0)"

definition cmd_sched :: "cp_env \<Rightarrow> int \<Rightarrow> cprobe \<Rightarrow> cprobe" where
  "cmd_sched e pid s =
     (let (p, s1) = get_task e pid s; t = ce_task e p; now = ce_clock e 0;
          arrival = ct_arrival t; blocked = blocked_for now arrival in
      if p = 0 then tell [(''no pid %d'', [I pid])] s1
      else if \<not> CONFIG_SCHED_INFO e then put_task p (tell [(''no CONFIG_SCHED_INFO'', [])] s1)
      else put_task p (tell
        [(''=== PID %d (%s) state=%s cpu=%d ==='', [I (ct_pid t), S (ct_comm t), S (state_str e t), I (ct_cpu t)]),
         (''sched_info = {'', []), (''  pcount       = %lu'', [U (ct_pcount t)]),
         (''  run_delay    = %llu ns'', [U (ct_delay t)]), (''  last_arrival = %llu ns'', [U arrival]),
         (''  last_queued  = %llu ns'', [U (ct_queued t)]), (''}'', []),
         (''CPU%d rq clock = %llu ns'', [I (ct_cpu t), U now]),
         (''blocked = %llu - %llu = %llu ns = %llu.%03llu'',
           [U now, U arrival, U blocked, U (blocked div 1000000000), U (blocked mod 1000000000 div 1000000)]),
         (''last_arrival 0: kernel.sched_schedstats=0'', []),
         (''nvcsw=%lu nivcsw=%lu'', [U (ct_nvcsw t), U (ct_nivcsw t)])] s1))"

definition cmd_runq :: "cp_env \<Rightarrow> cprobe \<Rightarrow> cprobe" where
  "cmd_runq e s = tell ((''=== sched_clock ==='', [])
     # map (\<lambda>(n, c). (''CPU %d: %llu'', [I c, U (ce_clock e n)])) (enumerate 0 (ce_cpus e))) s"

definition cmd_sym :: "cp_env \<Rightarrow> string \<Rightarrow> cprobe \<Rightarrow> cprobe" where
  "cmd_sym e name s =
     (let addr = (case ce_lookup e of None \<Rightarrow> 0 | Some f \<Rightarrow> f name) in
      tell [if addr = 0 then (''no symbol %s'', [S name]) else (''%s = %lx'', [S name, U addr])] s)"

subsection \<open>Commands\<close>

fun num :: "val \<Rightarrow> int" where
  "num (I i) = i"
| "num (U w) = uint w"
| "num (S s) = 0"

fun addr_of :: "val \<Rightarrow> u64" where
  "addr_of (U w) = w"
| "addr_of v = 0"

fun text_of :: "val \<Rightarrow> string" where
  "text_of (S s) = s"
| "text_of v = ''''"

definition cp_command :: "cp_env \<Rightarrow> string \<Rightarrow> cprobe \<Rightarrow> cprobe option" where
  "cp_command e buf s =
     (let one = (\<lambda>w c. kvsscanf [Word_Is w, Blank, c] buf);
          btf = one ''btf'' Conv_d; bt = one ''bt'' Conv_d;
          rd2 = kvsscanf [Word_Is ''rd'', Blank, Conv_lx, Blank, Conv_d] buf; rd1 = one ''rd'' Conv_lx;
          rws = one ''rwsem'' Conv_lx; mmo = one ''mmowner'' Conv_lx; mmc = one ''mm'' Conv_d;
          sch = one ''sched'' Conv_d; sym = one ''sym'' (Conv_s 63)
      in if prefixed ''ps'' buf then Some (cmd_ps e s)
         else if length btf = 1 then cmd_bt e (num (btf ! 0)) True s
         else if length bt = 1 then cmd_bt e (num (bt ! 0)) False s
         else if length rd2 = 2 then Some (cmd_rd e (addr_of (rd2 ! 0)) (num (rd2 ! 1)) s)
         else if length rd1 = 1 then Some (cmd_rd e (addr_of (rd1 ! 0)) 1 s)
         else if length rws = 1 then Some (cmd_rwsem e (addr_of (rws ! 0)) s)
         else if length mmo = 1 then Some (cmd_mmowner e (addr_of (mmo ! 0)) s)
         else if length mmc = 1 then Some (cmd_mm e (num (mmc ! 0)) s)
         else if length sch = 1 then Some (cmd_sched e (num (sch ! 0)) s)
         else if prefixed ''runq'' buf then Some (cmd_runq e s)
         else if length sym = 1 then Some (cmd_sym e (text_of (sym ! 0)) s)
         else Some (tell [(''ps | bt <pid> | btf <pid> | rd <hex> [n] | ...'', [])] s))"

definition cp_write :: "bool \<Rightarrow> cp_env \<Rightarrow> string \<Rightarrow> cprobe \<Rightarrow> (int \<times> cprobe) option" where
  "cp_write copied e ubuf s =
     (if 128 \<le> length ubuf then Some (- 22, s)
      else if \<not> copied then Some (- 14, s)
      else map_option (\<lambda>t. (int (length ubuf), t))
        (cp_command e (takeWhile (\<lambda>c. of_char c \<noteq> (0 :: nat)) ubuf) s))"

definition cp_init :: "int \<Rightarrow> bool \<Rightarrow> cprobe \<Rightarrow> int \<times> cprobe" where
  "cp_init ksym proc s =
     (let s1 = if ksym \<noteq> 0 then tell [(''no kallsyms_lookup_name'', [])] s else s in
      if \<not> proc then (- 12, s1) else (0, tell [(''loaded'', [])] s1))"

definition cp_exit :: "cprobe \<Rightarrow> cprobe" where
  "cp_exit s = tell [(''unload'', [])] s"

section \<open>Lemmas\<close>

lemma tell_simps [simp]: "cp_pids (tell ls s) = cp_pids s" "cp_tasks (tell ls s) = cp_tasks s"
  by (simp_all add: tell_def)

lemma put_simps [simp]: "cp_pids (put_task p s) = cp_pids s" "cp_tasks (put_task p s) = cp_tasks s - {#p#}"
  by (simp_all add: put_task_def)

lemma get_task_refs:
  "get_task e pid s = (p, s1) \<Longrightarrow> cp_pids s1 = cp_pids s \<and>
     cp_tasks s1 = cp_tasks s + (if p = 0 then {#} else {#p#})"
  by (auto simp: get_task_def Let_def split: if_splits)

lemma cmd_bt_refs: "cmd_bt e pid full s = Some t \<Longrightarrow> cp_pids t = cp_pids s \<and> cp_tasks t = cp_tasks s"
  by (cases "get_task e pid s") (auto simp: cmd_bt_def Let_def split: if_splits dest: get_task_refs)

lemma other_commands_refs [simp]:
  "cp_pids (cmd_ps e s) = cp_pids s" "cp_tasks (cmd_ps e s) = cp_tasks s"
  "cp_pids (cmd_rd e a n s) = cp_pids s" "cp_tasks (cmd_rd e a n s) = cp_tasks s"
  "cp_pids (cmd_rwsem e a s) = cp_pids s" "cp_tasks (cmd_rwsem e a s) = cp_tasks s"
  "cp_pids (cmd_mmowner e a s) = cp_pids s" "cp_tasks (cmd_mmowner e a s) = cp_tasks s"
  "cp_pids (cmd_runq e s) = cp_pids s" "cp_tasks (cmd_runq e s) = cp_tasks s"
  "cp_pids (cmd_sym e n' s) = cp_pids s" "cp_tasks (cmd_sym e n' s) = cp_tasks s"
  by (simp_all add: cmd_ps_def cmd_rd_def cmd_rwsem_def cmd_mmowner_def cmd_runq_def cmd_sym_def Let_def
      split: prod.split)

lemma task_commands_refs [simp]:
  "cp_pids (cmd_mm e pid s) = cp_pids s" "cp_tasks (cmd_mm e pid s) = cp_tasks s"
  "cp_pids (cmd_sched e pid s) = cp_pids s" "cp_tasks (cmd_sched e pid s) = cp_tasks s"
  by (cases "get_task e pid s"; auto simp: cmd_mm_def cmd_sched_def Let_def dest: get_task_refs)+

lemma if_SomeE: "(if b then x else y) = Some t \<Longrightarrow> (x = Some t \<Longrightarrow> P) \<Longrightarrow> (y = Some t \<Longrightarrow> P) \<Longrightarrow> P"
  by (cases b) auto

lemma command_refs:
  "cp_command e buf s = Some t \<Longrightarrow> cp_pids t = cp_pids s \<and> cp_tasks t = cp_tasks s"
  unfolding cp_command_def Let_def by (elim if_SomeE) (auto dest: cmd_bt_refs)

subsection \<open>The dump of a stack\<close>

lemma words_to: "unat (a + 8) = unat a + 8" if "a < hi" "uint hi \<le> 2 ^ 64 - 8" for a hi :: u64
proof -
  have "uint a < uint hi" using that(1) by (simp add: word_less_def)
  with that(2) have "uint a + 8 < 2 ^ 64" by linarith
  then have "uint (a + 8) = uint a + 8" by (simp add: uint_plus_if')
  then have "int (unat (a + 8)) = int (unat a + 8)" unfolding of_nat_add of_nat_unat by (simp add: of_nat_numeral)
  then show ?thesis unfolding of_nat_eq_iff .
qed

lemma bt_full_exact:
  assumes "uint hi \<le> 2 ^ 64 - 8"
  shows "bt_full e fp lo hi a =
    Some (map (\<lambda>i. bt_word e fp lo hi (a + of_nat (8 * i))) [0..<(unat hi - unat a + 7) div 8])"
proof (induction "(unat hi - unat a + 7) div 8" arbitrary: a)
  case 0
  then have "\<not> a < hi" by (simp add: word_less_nat_alt)
  with 0 show ?case by (subst bt_full.simps) simp
next
  case (Suc n)
  then have less: "a < hi" by (cases "a < hi") (auto simp: word_less_nat_alt)
  note w = words_to [OF less assms]
  from less have u: "unat a < unat hi" by (simp add: word_less_nat_alt)
  have "(unat hi - unat (a + 8) + 7) div 8 = n" using Suc(2) u w by linarith
  with Suc(1) [of "a + 8"] have "bt_full e fp lo hi (a + 8) =
    Some (map (\<lambda>i. bt_word e fp lo hi (a + 8 + of_nat (8 * i))) [0..<n])" by simp
  moreover have "[0..<Suc n] = 0 # map Suc [0..<n]" by (simp add: upt_conv_Cons map_Suc_upt del: upt_Suc)
  ultimately show ?case
    using less Suc(2) by (subst bt_full.simps) (simp add: algebra_simps del: upt_Suc)
qed

subsection \<open>References\<close>

text \<open>
  Whatever is written to \<open>/proc/crash_probe\<close>, and on every path through its command (no such
  pid, a running task, a kernel thread, a configuration without the data), the references on
  \<open>struct pid\<close>s and tasks that were taken are given back, and no others.
\<close>

theorem write_keeps_references:
  assumes "cp_write c e ubuf s = Some (r, t)"
  shows "cp_pids t = cp_pids s \<and> cp_tasks t = cp_tasks s"
  using assms by (auto simp: cp_write_def split: if_splits dest: command_refs)

text \<open>A small system: one sleeping task at address 8, its stack at 4096.\<close>

definition sleeper :: ctask where
  "sleeper = \<lparr>ct_pid = 7, ct_parent = Some 1, ct_cpu = 0, ct_comm = ''cat'', ct_state = 2, ct_stack = 4096,
     ct_fp = 4200, ct_sp = 4184, ct_pc = 0, ct_mm = 0, ct_pcount = 1, ct_delay = 0, ct_arrival = 5, ct_queued = 0,
     ct_nvcsw = 3, ct_nivcsw = 0\<rparr>"

definition small_env :: cp_env where
  "small_env = \<lparr>ce_find_pid = (\<lambda>n. if n = 7 then 16 else 0), ce_pid_task = (\<lambda>p. 8), ce_task = (\<lambda>a. sleeper),
     ce_sem = (\<lambda>a. \<lparr>sem_count = 0, sem_owner = 0, sem_list = a + 16, sem_waiters = []\<rparr>),
     ce_mm = (\<lambda>a. \<lparr>mm_users = 1, mm_count = 1, mm_maps = 9, mm_owner = 8\<rparr>), ce_threads = [8], ce_current = 0,
     ce_mem = (\<lambda>a. 0), ce_ksym = (\<lambda>a. ''0x0''), ce_lookup = None, ce_valid = (\<lambda>a. True), ce_cpus = [0],
     ce_clock = (\<lambda>n. 100), THREAD_SIZE = 4096, VMALLOC_START = 0, OFF_mmap_lock = 0x78, TASK_RUNNING = 0,
     TASK_UNINTERRUPTIBLE = 2, TASK_INTERRUPTIBLE = 1, TASK_STOPPED = 4, TASK_DEAD = 0x80, TASK_NOLOAD = 0x400,
     TASK_WAKEKILL = 0x100, CONFIG_MEMCG = True, CONFIG_SCHED_INFO = True\<rparr>"

definition cp_start :: cprobe where
  "cp_start = \<lparr>cp_log = [], cp_pids = {#}, cp_tasks = {#}\<rparr>"

lemma small_simps [simp]:
  "ce_task small_env p = sleeper" "THREAD_SIZE small_env = 4096" "ct_stack sleeper = 4096"
  "ct_fp sleeper = 4200" "ct_sp sleeper = 4184"
  by (simp_all add: small_env_def sleeper_def)

lemma small_mm: "cp_write True small_env ''mm 7'' cp_start = Some (4, cmd_mm small_env 7 cp_start)"
  by (simp add: cp_write_def cp_command_def kscan_lx_def kscan_int_def scan_ld_def scan_nat_def scan_word_def
      is_digit_def is_hex_def is_space_def skip_ws_def prefixed_def digits_val_def to_int_def Let_def)

theorem write_keeps_references_witness:
  "cp_pids (cmd_mm small_env 7 cp_start) = {#} \<and> cp_tasks (cmd_mm small_env 7 cp_start) = {#}"
  using write_keeps_references [OF small_mm] by (simp add: cp_start_def)

subsection \<open>Every command returns\<close>

lemma command_returns:
  assumes "\<And>pid full. \<exists>t. cmd_bt e pid full s = Some t"
  shows "\<exists>t. cp_command e buf s = Some t"
  unfolding cp_command_def Let_def using assms by (simp split: if_split)

lemma cmd_bt_returns:
  assumes "\<And>p. uint (ct_stack (ce_task e p) + THREAD_SIZE e) \<le> 2 ^ 64 - 8"
  shows "\<exists>t. cmd_bt e pid full s = Some t"
  using bt_full_exact [OF assms] by (auto simp: cmd_bt_def Let_def split: prod.split)

text \<open>
  If no kernel stack reaches into the last eight bytes of the address space, every write
  returns: the loop over the stack words, whose address could otherwise wrap past the end,
  stops. It has then printed every word from the saved stack pointer to the end of the
  stack, in order, each once.
\<close>

theorem write_returns:
  assumes "\<And>p. uint (ct_stack (ce_task e p) + THREAD_SIZE e) \<le> 2 ^ 64 - 8"
  shows "(\<exists>r t. cp_write c e ubuf s = Some (r, t)) \<and>
    (let t = ce_task e p; hi = ct_stack t + THREAD_SIZE e in
     bt_full e (ct_fp t) (ct_stack t) hi (ct_sp t) =
       Some (map (\<lambda>i. bt_word e (ct_fp t) (ct_stack t) hi (ct_sp t + of_nat (8 * i)))
         [0..<(unat hi - unat (ct_sp t) + 7) div 8]))"
  using command_returns [OF cmd_bt_returns [OF assms]] bt_full_exact [OF assms]
  by (fastforce simp: cp_write_def Let_def)

theorem write_returns_witness:
  "(\<exists>r t. cp_write True small_env ''btf 7'' cp_start = Some (r, t)) \<and>
    bt_full small_env 4200 4096 8192 4184 = Some (map (\<lambda>i. bt_word small_env 4200 4096 8192 (4184 + of_nat (8 * i))) [0..<501])"
  using write_returns [of small_env True "''btf 7''" cp_start 8]
  by (simp add: Let_def)

subsection \<open>\<open>ps\<close> and the scan for hung tasks\<close>

text \<open>What \<open>lockup_lab.c\<close> reads of the same task and under the same kernel configuration.\<close>

definition as_ktask :: "ctask \<Rightarrow> ktask" where
  "as_ktask t = \<lparr>kt_pid = ct_pid t, kt_comm = ct_comm t, kt_state = ct_state t, kt_nvcsw = ct_nvcsw t,
     kt_nivcsw = ct_nivcsw t, kt_fp = ct_fp t, kt_stack = ct_stack t\<rparr>"

definition as_khung :: "cp_env \<Rightarrow> khung_env" where
  "as_khung e = \<lparr>ke_thread_size = THREAD_SIZE e, ke_ksym = ce_ksym e, ke_mem = ce_mem e,
     ke_unint = TASK_UNINTERRUPTIBLE e, ke_wakekill = TASK_WAKEKILL e, ke_noload = TASK_NOLOAD e\<rparr>"

definition in_D :: "cp_env \<Rightarrow> u64 \<Rightarrow> bool" where
  "in_D e p \<longleftrightarrow> ct_state (ce_task e p) AND TASK_UNINTERRUPTIBLE e \<noteq> 0"

text \<open>
  C40: \<open>ps\<close> lists the tasks that the hung task scan of \<open>lockup_lab.c\<close> would check, in the
  order of the task list, and its three counters partition the uninterruptible tasks: none is
  missed and none is counted twice.
\<close>

theorem ps_agrees_with_hung_scan:
  "ps_scan e ps = (ls, n, idle, killable) \<Longrightarrow>
     ls = map (ps_line e) (filter (\<lambda>p. stuck_state (as_khung e) (as_ktask (ce_task e p))) ps) \<and>
     n = int (length ls) \<and> n + idle + killable = int (length (filter (in_D e) ps)) \<and>
     0 \<le> idle \<and> 0 \<le> killable"
proof (induction ps arbitrary: ls n idle killable)
  case (Cons p ps)
  obtain ls1 n1 i1 k1 where r: "ps_scan e ps = (ls1, n1, i1, k1)" by (metis prod_cases4)
  from Cons.prems Cons.IH [OF r] show ?case
    by (auto simp: r Let_def in_D_def stuck_state_def as_khung_def as_ktask_def split: if_splits)
qed simp

theorem ps_agrees_with_hung_scan_witness:
  "[ps_line small_env 8] = map (ps_line small_env) (filter (\<lambda>p. stuck_state (as_khung small_env) (as_ktask sleeper)) [8])"
proof -
  have "ps_scan small_env [8] = ([ps_line small_env 8], 1, 0, 0)"
    by (simp add: Let_def) (simp add: small_env_def sleeper_def)
  from ps_agrees_with_hung_scan [OF this] show ?thesis by simp
qed

subsection \<open>\<open>bt\<close> and the short trace\<close>

lemma bt_walk_frames:
  "map (\<lambda>l. snd l ! 2) (bt_walk e lo hi n fp) = map (S \<circ> ce_ksym e \<circ> snd) (bt_frames (ce_mem e) lo hi n fp)"
  by (induction n arbitrary: fp) (simp_all add: Let_def)

lemma bt_frames_take: "k \<le> n \<Longrightarrow> take k (bt_frames m lo hi n fp) = bt_frames m lo hi k fp"
proof (induction n arbitrary: k fp)
  case (Suc n)
  then show ?case by (cases k) (auto simp: Let_def)
qed simp

text \<open>The trace of a hung task printed by \<open>lockup_lab.c\<close> is the beginning of what \<open>bt\<close> prints.\<close>

lemma mini_bt_is_prefix_of_bt:
  "map (\<lambda>l. snd l ! 1) (mini_bt (THREAD_SIZE e) (ce_ksym e) (ce_mem e) (as_ktask t)) =
    take 12 (map (\<lambda>l. snd l ! 2) (bt_walk e (ct_stack t) (ct_stack t + THREAD_SIZE e) 32 (ct_fp t)))"
proof -
  have "map (\<lambda>l. snd l ! 1) (map (\<lambda>(i, (fp, lr)). (f, [I (int i), S (g lr)])) (enumerate k xs)) =
    map (S \<circ> g \<circ> snd) xs" for f g k and xs :: "(u64 \<times> u64) list"
    by (induction xs arbitrary: k) auto
  then show ?thesis
    unfolding mini_bt_def as_ktask_def by (simp add: bt_walk_frames take_map bt_frames_take)
qed

subsection \<open>The words of a semaphore\<close>

definition pack_count :: "bool \<Rightarrow> bool \<Rightarrow> bool \<Rightarrow> bool \<Rightarrow> u64 \<Rightarrow> u64" where
  "pack_count w q h f r = (if w then RP_RWSEM_WRITER_LOCKED else 0) OR (if q then RP_RWSEM_FLAG_WAITERS else 0)
     OR (if h then RP_RWSEM_FLAG_HANDOFF else 0) OR (if f then RP_RWSEM_FLAG_READFAIL else 0) OR push_bit 8 r"

lemma flag_bit: "flag c (2 ^ n) = I (of_bool (bit c n))"
  by (simp add: flag_def and_exp_eq_0_iff_not_bit)

lemma rwsem_powers: "RP_RWSEM_WRITER_LOCKED = 2 ^ 0" "RP_RWSEM_FLAG_WAITERS = 2 ^ 1"
  "RP_RWSEM_FLAG_HANDOFF = 2 ^ 2" "RP_RWSEM_FLAG_READFAIL = 2 ^ 63"
  by (simp_all add: rwsem_bits push_bit_of_1)

lemma bit_if_exp: "bit (if w then 2 ^ n else 0 :: u64) i \<longleftrightarrow> w \<and> i = n \<and> n < 64"
  by (auto simp: bit_exp_iff)

lemma bit_pack:
  "bit (pack_count w q h f r) i \<longleftrightarrow> (w \<and> i = 0) \<or> (q \<and> i = 1) \<or> (h \<and> i = 2) \<or> (f \<and> i = 63) \<or>
     (i < 64 \<and> 8 \<le> i \<and> bit r (i - 8))"
  unfolding pack_count_def rwsem_powers bit_or_iff bit_if_exp bit_push_bit_iff by auto

lemma short_bits: "r < 2 ^ n \<Longrightarrow> n \<le> i \<Longrightarrow> \<not> bit r i" for r :: u64
  using bit_and_iff [of r "mask n" i] by (auto simp: less_mask_eq bit_mask_iff)

lemma sem_readers_drop: "sem_readers c = drop_bit 8 c"
proof -
  have m: "(0xff :: u64) = mask 8" by (simp add: mask_eq_exp_minus_1)
  show ?thesis
    unfolding sem_readers_def RP_RWSEM_READER_SHIFT_def m
    by (rule bit_word_eqI) (auto simp: bit_drop_bit_eq bit_and_iff bit_not_iff bit_mask_iff dest: bit_imp_le_length)
qed

lemma readers_pack:
  assumes "r < 2 ^ 55"
  shows "sem_readers (pack_count w q h f r) = r OR (if f then 2 ^ 55 else 0)"
proof (rule bit_word_eqI)
  fix i assume "i < LENGTH(64)"
  then show "bit (sem_readers (pack_count w q h f r)) i = bit (r OR (if f then 2 ^ 55 else 0)) i"
    using short_bits [OF assms, of i] unfolding bit_or_iff bit_if_exp sem_readers_drop bit_drop_bit_eq
    by (auto simp: bit_pack)
qed

lemma readers_shown:
  assumes "r < 2 ^ 55"
  shows "sint (sem_readers (pack_count w q h f r)) = int (unat r) + (if f then 2 ^ 55 else 0)"
proof -
  have "\<not> bit r 55" using short_bits [OF assms, of 55] by simp
  then have "r AND 2 ^ 55 = 0" unfolding and_exp_eq_0_iff_not_bit .
  then have d: "r AND (if f then 2 ^ 55 else 0) = 0" by simp
  have "uint r < 2 ^ 55" using assms by (simp add: word_less_def)
  moreover have "r OR (if f then 2 ^ 55 else 0) = r + (if f then 2 ^ 55 else 0)"
    using d by (metis word_plus_and_or add_0 add.commute)
  moreover have "uint (r + (if f then 2 ^ 55 else 0)) = uint r + (if f then 2 ^ 55 else 0)"
    using calculation(1) by (auto simp: uint_plus_if')
  moreover have "- (2 ^ 63) \<le> uint r" by (rule order.trans [OF _ uint_ge_0]) simp
  ultimately show ?thesis
    by (simp add: readers_pack [OF assms] sint_uint signed_take_bit_int_eq_self)
qed

lemma flags_shown:
  assumes "r < 2 ^ 55"
  shows "flag (pack_count w q h f r) RP_RWSEM_WRITER_LOCKED = I (of_bool w)"
  "flag (pack_count w q h f r) RP_RWSEM_FLAG_WAITERS = I (of_bool q)"
  "flag (pack_count w q h f r) RP_RWSEM_FLAG_HANDOFF = I (of_bool h)"
  "flag (pack_count w q h f r) RP_RWSEM_FLAG_READFAIL = I (of_bool f)"
  unfolding rwsem_powers flag_bit using short_bits [OF assms, of 55] by (auto simp: bit_pack)

text \<open>
  \<open>rwsem\<close> prints the parts a count is made of: the writer, waiter and handoff bits,
  the bit for failing readers and the number of readers. The exception is a count with the
  read-fail bit set: the shift is of an unsigned value, and \<open>2^55\<close> is added to the readers.
\<close>

theorem rwsem_count_decoded:
  assumes "r < 2 ^ 55"
  shows "map snd (drop 2 (rwsem_count_lines a (pack_count w q h f r))) =
    [[I (of_bool w)], [I (of_bool q)], [I (of_bool h)], [I (of_bool f)], [I (int (unat r) + (if f then 2 ^ 55 else 0))]]"
  by (simp add: rwsem_count_lines_def flags_shown [OF assms] readers_shown [OF assms])

theorem rwsem_count_decoded_witness:
  "map snd (drop 2 (rwsem_count_lines 0 (pack_count False True False True 3))) =
    [[I 0], [I 1], [I 0], [I 1], [I (3 + 2 ^ 55)]]"
  using rwsem_count_decoded [of 3 0 False True False True] by simp

subsection \<open>The text of a command\<close>

lemma prefixed_cons [simp]:
  "prefixed [] s" "prefixed (c # k) (d # s) \<longleftrightarrow> c = d \<and> prefixed k s" "\<not> prefixed (c # k) []"
  by (auto simp: prefixed_def)






lemma skip_f [simp]: "skip_ws (CHR ''f'' # s) = CHR ''f'' # s"
  by (simp add: skip_ws_start is_space_def)




end
