(* ===== verification/Cache_Ladder.thy ===== *)
theory Cache_Ladder
  imports Prelude "HOL-Library.Multiset"
begin

section \<open>cache_ladder.c: one ring through all cache lines\<close>

text \<open>
  To time a load that depends on the load before it, \<open>measure\<close> links the lines of a buffer into
  a ring in random order and follows the pointers. A line of the buffer is an index, the ring a
  list of successors, \<open>rand\<close> a parameter (its value drawn at step \<open>i\<close>), the clock too. The
  times printed are floating point numbers and not part of the model; the pointer that is left
  in \<open>g_sink\<close> is.
\<close>

definition LINE :: nat where "LINE = 64"

definition swap :: "nat \<Rightarrow> nat \<Rightarrow> 'a list \<Rightarrow> 'a list" where
  "swap i j xs = xs[i := xs ! j, j := xs ! i]"

text \<open>\<open>for (i = n - 1; i > 0; i--)\<close>: swap with an index at most \<open>i\<close>.\<close>

fun fisher_yates :: "(nat \<Rightarrow> nat) \<Rightarrow> nat \<Rightarrow> nat list \<Rightarrow> nat list" where
  "fisher_yates rnd 0 idx = idx"
| "fisher_yates rnd (Suc i) idx = fisher_yates rnd i (swap (Suc i) (rnd (Suc i) mod (Suc i + 1)) idx)"

definition link_ring :: "nat \<Rightarrow> nat list \<Rightarrow> nat list \<Rightarrow> nat list" where
  "link_ring n idx buf = fold (\<lambda>i b. b[idx ! i := idx ! ((i + 1) mod n)]) [0..<n] buf"

fun chase :: "nat list \<Rightarrow> nat \<Rightarrow> nat \<Rightarrow> nat" where
  "chase buf 0 cur = cur"
| "chase buf (Suc k) cur = chase buf k (buf ! cur)"

definition ring_of :: "(nat \<Rightarrow> nat) \<Rightarrow> nat \<Rightarrow> nat list" where
  "ring_of rnd sz = (let n = sz div LINE; idx = fisher_yates rnd (n - 1) [0..<n]
     in link_ring n idx (replicate n 0))"

text \<open>\<open>measure\<close>: warm up for four rounds, then \<open>reps\<close> timed steps; the pointer left in \<open>g_sink\<close>.\<close>

definition measure_chase :: "(nat \<Rightarrow> nat) \<Rightarrow> nat \<Rightarrow> nat \<Rightarrow> nat" where
  "measure_chase rnd sz reps = (let n = sz div LINE; buf = ring_of rnd sz
     in chase buf reps (chase buf (n * 4) 0))"

definition ladder_sizes :: "nat list" where
  "ladder_sizes = map (\<lambda>k. k * 1024) [4, 8, 16, 24, 32, 48, 64, 96, 128, 192, 256, 384, 512, 768,
     1024, 2048, 3072, 4096, 6144, 8192, 16384, 32768, 65536, 131072]"

definition ladder_reps :: "nat \<Rightarrow> nat" where
  "ladder_reps sz = (if sz \<le> 4 * 1024 * 1024 then 30000000 else 8000000)"

definition ladder_label :: "nat \<Rightarrow> line" where
  "ladder_label sz = (if 1024 * 1024 \<le> sz then (''%zu MB'', [I (int (sz div (1024 * 1024)))])
     else (''%zu KB'', [I (int (sz div 1024))]))"

section \<open>Lemmas\<close>

lemma swap_length [simp]: "length (swap i j xs) = length xs"
  by (simp add: swap_def)

lemma swap_mset: "i < length xs \<Longrightarrow> j < length xs \<Longrightarrow> mset (swap i j xs) = mset xs"
  unfolding swap_def by (rule mset_swap)

lemma fisher_yates_mset: "i < length idx \<Longrightarrow> mset (fisher_yates rnd i idx) = mset idx"
proof (induction i arbitrary: idx)
  case (Suc i)
  have "rnd (Suc i) mod (Suc i + 1) < length idx"
    using Suc.prems mod_less_divisor [of "Suc i + 1" "rnd (Suc i)"] by linarith
  with Suc show ?case by (simp add: swap_mset)
qed simp

lemma fisher_yates_perm:
  assumes "0 < n"
  shows "mset (fisher_yates rnd (n - 1) [0..<n]) = mset [0..<n]"
  using assms by (intro fisher_yates_mset) simp

lemma perm_facts:
  assumes "mset idx = mset [0..<n]"
  shows "length idx = n" "distinct idx" "set idx = {..<n}"
proof -
  from assms show "length idx = n" by (metis size_mset length_upt minus_nat.diff_0)
  from assms show "distinct idx" by (metis mset_eq_imp_distinct_iff distinct_upt)
  from assms show "set idx = {..<n}" by (metis mset_eq_setD atLeast_upt)
qed

lemma link_ring_upto:
  assumes "distinct idx" "length idx = n" "length buf = n" "set idx = {..<n}" "k \<le> n"
  shows "let b = fold (\<lambda>i b. b[idx ! i := idx ! ((i + 1) mod n)]) [0..<k] buf in
    length b = n \<and> (\<forall>i<k. b ! (idx ! i) = idx ! ((i + 1) mod n))"
  using assms(5)
proof (induction k)
  case (Suc k)
  have "idx ! k < n" using Suc.prems assms(2,4) nth_mem [of k idx] by auto
  moreover have "idx ! k \<noteq> idx ! i" if "i < k" for i
    using that Suc.prems assms(1,2) by (simp add: nth_eq_iff_index_eq)
  ultimately show ?case using Suc by (simp add: Let_def less_Suc_eq all_conj_distrib)
qed (use assms in simp)

lemma link_ring_next:
  assumes "distinct idx" "length idx = n" "length buf = n" "set idx = {..<n}" "i < n"
  shows "link_ring n idx buf ! (idx ! i) = idx ! ((i + 1) mod n)"
  using link_ring_upto [OF assms(1-4) order_refl] assms(5) by (simp add: link_ring_def Let_def)

lemma chase_ring:
  assumes ring: "\<And>i. i < n \<Longrightarrow> buf ! (idx ! i) = idx ! ((i + 1) mod n)" and "i < n"
  shows "chase buf k (idx ! i) = idx ! ((i + k) mod n)"
  using assms(2)
proof (induction k arbitrary: i)
  case (Suc k)
  have "(i + 1) mod n < n" using Suc.prems by (intro mod_less_divisor) simp
  with Suc.IH [of "(i + 1) mod n"] ring [OF Suc.prems] show ?case by (simp add: mod_add_left_eq)
qed simp

text \<open>
  C26: Whatever \<open>rand\<close> returns, the pointers form one ring through the whole buffer: starting at
  its first line, the chase visits every line exactly once before it comes back, so the working
  set that is timed is the size printed, and the warm-up ends where it started.
\<close>

theorem ring_visits_every_line:
  assumes "LINE \<le> sz"
  defines "n \<equiv> sz div LINE"
  shows "set (map (\<lambda>k. chase (ring_of rnd sz) k 0) [0..<n]) = {..<n} \<and>
    distinct (map (\<lambda>k. chase (ring_of rnd sz) k 0) [0..<n]) \<and>
    chase (ring_of rnd sz) n 0 = 0 \<and> measure_chase rnd sz reps = chase (ring_of rnd sz) (reps mod n) 0"
proof -
  define idx where "idx = fisher_yates rnd (n - 1) [0..<n]"
  have n: "0 < n" using assms(1) by (simp add: n_def LINE_def div_greater_zero_iff)
  note p = perm_facts [OF fisher_yates_perm [OF n, of rnd], folded idx_def]
  have ring: "ring_of rnd sz = link_ring n idx (replicate n 0)"
    by (simp add: ring_of_def Let_def n_def idx_def)
  note step = link_ring_next [OF p(2,1) length_replicate p(3)]
  obtain z where z: "z < n" "idx ! z = 0" using p n by (metis in_set_conv_nth lessThan_iff)
  have walk: "chase (ring_of rnd sz) k 0 = idx ! ((z + k) mod n)" for k
    unfolding ring using chase_ring [OF step z(1)] z(2) by metis
  have m: "(z + k) mod n = (if z + k < n then z + k else z + k - n)" if "k < n" for k
    using that z(1) by (simp add: le_mod_geq)
  have inj: "inj_on (\<lambda>k. idx ! ((z + k) mod n)) {..<n}"
  proof (rule inj_onI)
    fix k l assume kl: "k \<in> {..<n}" "l \<in> {..<n}" "idx ! ((z + k) mod n) = idx ! ((z + l) mod n)"
    then have "(z + k) mod n = (z + l) mod n" using p n by (simp add: nth_eq_iff_index_eq)
    with kl z(1) show "k = l" by (auto simp: m split: if_splits)
  qed
  have "(\<lambda>k. idx ! ((z + k) mod n)) ` {..<n} \<subseteq> {..<n}"
    using p n by (auto simp flip: p(3))
  then have onto: "(\<lambda>k. idx ! ((z + k) mod n)) ` {..<n} = {..<n}"
    using inj by (simp add: endo_inj_surj)
  have warm: "chase (ring_of rnd sz) (n * 4) 0 = 0" using z by (simp add: walk)
  have "chase (ring_of rnd sz) (reps mod n) 0 = chase (ring_of rnd sz) reps 0"
    by (simp add: walk mod_add_right_eq)
  then have sink: "measure_chase rnd sz reps = chase (ring_of rnd sz) (reps mod n) 0"
    using warm by (simp add: measure_chase_def Let_def flip: n_def)
  have walk_fn: "(\<lambda>k. chase (ring_of rnd sz) k 0) = (\<lambda>k. idx ! ((z + k) mod n))"
    by (rule ext) (rule walk)
  have "chase (ring_of rnd sz) n 0 = 0" using z by (simp add: walk)
  with sink show ?thesis
    using inj onto unfolding walk_fn by (simp add: distinct_map atLeast0LessThan)
qed

theorem ring_visits_every_line_witness:
  "set (map (\<lambda>k. chase (ring_of (\<lambda>i. 7) 256) k 0) [0..<4]) = {..<4} \<and> chase (ring_of (\<lambda>i. 7) 256) 4 0 = 0"
  using ring_visits_every_line [of 256 "\<lambda>i. 7" 0] by (simp add: LINE_def)

end
