(* ===== verification/Side_Channel.thy ===== *)
theory Side_Channel
  imports Prelude
begin

section \<open>Flush and reload: a byte sent through the cache\<close>

text \<open>
  \<open>sidechannel.h\<close>, \<open>flush_reload.c\<close>, \<open>spectre_v1.c\<close> and \<open>meltdown_test.c\<close>, and the index
  mask of \<open>nospec_mask.c\<close>. The machine, its cache and its clock are the parameter \<open>chw\<close>, a
  state transformer for each instruction used. What the attacks rely on is \<open>cache_documented\<close>:
  which lines an instruction brings in or throws out, and that a reload is fast exactly when the
  line is cached. Averages printed in floating point stand for the sums they are computed from.
\<close>

record 'k chw =
  hw_flush :: "u64 \<Rightarrow> 'k \<Rightarrow> 'k" \<comment> \<open>\<open>dc civac\<close>\<close>
  hw_fence :: "'k \<Rightarrow> 'k" \<comment> \<open>\<open>dsb\<close>, \<open>isb\<close>\<close>
  hw_access :: "u64 \<Rightarrow> 'k \<Rightarrow> 'k" \<comment> \<open>\<open>ldrb\<close>\<close>
  hw_pmccntr :: "'k \<Rightarrow> u64 \<times> 'k"
  hw_perf :: "bool" \<comment> \<open>\<open>g_pc\<close> is mapped\<close>
  hw_index :: "'k \<Rightarrow> u32" \<comment> \<open>\<open>g_pc->index\<close>\<close>
  hw_offset :: "'k \<Rightarrow> u64"
  hw_half :: "u64 \<Rightarrow> u64 \<Rightarrow> u64" \<comment> \<open>the midpoint of two averages, in \<open>double\<close>\<close>
  hw_branch :: "'k \<Rightarrow> 'k" \<comment> \<open>a branch whose body runs\<close>
  hw_wrong_path :: "u64 \<Rightarrow> 'k \<Rightarrow> 'k" \<comment> \<open>one whose body, with this index, does not\<close>
  hw_kernel_read :: "u64 \<Rightarrow> 'k \<Rightarrow> u8 option \<times> 'k" \<comment> \<open>\<open>None\<close>: the signal handler jumps out\<close>

subsection \<open>sidechannel.h\<close>

text \<open>What \<open>sc_timer_init\<close> finds out; \<open>ti_sigill\<close>: reading the counter raises \<open>SIGILL\<close>.\<close>

record timer_env =
  ti_fd :: int
  ti_mapped :: bool
  ti_cap :: bool
  ti_index :: u32
  ti_sigill :: bool

definition raw_pmccntr_usable :: "timer_env \<Rightarrow> bool" where
  "raw_pmccntr_usable e \<longleftrightarrow> \<not> ti_sigill e"

text \<open>The result and whether \<open>g_pc\<close> is set.\<close>

definition sc_timer_init :: "timer_env \<Rightarrow> int \<times> bool" where
  "sc_timer_init e =
     (if 0 \<le> ti_fd e \<and> ti_mapped e \<and> ti_cap e \<and> ti_index e \<noteq> 0 then (0, True)
      else (if raw_pmccntr_usable e then 1 else - 1, False))"

definition rdcycle :: "'k chw \<Rightarrow> 'k \<Rightarrow> u64 \<times> 'k" where
  "rdcycle h k =
     (if hw_perf h \<and> hw_index h k \<noteq> 0
      then (let (v, k1) = hw_pmccntr h k in (hw_offset h k1 + v, k1))
      else hw_pmccntr h k)"

definition probe_time :: "'k chw \<Rightarrow> u64 \<Rightarrow> 'k \<Rightarrow> u64 \<times> 'k" where
  "probe_time h p k =
     (let (t0, k1) = rdcycle h (hw_fence h k);
          (t1, k2) = rdcycle h (hw_fence h (hw_access h p k1))
      in (t1 - t0, k2))"

subsection \<open>flush_reload.c\<close>

definition STRIDE :: nat where "STRIDE = 4160"
definition NPROBE :: nat where "NPROBE = 256"
definition HIST_MAX :: nat where "HIST_MAX = 400"

definition slot :: "u64 \<Rightarrow> nat \<Rightarrow> u64" where
  "slot base i = base + of_nat (i * STRIDE)"

definition hist_bump :: "u32 list \<Rightarrow> u64 \<Rightarrow> u32 list" where
  "hist_bump h c = (let i = (if of_nat HIST_MAX \<le> c then HIST_MAX - 1 else unat c) in h[i := h ! i + 1])"

text \<open>One sample: the line is flushed and timed, then loaded and timed.\<close>

definition time_both :: "'k chw \<Rightarrow> u64 \<Rightarrow> 'k \<Rightarrow> (u64 \<times> u64) \<times> 'k" where
  "time_both h p k =
     (let (m, k1) = probe_time h p (hw_fence h (hw_flush h p k));
          (t, k2) = probe_time h p (hw_fence h (hw_access h p k1))
      in ((m, t), k2))"

fun time_sums :: "'k chw \<Rightarrow> u64 \<Rightarrow> nat \<Rightarrow> u64 \<times> u64 \<Rightarrow> 'k \<Rightarrow> (u64 \<times> u64) \<times> 'k" where
  "time_sums h p 0 s k = (s, k)"
| "time_sums h p (Suc n) s k = (let ((m, t), k1) = time_both h p k
     in time_sums h p n (fst s + m, snd s + t) k1)"

fun fill_hists :: "'k chw \<Rightarrow> u64 \<Rightarrow> nat \<Rightarrow> u32 list \<times> u32 list \<Rightarrow> 'k \<Rightarrow> (u32 list \<times> u32 list) \<times> 'k" where
  "fill_hists h p 0 hs k = (hs, k)"
| "fill_hists h p (Suc n) hs k = (let ((m, t), k1) = time_both h p k
     in fill_hists h p n (hist_bump (fst hs) m, hist_bump (snd hs) t) k1)"

text \<open>The threshold, the histograms of misses and hits, and what is printed.\<close>

definition calibrate :: "'k chw \<Rightarrow> u64 \<Rightarrow> nat \<Rightarrow> 'k \<Rightarrow> (u64 \<times> (u32 list \<times> u32 list) \<times> line list) \<times> 'k" where
  "calibrate h base n k =
     (let p = slot base 64;
          ((miss, hit), k1) = time_sums h p n (0, 0) k;
          (hs, k2) = fill_hists h p n (replicate HIST_MAX 0, replicate HIST_MAX 0) k1
      in ((hw_half h hit miss, hs,
            [(''[cache] @ %d'', [I (int n)]), (''  (cached)   = %.1f'', [U hit]),
             (''  (flushed)= %.1f'', [U miss]), (''  = %.1f'', [U hit, U miss])]), k2))"

text \<open>
  The bars: \<open>50.0 * h[i] / peak\<close> is computed in \<open>double\<close> and cut off; with 32-bit counts the
  rounding does not reach the next integer. Without any sample the loop would start at \<open>h[-1]\<close>.
\<close>

definition hist_bars :: "u32 \<Rightarrow> u32 \<Rightarrow> nat" where
  "hist_bars c peak = (let b = if peak \<noteq> 0 then 50 * unat c div unat peak else 0
     in if b = 0 \<and> c \<noteq> 0 then 1 else b)"

definition dump_hist :: "string \<Rightarrow> u32 list \<Rightarrow> line list option" where
  "dump_hist name h =
     (let used = filter (\<lambda>i. h ! i \<noteq> 0) [0..<HIST_MAX]; peak = fold max h 0 in
      if used = [] then None
      else Some ((''  %-14s [%d..%d]'', [S name, I (int (hd used)), I (int (last used))])
        # map (\<lambda>i. (''   %3d cyc | %u'', [I (int i), I (int (hist_bars (h ! i) peak)), U32 (h ! i)]))
            (filter (\<lambda>i. h ! i \<noteq> 0) [hd used..<Suc (last used)])))"

definition mix :: "nat \<Rightarrow> nat" where
  "mix i = (i * 167 + 13) mod 256"

fun scan_min :: "'k chw \<Rightarrow> u64 \<Rightarrow> u64 \<Rightarrow> nat list \<Rightarrow> int \<times> u64 \<Rightarrow> 'k \<Rightarrow> int \<times> 'k" where
  "scan_min h base th [] b k = (fst b, k)"
| "scan_min h base th (i # is) b k =
     (let (t, k1) = probe_time h (slot base (mix i)) k in
      scan_min h base th is (if t < th \<and> t < snd b then (int (mix i), t) else b) k1)"

definition reload_scan :: "'k chw \<Rightarrow> u64 \<Rightarrow> u64 \<Rightarrow> 'k \<Rightarrow> int \<times> 'k" where
  "reload_scan h base th k = scan_min h base th [0..<NPROBE] (- 1, - 1) k"

fun scan_votes :: "'k chw \<Rightarrow> u64 \<Rightarrow> u64 \<Rightarrow> nat list \<Rightarrow> int list \<Rightarrow> 'k \<Rightarrow> int list \<times> 'k" where
  "scan_votes h base th [] hits k = (hits, k)"
| "scan_votes h base th (j # js) hits k =
     (let (t, k1) = probe_time h (slot base (mix j)) k in
      scan_votes h base th js (if t < th then hits[mix j := hits ! mix j + 1] else hits) k1)"

definition flush_slots :: "'k chw \<Rightarrow> u64 \<Rightarrow> 'k \<Rightarrow> 'k" where
  "flush_slots h base k = fold (\<lambda>j. hw_flush h (slot base j)) [0..<NPROBE] k"

definition send_round :: "'k chw \<Rightarrow> u64 \<Rightarrow> u64 \<Rightarrow> nat \<Rightarrow> int list \<Rightarrow> 'k \<Rightarrow> int list \<times> 'k" where
  "send_round h base th secret hits k =
     scan_votes h base th [0..<NPROBE] hits
       (hw_fence h (hw_access h (slot base secret) (hw_fence h (flush_slots h base k))))"

fun send_rounds :: "'k chw \<Rightarrow> u64 \<Rightarrow> u64 \<Rightarrow> nat \<Rightarrow> nat \<Rightarrow> int list \<Rightarrow> 'k \<Rightarrow> int list \<times> 'k" where
  "send_rounds h base th secret 0 hits k = (hits, k)"
| "send_rounds h base th secret (Suc n) hits k =
     (let (hits1, k1) = send_round h base th secret hits k in send_rounds h base th secret n hits1 k1)"

definition best_vote :: "int list \<Rightarrow> nat" where
  "best_vote hits = fold (\<lambda>i best. if hits ! best < hits ! i then i else best) [0..<NPROBE] 0"

definition shown_char :: "nat \<Rightarrow> nat" where
  "shown_char c = (if 32 \<le> c \<and> c < 127 then c else 63)"

text \<open>The bytes of the message one after the other: what is printed and how many are right.\<close>

fun channel_bytes :: "'k chw \<Rightarrow> u64 \<Rightarrow> u64 \<Rightarrow> u8 list \<Rightarrow> 'k \<Rightarrow> (nat list \<times> nat) \<times> 'k" where
  "channel_bytes h base th [] k = (([], 0), k)"
| "channel_bytes h base th (c # cs) k =
     (let (hits, k1) = send_rounds h base th (unat c) 100 (replicate NPROBE 0) k;
          best = best_vote hits;
          ((out, ok), k2) = channel_bytes h base th cs k1
      in ((shown_char best # out, ok + of_bool (best = unat c)), k2))"

definition covert_channel :: "'k chw \<Rightarrow> u64 \<Rightarrow> u64 \<Rightarrow> u8 list \<Rightarrow> 'k \<Rightarrow> line list \<times> 'k" where
  "covert_channel h base th msg k =
     (let ((out, ok), k1) = channel_bytes h base th msg k in
      ([(''flush+reload %lu'', [U th]), (''bytes'', map (\<lambda>c. I (int c)) out),
        (''%d/%d'', [I (int ok), I (int (length msg))])], k1))"

definition channel_msg :: "u8 list" where
  "channel_msg = map (\<lambda>c. of_nat (of_char c)) ''benshushu''"

definition flush_reload_main :: "timer_env \<Rightarrow> 'k chw \<Rightarrow> u64 \<Rightarrow> 'k \<Rightarrow> (int \<times> line list) option" where
  "flush_reload_main e h base k =
     (let (src, g) = sc_timer_init e; h1 = h\<lparr>hw_perf := g\<rparr> in
      if src < 0 then Some (1, [(''error: no cycle counter'', [])])
      else (let ((th, (miss, hit), ls), k1) = calibrate h1 base 200000 k in
        case (dump_hist ''cached'' hit, dump_hist ''flush'' miss) of
          (Some a, Some b) \<Rightarrow> Some (0, [(''clock: %s'', [S (if src = 0 then ''perf mmap'' else ''raw mrs'')])]
             @ ls @ a @ b @ [(''  threshold = %lu'', [U th])] @ fst (covert_channel h1 base th channel_msg k1))
        | _ \<Rightarrow> None))"

section \<open>Lemmas\<close>

subsection \<open>Lines, slots and the scanning order\<close>

definition line_of :: "u64 \<Rightarrow> nat" where "line_of a = unat a div 64"

text \<open>\<open>cached k l\<close>: line \<open>l\<close> is in the cache; \<open>th\<close> separates fast reloads from slow ones.\<close>

definition cache_documented :: "'k chw \<Rightarrow> u64 \<Rightarrow> ('k \<Rightarrow> nat \<Rightarrow> bool) \<Rightarrow> bool" where
  "cache_documented h th cached \<longleftrightarrow>
     (\<forall>k a l. cached (hw_flush h a k) l \<longleftrightarrow> cached k l \<and> l \<noteq> line_of a) \<and>
     (\<forall>k a l. cached (hw_access h a k) l \<longleftrightarrow> cached k l \<or> l = line_of a) \<and>
     (\<forall>k l. cached (hw_fence h k) l = cached k l) \<and>
     (\<forall>k l. cached (snd (hw_pmccntr h k)) l = cached k l) \<and>
     (\<forall>k a. fst (probe_time h a k) < th \<longleftrightarrow> cached k (line_of a))"

definition in_memory :: "u64 \<Rightarrow> bool" where
  "in_memory base \<longleftrightarrow> unat base + NPROBE * STRIDE \<le> 2 ^ 64"

lemma slot_unat:
  assumes "in_memory base" "i < NPROBE"
  shows "unat (slot base i) = unat base + i * STRIDE"
proof -
  have "i * STRIDE < NPROBE * STRIDE" using assms(2) by (simp add: STRIDE_def)
  then have l: "unat base + i * STRIDE < 2 ^ 64" using assms(1) unfolding in_memory_def by linarith
  then have "unat (of_nat (i * STRIDE) :: u64) = i * STRIDE" by (simp add: unat_of_nat del: of_nat_mult)
  with l show ?thesis unfolding slot_def by (simp add: unat_word_ariths del: of_nat_mult)
qed

lemma slots_apart:
  assumes "in_memory base" "i < NPROBE" "j < NPROBE"
  shows "line_of (slot base i) = line_of (slot base j) \<longleftrightarrow> i = j"
proof -
  have "(unat base + i * 4160) div 64 < (unat base + j * 4160) div 64" if "i < j" for i j
    using that div_le_mono [of "unat base + i * 4160 + 64" "unat base + j * 4160" 64] by simp
  then have "(unat base + i * 4160) div 64 = (unat base + j * 4160) div 64 \<longleftrightarrow> i = j"
    by (metis less_irrefl nat_neq_iff)
  with assms show ?thesis by (simp add: line_of_def slot_unat STRIDE_def)
qed

lemma mix_less: "mix i < NPROBE"
  by (simp add: mix_def NPROBE_def)

definition unmix :: "nat \<Rightarrow> nat" where
  "unmix s = ((s + 243) * 23) mod 256"

lemma unmix_less: "unmix s < NPROBE"
  by (simp add: unmix_def NPROBE_def)

lemma unmix_mix: "j < NPROBE \<Longrightarrow> unmix (mix j) = j"
proof -
  assume j: "j < NPROBE"
  have "unmix (mix j) = ((j * 167 + 13 + 243) * 23) mod 256"
    unfolding unmix_def mix_def by (metis mod_add_left_eq mod_mult_left_eq)
  also have "(j * 167 + 13 + 243) * 23 = j + 256 * (15 * j + 23)" by simp
  finally show ?thesis using j by (simp only: mod_mult_self2 NPROBE_def mod_less)
qed

lemma mix_unmix: "s < NPROBE \<Longrightarrow> mix (unmix s) = s"
proof -
  assume s: "s < NPROBE"
  have "mix (unmix s) = ((s + 243) * 23 * 167 + 13) mod 256"
    unfolding unmix_def mix_def by (metis mod_add_left_eq mod_mult_left_eq)
  also have "(s + 243) * 23 * 167 + 13 = s + 256 * (15 * s + 3646)" by simp
  finally show ?thesis using s by (simp only: mod_mult_self2 NPROBE_def mod_less)
qed

lemma mix_inj: "i < NPROBE \<Longrightarrow> j < NPROBE \<Longrightarrow> mix i = mix j \<longleftrightarrow> i = j"
  by (metis unmix_mix)

lemma rdcycle_cached:
  assumes "cache_documented h th cached"
  shows "cached (snd (rdcycle h k)) l = cached k l"
  using assms by (auto simp: rdcycle_def cache_documented_def split: prod.split) (metis snd_conv)+

lemma probe_cached:
  assumes "cache_documented h th cached"
  shows "cached (snd (probe_time h a k)) l \<longleftrightarrow> cached k l \<or> l = line_of a"
proof -
  have r: "cached (snd (rdcycle h k)) l = cached k l" for k by (rule rdcycle_cached [OF assms])
  show ?thesis
    using r [of "hw_fence h k"] r assms
    by (simp add: probe_time_def split_def Let_def cache_documented_def)
qed

lemma probe_fast:
  assumes "cache_documented h th cached"
  shows "fst (probe_time h a k) < th \<longleftrightarrow> cached k (line_of a)"
  using assms by (simp add: cache_documented_def)

text \<open>A scan in any order without repetition adds one vote to every slot whose line is cached.\<close>

lemma scan_votes_exact:
  assumes doc: "cache_documented h th cached" and base: "in_memory base"
  shows "distinct js \<Longrightarrow> set js \<subseteq> {..<NPROBE} \<Longrightarrow> length hits = NPROBE \<Longrightarrow>
    length (fst (scan_votes h base th js hits k)) = NPROBE \<and>
    (\<forall>s<NPROBE. fst (scan_votes h base th js hits k) ! s =
      hits ! s + of_bool (s \<in> mix ` set js \<and> cached k (line_of (slot base s)))) "
proof (induction js arbitrary: hits k)
  case (Cons j js)
  obtain t k1 where p: "probe_time h (slot base (mix j)) k = (t, k1)" by force
  have j: "j < NPROBE" "mix j < NPROBE" using Cons.prems mix_less by auto
  have fast: "t < th \<longleftrightarrow> cached k (line_of (slot base (mix j)))"
    using probe_fast [OF doc, of "slot base (mix j)" k] p by simp
  have new: "cached k1 (line_of (slot base s)) \<longleftrightarrow> cached k (line_of (slot base s)) \<or> s = mix j" if "s < NPROBE" for s
    using probe_cached [OF doc, of "slot base (mix j)" k] p slots_apart [OF base that j(2)] by simp
  have out: "mix x \<noteq> mix j" if "x \<in> set js" for x using that Cons.prems mix_inj j(1) by auto
  show ?case
    using Cons.IH [of "if t < th then hits[mix j := hits ! mix j + 1] else hits" k1] Cons.prems out j(2)
    by (auto simp: p fast new nth_list_update dest: out)
qed simp


lemma flush_slots_cached:
  assumes doc: "cache_documented h th cached" and base: "in_memory base" and s: "s < NPROBE"
  shows "\<not> cached (flush_slots h base k) (line_of (slot base s))"
proof -
  have "cached (fold (\<lambda>j. hw_flush h (slot base j)) js k) l \<longleftrightarrow>
      cached k l \<and> (\<forall>j\<in>set js. l \<noteq> line_of (slot base j))" for js l k
    using doc by (induction js arbitrary: k) (auto simp: cache_documented_def)
  then show ?thesis using s by (auto simp: flush_slots_def)
qed

lemma all_slots_scanned: "s < NPROBE \<Longrightarrow> s \<in> mix ` set [0..<NPROBE]"
  using mix_unmix [of s] unmix_less [of s] by (metis atLeastLessThan_iff image_eqI set_upt zero_le)

lemma send_round_exact:
  assumes doc: "cache_documented h th cached" and base: "in_memory base" and s: "secret < NPROBE"
    and l: "length hits = NPROBE"
  shows "length (fst (send_round h base th secret hits k)) = NPROBE \<and>
    (\<forall>i<NPROBE. fst (send_round h base th secret hits k) ! i = hits ! i + of_bool (i = secret))"
proof -
  let ?k = "hw_fence h (hw_access h (slot base secret) (hw_fence h (flush_slots h base k)))"
  have "cached ?k (line_of (slot base i)) \<longleftrightarrow> i = secret" if "i < NPROBE" for i
    using doc flush_slots_cached [OF doc base that] slots_apart [OF base that s]
    by (simp add: cache_documented_def)
  with scan_votes_exact [OF doc base _ _ l, of "[0..<NPROBE]" ?k] all_slots_scanned show ?thesis
    by (simp add: send_round_def atLeast0LessThan)
qed

lemma send_rounds_exact:
  assumes doc: "cache_documented h th cached" and base: "in_memory base" and s: "secret < NPROBE"
  shows "length hits = NPROBE \<Longrightarrow> length (fst (send_rounds h base th secret n hits k)) = NPROBE \<and>
    (\<forall>i<NPROBE. fst (send_rounds h base th secret n hits k) ! i = hits ! i + int n * of_bool (i = secret))"
proof (induction n arbitrary: hits k)
  case (Suc n)
  obtain hits1 k1 where r: "send_round h base th secret hits k = (hits1, k1)" by force
  with send_round_exact [OF doc base s Suc.prems, of k] Suc.IH [of hits1 k1] show ?case
    by (auto simp: algebra_simps)
qed simp

lemma best_vote_unique:
  assumes "s < NPROBE" "\<And>i. i < NPROBE \<Longrightarrow> i \<noteq> s \<Longrightarrow> hits ! i = 0" "0 < hits ! s"
  shows "best_vote hits = s"
proof -
  have "fold (\<lambda>i best. if hits ! best < hits ! i then i else best) [0..<n] 0 = (if s < n then s else 0)"
    if "n \<le> NPROBE" for n
    using that
  proof (induction n)
    case (Suc n)
    moreover have "s \<noteq> 0 \<Longrightarrow> hits ! 0 = 0" using assms(2) [of 0] by (simp add: NPROBE_def)
    ultimately show ?case using assms by (cases "n = s"; cases "n < s"; cases "s = 0") auto
  qed simp
  then show ?thesis using assms(1) by (simp add: best_vote_def)
qed

lemma channel_bytes_exact:
  assumes doc: "cache_documented h th cached" and base: "in_memory base"
  shows "fst (channel_bytes h base th msg k) = (map (shown_char \<circ> unat) msg, length msg)"
proof (induction msg arbitrary: k)
  case (Cons c cs)
  have c: "unat c < NPROBE" using unsigned_less [of c] by (simp add: NPROBE_def)
  obtain hits k1 where r: "send_rounds h base th (unat c) 100 (replicate NPROBE 0) k = (hits, k1)" by force
  have "hits ! i = 100 * of_bool (i = unat c)" if "i < NPROBE" for i
    using send_rounds_exact [OF doc base c, of "replicate NPROBE 0" 100 k] r that by simp
  then have "best_vote hits = unat c" using c by (intro best_vote_unique) auto
  with Cons [of k1] show ?case by (simp add: r split_def Let_def)
qed simp

text \<open>
  C22: On a machine whose reloads are fast exactly for cached lines, the covert channel transmits
  every byte of every message: what is printed is the message (a question mark for a byte that
  is not printable) and the number of bytes restored is its length. The order in which the slots
  are probed visits each one once, and no probe disturbs a later one.
\<close>

theorem covert_channel_exact:
  assumes "cache_documented h th cached" "in_memory base"
  shows "fst (covert_channel h base th msg k) =
    [(''flush+reload %lu'', [U th]), (''bytes'', map (\<lambda>c. I (int (shown_char (unat c)))) msg),
     (''%d/%d'', [I (int (length msg)), I (int (length msg))])]"
  using channel_bytes_exact [OF assms, of msg k] by (simp add: covert_channel_def split_def Let_def)

text \<open>A machine: the set of cached lines and a clock; a load takes 10 cycles or 300.\<close>

definition ideal_hw :: "((nat \<Rightarrow> bool) \<times> u64) chw" where
  "ideal_hw = \<lparr>hw_flush = (\<lambda>a (c, t). (c(line_of a := False), t)), hw_fence = (\<lambda>k. k),
     hw_access = (\<lambda>a (c, t). (c(line_of a := True), t + (if c (line_of a) then 10 else 300))),
     hw_pmccntr = (\<lambda>(c, t). (t, (c, t))), hw_perf = False, hw_index = (\<lambda>k. 0), hw_offset = (\<lambda>k. 0),
     hw_half = (\<lambda>a b. 100), hw_branch = (\<lambda>k. k), hw_wrong_path = (\<lambda>x k. k), hw_kernel_read = (\<lambda>a k. (None, k))\<rparr>"

lemma ideal_documented: "cache_documented ideal_hw 100 fst"
  by (auto simp: cache_documented_def ideal_hw_def probe_time_def rdcycle_def Let_def)

theorem covert_channel_exact_witness:
  "fst (covert_channel ideal_hw 0x10000 100 [72, 105] ((\<lambda>l. False), 0)) =
    [(''flush+reload %lu'', [U 100]), (''bytes'', [I 72, I 105]), (''%d/%d'', [I 2, I 2])]"
  using covert_channel_exact [OF ideal_documented, of "0x10000" "[72, 105]" "((\<lambda>l. False), 0)"]
  by (simp add: in_memory_def NPROBE_def STRIDE_def shown_char_def)

subsection \<open>The histograms\<close>

definition total :: "u32 list \<Rightarrow> nat" where "total h = sum_list (map unat h)"

definition hist_ok :: "nat \<Rightarrow> u32 list \<Rightarrow> bool" where
  "hist_ok n h \<longleftrightarrow> length h = HIST_MAX \<and> total h = n"

lemma hist_bump_ok:
  assumes "hist_ok n h" "Suc n < 2 ^ 32"
  shows "hist_ok (Suc n) (hist_bump h c)"
proof -
  define i where "i = (if of_nat HIST_MAX \<le> c then HIST_MAX - 1 else unat c)"
  have i: "i < length h"
    using assms(1) by (auto simp: i_def hist_ok_def HIST_MAX_def word_less_nat_alt not_le)
  have le: "unat (h ! i) \<le> n" using assms(1) i member_le_sum_list [of "unat (h ! i)" "map unat h"]
    by (auto simp: hist_ok_def total_def)
  then have "unat (h ! i) + 1 < 2 ^ 32" using assms(2) by linarith
  then have u: "unat (h ! i + 1) = unat (h ! i) + 1" by (simp add: unat_word_ariths)
  have "sum_list ((map unat h)[i := unat (h ! i) + 1]) = total h + 1"
    using i by (subst sum_list_update) (auto simp: total_def elem_le_sum_list)
  then show ?thesis
    using assms(1) u by (simp add: hist_ok_def total_def hist_bump_def map_update flip: i_def)
qed

lemma fill_hists_ok:
  "hist_ok a (fst hs) \<Longrightarrow> hist_ok a (snd hs) \<Longrightarrow> a + n < 2 ^ 32 \<Longrightarrow>
    hist_ok (a + n) (fst (fst (fill_hists h p n hs k))) \<and> hist_ok (a + n) (snd (fst (fill_hists h p n hs k)))"
proof (induction n arbitrary: a hs k)
  case (Suc n)
  obtain m t k1 where b: "time_both h p k = ((m, t), k1)" by (metis surj_pair)
  have "Suc a < 2 ^ 32" using Suc.prems(3) by simp
  with Suc.prems(1,2) have "hist_ok (Suc a) (hist_bump (fst hs) m)" "hist_ok (Suc a) (hist_bump (snd hs) t)"
    by (simp_all add: hist_bump_ok)
  with Suc.IH [of "Suc a" "(hist_bump (fst hs) m, hist_bump (snd hs) t)" k1] Suc.prems(3) b
  show ?case by simp
qed simp

lemma hist_shown: "hist_ok n h \<Longrightarrow> 0 < n \<Longrightarrow> \<exists>ls. dump_hist name h = Some ls"
proof -
  assume h: "hist_ok n h" "0 < n"
  have "\<exists>i<HIST_MAX. h ! i \<noteq> 0"
  proof (rule ccontr)
    assume "\<not> ?thesis"
    with h(1) have "\<forall>x\<in>set h. x = 0" by (auto simp: hist_ok_def in_set_conv_nth)
    then have "total h = 0" by (auto simp: total_def sum_list_eq_0_iff)
    with h show False by (simp add: hist_ok_def)
  qed
  then have "filter (\<lambda>i. h ! i \<noteq> 0) [0..<HIST_MAX] \<noteq> []" by (auto simp: filter_empty_conv)
  then show ?thesis by (simp add: dump_hist_def Let_def)
qed

text \<open>
  On any machine at all, every sample of the calibration is counted exactly once in its
  histogram, whatever the time measured; so the tables printed start at a real entry, and the
  program returns.
\<close>

theorem every_sample_counted:
  assumes "n < 2 ^ 32"
  shows "(case fst (calibrate h base n k) of (th, (miss, hit), ls) \<Rightarrow> hist_ok n miss \<and> hist_ok n hit) \<and>
    (\<exists>r. flush_reload_main e h base k = Some r)"
proof -
  have z: "hist_ok 0 (replicate HIST_MAX 0)" by (simp add: hist_ok_def total_def)
  have c: "case fst (calibrate h base n k) of (th, (miss, hit), ls) \<Rightarrow> hist_ok n miss \<and> hist_ok n hit"
    if "n < 2 ^ 32" for n and h :: "'a chw" and base k
    using fill_hists_ok [of 0 "(replicate HIST_MAX 0, replicate HIST_MAX 0)" n h] z that
    by (simp add: calibrate_def split_def Let_def)
  obtain src g where g: "sc_timer_init e = (src, g)" by force
  obtain th miss hit ls k1 where cal: "calibrate (h\<lparr>hw_perf := g\<rparr>) base 200000 k = ((th, (miss, hit), ls), k1)"
    by (metis surj_pair)
  with c [of 200000 "h\<lparr>hw_perf := g\<rparr>" base k] have "hist_ok 200000 miss" "hist_ok 200000 hit" by simp_all
  then obtain la lb where "dump_hist ''cached'' hit = Some la" "dump_hist ''flush'' miss = Some lb"
    using hist_shown by (metis zero_less_numeral)
  then have "\<exists>r. flush_reload_main e h base k = Some r"
    by (simp add: flush_reload_main_def Let_def g cal)
  then show ?thesis by (rule conjI [OF c [OF assms]])
qed

theorem every_sample_counted_witness:
  "\<exists>r. flush_reload_main \<lparr>ti_fd = 3, ti_mapped = True, ti_cap = True, ti_index = 32, ti_sigill = False\<rparr>
     ideal_hw 0 ((\<lambda>l. False), 0) = Some r"
  using every_sample_counted [of 0 ideal_hw 0 "((\<lambda>l. False), 0)"] by simp

end
