(* ===== verification/Leaks.thy ===== *)
theory Leaks
  imports Side_Channel
begin

section \<open>spectre_v1.c, meltdown_test.c, nospec_mask.c: a byte that should not be readable\<close>

text \<open>
  The two attacks send the byte through the cache channel of \<open>Side_Channel\<close>. What the processor
  does on a path it later takes back is the parameter \<open>hw_wrong_path\<close> (spectre) or part of
  \<open>hw_kernel_read\<close> (meltdown); the theorems say what the programs report for a given behaviour of
  the processor. \<open>nospec_mask.c\<close> is the defence: a mask computed from the index.
\<close>

subsection \<open>spectre_v1.c\<close>

definition array1_size :: nat where "array1_size = 16"
definition array1 :: "nat list" where "array1 = [1..<17] @ replicate 144 0"

text \<open>\<open>array2\<close> is the base address of the probe array. Its body only runs for an index in range.\<close>

definition victim :: "'k chw \<Rightarrow> u64 \<Rightarrow> u64 \<Rightarrow> 'k \<Rightarrow> 'k" where
  "victim h array2 x k =
     (if x < of_nat array1_size then hw_access h (slot array2 (array1 ! unat x)) (hw_branch h k)
      else hw_wrong_path h x k)"

text \<open>\<open>x = ((j % 6) - 1) & ~0xFFFF\<close>, an \<open>int\<close> stored in a \<open>size_t\<close>; then without a branch.\<close>

definition choose_x :: "nat \<Rightarrow> u64 \<Rightarrow> u64 \<Rightarrow> u64" where
  "choose_x j training_x malicious_x =
     (let x = scast (((of_nat (j mod 6) - 1) :: u32) AND NOT 0xFFFF) :: u64;
          x = x OR drop_bit 16 x
      in training_x XOR (x AND (malicious_x XOR training_x)))"

definition train_step :: "'k chw \<Rightarrow> u64 \<Rightarrow> u64 \<Rightarrow> u64 \<Rightarrow> u64 \<Rightarrow> nat \<Rightarrow> 'k \<Rightarrow> 'k" where
  "train_step h size_addr array2 tx mx j k =
     victim h array2 (choose_x j tx mx) (hw_flush h size_addr k)"

definition leak_try :: "'k chw \<Rightarrow> u64 \<Rightarrow> u64 \<Rightarrow> u64 \<Rightarrow> u64 \<Rightarrow> nat \<Rightarrow> int list \<Rightarrow> 'k \<Rightarrow> int list \<times> 'k" where
  "leak_try h size_addr array2 th mx tries results k =
     (let k1 = hw_fence h (flush_slots h array2 k);
          tx = of_nat (tries mod array1_size);
          k2 = fold (train_step h size_addr array2 tx mx) (rev [0..<30]) k1
      in scan_votes h array2 th [0..<NPROBE] results k2)"

fun leak_tries :: "'k chw \<Rightarrow> u64 \<Rightarrow> u64 \<Rightarrow> u64 \<Rightarrow> u64 \<Rightarrow> nat list \<Rightarrow> int list \<Rightarrow> 'k \<Rightarrow> int list \<times> 'k" where
  "leak_tries h sa a2 th mx [] results k = (results, k)"
| "leak_tries h sa a2 th mx (t # ts) results k =
     (let (r, k1) = leak_try h sa a2 th mx t results k in leak_tries h sa a2 th mx ts r k1)"

definition drop_trained :: "int list \<Rightarrow> int list" where
  "drop_trained results = fold (\<lambda>i r. r[array1 ! i := 0]) [0..<array1_size] (results[0 := 0])"

text \<open>The loop that keeps the best and the second best, \<open>-1\<close> for none.\<close>

definition top_two :: "int list \<Rightarrow> int \<times> int" where
  "top_two r = fold (\<lambda>i (best, second).
       if best < 0 \<or> r ! nat best < r ! i then (int i, best)
       else if second < 0 \<or> r ! nat second < r ! i then (best, int i) else (best, second))
     [0..<NPROBE] (- 1, - 1)"

definition leak_byte :: "'k chw \<Rightarrow> u64 \<Rightarrow> u64 \<Rightarrow> u64 \<Rightarrow> u64 \<Rightarrow> 'k \<Rightarrow> (int \<times> line) \<times> 'k" where
  "leak_byte h sa a2 th mx k =
     (let (r0, k1) = leak_tries h sa a2 th mx [0..<1000] (replicate NPROBE 0) k;
          r = drop_trained r0; (best, second) = top_two r
      in ((best, (''best 0x%02x %c (%d) second 0x%02x (%d)'',
            [I best, I (if 32 \<le> best \<and> best < 127 then best else 46), I (r ! nat best), I second, I (r ! nat second)])), k1))"

definition threshold_of :: "u64 \<times> u64 \<Rightarrow> u64" where
  "threshold_of s = (case s of (miss, hit) \<Rightarrow> (hit div 50000 + miss div 50000) div 2)"

fun leak_bytes :: "'k chw \<Rightarrow> u64 \<Rightarrow> u64 \<Rightarrow> u64 \<Rightarrow> u64 \<Rightarrow> nat \<Rightarrow> u8 list \<Rightarrow> 'k \<Rightarrow> (int list \<times> nat \<times> line list) \<times> 'k" where
  "leak_bytes h sa a2 th base i [] k = (([], 0, []), k)"
| "leak_bytes h sa a2 th base i (c # cs) k =
     (let ((v, l), k1) = leak_byte h sa a2 th (base + of_nat i) k;
          ((out, ok, ls), k2) = leak_bytes h sa a2 th base (Suc i) cs k1
      in (((if 0 < v then v else 63) # out, ok + of_bool (v = int (unat c)),
           (''byte %2d'', [I (int i)]) # l # ls), k2))"

definition spectre_main :: "timer_env \<Rightarrow> 'k chw \<Rightarrow> u64 \<Rightarrow> u64 \<Rightarrow> u64 \<Rightarrow> u8 list \<Rightarrow> 'k \<Rightarrow> int \<times> line list" where
  "spectre_main e h sa a2 base secret k =
     (let (src, g) = sc_timer_init e; h1 = h\<lparr>hw_perf := g\<rparr> in
      if src < 0 then (1, [(''error: no cycle counter'', [])])
      else (let (s, k1) = time_sums h1 (slot a2 64) 50000 (0, 0) k; th = threshold_of s;
                ((out, ok, ls), k2) = leak_bytes h1 sa a2 th base 0 secret k1
        in (0, [(''hit %lu miss %lu threshold %lu'', [U (snd s div 50000), U (fst s div 50000), U th]),
                (''array1_size=%u, base=%zu'', [I (int array1_size), U base])] @ ls
             @ [(''restored'', map I out), (''%d/%d'', [I (int ok), I (int (length secret))])])))"

subsection \<open>meltdown_test.c\<close>

text \<open>The scan starts at 1 and skips slot 0.\<close>

definition reload :: "'k chw \<Rightarrow> u64 \<Rightarrow> u64 \<Rightarrow> 'k \<Rightarrow> int \<times> 'k" where
  "reload h base th k = scan_min h base th (filter (\<lambda>i. mix i \<noteq> 0) [1..<256]) (- 1, - 1) k"

definition meltdown_read :: "'k chw \<Rightarrow> u64 \<Rightarrow> u64 \<Rightarrow> 'k \<Rightarrow> 'k" where
  "meltdown_read h base kaddr k = (case hw_kernel_read h kaddr k of
       (None, k1) \<Rightarrow> k1
     | (Some v, k1) \<Rightarrow> hw_access h (slot base (unat v)) k1)"

fun melt_tries :: "'k chw \<Rightarrow> u64 \<Rightarrow> u64 \<Rightarrow> u64 \<Rightarrow> nat \<Rightarrow> int list \<Rightarrow> 'k \<Rightarrow> int list \<times> 'k" where
  "melt_tries h base th kaddr 0 hist k = (hist, k)"
| "melt_tries h base th kaddr (Suc n) hist k =
     (let (g, k1) = reload h base th (meltdown_read h base kaddr (hw_fence h (flush_slots h base k)))
      in melt_tries h base th kaddr n (if 0 < g then hist[nat g := hist ! nat g + 1] else hist) k1)"

definition first_best :: "int list \<Rightarrow> int" where
  "first_best r = fold (\<lambda>i best. if best < 0 \<or> r ! nat best < r ! i then int i else best) [0..<256] (- 1)"

definition melt_verdict :: "int list \<Rightarrow> line list" where
  "melt_verdict hist = (let best = first_best hist in
     [(''index = 0x%02x, %d/2000'', [I best, I (hist ! nat best)]),
      if hist ! nat best < 200 then (''immune'', []) else (''leak index=0x%02x'', [I best])])"

definition meltdown_main :: "timer_env \<Rightarrow> 'k chw \<Rightarrow> u64 \<Rightarrow> string \<Rightarrow> u64 \<Rightarrow> 'k \<Rightarrow> int \<times> line list" where
  "meltdown_main e h base method kaddr k =
     (let (src, g) = sc_timer_init e; h1 = h\<lparr>hw_perf := g\<rparr> in
      if src < 0 then (1, [(''error: no cycle counter'', [])])
      else (let (s, k1) = time_sums h1 (slot base 64) 50000 (0, 0) k; th = threshold_of s;
                (hist, k2) = melt_tries h1 base th kaddr 2000 (replicate 256 0) k1
        in (0, [(''hit %lu miss %lu threshold %lu'', [U (snd s div 50000), U (fst s div 50000), U th]),
                (''method=%s kaddr=%p'', [S method, U kaddr]), (''survived %d/2000'', [I 2000])] @ melt_verdict hist)))"

subsection \<open>nospec_mask.c\<close>

text \<open>\<open>~(long)(index | (size - 1 - index)) >> 63\<close>: the complement, then an arithmetic shift.\<close>

definition mask_c :: "u64 \<Rightarrow> u64 \<Rightarrow> u64" where
  "mask_c index sz = signed_drop_bit 63 (NOT (index OR (sz - 1 - index)))"

text \<open>\<open>cmp\<close> sets the carry when nothing is borrowed; \<open>sbc\<close> adds the complement and the carry.\<close>

definition mask_asm :: "u64 \<Rightarrow> u64 \<Rightarrow> u64" where
  "mask_asm idx sz = (let carry = sz \<le> idx in 0 + NOT 0 + of_bool carry)"

definition array_index_nospec :: "u64 \<Rightarrow> u64 \<Rightarrow> u64" where
  "array_index_nospec i s = i AND mask_asm i s"

definition nospec_tests :: "u64 list" where "nospec_tests = [0, 1, 15, 16, 17, 100, NOT 0]"

definition nospec_main :: "line list" where
  "nospec_main = (let sz = 16 in
     [(''size = %lu'', [U sz]), (''index mask_c mask_asm'', [])]
     @ map (\<lambda>x. (''%-22lu 0x%016lx  0x%016lx nospec=%lu'',
         [U x, U (mask_c x sz), U (mask_asm x sz), U (array_index_nospec x sz)])) nospec_tests
     @ [(''mask'', []), (''csdb = 0xd503229f'', [])])"

section \<open>Lemmas\<close>

subsection \<open>The index mask\<close>

lemma mask_asm_cases: "mask_asm i n = (if i < n then - 1 else 0)"
  by (auto simp: mask_asm_def Let_def not_less)

lemma top_bit: "bit x 63 \<longleftrightarrow> 2 ^ 63 \<le> uint x" for x :: u64
proof -
  have "bit x 63 \<longleftrightarrow> bit (uint x) 63" by (simp add: bit_uint_iff)
  also have "\<dots> \<longleftrightarrow> odd (uint x div 2 ^ 63)" by (rule bit_iff_odd)
  finally have "bit x 63 \<longleftrightarrow> odd (uint x div 2 ^ 63)" .
  moreover have "uint x < 2 * 2 ^ 63" using uint_lt2p [of x] by simp
  then have "uint x div 2 ^ 63 = (if 2 ^ 63 \<le> uint x then 1 else 0)"
    by (auto simp: int_div_pos_eq div_pos_pos_trivial [OF uint_ge_0] intro!: div_pos_geq [THEN trans])
  ultimately show ?thesis by simp
qed

lemma sign_mask: "signed_drop_bit 63 (NOT x) = (if bit x 63 then 0 else - 1)" for x :: u64
  by (rule bit_word_eqI) (auto simp: bit_signed_drop_bit_iff bit_not_iff not_le min_def)

lemma mask_c_asm:
  assumes "n \<le> 2 ^ 63"
  shows "mask_c i n = mask_asm i n"
proof -
  have n: "uint n \<le> 2 ^ 63" using assms by (simp add: word_le_def)
  have n64: "uint n < 2 ^ 64" using uint_lt2p [of n] by simp
  have d: "uint (n - 1 - i) = (uint n - 1 - uint i) mod 2 ^ 64"
    by (simp add: uint_word_ariths mod_diff_left_eq)
  have "bit (i OR (n - 1 - i)) 63 \<longleftrightarrow> \<not> i < n"
  proof (cases "i < n")
    case True
    then have l: "uint i < uint n" by (simp add: word_less_def)
    have "uint (n - 1 - i) = uint n - 1 - uint i"
      unfolding d by (rule mod_pos_pos_trivial) (use l n64 uint_ge_0 [of i] in linarith)+
    moreover have "\<not> 2 ^ 63 \<le> uint i" "\<not> 2 ^ 63 \<le> uint n - 1 - uint i"
      using l n uint_ge_0 [of i] by linarith+
    ultimately show ?thesis using True unfolding bit_or_iff unfolding top_bit by simp
  next
    case False
    then have l: "uint n \<le> uint i" by (simp add: word_less_def not_less)
    have w: "uint (n - 1 - i) = uint n - 1 - uint i + 2 ^ 64 \<and> 2 ^ 63 \<le> uint n - 1 - uint i + 2 ^ 64"
      if i: "uint i < 2 ^ 63"
    proof -
      have pos: "(2 :: int) ^ 63 \<le> uint n - 1 - uint i + 2 ^ 64"
      proof -
        have "(2 :: int) ^ 64 = 2 * 2 ^ 63" "(1 :: int) \<le> 2 ^ 63" by simp_all
        with i uint_ge_0 [of n] show ?thesis by linarith
      qed
      have "(uint n - 1 - uint i) mod 2 ^ 64 = (uint n - 1 - uint i + 2 ^ 64) mod 2 ^ 64"
        by (rule mod_add_self2 [symmetric])
      also have "\<dots> = uint n - 1 - uint i + 2 ^ 64"
        by (intro mod_pos_pos_trivial order.trans [OF _ pos]) (use l in simp_all)
      finally show ?thesis using pos unfolding d by simp
    qed
    then show ?thesis using False unfolding bit_or_iff unfolding top_bit
      by (cases "uint i < 2 ^ 63") (simp_all add: not_less)
  qed
  then show ?thesis unfolding mask_c_def sign_mask mask_asm_cases by simp
qed

text \<open>
  C25: The index that \<open>array_index_nospec\<close> lets through is always inside the array, the index
  itself when it was inside and 0 otherwise, for every array size but 0. The arithmetic
  version computes the same mask for all sizes up to \<open>2^63\<close>, and not for all beyond.
\<close>

theorem nospec_index_in_bounds:
  "(0 < n \<longrightarrow> array_index_nospec i n < n) \<and> array_index_nospec i n = (if i < n then i else 0) \<and>
    (n \<le> 2 ^ 63 \<longrightarrow> mask_c i n = mask_asm i n) \<and> mask_c (2 ^ 63) (2 ^ 63 + 1) \<noteq> mask_asm (2 ^ 63) (2 ^ 63 + 1)"
proof -
  have "mask_c (2 ^ 63) (2 ^ 63 + 1) = 0"
    unfolding mask_c_def sign_mask by (simp add: bit_or_iff bit_exp_iff)
  then show ?thesis
    by (simp add: array_index_nospec_def mask_asm_cases mask_c_asm)
qed

theorem nospec_index_in_bounds_witness:
  "array_index_nospec 15 16 < 16 \<and> mask_c 100 16 = mask_asm 100 16"
  using nospec_index_in_bounds [of 16 15] nospec_index_in_bounds [of 16 100] by simp

subsection \<open>Spectre\<close>

text \<open>
  A processor that speculates past the bounds check: the path not taken loads the slot of the byte
  at that index. \<open>byte_at x\<close> is what is stored at \<open>array1 + x\<close>.
\<close>

definition speculates :: "'k chw \<Rightarrow> ('k \<Rightarrow> nat \<Rightarrow> bool) \<Rightarrow> u64 \<Rightarrow> (u64 \<Rightarrow> u8) \<Rightarrow> bool" where
  "speculates h cached array2 byte_at \<longleftrightarrow>
     (\<forall>k l. cached (hw_branch h k) l = cached k l) \<and>
     (\<forall>k x l. cached (hw_wrong_path h x k) l \<longleftrightarrow> cached k l \<or> l = line_of (slot array2 (unat (byte_at x))))"

lemma choose_x_exact: "choose_x j tx mx = (if j mod 6 = 0 then mx else tx)"
proof -
  have "\<forall>d<6. (let x = scast (((of_nat d - 1) :: u32) AND NOT 0xFFFF) :: u64 in x OR drop_bit 16 x) =
      (if d = 0 then - 1 else 0)"
    by (simp add: all_less_numeral)
  then have "(let x = scast (((of_nat (j mod 6) - 1) :: u32) AND NOT 0xFFFF) :: u64 in x OR drop_bit 16 x) =
      (if j mod 6 = 0 then - 1 else 0)" by simp
  moreover have "tx XOR (mx XOR tx) = mx" by (metis xor.left_commute xor_self_eq xor.right_neutral)
  ultimately show ?thesis by (simp add: choose_x_def Let_def)
qed

lemma array1_nth: "i < array1_size \<Longrightarrow> array1 ! i = Suc i"
  by (simp add: array1_def array1_size_def nth_append)

definition spectre_machine :: "'k chw \<Rightarrow> u64 \<Rightarrow> ('k \<Rightarrow> nat \<Rightarrow> bool) \<Rightarrow> u64 \<Rightarrow> u64 \<Rightarrow> (u64 \<Rightarrow> u8) \<Rightarrow> bool" where
  "spectre_machine h th cached sa a2 byte_at \<longleftrightarrow> cache_documented h th cached \<and> in_memory a2 \<and>
     speculates h cached a2 byte_at \<and> (\<forall>i<NPROBE. line_of (slot a2 i) \<noteq> line_of sa)"

definition slot_cached :: "('k \<Rightarrow> nat \<Rightarrow> bool) \<Rightarrow> u64 \<Rightarrow> 'k \<Rightarrow> nat \<Rightarrow> bool" where
  "slot_cached cached a2 k i \<longleftrightarrow> cached k (line_of (slot a2 i))"

text \<open>The slot that a training step brings in.\<close>

definition target :: "(u64 \<Rightarrow> u8) \<Rightarrow> nat \<Rightarrow> u64 \<Rightarrow> nat \<Rightarrow> nat" where
  "target byte_at tries mx j = (if j mod 6 = 0 then unat (byte_at mx) else Suc (tries mod array1_size))"

lemma target_less: "target byte_at tries mx j < NPROBE"
  using unsigned_less [of "byte_at mx"] mod_less_divisor [of array1_size tries]
  by (auto simp: target_def NPROBE_def array1_size_def)

lemma victim_slots:
  assumes m: "spectre_machine h th cached sa a2 byte_at" and mx: "of_nat array1_size \<le> mx" and i: "i < NPROBE"
  shows "slot_cached cached a2 (train_step h sa a2 (of_nat (tries mod array1_size)) mx j k) i \<longleftrightarrow>
    slot_cached cached a2 k i \<or> i = target byte_at tries mx j"
proof -
  let ?tx = "of_nat (tries mod array1_size) :: u64"
  have t: "unat ?tx = tries mod array1_size" "?tx < of_nat array1_size"
    by (simp_all add: array1_size_def unat_of_nat word_less_nat_alt)
  have "\<not> mx < of_nat array1_size" using mx by simp
  moreover have "line_of (slot a2 i) = line_of (slot a2 (target byte_at tries mx j)) \<longleftrightarrow> i = target byte_at tries mx j"
    using m i target_less by (intro slots_apart) (simp_all add: spectre_machine_def)
  moreover have "array1 ! (tries mod array1_size) = Suc (tries mod array1_size)"
    by (rule array1_nth) (simp add: array1_size_def)
  ultimately show ?thesis
    using m i t by (auto simp: train_step_def victim_def choose_x_exact slot_cached_def target_def
        spectre_machine_def speculates_def cache_documented_def)
qed

lemma training_slots:
  assumes "spectre_machine h th cached sa a2 byte_at" "of_nat array1_size \<le> mx" "i < NPROBE"
  shows "slot_cached cached a2 (fold (train_step h sa a2 (of_nat (tries mod array1_size)) mx) js k) i \<longleftrightarrow>
    slot_cached cached a2 k i \<or> (\<exists>j\<in>set js. i = target byte_at tries mx j)"
  by (induction js arbitrary: k) (auto simp: victim_slots [OF assms])

lemma leak_try_exact:
  assumes m: "spectre_machine h th cached sa a2 byte_at" and mx: "of_nat array1_size \<le> mx" and l: "length r = NPROBE"
  shows "length (fst (leak_try h sa a2 th mx tries r k)) = NPROBE \<and>
    (\<forall>i<NPROBE. fst (leak_try h sa a2 th mx tries r k) ! i =
      r ! i + of_bool (i = unat (byte_at mx) \<or> i = Suc (tries mod array1_size)))"
proof -
  have doc: "cache_documented h th cached" and base: "in_memory a2" using m by (simp_all add: spectre_machine_def)
  let ?k = "fold (train_step h sa a2 (of_nat (tries mod array1_size)) mx) (rev [0..<30]) (hw_fence h (flush_slots h a2 k))"
  have "cached ?k (line_of (slot a2 i)) \<longleftrightarrow> i = unat (byte_at mx) \<or> i = Suc (tries mod array1_size)" if i: "i < NPROBE" for i
  proof -
    have "\<not> slot_cached cached a2 (hw_fence h (flush_slots h a2 k)) i"
      using flush_slots_cached [OF doc base i] doc by (simp add: slot_cached_def cache_documented_def)
    moreover have "(\<exists>j\<in>set (rev [0..<30]). i = target byte_at tries mx j) \<longleftrightarrow>
        i = unat (byte_at mx) \<or> i = Suc (tries mod array1_size)"
    proof -
      have "target byte_at tries mx 0 = unat (byte_at mx)" "target byte_at tries mx 1 = Suc (tries mod array1_size)"
        by (simp_all add: target_def)
      then show ?thesis by (auto simp: target_def intro: bexI [of _ 0] bexI [of _ 1])
    qed
    ultimately show ?thesis using training_slots [OF m mx i] by (simp add: slot_cached_def)
  qed
  with scan_votes_exact [OF doc base _ _ l, of "[0..<NPROBE]" ?k] all_slots_scanned show ?thesis
    by (simp add: leak_try_def Let_def atLeast0LessThan)
qed

lemma leak_tries_exact:
  assumes m: "spectre_machine h th cached sa a2 byte_at" and mx: "of_nat array1_size \<le> mx"
  shows "length r = NPROBE \<Longrightarrow> length (fst (leak_tries h sa a2 th mx ts r k)) = NPROBE \<and>
    (\<forall>i. array1_size < i \<and> i < NPROBE \<longrightarrow> fst (leak_tries h sa a2 th mx ts r k) ! i =
      r ! i + int (length ts) * of_bool (i = unat (byte_at mx)))"
proof (induction ts arbitrary: r k)
  case (Cons t ts)
  obtain r1 k1 where e: "leak_try h sa a2 th mx t r k = (r1, k1)" by force
  have "t mod array1_size < array1_size" by (simp add: array1_size_def)
  then have "i \<noteq> Suc (t mod array1_size)" if "array1_size < i" for i using that by linarith
  with leak_try_exact [OF m mx Cons.prems, of t k] Cons.IH [of r1 k1] show ?case
    by (auto simp: e algebra_simps)
qed simp

lemma drop_trained_nth:
  assumes "length r = NPROBE" "i < NPROBE"
  shows "drop_trained r ! i = (if i \<le> array1_size then 0 else r ! i) \<and> length (drop_trained r) = NPROBE"
proof -
  have "length (fold (\<lambda>j r. r[array1 ! j := 0]) [0..<n] q) = length q \<and>
     fold (\<lambda>j r. r[array1 ! j := 0]) [0..<n] q ! i = (if 0 < i \<and> i \<le> n then 0 else q ! i)"
    if "n \<le> array1_size" "i < length q" for n and q :: "int list"
    using that by (induction n) (auto simp: array1_nth nth_list_update le_Suc_eq)
  from this [OF order_refl, of "r[0 := 0]"] assms show ?thesis
    by (auto simp: drop_trained_def nth_list_update)
qed

lemma top_two_unique:
  assumes "\<And>i. i < NPROBE \<Longrightarrow> r ! i = (if i = s then v else 0)" "s < NPROBE" "0 < v"
  shows "fst (top_two r) = int s"
proof -
  let ?f = "\<lambda>i (best, second). if best < 0 \<or> r ! nat best < r ! i then (int i, best)
       else if second < 0 \<or> r ! nat second < r ! i then (best, int i) else (best, second)"
  have "fst (fold ?f [0..<n] (- 1, - 1)) = (if n = 0 then - 1 else if s < n then int s else 0)" if "n \<le> NPROBE" for n
    using that
  proof (induction n)
    case (Suc n)
    then have n: "r ! n = (if n = s then v else 0)" "r ! 0 = (if s = 0 then v else 0)" "r ! s = v"
      using assms by (auto simp: NPROBE_def)
    from Suc show ?case
      using n assms(3) by (auto simp: split_def)
  qed simp
  from this [OF order_refl] assms(2) show ?thesis by (simp add: top_two_def NPROBE_def)
qed

lemma top_two_zero:
  assumes "\<And>i. i < NPROBE \<Longrightarrow> r ! i = 0"
  shows "fst (top_two r) = 0"
proof -
  let ?f = "\<lambda>i (best, second). if best < 0 \<or> r ! nat best < r ! i then (int i, best)
       else if second < 0 \<or> r ! nat second < r ! i then (best, int i) else (best, second)"
  have "fst (fold ?f [0..<n] (- 1, - 1)) = (if n = 0 then - 1 else 0)" if "n \<le> NPROBE" for n
    using that
  proof (induction n)
    case (Suc n)
    then have "r ! n = 0" "r ! 0 = 0" using assms by (auto simp: NPROBE_def)
    with Suc show ?case by (auto simp: split_def)
  qed simp
  from this [OF order_refl] show ?thesis by (simp add: top_two_def NPROBE_def)
qed

lemma leak_byte_exact:
  assumes m: "spectre_machine h th cached sa a2 byte_at" and mx: "of_nat array1_size \<le> mx"
  shows "fst (fst (leak_byte h sa a2 th mx k)) = (if unat (byte_at mx) \<le> array1_size then 0 else int (unat (byte_at mx)))"
proof -
  let ?r = "fst (leak_tries h sa a2 th mx [0..<1000] (replicate NPROBE 0) k)"
  note t = leak_tries_exact [OF m mx, of "replicate NPROBE 0" "[0..<1000]" k, simplified]
  have b: "unat (byte_at mx) < NPROBE" using unsigned_less [of "byte_at mx"] by (simp add: NPROBE_def)
  have d: "drop_trained ?r ! i = (if i = unat (byte_at mx) \<and> array1_size < i then 1000 else 0)" if "i < NPROBE" for i
    using drop_trained_nth [of ?r i] t that by auto
  have e: "fst (fst (leak_byte h sa a2 th mx k)) = fst (top_two (drop_trained ?r))"
    by (simp add: leak_byte_def split_def Let_def)
  show ?thesis
  proof (cases "unat (byte_at mx) \<le> array1_size")
    case True
    then have "fst (top_two (drop_trained ?r)) = 0" using d by (intro top_two_zero) auto
    with e True show ?thesis by simp
  next
    case False
    then have "fst (top_two (drop_trained ?r)) = int (unat (byte_at mx))"
      using d b by (intro top_two_unique [where v = 1000]) auto
    with e False show ?thesis by simp
  qed
qed


text \<open>What the program prints for a secret: a question mark for the bytes it cannot tell apart.\<close>

definition restored :: "u8 \<Rightarrow> int" where
  "restored c = (if unat c \<le> array1_size then 63 else int (unat c))"

text \<open>
  C23: On a processor that speculates past the check, \<open>leak_bytes\<close> restores every byte of the
  secret above 16 although \<open>victim\<close> never reads out of bounds; the bytes 1 to 16 are lost, since
  their slots are excluded as traces of the training, and a byte 0 counts as right without being
  read.
\<close>

theorem spectre_restores:
  assumes "spectre_machine h th cached sa a2 byte_at"
  shows "(\<And>i. i < length cs \<Longrightarrow> of_nat array1_size \<le> base + of_nat (n + i) \<and> byte_at (base + of_nat (n + i)) = cs ! i) \<Longrightarrow>
    (case fst (leak_bytes h sa a2 th base n cs k) of (out, ok, ls) \<Rightarrow>
      out = map restored cs \<and> ok = length (filter (\<lambda>c. c = 0 \<or> array1_size < unat c) cs))"
proof (induction cs arbitrary: n k)
  case (Cons c cs)
  have c: "of_nat array1_size \<le> base + of_nat n" "byte_at (base + of_nat n) = c"
    using Cons.prems [of 0] by simp_all
  obtain v l k1 where b: "leak_byte h sa a2 th (base + of_nat n) k = ((v, l), k1)" by (metis surj_pair)
  with leak_byte_exact [OF assms c(1), of k] c(2)
  have v: "v = (if unat c \<le> array1_size then 0 else int (unat c))" by simp
  have "i < length cs \<Longrightarrow> of_nat array1_size \<le> base + of_nat (Suc n + i) \<and> byte_at (base + of_nat (Suc n + i)) = cs ! i" for i
    using Cons.prems [of "Suc i"] by (simp add: algebra_simps)
  note r = Cons.IH [of "Suc n" k1, OF this]
  obtain out ok ls k2 where q: "leak_bytes h sa a2 th base (Suc n) cs k1 = ((out, ok, ls), k2)" by (metis surj_pair)
  have v1: "(if 0 < v then v else 63) = restored c"
    by (auto simp: v restored_def array1_size_def simp del: of_nat_unat)
  have v2: "v = int (unat c) \<longleftrightarrow> c = 0 \<or> array1_size < unat c"
    using unat_eq_0 [of c] by (auto simp: v array1_size_def simp del: of_nat_unat)
  show ?case
    using r by (simp add: b q v1 v2 del: of_nat_unat)
qed simp

text \<open>A processor that runs the body with the index out of range.\<close>

definition spectre_hw :: "u64 \<Rightarrow> (u64 \<Rightarrow> u8) \<Rightarrow> ((nat \<Rightarrow> bool) \<times> u64) chw" where
  "spectre_hw a2 byte_at = ideal_hw\<lparr>hw_wrong_path := (\<lambda>x (c, t). (c(line_of (slot a2 (unat (byte_at x))) := True), t))\<rparr>"

lemma spectre_hw_ok:
  assumes "in_memory a2" "\<forall>i<NPROBE. line_of (slot a2 i) \<noteq> line_of sa"
  shows "spectre_machine (spectre_hw a2 byte_at) 100 fst sa a2 byte_at"
  using assms
  by (auto simp: spectre_machine_def speculates_def cache_documented_def spectre_hw_def ideal_hw_def
      probe_time_def rdcycle_def Let_def)

theorem spectre_restores_witness:
  "case fst (leak_bytes (spectre_hw 0x10000 (\<lambda>x. 84)) 0 0x10000 100 4096 0 [84] ((\<lambda>l. False), 0)) of
     (out, ok, ls) \<Rightarrow> out = [84] \<and> ok = 1"
proof -
  have mem: "in_memory 0x10000" by (simp add: in_memory_def NPROBE_def STRIDE_def)
  have "\<forall>i<NPROBE. line_of (slot 0x10000 i) \<noteq> line_of 0"
    by (simp add: line_of_def slot_unat [OF mem] div_eq_0_iff)
  from spectre_restores [OF spectre_hw_ok [OF mem this, of "\<lambda>x. 84"], of "[84]" 4096 0 "((\<lambda>l. False), 0)"]
  show ?thesis by (simp add: array1_size_def restored_def word_le_nat_alt)
qed

subsection \<open>Meltdown\<close>

text \<open>
  What a forbidden read does: it faults, and before that it may have loaded the slot of the value
  read (\<open>leak = Some v\<close>) or nothing (\<open>None\<close>).
\<close>

definition faults :: "'k chw \<Rightarrow> ('k \<Rightarrow> nat \<Rightarrow> bool) \<Rightarrow> u64 \<Rightarrow> u64 \<Rightarrow> nat option \<Rightarrow> bool" where
  "faults h cached base kaddr leak \<longleftrightarrow>
     (\<forall>k. fst (hw_kernel_read h kaddr k) = None \<and>
       (\<forall>l. cached (snd (hw_kernel_read h kaddr k)) l \<longleftrightarrow>
         cached k l \<or> (\<exists>v. leak = Some v \<and> l = line_of (slot base v))))"

lemma scan_min_exact:
  assumes doc: "cache_documented h th cached" and base: "in_memory base" and v: "v < NPROBE"
  shows "distinct js \<Longrightarrow> set js \<subseteq> {..<NPROBE} \<Longrightarrow>
    (\<And>j. j \<in> set js \<Longrightarrow> slot_cached cached base k (mix j) \<Longrightarrow> mix j = v) \<Longrightarrow>
    (v \<in> mix ` set js \<Longrightarrow> slot_cached cached base k v \<Longrightarrow> snd b = - 1) \<Longrightarrow>
    fst (scan_min h base th js b k) =
      (if v \<in> mix ` set js \<and> slot_cached cached base k v then int v else fst b)"
proof (induction js arbitrary: b k)
  case (Cons j js)
  obtain t k1 where p: "probe_time h (slot base (mix j)) k = (t, k1)" by force
  have fast: "t < th \<longleftrightarrow> slot_cached cached base k (mix j)"
    using probe_fast [OF doc, of "slot base (mix j)" k] p by (simp add: slot_cached_def)
  have new: "slot_cached cached base k1 s \<longleftrightarrow> slot_cached cached base k s \<or> s = mix j" if "s < NPROBE" for s
    using probe_cached [OF doc, of "slot base (mix j)" k] p slots_apart [OF base that mix_less]
    by (simp add: slot_cached_def)
  have out: "\<forall>i\<in>set js. mix i \<noteq> mix j"
    using Cons.prems(1,2) mix_inj by auto
  have js: "distinct js" "set js \<subseteq> {..<NPROBE}" using Cons.prems by auto
  have rest: "mix i = v" if "i \<in> set js" "slot_cached cached base k1 (mix i)" for i
    using that new [OF mix_less] out Cons.prems(3) by auto
  have top: "t < - 1" if "t < th" using that word_n1_ge [of th] by (meson less_le_trans)
  let ?b = "if t < th \<and> t < snd b then (int (mix j), t) else b"
  have keep: "snd ?b = - 1" if "v \<in> mix ` set js" "slot_cached cached base k1 v"
  proof -
    have "mix j \<noteq> v" using that(1) out by auto
    with that Cons.prems(3) [of j] Cons.prems(4) new [OF v] fast show ?thesis by auto
  qed
  have ih: "fst (scan_min h base th js ?b k1) =
      (if v \<in> mix ` set js \<and> slot_cached cached base k1 v then int v else fst ?b)"
    by (rule Cons.IH [OF js]) (use rest keep in auto)
  show ?case
  proof (cases "mix j = v")
    case True
    then have "v \<notin> mix ` set js" using out by auto
    with ih True show ?thesis using Cons.prems(4) fast top by (auto simp: p)
  next
    case False
    then have "\<not> t < th" using fast Cons.prems(3) [of j] by auto
    with ih False show ?thesis using new [OF v] by (auto simp: p)
  qed
qed simp

lemma reload_range: "mix ` set (filter (\<lambda>i. mix i \<noteq> 0) [1..<256]) = {..<256} - {0, 13}"
proof -
  have z: "mix j = 13 \<longleftrightarrow> j = 0" if "j < 256" for j
    using mix_inj [of j 0] that by (simp add: NPROBE_def) (simp add: mix_def)
  show ?thesis
  proof (intro equalityI subsetI)
    fix s assume "s \<in> {..<256} - {0, 13 :: nat}"
    then have s: "s < NPROBE" "s \<noteq> 0" "s \<noteq> 13" by (auto simp: NPROBE_def)
    have "mix 0 = 13" by (simp add: mix_def)
    then have "unmix s \<noteq> 0" using mix_unmix [OF s(1)] s(3) by metis
    then show "s \<in> mix ` set (filter (\<lambda>i. mix i \<noteq> 0) [1..<256])"
      using mix_unmix [OF s(1)] unmix_less [of s] s by (intro image_eqI [of _ _ "unmix s"]) (auto simp: NPROBE_def)
  qed (use z mix_less in \<open>auto simp: NPROBE_def\<close>)
qed

definition visible :: "nat option \<Rightarrow> nat option" where
  "visible leak = (case leak of Some v \<Rightarrow> if v \<in> {..<256} - {0, 13} then Some v else None | None \<Rightarrow> None)"

lemma melt_round:
  assumes doc: "cache_documented h th cached" and base: "in_memory base"
    and f: "faults h cached base kaddr leak" and leak: "\<And>v. leak = Some v \<Longrightarrow> v < NPROBE"
  shows "fst (reload h base th (meltdown_read h base kaddr (hw_fence h (flush_slots h base k)))) =
    (case visible leak of Some v \<Rightarrow> int v | None \<Rightarrow> - 1)"
proof -
  let ?k = "meltdown_read h base kaddr (hw_fence h (flush_slots h base k))"
  have c: "slot_cached cached base ?k i \<longleftrightarrow> leak = Some i" if i: "i < NPROBE" for i
  proof -
    have "slot_cached cached base ?k i \<longleftrightarrow> (\<exists>v. leak = Some v \<and> line_of (slot base i) = line_of (slot base v))"
      using f flush_slots_cached [OF doc base i] doc
      by (auto simp: meltdown_read_def slot_cached_def faults_def cache_documented_def split: prod.split option.split)
        (metis fst_conv snd_conv option.distinct(1))+
    then show ?thesis using slots_apart [OF base i] leak by auto
  qed
  define js where "js = filter (\<lambda>i. mix i \<noteq> 0) [1..<256]"
  have js: "distinct js" "set js \<subseteq> {..<NPROBE}" by (auto simp: js_def NPROBE_def)
  note r = reload_range [folded js_def]
  define v where "v = (case leak of Some v \<Rightarrow> v | None \<Rightarrow> 0)"
  have v: "v < NPROBE" using leak by (auto simp: v_def NPROBE_def split: option.split)
  have u: "mix j = v" if "slot_cached cached base ?k (mix j)" for j
    using c [OF mix_less, of j] that by (simp add: v_def)
  have "fst (scan_min h base th js (- 1, - 1) ?k) =
      (if v \<in> mix ` set js \<and> slot_cached cached base ?k v then int v else - 1)"
    using scan_min_exact [OF doc base v js, of ?k "(- 1, - 1)"] u by simp
  then show ?thesis
    unfolding reload_def js_def [symmetric] r using c [OF v]
    by (auto simp: visible_def v_def split: option.splits)
qed

lemma melt_tries_exact:
  assumes doc: "cache_documented h th cached" and base: "in_memory base"
    and f: "faults h cached base kaddr leak" and leak: "\<And>v. leak = Some v \<Longrightarrow> v < NPROBE"
  shows "length hist = 256 \<Longrightarrow>
    fst (melt_tries h base th kaddr n hist k) =
      (case visible leak of Some v \<Rightarrow> hist[v := hist ! v + int n] | None \<Rightarrow> hist)"
proof (induction n arbitrary: hist k)
  case 0
  then show ?case by (cases "visible leak") simp_all
next
  case (Suc n)
  obtain g k1 where r: "reload h base th (meltdown_read h base kaddr (hw_fence h (flush_slots h base k))) = (g, k1)"
    by force
  have g: "g = (case visible leak of Some v \<Rightarrow> int v | None \<Rightarrow> - 1)"
    using melt_round [OF doc base f leak, of k] r by simp
  show ?case
  proof (cases "visible leak")
    case None
    with g Suc show ?thesis by (simp add: r)
  next
    case (Some v)
    then have "0 < v" "v < 256" by (auto simp: visible_def split: option.splits if_splits)
    with Some g Suc show ?thesis by (simp add: r add.assoc)
  qed
qed

lemma first_best_unique:
  assumes "\<And>i. i < 256 \<Longrightarrow> r ! i = (if i = s then v else 0)" "s < 256" "0 \<le> v" "v = 0 \<Longrightarrow> s = 0"
  shows "first_best r = int s"
proof -
  have "fold (\<lambda>i best. if best < 0 \<or> r ! nat best < r ! i then int i else best) [0..<n] (- 1) =
      (if n = 0 then - 1 else if s < n then int s else 0)" if "n \<le> 256" for n
    using that
  proof (induction n)
    case (Suc n)
    then have "r ! n = (if n = s then v else 0)" "r ! 0 = (if s = 0 then v else 0)" "r ! s = v"
      using assms by auto
    with Suc assms(3,4) show ?case by auto
  qed simp
  from this [OF order_refl] assms(2) show ?thesis by (simp add: first_best_def)
qed

text \<open>
  C24: The verdict is exact up to two values: if the faulting read leaves no trace the program
  reports immunity with no vote at all, and if it loads the slot of a value, all 2000 rounds vote
  for that value and the leak is reported. The values 0, which the scan skips on purpose, and 13,
  which it skips because it starts at 1, are reported as immunity.
\<close>

theorem melt_verdict_exact:
  assumes "cache_documented h th cached" "in_memory base" "faults h cached base kaddr leak"
    and "\<And>v. leak = Some v \<Longrightarrow> v < NPROBE"
  shows "melt_verdict (fst (melt_tries h base th kaddr 2000 (replicate 256 0) k)) =
    (case leak of
       Some v \<Rightarrow> if v \<noteq> 0 \<and> v \<noteq> 13 then [(''index = 0x%02x, %d/2000'', [I (int v), I 2000]), (''leak index=0x%02x'', [I (int v)])]
         else [(''index = 0x%02x, %d/2000'', [I 0, I 0]), (''immune'', [])]
     | None \<Rightarrow> [(''index = 0x%02x, %d/2000'', [I 0, I 0]), (''immune'', [])])"
proof -
  have t: "fst (melt_tries h base th kaddr 2000 (replicate 256 0) k) =
      (case visible leak of Some v \<Rightarrow> (replicate 256 0)[v := 2000] | None \<Rightarrow> replicate 256 0)"
    using melt_tries_exact [OF assms, of "replicate 256 0" 2000 k]
    by (cases "visible leak") (auto simp: visible_def split: option.splits if_splits)
  have z: "first_best (replicate 256 0) = 0"
    using first_best_unique [of "replicate 256 0" 0 0] by simp
  have v: "first_best ((replicate 256 0)[v := 2000]) = int v" if "v < 256" for v
    using that by (intro first_best_unique [where v = 2000]) (auto simp: nth_list_update)
  show ?thesis
    using assms(4) unfolding t
    by (cases leak) (auto simp: visible_def melt_verdict_def z v NPROBE_def Let_def)
qed

definition melt_hw :: "u64 \<Rightarrow> nat \<Rightarrow> ((nat \<Rightarrow> bool) \<times> u64) chw" where
  "melt_hw base v = ideal_hw\<lparr>hw_kernel_read := (\<lambda>a (c, t). (None, (c(line_of (slot base v) := True), t)))\<rparr>"

lemma melt_hw_ok: "cache_documented (melt_hw base v) 100 fst \<and> faults (melt_hw base v) fst base a (Some v)"
  by (auto simp: cache_documented_def faults_def melt_hw_def ideal_hw_def probe_time_def rdcycle_def Let_def)

theorem melt_verdict_exact_witness:
  "melt_verdict (fst (melt_tries (melt_hw 0x10000 13) 0x10000 100 0 2000 (replicate 256 0) ((\<lambda>l. False), 0))) =
    [(''index = 0x%02x, %d/2000'', [I 0, I 0]), (''immune'', [])]"
proof -
  have "in_memory 0x10000" by (simp add: in_memory_def NPROBE_def STRIDE_def)
  from melt_verdict_exact [OF conjunct1 [OF melt_hw_ok] this conjunct2 [OF melt_hw_ok], of 13 0 "((\<lambda>l. False), 0)"]
  show ?thesis by (simp add: NPROBE_def)
qed

text \<open>The stride: consecutive slots fall into different sets of a cache with 256 sets, a page would not do.\<close>

lemma stride_spreads_sets: "inj_on (\<lambda>i. i * STRIDE div 64 mod 256) {..<NPROBE}"
proof (rule inj_on_inverseI [where g = "\<lambda>s. s * 193 mod 256"])
  fix i assume i: "i \<in> {..<NPROBE}"
  have e: "i * STRIDE div 64 = i * 65" by (simp add: STRIDE_def)
  have "(i * STRIDE div 64 mod 256) * 193 mod 256 = (i * 65 * 193) mod 256"
    unfolding e by (rule mod_mult_left_eq)
  also have "i * 65 * 193 = i + 256 * (49 * i)" by simp
  finally show "(i * STRIDE div 64 mod 256) * 193 mod 256 = i"
    using i by (simp only: mod_mult_self2 mod_less NPROBE_def lessThan_iff)
qed

lemma page_stride_four_sets: "(\<lambda>i. i * 4096 div 64 mod 256) ` {..<NPROBE} \<subseteq> {0, 64, 128, 192}"
proof -
  have "i * 4096 div 64 mod 256 = 64 * (i mod 4)" for i :: nat
    using mult_mod_right [of 64 i 4] by simp
  moreover have "i mod 4 \<in> {0, 1, 2, 3}" for i :: nat by auto
  ultimately show ?thesis by force
qed

end
