(* ===== verification/Irq_Live.thy ===== *)
theory Irq_Live
  imports Runs
begin

section \<open>irq_live.c: catching interrupts on every CPU at once\<close>

text \<open>
  Two probes run on whatever CPU takes an interrupt. \<open>pre_gic\<close> prints a frame under a lock and
  counts in \<open>got\<close>; \<open>pre_evt\<close> counts in \<open>evt_got\<close> without one. The state holds the counters, the
  lock and, for each CPU, where its probe stands; an event is one access to the shared data. What
  the probe sees of the interrupted code (\<open>irq_ctx\<close>) and of the descriptor (\<open>irq_desc\<close>) comes with
  the event. The explanations printed between the values are left out.
\<close>

record irq_desc =
  d_irq :: u32
  d_hwirq :: u64
  d_chip :: "string option"
  d_handle :: string
  d_action :: "string option option" \<comment> \<open>no action, or an action and its name\<close>
  d_handler :: string
  d_thread_fn :: string

record pt_regs =
  pr_regs :: "u64 list"
  pr_sp :: u64
  pr_pc :: u64
  pr_pstate :: u64
  pr_frame :: "u64 \<times> u64"
  pr_pmr :: u64
  pr_at :: u64 \<comment> \<open>the address of the struct\<close>

record irq_ctx =
  c_frame :: "pt_regs option" \<comment> \<open>\<open>get_irq_regs()\<close>\<close>
  c_sp :: u64
  c_comm :: string
  c_pid :: int
  c_stack :: u64
  c_size :: u64 \<comment> \<open>\<open>THREAD_SIZE\<close>\<close>
  c_ptregs :: u64 \<comment> \<open>\<open>sizeof(struct pt_regs)\<close>\<close>
  c_domain :: "string option"
  c_hwirq :: u64
  c_virq :: u32
  c_desc :: "irq_desc option"
  c_daif :: u64
  c_off :: bool \<comment> \<open>\<open>irqs_disabled()\<close>\<close>
  c_preempt :: u32
  c_in :: "bool list" \<comment> \<open>\<open>in_hardirq\<close>, \<open>in_softirq\<close>, \<open>in_serving_softirq\<close>, \<open>in_interrupt\<close>, \<open>in_task\<close>\<close>
  c_ksym :: "u64 \<Rightarrow> string"

record irq_args =
  samples :: int
  from_el0 :: int
  want_hwirq :: int
  stackmap :: int

text \<open>The lookup of \<open>ksym.h\<close>: what \<open>register_kprobe\<close> returned, and the address it found.\<close>

definition exp_ksym_init :: "int \<Rightarrow> u64 \<Rightarrow> int" where
  "exp_ksym_init ret addr = (if ret < 0 then ret else if addr \<noteq> 0 then 0 else - 2)"

text \<open>What the CPU shows at a statement: the kernel's macros and registers, and its clock.\<close>

record cpu_sample =
  x_cpu :: int
  x_comm :: string
  x_pid :: int
  x_pc :: u32
  x_daif :: u64
  x_off :: bool
  x_in :: "bool list" \<comment> \<open>hardirq, softirq, serving, interrupt, task\<close>
  x_sp :: u64
  x_stack :: u64
  x_now :: u64
  x_kstat :: "int \<Rightarrow> u64 option" \<comment> \<open>the counter of an interrupt on this CPU, if it has one\<close>

subsection \<open>Printing a frame\<close>

definition mode_name :: "string list" where
  "mode_name = [''EL0t'', ''?'', ''?'', ''?'', ''EL1t'', ''EL1h'', ''?'', ''?'',
     ''EL2t'', ''EL2h'', ''?'', ''?'', ''EL3t'', ''EL3h'', ''?'', ''?'']"

definition decode_pstate :: "u64 \<Rightarrow> line" where
  "decode_pstate ps = (''%c%c%c%c .. D=%lu A=%lu I=%lu F=%lu .. M=%s'',
     [S [if bit ps 31 then CHR ''N'' else CHR ''n'', if bit ps 30 then CHR ''Z'' else CHR ''z'',
         if bit ps 29 then CHR ''C'' else CHR ''c'', if bit ps 28 then CHR ''V'' else CHR ''v''],
      U (field 9 1 ps), U (field 8 1 ps), U (field 7 1 ps), U (field 6 1 ps), S (mode_name ! unat (ps AND 0xf))])"

definition in_el0 :: "pt_regs \<Rightarrow> bool" where
  "in_el0 f \<longleftrightarrow> pr_pstate f AND 0xc = 0"

definition el_name :: "pt_regs \<Rightarrow> string" where
  "el_name f = (if in_el0 f then ''EL0'' else if pr_pstate f AND 0xc = 4 then ''EL1'' else ''EL2'')"

definition on_stack :: "irq_ctx \<Rightarrow> u64 \<Rightarrow> bool" where
  "on_stack x a \<longleftrightarrow> c_stack x \<le> a \<and> a < c_stack x + c_size x"

definition or_dash :: "string option \<Rightarrow> val" where
  "or_dash s = S (case s of None \<Rightarrow> ''-'' | Some n \<Rightarrow> n)"

definition action_name :: "irq_desc \<Rightarrow> val" where
  "action_name d = or_dash (case d_action d of None \<Rightarrow> None | Some n \<Rightarrow> n)"

definition frame_lines :: "nat \<Rightarrow> int \<Rightarrow> irq_ctx \<Rightarrow> pt_regs \<Rightarrow> line list" where
  "frame_lines cpu n x f =
     [(''frame #%d  (cpu%d)'', [I n, I (int cpu)]),
      (''current = %s/%d'', [S (c_comm x), I (c_pid x)]),
      (''exception level = %s PSTATE.M[3:0]=0x%llx'', [S (el_name f), U (pr_pstate f AND 0xf)]),
      (''pt_regs->pstate = 0x%016llx'', [U (pr_pstate f)]), decode_pstate (pr_pstate f),
      (''pt_regs->pc = 0x%016llx'', [U (pr_pc f)]), (''%pS'', [S (c_ksym x (pr_pc f))]),
      (''DAIF(EL1) = 0x%08llx  irqs_disabled()=%d'', [U (c_daif x), I (of_bool (c_off x))]),
      (''pt_regs->sp = 0x%016llx'', [U (pr_sp f)]),
      (''pt_regs->regs[30]/lr= 0x%016llx  %pS'', [U (pr_regs f ! 30), S (c_ksym x (pr_regs f ! 30))]),
      (''pt_regs->regs[29]/fp= 0x%016llx'', [U (pr_regs f ! 29)]),
      (''pt_regs->regs[0..3]'', map U (take 4 (pr_regs f))),
      (''pt_regs->stackframe'', [U (fst (pr_frame f)), U (snd (pr_frame f))]),
      (''pt_regs->pmr_save = 0x%016llx'', [U (pr_pmr f)]),
      (''&pt_regs = 0x%016lx'', [U (pr_at f)]),
      (''current->stack = 0x%016lx .. 0x%016lx (%lu)'', [U (c_stack x), U (c_stack x + c_size x), U (c_size x)]),
      (''pt_regs %s stack; %ld B sizeof %zu'',
        [I (of_bool (on_stack x (pr_at f))), I (sint (c_stack x + c_size x - pr_at f)), U (c_ptregs x)]),
      (''SP = 0x%016lx'', [U (c_sp x)]), (''SP %s stack'', [I (of_bool (on_stack x (c_sp x)))])]"

definition mapping_lines :: "irq_ctx \<Rightarrow> line list" where
  "mapping_lines x =
     (let dsc = if c_virq x \<noteq> 0 then c_desc x else None in
      [(''generic_handle_domain_irq(domain=%s, hwirq=%lu)'',
         [S (case c_domain x of None \<Rightarrow> ''?'' | Some n \<Rightarrow> n), U (c_hwirq x)]),
       (''irq_find_mapping() virq %u %s'', [U32 (c_virq x), S (if dsc = None then ''(no desc)'' else '''')])]
      @ (case dsc of None \<Rightarrow> [] | Some d \<Rightarrow>
          [(''desc: irq=%u hwirq=%lu chip=%s handle_irq=%pS action=%s'',
            [U32 (d_irq d), U (d_hwirq d), or_dash (d_chip d), S (d_handle d), action_name d])]))"

definition context_lines :: "irq_ctx \<Rightarrow> line list" where
  "context_lines x = [(''preempt_count = 0x%08x'', [U32 (c_preempt x)]),
     (''in_hardirq()=%d in_softirq()=%d in_serving_softirq()=%d in_interrupt()=%d in_task()=%d'',
       map (\<lambda>b. I (of_bool b)) (c_in x))]"

definition evt_lines :: "nat \<Rightarrow> int \<Rightarrow> irq_ctx \<Rightarrow> irq_desc \<Rightarrow> line list" where
  "evt_lines cpu n x d =
     [(''dispatch #%d cpu%d virq=%u hwirq=%lu action=%s handler=%pS thread_fn=%pS'',
        [I n, I (int cpu), U32 (d_irq d), U (d_hwirq d), action_name d,
         S (if d_action d = None then ''(null)'' else d_handler d),
         S (if d_action d = None then ''(null)'' else d_thread_fn d)]),
      (''preempt_count=0x%08x in_hardirq=%d irqs_disabled=%d SP=0x%016lx (%s)'',
        [U32 (c_preempt x), I (of_bool (c_in x ! 0)), I (of_bool (c_off x)), U (c_sp x), I (of_bool (on_stack x (c_sp x)))])]"

subsection \<open>The probes\<close>

datatype iplace =
    Off
  | G_Wait irq_ctx pt_regs \<comment> \<open>\<open>pre_gic\<close> before \<open>raw_spin_lock\<close>\<close>
  | G_Again irq_ctx pt_regs \<comment> \<open>the lock is held, before the second test\<close>
  | G_Inc irq_ctx pt_regs
  | G_Print irq_ctx pt_regs
  | G_Done \<comment> \<open>before \<open>raw_spin_unlock\<close>\<close>
  | E_Inc irq_ctx irq_desc \<comment> \<open>\<open>pre_evt\<close> before \<open>atomic_inc_return\<close>\<close>
  | E_Print irq_ctx irq_desc

record irqs =
  got :: int
  evt_got :: int
  prlock :: bool
  at_cpu :: "nat \<Rightarrow> iplace"
  sp_min :: "nat \<Rightarrow> u64"
  sp_max :: "nat \<Rightarrow> u64"
  sp_hits :: "nat \<Rightarrow> u64"
  ilog :: "line list"

definition irqs_start :: irqs where
  "irqs_start = \<lparr>got = 0, evt_got = 0, prlock = False, at_cpu = (\<lambda>c. Off), sp_min = (\<lambda>c. 0), sp_max = (\<lambda>c. 0),
     sp_hits = (\<lambda>c. 0), ilog = []\<rparr>"

definition comes :: "nat \<Rightarrow> iplace \<Rightarrow> irqs \<Rightarrow> irqs" where
  "comes c p s = s\<lparr>at_cpu := (at_cpu s)(c := p)\<rparr>"

definition note_sp :: "nat \<Rightarrow> u64 \<Rightarrow> irqs \<Rightarrow> irqs" where
  "note_sp c sp s = s\<lparr>sp_min := (if sp_min s c = 0 \<or> sp < sp_min s c then (sp_min s)(c := sp) else sp_min s),
     sp_max := (if sp_max s c < sp then (sp_max s)(c := sp) else sp_max s),
     sp_hits := (sp_hits s)(c := sp_hits s c + 1)\<rparr>"

definition wanted :: "irq_args \<Rightarrow> u64 \<Rightarrow> bool" where
  "wanted a hwirq \<longleftrightarrow> \<not> (0 \<le> want_hwirq a \<and> hwirq \<noteq> word_of_int (want_hwirq a))"

text \<open>The start of \<open>pre_gic\<close>, to the first read of \<open>got\<close> and the filters.\<close>

definition gic_enter :: "irq_args \<Rightarrow> nat \<Rightarrow> irq_ctx \<Rightarrow> irqs \<Rightarrow> irqs" where
  "gic_enter a c x s =
     (let s1 = if stackmap a \<noteq> 0 then note_sp c (c_sp x) s else s in
      if samples a \<le> got s1 then s1
      else case c_frame x of
        None \<Rightarrow> s1
      | Some f \<Rightarrow>
          if from_el0 a \<noteq> 0 \<and> \<not> in_el0 f then s1
          else if \<not> wanted a (c_hwirq x) then s1
          else comes c (G_Wait x f) s1)"

definition evt_enter :: "irq_args \<Rightarrow> nat \<Rightarrow> irq_ctx \<Rightarrow> irq_desc \<Rightarrow> irqs \<Rightarrow> irqs" where
  "evt_enter a c x d s =
     (if samples a \<le> evt_got s then s
      else if \<not> wanted a (d_hwirq d) then s
      else comes c (E_Inc x d) s)"

definition gic_next :: "irq_args \<Rightarrow> nat \<Rightarrow> irqs \<Rightarrow> irqs option" where
  "gic_next a c s = (case at_cpu s c of
       G_Wait x f \<Rightarrow> if prlock s then None else Some (comes c (G_Again x f) (s\<lparr>prlock := True\<rparr>))
     | G_Again x f \<Rightarrow> Some (comes c (if samples a \<le> got s then G_Done else G_Inc x f) s)
     | G_Inc x f \<Rightarrow> Some (comes c (G_Print x f) (s\<lparr>got := got s + 1\<rparr>))
     | G_Print x f \<Rightarrow> Some (comes c G_Done
         (s\<lparr>ilog := ilog s @ frame_lines c (got s) x f @ mapping_lines x @ context_lines x\<rparr>))
     | G_Done \<Rightarrow> Some (comes c Off (s\<lparr>prlock := False\<rparr>))
     | _ \<Rightarrow> None)"

definition evt_next :: "irq_args \<Rightarrow> nat \<Rightarrow> irqs \<Rightarrow> irqs option" where
  "evt_next a c s = (case at_cpu s c of
       E_Inc x d \<Rightarrow> Some (comes c (if samples a < evt_got s + 1 then Off else E_Print x d) (s\<lparr>evt_got := evt_got s + 1\<rparr>))
     | E_Print x d \<Rightarrow> Some (comes c Off (s\<lparr>ilog := ilog s @ evt_lines c (evt_got s) x d\<rparr>))
     | _ \<Rightarrow> None)"

datatype iev = Irq nat irq_ctx | Evt nat irq_ctx irq_desc | Step nat

text \<open>A probe is not interrupted by another one on its CPU.\<close>

definition irq_step :: "irq_args \<Rightarrow> nat \<Rightarrow> iev \<Rightarrow> irqs \<Rightarrow> irqs option" where
  "irq_step a ncpu e s = (case e of
       Irq c x \<Rightarrow> if c < ncpu \<and> at_cpu s c = Off then Some (gic_enter a c x s) else None
     | Evt c x d \<Rightarrow> if c < ncpu \<and> at_cpu s c = Off then Some (evt_enter a c x d s) else None
     | Step c \<Rightarrow> (case gic_next a c s of None \<Rightarrow> evt_next a c s | Some t \<Rightarrow> Some t))"

subsection \<open>Loading and unloading\<close>

record live_env =
  le_ksym :: int
  le_desc :: bool \<comment> \<open>\<open>irq_to_desc\<close> was found\<close>
  le_probe :: int \<comment> \<open>\<open>register_kprobe\<close> on \<open>gic_handle_irq\<close>\<close>
  le_gic :: int
  le_evt :: int
  le_gic_addr :: string
  le_evt_addr :: string

definition irq_live_init :: "irq_args \<Rightarrow> live_env \<Rightarrow> int \<times> line list" where
  "irq_live_init a e =
     (if le_ksym e \<noteq> 0 then (le_ksym e, [(''no kallsyms_lookup_name: %d'', [I (le_ksym e)])])
      else if \<not> le_desc e then (- 2, [])
      else (let ls = [(''irq_live.ko samples=%d from_el0=%d want_hwirq=%ld'', [I (samples a), I (from_el0 a), I (want_hwirq a)]),
                if le_probe e = 0 then (''gic_handle_irq'', []) else (''kprobe @ gic_handle_irq (%d)'', [I (le_probe e)])]
        in if le_gic e \<noteq> 0 then (le_gic e, ls @ [(''register_kprobe(generic_handle_domain_irq): %d'', [I (le_gic e)])])
           else (0, ls @ [(''kprobe @ generic_handle_domain_irq = %pS'', [S (le_gic_addr e)]),
             if le_evt e \<noteq> 0 then (''register_kprobe(handle_irq_event): %d'', [I (le_evt e)])
             else (''kprobe @ handle_irq_event = %pS'', [S (le_evt_addr e)]), (''waiting'', [])])))"

definition irq_live_exit :: "irq_args \<Rightarrow> nat list \<Rightarrow> irqs \<Rightarrow> line list" where
  "irq_live_exit a cpus s =
     (if stackmap a \<noteq> 0
      then map (\<lambda>c. (''  cpu%d: hits=%-8lu SP 0x%016lx .. 0x%016lx  (%lu B)'',
        [I (int c), U (sp_hits s c), U (sp_min s c), U (sp_max s c), U (sp_max s c - sp_min s c)])) cpus
      else [])
     @ [(''frames %d, dispatches %d'', [I (got s), I (evt_got s)])]"

section \<open>Lemmas\<close>

fun locked :: "iplace \<Rightarrow> bool" where
  "locked (G_Again x f) = True" | "locked (G_Inc x f) = True" | "locked (G_Print x f) = True" | "locked G_Done = True"
| "locked Off = False" | "locked (G_Wait x f) = False" | "locked (E_Inc x d) = False" | "locked (E_Print x d) = False"

fun printing :: "iplace \<Rightarrow> bool" where
  "printing (G_Print x f) = True"
| "printing (G_Again x f) = False" | "printing (G_Inc x f) = False" | "printing G_Done = False"
| "printing Off = False" | "printing (G_Wait x f) = False" | "printing (E_Inc x d) = False" | "printing (E_Print x d) = False"

fun adding :: "iplace \<Rightarrow> bool" where
  "adding (G_Inc x f) = True"
| "adding (G_Again x f) = False" | "adding (G_Print x f) = False" | "adding G_Done = False"
| "adding Off = False" | "adding (G_Wait x f) = False" | "adding (E_Inc x d) = False" | "adding (E_Print x d) = False"

lemma place_locked: "printing p \<Longrightarrow> locked p" "adding p \<Longrightarrow> locked p" "printing p \<Longrightarrow> \<not> adding p"
  by (cases p; simp)+

definition nums :: "string \<Rightarrow> line list \<Rightarrow> val list" where
  "nums l ls = map (\<lambda>(a, vs). hd vs) (filter (\<lambda>(a, vs). a = l) ls)"

lemma nums_append [simp]: "nums l (xs @ ys) = nums l xs @ nums l ys"
  by (simp add: nums_def)

definition frame_head :: string where "frame_head = ''frame #%d  (cpu%d)''"
definition evt_head :: string where
  "evt_head = ''dispatch #%d cpu%d virq=%u hwirq=%lu action=%s handler=%pS thread_fn=%pS''"

lemma nums_lines [simp]:
  "nums frame_head (frame_lines c n x f) = [I n]" "nums frame_head (mapping_lines x) = []"
  "nums frame_head (context_lines x) = []" "nums frame_head (evt_lines c n x d) = []"
  "nums evt_head (frame_lines c n x f) = []" "nums evt_head (mapping_lines x) = []"
  "nums evt_head (context_lines x) = []" "nums evt_head (evt_lines c n x d) = [I n]"
  by (simp_all add: nums_def frame_head_def evt_head_def frame_lines_def mapping_lines_def context_lines_def
      evt_lines_def decode_pstate_def Let_def split: option.split)

lemma comes_simps [simp]:
  "got (comes c p s) = got s" "evt_got (comes c p s) = evt_got s" "prlock (comes c p s) = prlock s"
  "ilog (comes c p s) = ilog s" "at_cpu (comes c p s) = (at_cpu s)(c := p)"
  "got (note_sp c sp s) = got s" "evt_got (note_sp c sp s) = evt_got s" "prlock (note_sp c sp s) = prlock s"
  "ilog (note_sp c sp s) = ilog s" "at_cpu (note_sp c sp s) = at_cpu s"
  by (simp_all add: comes_def note_sp_def)

definition numbered :: "int \<Rightarrow> line list \<Rightarrow> bool" where
  "numbered n ls \<longleftrightarrow> nums frame_head ls = map (\<lambda>i. I (int i)) [1..<Suc (nat n)]"

lemma numbered_next: "numbered n ls \<Longrightarrow> 0 \<le> n \<Longrightarrow> nums frame_head ms = [I (n + 1)] \<Longrightarrow> numbered (n + 1) (ls @ ms)"
  by (simp add: numbered_def nat_add_distrib)

text \<open>
  The lock is held exactly while one CPU stands between taking and releasing it; the count is
  only raised below the limit; the frames printed are numbered from 1 without gaps.
\<close>

definition gic_ok :: "irq_args \<Rightarrow> irqs \<Rightarrow> bool" where
  "gic_ok a s \<longleftrightarrow> (prlock s \<longleftrightarrow> (\<exists>c. locked (at_cpu s c))) \<and>
     (\<forall>c d. locked (at_cpu s c) \<and> locked (at_cpu s d) \<longrightarrow> c = d) \<and>
     (\<forall>c. adding (at_cpu s c) \<longrightarrow> got s < samples a) \<and> got s \<le> max 0 (samples a) \<and>
     of_bool (\<exists>c. printing (at_cpu s c)) \<le> got s \<and> numbered (got s - of_bool (\<exists>c. printing (at_cpu s c))) (ilog s)"

lemma ex_same: "\<not> P (f c) \<Longrightarrow> \<not> P q \<Longrightarrow> (\<exists>d. P ((f(c := q)) d)) \<longleftrightarrow> (\<exists>d. P (f d))"
  by (metis fun_upd_apply)

lemma ex_sole: "\<forall>d. d \<noteq> c \<longrightarrow> \<not> P (f d) \<Longrightarrow> (\<exists>d. P ((f(c := q)) d)) \<longleftrightarrow> P q"
  by auto

lemma gic_ok_quiet:
  assumes ok: "gic_ok a s" and c: "\<not> locked (at_cpu s c)" "\<not> locked q"
    and t: "got t = got s" "prlock t = prlock s" "\<And>n. numbered n (ilog t) = numbered n (ilog s)"
      "at_cpu t = (at_cpu s)(c := q)"
  shows "gic_ok a t"
proof -
  have q: "\<not> printing (at_cpu s c)" "\<not> adding (at_cpu s c)" "\<not> printing q" "\<not> adding q"
    using c place_locked by blast+
  have e: "(\<exists>d. locked (at_cpu t d)) \<longleftrightarrow> (\<exists>d. locked (at_cpu s d))"
    "(\<exists>d. printing (at_cpu t d)) \<longleftrightarrow> (\<exists>d. printing (at_cpu s d))"
    unfolding t(4) using c q by (intro ex_same; simp)+
  have l: "locked (at_cpu t d) \<Longrightarrow> locked (at_cpu s d)" "adding (at_cpu t d) \<Longrightarrow> adding (at_cpu s d)" for d
    using c q by (auto simp: t(4) split: if_splits)
  show ?thesis unfolding gic_ok_def t(1-3) e using ok [unfolded gic_ok_def] l by blast
qed

lemma enter_places:
  "\<exists>q. at_cpu (gic_enter a c x s) = (at_cpu s)(c := q) \<and> (q = at_cpu s c \<or> (\<exists>f. q = G_Wait x f))"
  "got (gic_enter a c x s) = got s" "evt_got (gic_enter a c x s) = evt_got s" "prlock (gic_enter a c x s) = prlock s"
  "ilog (gic_enter a c x s) = ilog s"
  by (auto simp: gic_enter_def Let_def split: option.split intro: fun_upd_triv [symmetric])

text \<open>While a CPU holds the lock, no other one is inside.\<close>

lemma sole_holder:
  assumes "gic_ok a s" "locked (at_cpu s c)"
  shows "\<forall>d. d \<noteq> c \<longrightarrow> \<not> locked (at_cpu s d)" "\<forall>d. d \<noteq> c \<longrightarrow> \<not> printing (at_cpu s d)"
    "\<forall>d. d \<noteq> c \<longrightarrow> \<not> adding (at_cpu s d)"
proof -
  show o: "\<forall>d. d \<noteq> c \<longrightarrow> \<not> locked (at_cpu s d)" using assms unfolding gic_ok_def by blast
  then show "\<forall>d. d \<noteq> c \<longrightarrow> \<not> printing (at_cpu s d)" "\<forall>d. d \<noteq> c \<longrightarrow> \<not> adding (at_cpu s d)"
    using place_locked by blast+
qed

lemma gic_ok_held:
  assumes ok: "gic_ok a s" and c: "locked (at_cpu s c)"
    and t: "at_cpu t = (at_cpu s)(c := q)" "prlock t = locked q"
      "adding q \<longrightarrow> got t < samples a" "got t \<le> max 0 (samples a)" "of_bool (printing q) \<le> got t"
      "numbered (got t - of_bool (printing q)) (ilog t)"
  shows "gic_ok a t"
proof -
  note o = sole_holder [OF ok c]
  have e: "(\<exists>d. locked (at_cpu t d)) \<longleftrightarrow> locked q" "(\<exists>d. printing (at_cpu t d)) \<longleftrightarrow> printing q"
    unfolding t(1) using o by (intro ex_sole; simp)+
  have l: "locked (at_cpu t d) \<Longrightarrow> d = c" "adding (at_cpu t d) \<Longrightarrow> adding q" for d
    using o by (auto simp: t(1) split: if_splits)
  show ?thesis unfolding gic_ok_def e using t(2-6) l by blast
qed

lemma gic_ok_take:
  assumes ok: "gic_ok a s" and p: "\<not> prlock s"
  shows "gic_ok a (comes c (G_Again x f) (s\<lparr>prlock := True\<rparr>))"
proof -
  have n: "\<forall>d. \<not> locked (at_cpu s d)" using ok p by (auto simp: gic_ok_def)
  then have "\<forall>d. \<not> printing (at_cpu s d)" "\<forall>d. \<not> adding (at_cpu s d)" using place_locked by blast+
  with n ok p show ?thesis by (auto simp: gic_ok_def)
qed

lemma held:
  assumes ok: "gic_ok a s" and c: "locked (at_cpu s c)"
  shows "prlock s \<and> got s \<le> max 0 (samples a) \<and> of_bool (printing (at_cpu s c)) \<le> got s \<and>
    (adding (at_cpu s c) \<longrightarrow> got s < samples a) \<and> numbered (got s - of_bool (printing (at_cpu s c))) (ilog s)"
proof -
  have e: "(\<exists>d. printing (at_cpu s d)) \<longleftrightarrow> printing (at_cpu s c)" using sole_holder(2) [OF ok c] by metis
  show ?thesis using ok c unfolding gic_ok_def e by blast
qed

lemma gic_next_ok:
  assumes ok: "gic_ok a s" and step: "gic_next a c s = Some t"
  shows "gic_ok a t"
proof (cases "locked (at_cpu s c)")
  case True
  note h = held [OF ok True] and g = gic_ok_held [OF ok True]
  show ?thesis
  proof (cases "at_cpu s c")
    case (G_Again x f)
    with step h show ?thesis
      by (intro g [where q = "if samples a \<le> got s then G_Done else G_Inc x f"]) (auto simp: gic_next_def)
  next
    case (G_Inc x f)
    with step h show ?thesis by (intro g [where q = "G_Print x f"]) (auto simp: gic_next_def)
  next
    case (G_Print x f)
    with h have "numbered (got s - 1) (ilog s)" "0 \<le> got s - 1" by simp_all
    with step h G_Print show ?thesis
      using numbered_next [of "got s - 1" "ilog s" "frame_lines c (got s) x f @ mapping_lines x @ context_lines x"]
      by (intro g [where q = G_Done]) (auto simp: gic_next_def)
  next
    case G_Done
    with step h show ?thesis by (intro g [where q = Off]) (auto simp: gic_next_def)
  qed (use True in auto)
next
  case False
  with step obtain x f where "at_cpu s c = G_Wait x f" by (auto simp: gic_next_def split: iplace.splits)
  with step ok gic_ok_take show ?thesis by (auto simp: gic_next_def split: if_splits)
qed

lemma not_gic: "\<not> locked (E_Inc x d)" "\<not> locked (E_Print x d)" "\<not> locked Off" "\<not> locked (G_Wait x f)"
  by simp_all

lemma numbered_same: "nums frame_head ms = [] \<Longrightarrow> numbered n (ls @ ms) = numbered n ls"
  by (simp add: numbered_def)

lemma evt_next_ok:
  assumes ok: "gic_ok a s" and step: "evt_next a c s = Some t"
  shows "gic_ok a t"
proof -
  have nl: "\<not> locked (at_cpu s c)" using step by (auto simp: evt_next_def split: iplace.splits)
  show ?thesis
    using step
    by (intro gic_ok_quiet [OF ok nl, where q = "at_cpu t c"])
      (auto simp: evt_next_def numbered_same split: iplace.splits if_splits)
qed

lemma irq_step_ok:
  assumes ok: "gic_ok a s" and step: "irq_step a n e s = Some t"
  shows "gic_ok a t"
proof (cases e)
  case (Irq c x)
  with step have c: "at_cpu s c = Off" "t = gic_enter a c x s" by (auto simp: irq_step_def split: if_splits)
  obtain q where "at_cpu t = (at_cpu s)(c := q)" "q = Off \<or> (\<exists>f. q = G_Wait x f)"
    using enter_places(1) [of a c x s] c by auto
  then show ?thesis using ok c by (intro gic_ok_quiet [OF ok, where c = c and q = q]) (auto simp: enter_places)
next
  case (Evt c x d)
  with step have c: "at_cpu s c = Off" "t = evt_enter a c x d s" by (auto simp: irq_step_def split: if_splits)
  then show ?thesis
    using ok gic_ok_quiet [OF ok, of c "E_Inc x d" t] by (auto simp: evt_enter_def split: if_splits)
next
  case (Step c)
  with step gic_next_ok [OF ok] evt_next_ok [OF ok] show ?thesis
    by (auto simp: irq_step_def split: option.splits)
qed

interpretation live: kept_by_steps "\<lambda>s. s = irqs_start" "by_event (irq_step a n)" "gic_ok a" for a n
proof
  fix s assume "s = irqs_start"
  then show "gic_ok a s" by (simp add: gic_ok_def irqs_start_def numbered_def nums_def)
next
  fix s t assume "gic_ok a s" "by_event (irq_step a n) s t"
  then show "gic_ok a t" using irq_step_ok by (auto simp: by_event_def)
qed

section \<open>Properties\<close>

text \<open>
  However the interrupts of the CPUs interleave, at most \<open>samples\<close> frames are printed, they
  are numbered 1, 2, 3, ... in the order of the log, no two CPUs print at once, and when no probe
  is running the count reported at unloading is the number of frames printed.
\<close>

theorem frames_numbered:
  assumes "run_events (irq_step a n) es irqs_start = Some s"
  shows "(\<exists>k. nums frame_head (ilog s) = map (\<lambda>i. I (int i)) [1..<Suc k] \<and> int k \<le> max 0 (samples a) \<and>
      ((\<forall>c. at_cpu s c = Off) \<longrightarrow> int k = got s)) \<and>
    (\<forall>c d. locked (at_cpu s c) \<and> locked (at_cpu s d) \<longrightarrow> c = d)"
proof -
  have "(by_event (irq_step a n))\<^sup>*\<^sup>* irqs_start s"
    unfolding run_events_steps [symmetric] using assms by (rule exI)
  then have ok: "gic_ok a s" using live.inv_reach by metis
  define k where "k = nat (got s - of_bool (\<exists>c. printing (at_cpu s c)))"
  have "nums frame_head (ilog s) = map (\<lambda>i. I (int i)) [1..<Suc k]"
    using ok unfolding gic_ok_def numbered_def k_def by blast
  moreover have "int k \<le> max 0 (samples a)" using ok by (auto simp: gic_ok_def k_def)
  moreover have "int k = got s" if "\<forall>c. at_cpu s c = Off"
  proof -
    have "\<not> (\<exists>c. printing (at_cpu s c))" using that by simp
    then show ?thesis using ok by (simp add: gic_ok_def k_def)
  qed
  moreover have "\<forall>c d. locked (at_cpu s c) \<and> locked (at_cpu s d) \<longrightarrow> c = d" using ok by (simp add: gic_ok_def)
  ultimately show ?thesis by blast
qed

definition some_frame :: pt_regs where
  "some_frame = \<lparr>pr_regs = replicate 31 0, pr_sp = 0, pr_pc = 0, pr_pstate = 5, pr_frame = (0, 0), pr_pmr = 0, pr_at = 0\<rparr>"

definition some_ctx :: irq_ctx where
  "some_ctx = \<lparr>c_frame = Some some_frame, c_sp = 64, c_comm = ''cat'', c_pid = 7, c_stack = 0, c_size = 128, c_ptregs = 336,
     c_domain = None, c_hwirq = 26, c_virq = 0, c_desc = None, c_daif = 0, c_off = True, c_preempt = 0x10000,
     c_in = [True, False, False, True, False], c_ksym = (\<lambda>a. '''')\<rparr>"

definition some_args :: irq_args where
  "some_args = \<lparr>samples = 1, from_el0 = 0, want_hwirq = - 1, stackmap = 0\<rparr>"

lemma two_frames_run:
  "\<exists>s. run_events (irq_step some_args 2)
     [Irq 0 some_ctx, Irq 1 some_ctx, Step 0, Step 0, Step 0, Step 0, Step 0, Step 1, Step 1, Step 1] irqs_start = Some s \<and>
     got s = 1 \<and> (\<forall>c. at_cpu s c = Off) \<and> ilog s = frame_lines 0 1 some_ctx some_frame @ mapping_lines some_ctx @ context_lines some_ctx"
  by (simp add: irq_step_def gic_enter_def gic_next_def wanted_def some_args_def some_ctx_def irqs_start_def comes_def Let_def)

theorem frames_numbered_witness:
  "\<exists>s. run_events (irq_step some_args 2)
     [Irq 0 some_ctx, Irq 1 some_ctx, Step 0, Step 0, Step 0, Step 0, Step 0, Step 1, Step 1, Step 1] irqs_start = Some s \<and>
     (\<exists>k. nums frame_head (ilog s) = map (\<lambda>i. I (int i)) [1..<Suc k] \<and> int k = 1)"
proof -
  obtain s where s: "run_events (irq_step some_args 2)
     [Irq 0 some_ctx, Irq 1 some_ctx, Step 0, Step 0, Step 0, Step 0, Step 0, Step 1, Step 1, Step 1] irqs_start = Some s"
    "got s = 1" "\<forall>c. at_cpu s c = Off"
    using two_frames_run by blast
  from frames_numbered [OF s(1)] s(2,3) obtain k where
    "nums frame_head (ilog s) = map (\<lambda>i. I (int i)) [1..<Suc k]" "int k = 1" by auto
  with s(1) show ?thesis by blast
qed

subsection \<open>Dispatches\<close>

definition how_many :: "nat \<Rightarrow> (iplace \<Rightarrow> bool) \<Rightarrow> (nat \<Rightarrow> iplace) \<Rightarrow> int" where
  "how_many n P f = (\<Sum>c<n. of_bool (P (f c)))"

lemma how_many_upd: "c < n \<Longrightarrow> how_many n P (f(c := q)) = how_many n P f - of_bool (P (f c)) + of_bool (P q)"
  unfolding how_many_def by (subst (1 2) sum.remove [of _ c]) (auto intro!: sum.cong)

lemma how_many_bounds: "0 \<le> how_many n P f" "how_many n P f \<le> int n"
proof -
  show "0 \<le> how_many n P f" unfolding how_many_def by (rule sum_nonneg) simp
  have "how_many n P f \<le> (\<Sum>c<n. 1)" unfolding how_many_def by (rule sum_mono) simp
  then show "how_many n P f \<le> int n" by simp
qed

fun counting :: "iplace \<Rightarrow> bool" where
  "counting (E_Inc x d) = True" | "counting (E_Print x d) = False" | "counting Off = False" | "counting (G_Wait x f) = False"
| "counting (G_Again x f) = False" | "counting (G_Inc x f) = False" | "counting (G_Print x f) = False" | "counting G_Done = False"

fun telling :: "iplace \<Rightarrow> bool" where
  "telling (E_Print x d) = True" | "telling (E_Inc x d) = False" | "telling Off = False" | "telling (G_Wait x f) = False"
| "telling (G_Again x f) = False" | "telling (G_Inc x f) = False" | "telling (G_Print x f) = False" | "telling G_Done = False"

definition evt_ok :: "irq_args \<Rightarrow> nat \<Rightarrow> irqs \<Rightarrow> bool" where
  "evt_ok a n s \<longleftrightarrow> (\<forall>c\<ge>n. at_cpu s c = Off) \<and> 0 \<le> evt_got s \<and>
     evt_got s + how_many n counting (at_cpu s) \<le> (if samples a \<le> 0 then 0 else samples a - 1 + int n) \<and>
     int (length (nums evt_head (ilog s))) + how_many n telling (at_cpu s) = min (evt_got s) (max 0 (samples a))"

lemma evt_ok_other:
  assumes ok: "evt_ok a n s" and c: "c < n" "\<not> counting (at_cpu s c)" "\<not> telling (at_cpu s c)" "\<not> counting q" "\<not> telling q"
    and t: "at_cpu t = (at_cpu s)(c := q)" "evt_got t = evt_got s" "nums evt_head (ilog t) = nums evt_head (ilog s)"
  shows "evt_ok a n t"
  using ok c unfolding evt_ok_def t by (simp add: how_many_upd)

lemma moves_inside:
  assumes "evt_ok a n s" "gic_next a c s = Some t \<or> evt_next a c s = Some t"
  shows "c < n"
proof (rule ccontr)
  assume "\<not> c < n"
  with assms(1) have "at_cpu s c = Off" by (simp add: evt_ok_def)
  with assms(2) show False by (simp add: gic_next_def evt_next_def)
qed

lemma gic_next_evt:
  assumes ok: "evt_ok a n s" and step: "gic_next a c s = Some t"
  shows "evt_ok a n t"
proof -
  have c: "c < n" using moves_inside [OF ok] step by blast
  show ?thesis
    using step
    by (intro evt_ok_other [OF ok c, where q = "at_cpu t c"]) (auto simp: gic_next_def split: iplace.splits if_splits)
qed

lemma evt_next_evt:
  assumes ok: "evt_ok a n s" and step: "evt_next a c s = Some t"
  shows "evt_ok a n t"
proof -
  have c: "c < n" using moves_inside [OF ok] step by blast
  show ?thesis
  proof (cases "at_cpu s c")
    case (E_Inc x d)
    have "1 \<le> how_many n counting (at_cpu s)"
      using how_many_bounds(1) [of n counting "(at_cpu s)(c := Off)"] E_Inc c by (simp add: how_many_upd)
    with ok step E_Inc c show ?thesis by (auto simp: evt_next_def evt_ok_def how_many_upd split: if_splits)
  next
    case (E_Print x d)
    with ok step c show ?thesis by (auto simp: evt_next_def evt_ok_def how_many_upd)
  qed (use step in \<open>auto simp: evt_next_def\<close>)
qed

lemma evt_step_ok:
  assumes ok: "evt_ok a n s" and step: "irq_step a n e s = Some t"
  shows "evt_ok a n t"
proof (cases e)
  case (Irq c x)
  with step have c: "c < n" "at_cpu s c = Off" "t = gic_enter a c x s" by (auto simp: irq_step_def split: if_splits)
  obtain q where "at_cpu t = (at_cpu s)(c := q)" "q = Off \<or> (\<exists>f. q = G_Wait x f)"
    using enter_places(1) [of a c x s] c by auto
  then show ?thesis using c by (intro evt_ok_other [OF ok c(1), where q = q]) (auto simp: enter_places)
next
  case (Evt c x d)
  with step have c: "c < n" "at_cpu s c = Off" "t = evt_enter a c x d s" by (auto simp: irq_step_def split: if_splits)
  have "how_many n counting (at_cpu s) + 1 \<le> int n"
    using how_many_bounds(2) [of n counting "(at_cpu s)(c := E_Inc x d)"] c by (simp add: how_many_upd)
  with ok c show ?thesis by (auto simp: evt_enter_def evt_ok_def how_many_upd)
next
  case (Step c)
  with step gic_next_evt [OF ok] evt_next_evt [OF ok] show ?thesis
    by (auto simp: irq_step_def split: option.splits)
qed

interpretation disp: kept_by_steps "\<lambda>s. s = irqs_start" "by_event (irq_step a n)" "evt_ok a n" for a n
proof
  fix s assume "s = irqs_start"
  then show "evt_ok a n s" by (simp add: evt_ok_def irqs_start_def nums_def how_many_def)
next
  fix s t assume "evt_ok a n s" "by_event (irq_step a n) s t"
  then show "evt_ok a n t" using evt_step_ok by (auto simp: by_event_def)
qed

definition some_desc :: irq_desc where
  "some_desc = \<lparr>d_irq = 11, d_hwirq = 26, d_chip = None, d_handle = ''h'', d_action = None, d_handler = ''h'', d_thread_fn = ''t''\<rparr>"

text \<open>
  At most \<open>samples\<close> dispatches are printed. The count reported at unloading is not that
  number: every CPU may raise it once more beyond the limit, and it does.
\<close>

theorem dispatches_overcounted:
  "(run_events (irq_step a n) es irqs_start = Some s \<longrightarrow>
      int (length (nums evt_head (ilog s))) \<le> max 0 (samples a) \<and> evt_got s \<le> max 0 (samples a - 1) + int n \<and>
      ((\<forall>c. at_cpu s c = Off) \<longrightarrow> int (length (nums evt_head (ilog s))) = min (evt_got s) (max 0 (samples a)))) \<and>
   (\<exists>es s. run_events (irq_step some_args 2) es irqs_start = Some s \<and> (\<forall>c. at_cpu s c = Off) \<and>
      length (nums evt_head (ilog s)) = 1 \<and> evt_got s = 2)"
proof (intro conjI impI)
  assume run: "run_events (irq_step a n) es irqs_start = Some s"
  have "(by_event (irq_step a n))\<^sup>*\<^sup>* irqs_start s"
    unfolding run_events_steps [symmetric] using run by (rule exI)
  then have ok: "evt_ok a n s" using disp.inv_reach by metis
  note b = how_many_bounds(1) [of n telling "at_cpu s"] how_many_bounds(1) [of n counting "at_cpu s"]
  show "int (length (nums evt_head (ilog s))) \<le> max 0 (samples a)" using ok b unfolding evt_ok_def by linarith
  show "evt_got s \<le> max 0 (samples a - 1) + int n"
    using ok b by (auto simp: evt_ok_def split: if_splits)
  assume "\<forall>c. at_cpu s c = Off"
  then have "how_many n telling (at_cpu s) = 0" by (simp add: how_many_def)
  then show "int (length (nums evt_head (ilog s))) = min (evt_got s) (max 0 (samples a))"
    using ok by (simp add: evt_ok_def)
next
  show "\<exists>es s. run_events (irq_step some_args 2) es irqs_start = Some s \<and> (\<forall>c. at_cpu s c = Off) \<and>
      length (nums evt_head (ilog s)) = 1 \<and> evt_got s = 2"
    by (rule exI [of _ "[Evt 0 some_ctx some_desc, Evt 1 some_ctx some_desc, Step 0, Step 0, Step 1]"])
      (simp add: irq_step_def evt_enter_def gic_next_def evt_next_def wanted_def some_args_def some_desc_def irqs_start_def comes_def)
qed


theorem dispatches_overcounted_witness:
  "\<exists>s. run_events (irq_step some_args 2) [Evt 0 some_ctx some_desc, Step 0, Step 0] irqs_start = Some s \<and> evt_got s \<le> 2"
proof -
  obtain s where s: "run_events (irq_step some_args 2) [Evt 0 some_ctx some_desc, Step 0, Step 0] irqs_start = Some s"
    by (simp add: irq_step_def evt_enter_def gic_next_def evt_next_def wanted_def some_args_def some_desc_def irqs_start_def comes_def)
  moreover have "max 0 (samples some_args - 1) + int 2 = 2" by (simp add: some_args_def)
  ultimately show ?thesis using dispatches_overcounted [of some_args 2] by metis
qed

subsection \<open>The range of stack pointers\<close>

text \<open>The recorded range of a CPU encloses every stack pointer seen there, and its ends were seen.\<close>

definition sp_range :: "nat \<Rightarrow> u64 list \<Rightarrow> irqs \<Rightarrow> bool" where
  "sp_range c sps s \<longleftrightarrow> (if sps = [] then sp_min s c = 0 \<and> sp_max s c = 0
     else sp_min s c = Min (set sps) \<and> sp_max s c = Max (set sps))"

lemma note_sp_range:
  assumes "sp_range c sps s" "sp \<noteq> 0" "0 \<notin> set sps"
  shows "sp_range c (sp # sps) (note_sp c sp s) \<and> sp_hits (note_sp c sp s) c = sp_hits s c + 1"
proof (cases "sps = []")
  case True
  with assms show ?thesis by (auto simp: sp_range_def note_sp_def word_neq_0_conv)
next
  case False
  define m M where mM: "m = Min (set sps)" "M = Max (set sps)"
  have "m \<noteq> 0" using assms(3) False Min_in by (fastforce simp: mM)
  moreover have "Min (set (sp # sps)) = min sp m" "Max (set (sp # sps)) = max sp M"
    using False by (simp_all add: mM)
  moreover have "sp_min s c = m" "sp_max s c = M" using False assms(1) by (simp_all add: sp_range_def mM)
  ultimately show ?thesis unfolding sp_range_def note_sp_def by (auto simp: min_def max_def)
qed

end
