(* ===== verification/Mm_Convert.thy ===== *)
theory Mm_Convert
  imports Prelude "HOL-Library.Multiset"
begin

section \<open>mm_convert.c: from a virtual address to its page and back\<close>

text \<open>
  The module walks from a process and an address to the VMA, the page table entries and the page,
  and prints each conversion with its inverse. The kernel's conversions, its page tables and
  structs are the fields of \<open>mc_env\<close>. The state is the log and the multiset of what is held:
  references on pids, tasks, address spaces and pages, the allocated page, the read lock and the
  mapped page table. Addresses are words, \<open>0\<close> is \<open>NULL\<close>.
\<close>

record kzone =
  z_name :: string
  z_start :: u64
  z_spanned :: u64
  z_present :: u64
  z_managed :: u64

record pgdat =
  pg_addr :: u64
  pg_node :: int
  pg_start :: u64
  pg_spanned :: u64
  pg_nr :: int
  pg_zones :: "kzone list" \<comment> \<open>\<open>MAX_NR_ZONES\<close> of them\<close>

record kpage =
  kp_zone :: kzone
  kp_pgdat :: pgdat
  kp_zonenum :: u32
  kp_ref :: int
  kp_map :: int
  kp_anon :: bool
  kp_lru :: bool
  kp_slab :: bool
  kp_ksm :: bool
  kp_index :: u64
  kp_mapping :: u64
  kp_file :: u64 \<comment> \<open>\<open>page_mapping()\<close>\<close>

record kvma =
  v_addr :: u64
  v_start :: u64
  v_end :: u64
  v_flags :: u64
  v_pgoff :: u64
  v_file :: bool

record ktsk =
  k_pid :: int
  k_comm :: string
  k_mm :: u64 \<comment> \<open>\<open>get_task_mm\<close>\<close>

record kmm =
  m_start_code :: u64
  m_pgd :: u64

record mc_env =
  page_to_pfn :: "u64 \<Rightarrow> u64"
  pfn_to_page :: "u64 \<Rightarrow> u64"
  page_to_phys :: "u64 \<Rightarrow> u64"
  page_to_virt :: "u64 \<Rightarrow> u64"
  virt_to_page :: "u64 \<Rightarrow> u64"
  phys_of :: "u64 \<Rightarrow> u64" \<comment> \<open>\<open>__pa\<close>\<close>
  page_at :: "u64 \<Rightarrow> kpage"
  task_at :: "u64 \<Rightarrow> ktsk"
  mm_at :: "u64 \<Rightarrow> kmm"
  mc_find_pid :: "int \<Rightarrow> u64"
  mc_pid_task :: "u64 \<Rightarrow> u64"
  mc_current :: u64
  mc_alloc :: u64
  find_vma :: "u64 \<Rightarrow> u64 \<Rightarrow> kvma option"
  level :: "nat \<Rightarrow> u64 \<Rightarrow> u64 \<Rightarrow> u64 \<times> u64" \<comment> \<open>address and value of the entry of level 0 (pgd) to 3 (pte)\<close>
  entry_none :: "nat \<Rightarrow> u64 \<Rightarrow> bool"
  pte_present :: "u64 \<Rightarrow> bool"
  pte_page :: "u64 \<Rightarrow> u64"
  pte_pfn :: "u64 \<Rightarrow> u64"
  VMEMMAP_START :: u64
  PAGE_SHIFT :: nat
  page_struct :: u64 \<comment> \<open>\<open>sizeof(struct page)\<close>\<close>
  PAGE_MAPPING_FLAGS :: u64
  VM_READ :: u64
  VM_WRITE :: u64
  VM_EXEC :: u64
  VM_SHARED :: u64

definition tick :: "bool \<Rightarrow> val" where
  "tick b = I (of_bool b)"

subsection \<open>Printing a page\<close>

definition page_numbers :: "mc_env \<Rightarrow> u64 \<Rightarrow> line list" where
  "page_numbers e p =
     (let pfn = page_to_pfn e p; paddr = push_bit (PAGE_SHIFT e) pfn; flat = VMEMMAP_START e + pfn * page_struct e;
          v = page_to_virt e p in
      [(''struct page * = 0x%px'', [U p]), (''[5] page_to_pfn() = 0x%lx (%lu)'', [U pfn, U pfn]),
       (''[5] pfn_to_page() = 0x%px %s'', [U (pfn_to_page e pfn), tick (pfn_to_page e pfn = p)]),
       (''vmemmap = 0x%lx sizeof(struct page)=%zu'', [U (VMEMMAP_START e), U (page_struct e)]),
       (''vmemmap + pfn*%zu = 0x%lx %s'', [U (page_struct e), U flat, tick (flat = p)]),
       (''[6] PFN_PHYS() = 0x%llx'', [U paddr]),
       (''[6] PHYS_PFN() = 0x%lx %s'', [U (drop_bit (PAGE_SHIFT e) paddr), tick (drop_bit (PAGE_SHIFT e) paddr = pfn)]),
       (''page_to_phys() = 0x%llx'', [U (page_to_phys e p)]),
       (''page_to_virt() = 0x%px __pa()=0x%llx'', [U v, U (phys_of e v)]),
       (''virt_to_page(page_to_virt()) = 0x%px %s'', [U (virt_to_page e v), tick (virt_to_page e v = p)])])"

definition in_zone :: "kzone \<Rightarrow> u64 \<Rightarrow> bool" where
  "in_zone z pfn \<longleftrightarrow> z_start z \<le> pfn \<and> pfn < z_start z + z_spanned z"

definition page_zones :: "mc_env \<Rightarrow> u64 \<Rightarrow> line list" where
  "page_zones e p =
     (let k = page_at e p; z = kp_zone k; g = kp_pgdat k; pfn = page_to_pfn e p in
      [(''[8] page_zone() = %s zone_start_pfn=0x%lx spanned=%lu'', [S (z_name z), U (z_start z), U (z_spanned z)]),
       (''PFN 0x%lx [0x%lx, 0x%lx) %s'', [U pfn, U (z_start z), U (z_start z + z_spanned z), tick (in_zone z pfn)]),
       (''page->flags zone id = %u'', [U32 (kp_zonenum k)]),
       (''[9] zone->zone_pgdat = 0x%px node_id=%d'', [U (pg_addr g), I (pg_node g)]),
       (''pgdat->node_start_pfn=0x%lx node_spanned_pages=%lu nr_zones=%d'', [U (pg_start g), U (pg_spanned g), I (pg_nr g)])]
      @ map (\<lambda>(i, z). (''node_zones[%d] %s present=%lu managed=%lu start_pfn=0x%lx'',
          [I (int i), S (z_name z), U (z_present z), U (z_managed z), U (z_start z)])) (enumerate 0 (pg_zones g))
      @ [(''_refcount=%d _mapcount=%d PageAnon=%d PageLRU=%d PageSlab=%d'',
          [I (kp_ref k), I (kp_map k), tick (kp_anon k), tick (kp_lru k), tick (kp_slab k)])])"

definition show_page :: "mc_env \<Rightarrow> string \<Rightarrow> u64 \<Rightarrow> line list" where
  "show_page e tag p = (''---- %s ----'', [S tag]) # page_numbers e p @ page_zones e p"

subsection \<open>What is held\<close>

datatype held = H_Pid u64 | H_Task u64 | H_Mm u64 | H_Page u64 | H_Alloc u64 | H_Lock u64 | H_Pte u64

record mc =
  mc_log :: "line list"
  mc_held :: "held multiset"

definition note_lines :: "line list \<Rightarrow> mc \<Rightarrow> mc" where
  "note_lines ls s = s\<lparr>mc_log := mc_log s @ ls\<rparr>"

definition acquire :: "held \<Rightarrow> mc \<Rightarrow> mc" where
  "acquire h s = s\<lparr>mc_held := mc_held s + {#h#}\<rparr>"

definition give_up :: "held \<Rightarrow> mc \<Rightarrow> mc" where
  "give_up h s = s\<lparr>mc_held := mc_held s - {#h#}\<rparr>"

subsection \<open>The module\<close>

definition show_kpage :: "mc_env \<Rightarrow> mc \<Rightarrow> mc" where
  "show_kpage e s = (let p = mc_alloc e in
     if p = 0 then s else give_up (H_Alloc p) (note_lines (show_page e ''A'' p) (acquire (H_Alloc p) s)))"

text \<open>The task: \<open>current\<close> without a reference, or the one of \<open>target_pid\<close>.\<close>

definition find_target :: "mc_env \<Rightarrow> int \<Rightarrow> mc \<Rightarrow> u64 \<times> mc" where
  "find_target e target_pid s =
     (if target_pid = 0 then (mc_current e, s)
      else (let p = mc_find_pid e target_pid in
        if p = 0 then (0, s)
        else (let s1 = acquire (H_Pid p) s; t = mc_pid_task e p; s2 = if t = 0 then s1 else acquire (H_Task t) s1
              in (t, give_up (H_Pid p) s2))))"

definition vma_lines :: "mc_env \<Rightarrow> u64 \<Rightarrow> u64 \<Rightarrow> kvma \<Rightarrow> line list" where
  "vma_lines e mm va v =
     [(''[1] find_vma(mm, 0x%lx)'', [U va]),
      (''vma = 0x%px [0x%lx, 0x%lx) %lu KB'', [U (v_addr v), U (v_start v), U (v_end v), U (drop_bit 10 (v_end v - v_start v))]),
      (''vm_flags=0x%lx (%c%c%c%c) vm_pgoff=0x%lx vm_file=%s'',
        [U (v_flags v), S [if v_flags v AND VM_READ e \<noteq> 0 then CHR ''r'' else CHR ''-'',
           if v_flags v AND VM_WRITE e \<noteq> 0 then CHR ''w'' else CHR ''-'',
           if v_flags v AND VM_EXEC e \<noteq> 0 then CHR ''x'' else CHR ''-'',
           if v_flags v AND VM_SHARED e \<noteq> 0 then CHR ''s'' else CHR ''p''], U (v_pgoff v), tick (v_file v)]),
      (''mm->pgd = 0x%px __pa = 0x%llx'', [U (m_pgd (mm_at e mm)), U (phys_of e (m_pgd (mm_at e mm)))])]"

text \<open>
  The walk over the four levels: \<open>None\<close> where the code jumps to \<open>unlock\<close>, else the page (0 for
  none). The page is referenced; the page table is mapped and unmapped.
\<close>

definition entry_line :: "string \<Rightarrow> u64 \<times> u64 \<Rightarrow> line" where
  "entry_line f x = (f, [U (fst x), U (snd x)])"

definition walk_va :: "mc_env \<Rightarrow> u64 \<Rightarrow> u64 \<Rightarrow> mc \<Rightarrow> u64 option \<times> mc" where
  "walk_va e mm va s =
     (let pgd = level e 0 mm va; pud = level e 1 mm va; pmd = level e 2 mm va; pte = level e 3 mm va;
          s0 = note_lines [(''[2] VMA + vaddr -> page'', []), entry_line ''pgd_offset() = 0x%px val=0x%llx'' pgd] s in
      if entry_none e 0 (snd pgd) then (None, s0)
      else (let s1 = note_lines [entry_line ''pud_offset() = 0x%px val=0x%llx'' pud] s0 in
      if entry_none e 1 (snd pud) then (None, s1)
      else (let s2 = note_lines [entry_line ''pmd_offset() = 0x%px val=0x%llx'' pmd] s1 in
      if entry_none e 2 (snd pmd) then (None, s2)
      else (let s3 = note_lines [entry_line ''pte_offset_map() = 0x%px val=0x%llx'' pte] (acquire (H_Pte (fst pte)) s2) in
      if pte_present e (snd pte)
      then (let p = pte_page e (snd pte) in (Some p, give_up (H_Pte (fst pte)) (acquire (H_Page p)
         (note_lines [(''[7] pte_page() = 0x%px pte_pfn()=0x%lx'', [U p, U (pte_pfn e (snd pte))]),
                      (''[7] mk_pte page_to_pfn(0x%lx)'', [U (page_to_pfn e p)])] s3))))
      else (Some 0, give_up (H_Pte (fst pte)) (note_lines [(''no PTE'', [])] s3))))))"

definition back_address :: "mc_env \<Rightarrow> kvma \<Rightarrow> u64 \<Rightarrow> u64" where
  "back_address e v p = v_start v + push_bit (PAGE_SHIFT e) (kp_index (page_at e p) - v_pgoff v)"

definition back_lines :: "mc_env \<Rightarrow> kvma \<Rightarrow> u64 \<Rightarrow> u64 \<Rightarrow> line list" where
  "back_lines e v p va =
     [(''[3] vm_start + ((page->index - vm_pgoff) << PAGE_SHIFT)'', []),
      (''= 0x%lx + ((0x%lx - 0x%lx) << 12) = 0x%lx (va=0x%lx)'',
        [U (v_start v), U (kp_index (page_at e p)), U (v_pgoff v), U (back_address e v p), U (va AND NOT (mask (PAGE_SHIFT e)))]),
      (''vma_address()'', [])]"

definition rmap_lines :: "mc_env \<Rightarrow> u64 \<Rightarrow> line list" where
  "rmap_lines e p =
     (let k = page_at e p; av = if kp_anon k then kp_mapping k AND NOT (PAGE_MAPPING_FLAGS e) else 0 in
      [(''[4] page -> VMA (rmap)'', []), (''page->mapping = 0x%px PageAnon=%d PageKsm=%d'', [U (kp_mapping k), tick (kp_anon k), tick (kp_ksm k)])]
      @ (if av \<noteq> 0 then [(''anon: PAGE_MAPPING_ANON'', []), (''anon_vma = 0x%px'', [U av]), (''av->rb_root'', [])]
         else if kp_mapping k \<noteq> 0
         then [(''file: address_space = 0x%px'', [U (kp_file k)]), (''page->index = 0x%lx'', [U (kp_index k)]), (''as->i_mmap'', [])]
         else [])
      @ [(''_mapcount = %d => %d PTE'', [I (kp_map k - 1), I (kp_map k)]), (''rmap_walk()'', []), (''EXPORT_SYMBOL'', [])])"

definition mc_finish :: "int \<Rightarrow> u64 \<Rightarrow> mc \<Rightarrow> mc" where
  "mc_finish target_pid t s =
     note_lines [(''done'', [])] (if target_pid \<noteq> 0 \<and> t \<noteq> 0 then give_up (H_Task t) s else s)"

definition mc_unlock :: "u64 \<Rightarrow> mc \<Rightarrow> mc" where
  "mc_unlock mm s = give_up (H_Mm mm) (give_up (H_Lock mm) s)"

definition with_page :: "mc_env \<Rightarrow> kvma \<Rightarrow> u64 \<Rightarrow> u64 \<Rightarrow> u64 \<Rightarrow> mc \<Rightarrow> mc" where
  "with_page e v mm va p s =
     (let s1 = give_up (H_Lock mm) (if p = 0 then s else note_lines (back_lines e v p va) s);
          s2 = if p = 0 then s1 else give_up (H_Page p) (note_lines (rmap_lines e p @ show_page e ''B'' p) s1)
      in give_up (H_Mm mm) s2)"

text \<open>The banner and the kernel page, then what is done once the address space is held.\<close>

definition convert_head :: "mc_env \<Rightarrow> mc \<Rightarrow> mc" where
  "convert_head e s = show_kpage e (note_lines [(''Ch3 Q3'', []),
     (''PAGE_SIZE=%lu PAGE_SHIFT=%d sizeof(struct page)=%zu VMEMMAP_START=0x%lx'',
        [U (push_bit (PAGE_SHIFT e) 1), I (int (PAGE_SHIFT e)), U (page_struct e), U (VMEMMAP_START e)])] s)"

definition convert_user :: "mc_env \<Rightarrow> u64 \<Rightarrow> u64 \<Rightarrow> u64 \<Rightarrow> mc \<Rightarrow> mc" where
  "convert_user e va t mm s =
     (let s1 = acquire (H_Lock mm) (note_lines [(''pid=%d comm=%s va=0x%lx'',
                 [I (k_pid (task_at e t)), S (k_comm (task_at e t)), U va])] s);
          none = mc_unlock mm (note_lines [(''[1] no VMA 0x%lx'', [U va])] s1) in
      case find_vma e mm va of
        None \<Rightarrow> none
      | Some v \<Rightarrow>
          if va < v_start v then none
          else (case walk_va e mm va (note_lines (vma_lines e mm va v) s1) of
              (None, s2) \<Rightarrow> mc_unlock mm s2
            | (Some p, s2) \<Rightarrow> with_page e v mm va p s2))"

definition mm_convert_init :: "mc_env \<Rightarrow> int \<Rightarrow> u64 \<Rightarrow> mc \<Rightarrow> int \<times> mc" where
  "mm_convert_init e target_pid target_va s =
     (let (t, s1) = find_target e target_pid (convert_head e s); mm = k_mm (task_at e t) in
      if target_pid \<noteq> 0 \<and> t = 0 then (0, note_lines [(''no pid %d'', [I target_pid])] s1)
      else if mm = 0 then (0, mc_finish target_pid t (note_lines [(''no mm'', [])] s1))
      else (let va = if target_va \<noteq> 0 then target_va else m_start_code (mm_at e mm) in
        (0, mc_finish target_pid t (convert_user e va t mm (acquire (H_Mm mm) s1)))))"

subsection \<open>Correctness\<close>

lemma mc_held_steps [simp]:
  "mc_held (note_lines ls s) = mc_held s"
  "mc_held (acquire h s) = mc_held s + {#h#}"
  "mc_held (give_up h s) = mc_held s - {#h#}"
  by (simp_all add: note_lines_def acquire_def give_up_def)

lemma mc_held_show_kpage [simp]: "mc_held (show_kpage e s) = mc_held s"
  by (simp add: show_kpage_def Let_def)

lemma mc_held_find_target:
  assumes "find_target e n s = (t, s')"
  shows "mc_held s' = mc_held s + (if n \<noteq> 0 \<and> t \<noteq> 0 then {#H_Task t#} else {#})"
  using assms by (auto simp: find_target_def Let_def split: if_splits)

lemma mc_held_walk_stopped: "walk_va e mm va s = (None, s') \<Longrightarrow> mc_held s' = mc_held s"
  by (auto simp: walk_va_def Let_def split: if_splits)

lemma mc_held_walk_done:
  assumes "walk_va e mm va s = (Some p, s')" and "\<And>x. pte_page e x \<noteq> 0"
  shows "mc_held s' = mc_held s + (if p = 0 then {#} else {#H_Page p#})"
  using assms by (auto simp: walk_va_def Let_def split: if_splits)

lemma mc_held_finish [simp]:
  "mc_held (mc_finish n t s) = mc_held s - (if n \<noteq> 0 \<and> t \<noteq> 0 then {#H_Task t#} else {#})"
  by (simp add: mc_finish_def)

lemma mc_held_unlock [simp]: "mc_held (mc_unlock mm s) = mc_held s - {#H_Lock mm#} - {#H_Mm mm#}"
  by (simp add: mc_unlock_def)

lemma mc_held_with_page [simp]:
  "mc_held (with_page e v mm va p s) =
     mc_held s - {#H_Lock mm#} - (if p = 0 then {#} else {#H_Page p#}) - {#H_Mm mm#}"
  by (simp add: with_page_def Let_def add_mset_commute)

lemma mc_held_convert_head [simp]: "mc_held (convert_head e s) = mc_held s"
  by (simp add: convert_head_def)

lemma mc_held_convert_user:
  assumes page: "\<And>x. pte_page e x \<noteq> 0"
  shows "mc_held (convert_user e va t mm (acquire (H_Mm mm) s)) = mc_held s"
proof (cases "find_vma e mm va")
  case None then show ?thesis by (simp add: convert_user_def Let_def)
next
  case (Some v)
  define s1 where "s1 = note_lines (vma_lines e mm va v) (acquire (H_Lock mm) (note_lines [(''pid=%d comm=%s va=0x%lx'',
                 [I (k_pid (task_at e t)), S (k_comm (task_at e t)), U va])] (acquire (H_Mm mm) s)))"
  have h: "mc_held s1 = mc_held s + {#H_Mm mm#} + {#H_Lock mm#}" by (simp add: s1_def)
  obtain q s2 where wk: "walk_va e mm va s1 = (q, s2)" by fastforce
  show ?thesis
  proof (cases q)
    case None
    then have "mc_held s2 = mc_held s1" using wk mc_held_walk_stopped by blast
    then show ?thesis using Some wk None h by (simp add: convert_user_def Let_def s1_def)
  next
    case (Some p)
    then have "mc_held s2 = mc_held s1 + (if p = 0 then {#} else {#H_Page p#})"
      using wk page mc_held_walk_done by blast
    then show ?thesis using \<open>find_vma e mm va = _\<close> wk Some h by (simp add: convert_user_def Let_def s1_def)
  qed
qed

text \<open>
  C30: on every path through the module - no such process, no address space, no VMA, an empty level
  of the page table, no page, a page - what is held at its end is what was held before it: every
  reference, lock, mapping and page it took is given back, and nothing else. The hypothesis: the
  page of a present entry is not \<open>NULL\<close>.
\<close>

theorem convert_gives_everything_back:
  assumes page: "\<And>x. pte_page e x \<noteq> 0" and r: "mm_convert_init e target_pid va s = (r, t)"
  shows "mc_held t = mc_held s"
proof -
  obtain tk s1 where f: "find_target e target_pid (convert_head e s) = (tk, s1)" by fastforce
  show ?thesis using r mc_held_find_target [OF f]
    by (auto simp: mm_convert_init_def Let_def f mc_held_convert_user [OF page] split: if_splits)
qed

lemma take_bit_add_word: "take_bit n (a + b) = take_bit n (take_bit n a + take_bit n b)" for a b :: "'a::len word"
proof (transfer fixing: n)
  fix a b :: int
  let ?m = "min LENGTH('a) n"
  have "take_bit ?m (a + b) = take_bit ?m (take_bit ?m a + take_bit ?m b)" by (simp only: take_bit_add)
  then show "take_bit LENGTH('a) (take_bit ?m (a + b)) = take_bit LENGTH('a) (take_bit ?m (take_bit ?m a + take_bit ?m b))"
    by simp
qed

lemma push_drop_and: "push_bit n (drop_bit n a) = a AND NOT (mask n)" for a :: "'a::len word"
  by (rule bit_eqI) (auto simp: bit_simps not_le)

text \<open>
  for a VMA that starts on a page and a page whose index is where the VMA puts the address,
  conversion [3] gives the start of the address's page, which the module prints beside it.
\<close>

theorem address_comes_back:
  assumes "v_start v AND mask (PAGE_SHIFT e) = 0"
    and "kp_index (page_at e p) = v_pgoff v + drop_bit (PAGE_SHIFT e) (va - v_start v)"
  shows "back_address e v p = va AND NOT (mask (PAGE_SHIFT e))"
proof -
  let ?n = "PAGE_SHIFT e"
  have "take_bit ?n (v_start v) = 0" using assms(1) by (simp add: take_bit_eq_mask)
  then have t: "take_bit ?n (va - v_start v) = take_bit ?n va"
    using take_bit_add_word [of ?n "va - v_start v" "v_start v"] by simp
  have "push_bit ?n (drop_bit ?n (va - v_start v)) = va - v_start v - take_bit ?n va"
    using bits_ident [of ?n "va - v_start v"] by (simp only: t eq_diff_eq)
  moreover have "push_bit ?n (drop_bit ?n va) = va - take_bit ?n va"
    using bits_ident [of ?n va] by (simp only: eq_diff_eq)
  ultimately have "v_start v + push_bit ?n (drop_bit ?n (va - v_start v)) = push_bit ?n (drop_bit ?n va)"
    by simp
  then show ?thesis using assms(2) by (simp add: back_address_def push_drop_and)
qed
subsection \<open>A page of a small address space\<close>

definition demo_zone :: kzone where
  "demo_zone = \<lparr>z_name = ''DMA'', z_start = 0x200, z_spanned = 0x1000, z_present = 0x1000, z_managed = 0xe00\<rparr>"

definition demo_page :: kpage where
  "demo_page = \<lparr>kp_zone = demo_zone, kp_pgdat = \<lparr>pg_addr = 0x9000, pg_node = 0, pg_start = 0x200, pg_spanned = 0x1000,
     pg_nr = 1, pg_zones = [demo_zone]\<rparr>, kp_zonenum = 0, kp_ref = 2, kp_map = 1, kp_anon = True, kp_lru = True,
     kp_slab = False, kp_ksm = False, kp_index = 0x11, kp_mapping = 0x7001, kp_file = 0\<rparr>"

definition demo_vma :: kvma where
  "demo_vma = \<lparr>v_addr = 0x8000, v_start = 0x400000, v_end = 0x404000, v_flags = 3, v_pgoff = 0x10, v_file = False\<rparr>"

definition demo_env :: mc_env where
  "demo_env = \<lparr>page_to_pfn = \<lambda>p. drop_bit 6 (p - 0x100000), pfn_to_page = \<lambda>f. push_bit 6 f + 0x100000,
     page_to_phys = \<lambda>p. push_bit 12 (drop_bit 6 (p - 0x100000)), page_to_virt = \<lambda>p. p, virt_to_page = \<lambda>v. v,
     phys_of = \<lambda>v. v, page_at = \<lambda>_. demo_page, task_at = \<lambda>_. \<lparr>k_pid = 5, k_comm = ''cat'', k_mm = 0x5000\<rparr>,
     mm_at = \<lambda>_. \<lparr>m_start_code = 0x400000, m_pgd = 0x6000\<rparr>, mc_find_pid = \<lambda>n. if n = 5 then 0x300 else 0,
     mc_pid_task = \<lambda>_. 0x4000, mc_current = 0x4100, mc_alloc = 0x108000,
     find_vma = \<lambda>_ va. if va < 0x404000 then Some demo_vma else None,
     level = \<lambda>_ _ va. (va, 0x200 + drop_bit 12 va), entry_none = \<lambda>_ x. x = 0, pte_present = \<lambda>x. x \<noteq> 0,
     pte_page = \<lambda>x. 0x108040, pte_pfn = \<lambda>x. 0x201, VMEMMAP_START = 0x100000, PAGE_SHIFT = 12, page_struct = 64,
     PAGE_MAPPING_FLAGS = 3, VM_READ = 1, VM_WRITE = 2, VM_EXEC = 4, VM_SHARED = 8\<rparr>"

lemma convert_gives_everything_back_witness:
  "mc_held (snd (mm_convert_init demo_env 5 0x401234 \<lparr>mc_log = [], mc_held = {#H_Lock 1#}\<rparr>)) = {#H_Lock 1#}"
  using convert_gives_everything_back
    [of demo_env 5 "0x401234" "\<lparr>mc_log = [], mc_held = {#H_Lock 1#}\<rparr>"
      "fst (mm_convert_init demo_env 5 0x401234 \<lparr>mc_log = [], mc_held = {#H_Lock 1#}\<rparr>)"
      "snd (mm_convert_init demo_env 5 0x401234 \<lparr>mc_log = [], mc_held = {#H_Lock 1#}\<rparr>)"]
  by (simp add: demo_env_def)

lemma address_comes_back_witness: "back_address demo_env demo_vma 0x108040 = 0x401000"
  using address_comes_back [of demo_vma demo_env "0x108040" "0x401234"]
  by (simp add: demo_env_def demo_vma_def demo_page_def mask_eq_exp_minus_1)

end
