(* ===== verification/Ctx_Probe.thy ===== *)
theory Ctx_Probe
  imports Irq_Live
begin

section \<open>ctx_probe.c: the same sample taken in every context\<close>

text \<open>
  The module schedules callbacks - an interrupt sent by \<open>irq_work\<close>, a timer, tasklets, work - and
  each writes a fingerprint of the CPU it runs on into one table, without a lock. Every C function
  is a list of statements (\<open>instr\<close>), and the state holds what each of them has left to do; an event
  runs one statement of one of them. A callback that was scheduled begins when the kernel likes.
  A wait ends when its completion is there, or late, when its time is over: the event says which.
\<close>

subsection \<open>Where a sample is taken, and its label\<close>

datatype spot =
    P_insmod | P_bh | H_iw | H_ht | S_exit | S_enable | S_ksoftirqd | P_wk | S_spin | S_block | H_raise
  | P_before | P_after | P_mode3

definition utf8 :: "nat list \<Rightarrow> string" where
  "utf8 ns = map char_of ns"

definition hard_word :: string where
  "hard_word = utf8 [0xE7, 0xA1, 0xAC, 0xE4, 0xB8, 0xAD, 0xE6, 0x96, 0xB7]"

definition soft_word :: string where
  "soft_word = utf8 [0xE8, 0xBB, 0x9F, 0xE4, 0xB8, 0xAD, 0xE6, 0x96, 0xB7]"

definition proc_word :: string where
  "proc_word = utf8 [0xE8, 0xA1, 0x8C, 0xE7, 0xA8, 0x8B]"

definition call_word :: string where
  "call_word = utf8 [0xE5, 0x9B, 0x9E, 0xE5, 0x91, 0xBC]"

definition arrow_sign :: string where
  "arrow_sign = utf8 [0xE2, 0x86, 0x92]"

definition spot_label :: "spot \<Rightarrow> string" where
  "spot_label p = (case p of
       P_insmod \<Rightarrow> proc_word @ '': insmod '' @ utf8 [0xE7, 0xB3, 0xBB, 0xE7, 0xB5, 0xB1, 0xE5, 0x91, 0xBC, 0xE5, 0x8F, 0xAB, 0xE8, 0xB7, 0xAF, 0xE5, 0xBE, 0x91]
     | P_bh \<Rightarrow> proc_word @ '': local_bh_disable '' @ utf8 [0xE8, 0x87, 0xA8, 0xE7, 0x95, 0x8C, 0xE5, 0x8D, 0x80, 0xE5, 0x85, 0xA7]
     | H_iw \<Rightarrow> hard_word @ '': irq_work (SGI/IPI)''
     | H_ht \<Rightarrow> hard_word @ '': hrtimer '' @ call_word
     | S_exit \<Rightarrow> soft_word @ utf8 [0xE2, 0x91, 0xA0] @ '': irq_exit'' @ arrow_sign @ ''__do_softirq''
     | S_enable \<Rightarrow> soft_word @ utf8 [0xE2, 0x91, 0xA2] @ '': local_bh_enable'' @ arrow_sign @ ''do_softirq''
     | S_ksoftirqd \<Rightarrow> soft_word @ utf8 [0xE2, 0x91, 0xA1] @ '': ksoftirqd? ('' @ utf8 [0xE8, 0xA6, 0x96, 0xE5, 0xAF, 0xA6, 0xE9, 0x9A, 0x9B] @ '')''
     | P_wk \<Rightarrow> proc_word @ '': workqueue kworker''
     | S_spin \<Rightarrow> soft_word @ '': tasklet '' @ utf8 [0xE5, 0xBF, 0x99, 0xE7, 0xAD, 0x89, 0xE4, 0xB8, 0xAD]
     | S_block \<Rightarrow> soft_word @ '': tasklet'' @ utf8 [0xEF, 0xBC, 0x88, 0xE6, 0x90, 0xB6, 0xE4, 0xBA, 0x86] @ proc_word @ utf8 [0xE7, 0x9A, 0x84] @ '' CPU'' @ utf8 [0xEF, 0xBC, 0x89]
     | H_raise \<Rightarrow> hard_word @ '': hrtimer'' @ utf8 [0xEF, 0xBC, 0x88, 0xE6, 0x89, 0x93, 0xE6, 0x96, 0xB7, 0xE4, 0xBA, 0x86] @ proc_word @ utf8 [0xEF, 0xBC, 0x89]
     | P_before \<Rightarrow> proc_word @ '': workqueue '' @ call_word @ utf8 [0xEF, 0xBC, 0x88, 0xE7, 0x9D, 0xA1, 0xE4, 0xB9, 0x8B, 0xE5, 0x89, 0x8D, 0xEF, 0xBC, 0x89]
     | P_after \<Rightarrow> proc_word @ '': workqueue '' @ call_word @ utf8 [0xEF, 0xBC, 0x88, 0xE7, 0x9D, 0xA1, 0xE9, 0x86, 0x92, 0xE5, 0xBE, 0x8C, 0xEF, 0xBC, 0x89]
     | P_mode3 \<Rightarrow> proc_word @ '': insmod'')"

subsection \<open>A fingerprint\<close>

record fingerprint =
  f_what :: string
  f_cpu :: int
  f_comm :: string
  f_pid :: int
  f_pc :: u32
  f_daif :: u64
  f_off :: bool
  f_in :: "bool list"
  f_sp :: u64
  f_on_task_stack :: bool
  f_valid :: bool

definition no_print :: fingerprint where
  "no_print = \<lparr>f_what = [], f_cpu = 0, f_comm = [], f_pid = 0, f_pc = 0, f_daif = 0, f_off = False,
     f_in = replicate 5 False, f_sp = 0, f_on_task_stack = False, f_valid = False\<rparr>"

definition fingerprint_of :: "u64 \<Rightarrow> spot \<Rightarrow> cpu_sample \<Rightarrow> fingerprint" where
  "fingerprint_of thread_size p x =
     \<lparr>f_what = take 39 (spot_label p), f_cpu = x_cpu x, f_comm = take 15 (x_comm x), f_pid = x_pid x, f_pc = x_pc x,
      f_daif = x_daif x, f_off = x_off x, f_in = x_in x, f_sp = x_sp x,
      f_on_task_stack = (x_stack x \<le> x_sp x \<and> x_sp x < x_stack x + thread_size), f_valid = True\<rparr>"

definition table_row :: "fingerprint \<Rightarrow> line" where
  "table_row f = (''%-34s %-4d %-18s 0x%08x %-4s %d / %d / %d / %d / %d'',
     [S (f_what f), I (f_cpu f), S (f_comm f), U32 (f_pc f), I (of_bool (f_off f))] @ map (\<lambda>b. I (of_bool b)) (f_in f))"

definition stack_row :: "fingerprint \<Rightarrow> line" where
  "stack_row f = (''%-34s 0x%016lx %-8s 0x%08lx'', [S (f_what f), U (f_sp f), I (of_bool (f_on_task_stack f)), U (f_daif f)])"

definition table_lines :: "fingerprint list \<Rightarrow> line list" where
  "table_lines fs = [(''what cpu current preempt_cnt IRQ in_hardirq/in_softirq/in_serving/in_interrupt/in_task'', [])]
     @ map table_row (filter f_valid fs) @ [(''what SP stack DAIF'', [])] @ map stack_row (filter f_valid fs)
     @ [(''preempt_count'', []), (''0x00010000 = HARDIRQ_OFFSET'', []), (''0x00000100 = SOFTIRQ_OFFSET'', []),
        (''0x00000200 = SOFTIRQ_DISABLE_OFFSET'', [])]"

subsection \<open>Statements\<close>

datatype who = Main | F_iw | F_ht | F_tl | F_tl2 | F_wk | F_spin | F_block | F_raise | F_sleep | F_victim

datatype cdone = Iw_done | Ht_done | Tl_done | Wk_done | Bh_done

datatype creg =
    Spin_t0 | C_before | C_after | Daif_in | Ns_spun | T_hardirq | T_soft_in | Block_t0 | T_soft_out
  | W_t0 | W_t1 | V_prev | V_gap | V_gap_at | V_last

datatype instr =
    Take spot
  | Take_tl \<comment> \<open>\<open>tl_fn\<close> picks its label by \<open>tl_from_hardirq\<close>\<close>
  | Fill nat spot \<comment> \<open>\<open>take\<close> after it has read \<open>nfp\<close>\<close>
  | Complete cdone | Reinit cdone | Wait cdone
  | Start who | Start_on who \<comment> \<open>on \<open>cpu_target\<close>, if that is online\<close>
  | From_hardirq bool
  | Ht_init | Iw_init | Tl_init
  | Bh_disable | Bh_enable
  | Mark creg | Since creg creg | Daif | Kstat creg | Spin creg
  | Find_timer
  | Slept | Sleep
  | Victim_go | Victim_store u64 u64 | Victim_prev u64 | Clear_gap | Victim_stop | Victim_join
  | Msg line | Table | Report1 | Report2 | Report3

record ctx =
  todo :: "who \<Rightarrow> instr list"
  queued :: "who \<Rightarrow> bool"
  dones :: "cdone \<Rightarrow> nat"
  fps :: "fingerprint list"
  nfp :: nat
  tl_from_hardirq :: bool
  bh_off :: nat
  reg :: "creg \<Rightarrow> u64"
  timer_virq :: int
  off_in_tasklet :: bool
  slept_ok :: bool
  victim_stop :: bool
  inited :: "who list"
  astray :: bool \<comment> \<open>ghost: \<open>fp\<close> was read before its start\<close>
  clog :: "line list"

record ctx_env =
  spin_ms :: int
  cpu_target :: int
  online :: bool
  thread_size :: u64
  descs :: "irq_desc option list" \<comment> \<open>\<open>irq_to_desc\<close> below \<open>nr_irqs\<close>\<close>
  victim_created :: bool
  before_fp :: int \<comment> \<open>what lies before \<open>fp\<close>\<close>

subsection \<open>The callbacks and the modes\<close>

definition bh_probe :: "instr list" where
  "bh_probe = [Bh_disable, Take P_bh, Bh_enable]"

definition iw_fn :: "instr list" where [simp]:
  "iw_fn = [Take H_iw, Complete Iw_done]"

definition ht_fn :: "instr list" where [simp]:
  "ht_fn = [Take H_ht, Start F_tl, Complete Ht_done]"

definition tl_fn :: "instr list" where [simp]:
  "tl_fn = [Take_tl, Complete Tl_done]"

definition wk_fn :: "instr list" where [simp]:
  "wk_fn = [Take P_wk, Complete Wk_done]"

definition tl2_fn :: "instr list" where [simp]:
  "tl2_fn = [Take S_ksoftirqd, Complete Bh_done]"

definition tl_spin_fn :: "instr list" where [simp]:
  "tl_spin_fn = [Mark Spin_t0, Daif, Kstat C_before, Spin Spin_t0, Kstat C_after, Since Ns_spun Spin_t0, Take S_spin, Complete Tl_done]"

definition tl_block_fn :: "instr list" where [simp]:
  "tl_block_fn = [Mark T_soft_in, Mark Block_t0, Spin Block_t0, Mark T_soft_out, Take S_block, Complete Tl_done]"

definition ht_raise_fn :: "instr list" where [simp]:
  "ht_raise_fn = [Mark T_hardirq, Take H_raise, Start F_block]"

definition wk_sleep_fn :: "instr list" where [simp]:
  "wk_sleep_fn = [Take P_before, Mark W_t0, Sleep, Mark W_t1, Slept, Take P_after, Complete Wk_done]"

definition victim_fn :: "instr list" where [simp]:
  "victim_fn = [Mark V_prev, Victim_go]"

text \<open>What a scheduled callback runs.\<close>

fun callback_of :: "who \<Rightarrow> instr list" where
  "callback_of F_iw = iw_fn"
| "callback_of F_ht = ht_fn"
| "callback_of F_tl = tl_fn"
| "callback_of F_wk = wk_fn"
| "callback_of F_tl2 = tl2_fn"
| "callback_of F_spin = tl_spin_fn"
| "callback_of F_block = tl_block_fn"
| "callback_of F_raise = ht_raise_fn"
| "callback_of F_sleep = wk_sleep_fn"
| "callback_of F_victim = victim_fn"
| "callback_of Main = []"

definition ctx_mode0 :: "instr list" where
  "ctx_mode0 = [Msg (''mode=0'', []), Take P_insmod] @ bh_probe @
     [Iw_init, Start_on F_iw, Wait Iw_done,
      Tl_init, From_hardirq True, Reinit Tl_done, Ht_init, Start F_ht, Wait Ht_done, Wait Tl_done,
      From_hardirq False, Reinit Tl_done, Bh_disable, Start F_tl, Bh_enable, Wait Tl_done,
      Start F_tl2, Wait Bh_done, Start F_wk, Wait Wk_done, Table]"

definition find_irq_by_name :: "ctx_env \<Rightarrow> string \<Rightarrow> int" where
  "find_irq_by_name e name =
     (case find_index (\<lambda>d. case d of None \<Rightarrow> False | Some k \<Rightarrow> d_action k = Some (Some name)) (descs e) of
        None \<Rightarrow> - 1 | Some i \<Rightarrow> int i)"

definition irq_count_on :: "cpu_sample \<Rightarrow> int \<Rightarrow> u64" where
  "irq_count_on x virq = (case x_kstat x virq of None \<Rightarrow> 0 | Some n \<Rightarrow> n)"

definition ctx_mode1 :: "ctx_env \<Rightarrow> instr list" where
  "ctx_mode1 e = [Find_timer, Msg (''busy for %d ms'', [I (spin_ms e)]), Reinit Tl_done, Start F_spin, Wait Tl_done, Report1, Table]"

definition ctx_mode2 :: "ctx_env \<Rightarrow> instr list" where
  "ctx_mode2 e = [Msg (''mode=2'', []), Msg (''kthread on cpu%d'', [I (cpu_target e)]), Msg (''hrtimer'', []), Msg (''%d ms'', [I (spin_ms e)]),
      Clear_gap] @
     (if \<not> victim_created e then [Msg (''kthread_create'', [])]
      else [Start F_victim, Sleep, Clear_gap, Ht_init, Reinit Tl_done, Start_on F_raise, Wait Tl_done, Sleep,
            Victim_stop, Victim_join, Report2, Table])"

definition ctx_mode3 :: "instr list" where
  "ctx_mode3 = [Msg (''mode=3'', []), Take P_mode3, Reinit Wk_done, Start F_sleep, Wait Wk_done, Report3, Table]"

definition ctx_probe_modes :: "ctx_env \<Rightarrow> int \<Rightarrow> instr list" where
  "ctx_probe_modes e md = Msg (''ctx_probe.ko  mode=%d  cpu_target=%d  spin_ms=%d'', [I md, I (cpu_target e), I (spin_ms e)])
     # (if md = 0 then ctx_mode0 else if md = 1 then ctx_mode1 e else if md = 2 then ctx_mode2 e
        else if md = 3 then ctx_mode3 else [Msg (''mode?'', [])])"

subsection \<open>Running a statement\<close>

definition goes_on :: "who \<Rightarrow> instr list \<Rightarrow> ctx \<Rightarrow> ctx" where
  "goes_on w is s = s\<lparr>todo := (todo s)(w := is)\<rparr>"

definition set_reg :: "creg \<Rightarrow> u64 \<Rightarrow> ctx \<Rightarrow> ctx" where
  "set_reg r v s = s\<lparr>reg := (reg s)(r := v)\<rparr>"

definition csay :: "line list \<Rightarrow> ctx \<Rightarrow> ctx" where
  "csay ls s = s\<lparr>clog := clog s @ ls\<rparr>"

text \<open>\<open>take\<close>: the test reads \<open>nfp\<close>, then \<open>nfp++\<close> and the entry are written.\<close>

definition take_read :: "who \<Rightarrow> spot \<Rightarrow> instr list \<Rightarrow> ctx \<Rightarrow> ctx" where
  "take_read w p is s = goes_on w (if 8 \<le> nfp s then is else Fill (nfp s) p # is) s"

definition take_fill :: "ctx_env \<Rightarrow> who \<Rightarrow> cpu_sample \<Rightarrow> nat \<Rightarrow> spot \<Rightarrow> instr list \<Rightarrow> ctx \<Rightarrow> ctx" where
  "take_fill e w x n p is s =
     goes_on w is (s\<lparr>nfp := n + 1, fps := (fps s)[n := fingerprint_of (thread_size e) p x]\<rparr>)"

definition wait_done :: "who \<Rightarrow> bool \<Rightarrow> cdone \<Rightarrow> instr list \<Rightarrow> ctx \<Rightarrow> ctx option" where
  "wait_done w late c is s =
     (if dones s c \<noteq> 0 then Some (goes_on w is (s\<lparr>dones := (dones s)(c := dones s c - 1)\<rparr>))
      else if late then Some (goes_on w is s) else None)"

definition still_spinning :: "ctx_env \<Rightarrow> u64 \<Rightarrow> u64 \<Rightarrow> bool" where
  "still_spinning e t0 now \<longleftrightarrow> sint (now - t0) < spin_ms e * 1000000"

definition find_timer :: "ctx_env \<Rightarrow> ctx \<Rightarrow> ctx" where
  "find_timer e s =
     (let v = find_irq_by_name e ''arch_timer''; s1 = csay [(''mode=1'', []), (''arch_timer virq = %d'', [I v])] s in
      if v < 0 then csay [(''rk_timer'', [])] (s1\<lparr>timer_virq := find_irq_by_name e ''rk_timer''\<rparr>)
      else s1\<lparr>timer_virq := v\<rparr>)"

definition report1 :: "ctx_env \<Rightarrow> ctx \<Rightarrow> ctx" where
  "report1 e s =
     (let cpu = if nfp s = 0 then before_fp e else f_cpu (fps s ! (nfp s - 1)) in
      csay [(''tasklet cpu%d %llu ns'', [I cpu, U (reg s Ns_spun)]),
            (''DAIF = 0x%08lx irqs_disabled() = %d'', [U (reg s Daif_in), I (of_bool (off_in_tasklet s))]),
            (''cpu%d %lu => %lu (%lu)'', [I cpu, U (reg s C_before), U (reg s C_after), U (reg s C_after - reg s C_before)]),
            (if \<not> off_in_tasklet s \<and> reg s C_before < reg s C_after then ''irqs on in softirq'' else ''unexpected'', [])]
        (s\<lparr>astray := (astray s \<or> nfp s = 0)\<rparr>))"

definition report2 :: "ctx_env \<Rightarrow> ctx \<Rightarrow> ctx" where
  "report2 e s = (let g = reg s V_gap in
     csay [(''t_hardirq = %llu'', [U (reg s T_hardirq)]),
           (''t_softirq_in = %llu (+%lld)'', [U (reg s T_soft_in), I (sint (reg s T_soft_in - reg s T_hardirq))]),
           (''t_softirq_out = %llu (+%lld)'', [U (reg s T_soft_out), I (sint (reg s T_soft_out - reg s T_hardirq))]),
           (''gap = %llu ns (%llu ms)'', [U g, U (g div 1000000)]),
           (if word_of_int (spin_ms e) * 1000000 \<le> g
            then (''kept waiting %llu ms >= %d ms'', [U (g div 1000000), I (spin_ms e)])
            else (''gap too small'', [])),
           (''irq_exit()'', []), (''softirq first'', [])] s)"

definition report3 :: "ctx \<Rightarrow> ctx" where
  "report3 s = csay [(''msleep(120) %s %llu ns (%llu ms)'',
       [S (if slept_ok s then ''returned'' else ''not returned''), U (reg s W_t1 - reg s W_t0),
        U ((reg s W_t1 - reg s W_t0) div 1000000)]), (''kworker'', []), (''in_task()=1'', [])] s"

text \<open>The loop of the victim: its test, and what it stores of one reading of the clock.\<close>

definition victim_turn :: "cpu_sample \<Rightarrow> ctx \<Rightarrow> instr list" where
  "victim_turn x s =
     (if victim_stop s then []
      else (let d = x_now x - reg s V_prev in
            (if reg s V_gap < d then [Victim_store d (x_now x)] else []) @ [Victim_prev (x_now x), Victim_go]))"

definition exec_instr :: "ctx_env \<Rightarrow> who \<Rightarrow> cpu_sample \<Rightarrow> bool \<Rightarrow> instr \<Rightarrow> instr list \<Rightarrow> ctx \<Rightarrow> ctx option" where
  "exec_instr e w x late i is s = (case i of
       Take p \<Rightarrow> Some (take_read w p is s)
     | Take_tl \<Rightarrow> Some (goes_on w (Take (if tl_from_hardirq s then S_exit else S_enable) # is) s)
     | Fill n p \<Rightarrow> Some (take_fill e w x n p is s)
     | Complete c \<Rightarrow> Some (goes_on w is (s\<lparr>dones := (dones s)(c := dones s c + 1)\<rparr>))
     | Reinit c \<Rightarrow> Some (goes_on w is (s\<lparr>dones := (dones s)(c := 0)\<rparr>))
     | Wait c \<Rightarrow> wait_done w late c is s
     | Start v \<Rightarrow> Some (goes_on w is (s\<lparr>queued := (queued s)(v := True)\<rparr>))
     | Start_on v \<Rightarrow> Some (goes_on w is (if online e then s\<lparr>queued := (queued s)(v := True)\<rparr> else s))
     | From_hardirq b \<Rightarrow> Some (goes_on w is (s\<lparr>tl_from_hardirq := b\<rparr>))
     | Ht_init \<Rightarrow> Some (goes_on w is (s\<lparr>inited := F_ht # inited s\<rparr>))
     | Iw_init \<Rightarrow> Some (goes_on w is (s\<lparr>inited := F_iw # inited s\<rparr>))
     | Tl_init \<Rightarrow> Some (goes_on w is (s\<lparr>inited := F_tl # inited s\<rparr>))
     | Bh_disable \<Rightarrow> Some (goes_on w is (s\<lparr>bh_off := bh_off s + 1\<rparr>))
     | Bh_enable \<Rightarrow> Some (goes_on w is (s\<lparr>bh_off := bh_off s - 1\<rparr>))
     | Mark r \<Rightarrow> Some (goes_on w is (set_reg r (x_now x) s))
     | Since r q \<Rightarrow> Some (goes_on w is (set_reg r (x_now x - reg s q) s))
     | Daif \<Rightarrow> Some (goes_on w is (set_reg Daif_in (x_daif x) (s\<lparr>off_in_tasklet := x_off x\<rparr>)))
     | Kstat r \<Rightarrow> Some (goes_on w is (set_reg r (irq_count_on x (timer_virq s)) s))
     | Spin r \<Rightarrow> Some (if still_spinning e (reg s r) (x_now x) then s else goes_on w is s)
     | Find_timer \<Rightarrow> Some (goes_on w is (find_timer e s))
     | Slept \<Rightarrow> Some (goes_on w is (s\<lparr>slept_ok := True\<rparr>))
     | Sleep \<Rightarrow> Some (goes_on w is s)
     | Victim_go \<Rightarrow> Some (goes_on w (victim_turn x s) s)
     | Victim_store d t \<Rightarrow> Some (goes_on w is (set_reg V_gap_at t (set_reg V_gap d s)))
     | Victim_prev t \<Rightarrow> Some (goes_on w is (set_reg V_last t (set_reg V_prev t s)))
     | Clear_gap \<Rightarrow> Some (goes_on w is (set_reg V_gap 0 s))
     | Victim_stop \<Rightarrow> Some (goes_on w is (s\<lparr>victim_stop := True\<rparr>))
     | Victim_join \<Rightarrow> if todo s F_victim = [] then Some (goes_on w is (s\<lparr>queued := (queued s)(F_victim := False)\<rparr>)) else None
     | Msg l \<Rightarrow> Some (goes_on w is (csay [l] s))
     | Table \<Rightarrow> Some (goes_on w is (csay (table_lines (take (nfp s) (fps s))) s))
     | Report1 \<Rightarrow> Some (goes_on w is (report1 e s))
     | Report2 \<Rightarrow> Some (goes_on w is (report2 e s))
     | Report3 \<Rightarrow> Some (goes_on w is (report3 s)))"

text \<open>An event: who runs, what its CPU shows, and whether a wait's time is over.\<close>

type_synonym cevent = "who \<times> cpu_sample \<times> bool"

definition ctx_step :: "ctx_env \<Rightarrow> cevent \<Rightarrow> ctx \<Rightarrow> ctx option" where
  "ctx_step e ev s = (case ev of (w, x, late) \<Rightarrow>
     (case todo s w of
        i # is \<Rightarrow> exec_instr e w x late i is s
      | [] \<Rightarrow> if queued s w then Some (goes_on w (callback_of w) (s\<lparr>queued := (queued s)(w := False)\<rparr>)) else None))"

definition ctx_start :: "ctx_env \<Rightarrow> int \<Rightarrow> ctx" where
  "ctx_start e md = \<lparr>todo = (\<lambda>w. if w = Main then ctx_probe_modes e md else []), queued = (\<lambda>w. False), dones = (\<lambda>c. 0),
     fps = replicate 8 no_print, nfp = 0, tl_from_hardirq = True, bh_off = 0, reg = (\<lambda>r. 0), timer_virq = 0,
     off_in_tasklet = False, slept_ok = False, victim_stop = False, inited = [], astray = False, clog = []\<rparr>"

subsection \<open>Loading and unloading\<close>

definition ctx_probe_init :: "int \<Rightarrow> u64 \<Rightarrow> (string \<Rightarrow> u64) \<Rightarrow> int \<times> line list" where
  "ctx_probe_init ret addr lookup =
     (let r = exp_ksym_init ret addr in
      if r \<noteq> 0 then (r, [(''ctx_probe: kallsyms_lookup_name: %d'', [I r])])
      else if lookup ''irq_to_desc'' = 0 \<or> lookup ''irq_work_queue_on'' = 0
      then (- 2, [(''ctx_probe: kallsyms irq_to_desc / irq_work_queue_on'', [])])
      else (0, []))"

text \<open>What unloading stops, in order: \<open>None\<close> stands for flushing the work queue.\<close>

definition ctx_probe_exit :: "ctx \<Rightarrow> who option list" where
  "ctx_probe_exit s =
     (if F_tl \<in> set (inited s) then [Some F_tl] else []) @ [Some F_tl2, Some F_spin, Some F_block]
     @ (if F_ht \<in> set (inited s) then [Some F_ht] else []) @ (if F_iw \<in> set (inited s) then [Some F_iw] else []) @ [None]"

section \<open>Lemmas\<close>

subsection \<open>What the order of the statements depends on\<close>

text \<open>
  A state without the samples and the printed lines: the spots sampled, the completions, and who
  has what to do. From a start there are finitely many of them, and they are found by search.
\<close>

datatype cabs = Cabs (a_spots: "spot list") (a_dones: "nat list") (a_flag: bool) (a_queued: "bool list") (a_todo: "instr list list")

primrec ix :: "who \<Rightarrow> nat" where
  "ix Main = 0" | "ix F_iw = 1" | "ix F_ht = 2" | "ix F_tl = 3" | "ix F_tl2 = 4" | "ix F_wk = 5" | "ix F_spin = 6"
| "ix F_block = 7" | "ix F_raise = 8" | "ix F_sleep = 9" | "ix F_victim = 10"

primrec cx :: "cdone \<Rightarrow> nat" where
  "cx Iw_done = 0" | "cx Ht_done = 1" | "cx Tl_done = 2" | "cx Wk_done = 3" | "cx Bh_done = 4"

definition all_who :: "who list" where
  "all_who = [Main, F_iw, F_ht, F_tl, F_tl2, F_wk, F_spin, F_block, F_raise, F_sleep, F_victim]"

definition erase :: "instr \<Rightarrow> instr" where
  "erase i = (case i of Msg l \<Rightarrow> Msg ([], []) | _ \<Rightarrow> i)"

definition a_goes :: "nat \<Rightarrow> instr list \<Rightarrow> cabs \<Rightarrow> cabs" where
  "a_goes k is a = Cabs (a_spots a) (a_dones a) (a_flag a) (a_queued a) ((a_todo a)[k := is])"

definition a_done :: "cdone \<Rightarrow> nat \<Rightarrow> cabs \<Rightarrow> cabs" where
  "a_done c n a = Cabs (a_spots a) ((a_dones a)[cx c := n]) (a_flag a) (a_queued a) (a_todo a)"

definition a_queue :: "who \<Rightarrow> bool \<Rightarrow> cabs \<Rightarrow> cabs" where
  "a_queue v b a = Cabs (a_spots a) (a_dones a) (a_flag a) ((a_queued a)[ix v := b]) (a_todo a)"

definition a_exec :: "nat \<Rightarrow> instr \<Rightarrow> instr list \<Rightarrow> cabs \<Rightarrow> cabs list option" where
  "a_exec k i is a = (case i of
       Take p \<Rightarrow> Some [a_goes k (if 8 \<le> length (a_spots a) then is else Fill (length (a_spots a)) p # is) a]
     | Take_tl \<Rightarrow> Some [a_goes k (Take (if a_flag a then S_exit else S_enable) # is) a]
     | Fill n p \<Rightarrow> if n \<le> length (a_spots a) \<and> n < 8
         then Some [a_goes k is (Cabs (take n (a_spots a) @ [p]) (a_dones a) (a_flag a) (a_queued a) (a_todo a))] else None
     | Complete c \<Rightarrow> Some [a_goes k is (a_done c (a_dones a ! cx c + 1) a)]
     | Reinit c \<Rightarrow> Some [a_goes k is (a_done c 0 a)]
     | Wait c \<Rightarrow> Some (if a_dones a ! cx c = 0 then [] else [a_goes k is (a_done c (a_dones a ! cx c - 1) a)])
     | Start v \<Rightarrow> Some [a_goes k is (a_queue v True a)]
     | Start_on v \<Rightarrow> Some [a_goes k is a, a_goes k is (a_queue v True a)]
     | From_hardirq b \<Rightarrow> Some [a_goes k is (Cabs (a_spots a) (a_dones a) b (a_queued a) (a_todo a))]
     | Spin r \<Rightarrow> Some [a, a_goes k is a]
     | Report1 \<Rightarrow> if a_spots a = [] then None else Some [a_goes k is a]
     | Victim_go \<Rightarrow> None | Victim_store d t \<Rightarrow> None | Victim_prev t \<Rightarrow> None | Victim_join \<Rightarrow> None
     | _ \<Rightarrow> Some [a_goes k is a])"

definition a_step :: "who \<Rightarrow> cabs \<Rightarrow> cabs list option" where
  "a_step w a = (case a_todo a ! ix w of
       i # is \<Rightarrow> a_exec (ix w) i is a
     | [] \<Rightarrow> Some (if a_queued a ! ix w then [a_goes (ix w) (map erase (callback_of w)) (a_queue w False a)] else []))"

definition a_start :: "instr list \<Rightarrow> cabs" where
  "a_start is = Cabs [] (replicate 5 0) True (replicate 11 False) (map erase is # replicate 10 [])"

definition succs :: "cabs \<Rightarrow> cabs list" where
  "succs a = concat (map (\<lambda>w. case a_step w a of None \<Rightarrow> [] | Some bs \<Rightarrow> bs) all_who)"

definition closed :: "cabs list \<Rightarrow> bool" where
  "closed seen \<longleftrightarrow> list_all (\<lambda>a. list_all (\<lambda>w. case a_step w a of None \<Rightarrow> False | Some bs \<Rightarrow> list_all (List.member seen) bs) all_who) seen"

definition search :: "instr list \<Rightarrow> cabs list" where
  "search is = explore succs 200 [a_start is] [a_start is]"

definition crel :: "cabs \<Rightarrow> ctx \<Rightarrow> bool" where
  "crel a s \<longleftrightarrow> length (a_todo a) = 11 \<and> length (a_queued a) = 11 \<and> length (a_dones a) = 5 \<and>
     (\<forall>w. a_todo a ! ix w = map erase (todo s w)) \<and> (\<forall>w. a_queued a ! ix w = queued s w) \<and>
     (\<forall>c. a_dones a ! cx c = dones s c) \<and> a_flag a = tl_from_hardirq s \<and> length (a_spots a) = nfp s \<and>
     length (fps s) = 8 \<and> nfp s \<le> 8 \<and>
     map f_what (take (nfp s) (fps s)) = map (\<lambda>p. take 39 (spot_label p)) (a_spots a) \<and> \<not> astray s"

lemma ix_less [simp]: "ix w < 11" "cx c < 5"
  by (cases w; simp) (cases c; simp)

lemma ix_inj [simp]: "ix v = ix w \<longleftrightarrow> v = w" "cx c = cx d \<longleftrightarrow> c = d"
  by (cases v; cases w; simp) (cases c; cases d; simp)

lemma crel_goes: "crel a s \<Longrightarrow> crel (a_goes (ix w) (map erase is) a) (goes_on w is s)"
  by (simp add: crel_def a_goes_def goes_on_def nth_list_update)

lemma crel_done: "crel a s \<Longrightarrow> crel (a_done c n a) (s\<lparr>dones := (dones s)(c := n)\<rparr>)"
  by (simp add: crel_def a_done_def nth_list_update)

lemma crel_queue: "crel a s \<Longrightarrow> crel (a_queue v b a) (s\<lparr>queued := (queued s)(v := b)\<rparr>)"
  by (simp add: crel_def a_queue_def nth_list_update)

lemma crel_flag: "crel a s \<Longrightarrow> crel (Cabs (a_spots a) (a_dones a) b (a_queued a) (a_todo a)) (s\<lparr>tl_from_hardirq := b\<rparr>)"
  by (simp add: crel_def)

lemma crel_quiet [simp]:
  "crel a (set_reg r v s) = crel a s" "crel a (csay ls s) = crel a s" "crel a (s\<lparr>off_in_tasklet := b\<rparr>) = crel a s"
  "crel a (s\<lparr>slept_ok := b\<rparr>) = crel a s" "crel a (s\<lparr>victim_stop := b\<rparr>) = crel a s" "crel a (s\<lparr>inited := ws\<rparr>) = crel a s"
  "crel a (s\<lparr>bh_off := n\<rparr>) = crel a s" "crel a (s\<lparr>timer_virq := v'\<rparr>) = crel a s"
  by (simp_all add: crel_def set_reg_def csay_def)

lemma crel_reports [simp]:
  "crel a (find_timer e s) = crel a s" "crel a (report2 e s) = crel a s" "crel a (report3 s) = crel a s"
  "nfp s \<noteq> 0 \<Longrightarrow> crel a (report1 e s) = crel a s"
proof -
  show "crel a (find_timer e s) = crel a s" "crel a (report2 e s) = crel a s" "crel a (report3 s) = crel a s"
    by (simp_all add: find_timer_def report2_def report3_def Let_def)
  have "crel a (s\<lparr>astray := (astray s \<or> b)\<rparr>) = crel a s" if "\<not> b" for b using that by (simp add: crel_def)
  then show "nfp s \<noteq> 0 \<Longrightarrow> crel a (report1 e s) = crel a s" by (simp add: report1_def Let_def)
qed

lemma crel_fill:
  assumes "crel a s" "n \<le> length (a_spots a)" "n < 8"
  shows "crel (Cabs (take n (a_spots a) @ [p]) (a_dones a) (a_flag a) (a_queued a) (a_todo a))
    (s\<lparr>nfp := n + 1, fps := (fps s)[n := fingerprint_of ts p x]\<rparr>)"
proof -
  have m: "map f_what (take (nfp s) (fps s)) = map (\<lambda>p. take 39 (spot_label p)) (a_spots a)" and l: "length (fps s) = 8"
    and n: "n \<le> nfp s" using assms by (simp_all add: crel_def)
  have "map f_what (take n (fps s)) = take n (map f_what (take (nfp s) (fps s)))" using n by (simp add: take_map)
  also have "\<dots> = map (\<lambda>p. take 39 (spot_label p)) (take n (a_spots a))" by (simp add: m take_map)
  finally have "map f_what (take (n + 1) ((fps s)[n := fingerprint_of ts p x])) = map (\<lambda>p. take 39 (spot_label p)) (take n (a_spots a) @ [p])"
    using l assms(3) by (simp add: take_Suc_conv_app_nth fingerprint_of_def)
  with assms show ?thesis by (simp add: crel_def)
qed

lemma erase_Cons: "map erase is = j # js \<longleftrightarrow> (\<exists>i is'. is = i # is' \<and> erase i = j \<and> map erase is' = js)"
  by auto

lemma crel_exec:
  assumes rel: "crel a s" and a: "a_exec (ix w) (erase i) (map erase is) a = Some bs" and s: "exec_instr e w x False i is s = Some t"
  shows "\<exists>b\<in>set bs. crel b t"
proof -
  have n: "length (a_spots a) = nfp s" "a_flag a = tl_from_hardirq s" "a_dones a ! cx c = dones s c" for c
    using rel by (simp_all add: crel_def)
  note go = crel_goes [OF rel, of w] crel_goes [of _ _ w] 
  show ?thesis
  proof (cases i)
    case (Take p)
    then show ?thesis using a s go(1) [of "if 8 \<le> nfp s then is else Fill (nfp s) p # is"]
      by (auto simp: exec_instr_def a_exec_def erase_def take_read_def n split: if_splits)
  next
    case Take_tl
    then show ?thesis using a s go(1) [of "Take (if tl_from_hardirq s then S_exit else S_enable) # is"]
      by (auto simp: exec_instr_def a_exec_def erase_def n split: if_splits)
  next
    case (Fill m p)
    then show ?thesis using a s crel_goes [OF crel_fill [OF rel, of m p "thread_size e" x], of w "is"]
      by (auto simp: exec_instr_def a_exec_def erase_def take_fill_def split: if_splits)
  next
    case (Wait c)
    then show ?thesis using a s crel_goes [OF crel_done [OF rel]]
      by (auto simp: exec_instr_def a_exec_def erase_def wait_done_def n split: if_splits)
  next
    case (Start_on v)
    then show ?thesis using a s crel_goes [OF crel_queue [OF rel, of v True], of w "is"] go(1)
      by (auto simp: exec_instr_def a_exec_def erase_def split: if_splits)
  next
    case (Spin r)
    then show ?thesis using a s rel go(1) by (auto simp: exec_instr_def a_exec_def erase_def split: if_splits)
  next
    case Report1
    with a have "nfp s \<noteq> 0" using n(1) by (cases "a_spots a") (auto simp: a_exec_def erase_def split: if_splits)
    with Report1 show ?thesis using a s rel
      by (auto simp: exec_instr_def a_exec_def erase_def split: if_splits intro!: crel_goes)
  qed (use a s rel in \<open>auto simp: exec_instr_def a_exec_def erase_def n intro!: crel_goes crel_done crel_queue crel_flag\<close>)
qed

lemma crel_step:
  assumes rel: "crel a s" and a: "a_step w a = Some bs" and s: "ctx_step e (w, x, False) s = Some t"
  shows "\<exists>b\<in>set bs. crel b t"
proof -
  have n: "a_todo a ! ix w = map erase (todo s w)" "a_queued a ! ix w = queued s w" using rel by (simp_all add: crel_def)
  show ?thesis
  proof (cases "todo s w")
    case Nil
    then show ?thesis using a s n crel_goes [OF crel_queue [OF rel, of w False], of w "callback_of w"]
      by (auto simp: a_step_def ctx_step_def split: if_splits)
  next
    case (Cons i "is")
    then show ?thesis using a s n crel_exec [OF rel, of w i "is"] by (simp add: a_step_def ctx_step_def)
  qed
qed

text \<open>Steps in which no wait's time is over.\<close>

definition in_time :: "ctx_env \<Rightarrow> ctx \<Rightarrow> ctx \<Rightarrow> bool" where
  "in_time e s t \<longleftrightarrow> (\<exists>w x. ctx_step e (w, x, False) s = Some t)"

definition mode_states :: "instr list \<Rightarrow> cabs list" where
  "mode_states is = search (Msg ([], []) # is)"

lemma closed0: "closed (mode_states ctx_mode0)"
  by code_simp



lemma all_who: "w \<in> set all_who"
  by (cases w) (simp_all add: all_who_def)

lemma closedD:
  assumes "closed seen" "a \<in> set seen"
  shows "\<exists>bs. a_step w a = Some bs \<and> set bs \<subseteq> set seen"
proof -
  have "case a_step w a of None \<Rightarrow> False | Some bs \<Rightarrow> list_all (List.member seen) bs"
    using assms all_who [of w] unfolding closed_def list_all_iff by blast
  then show ?thesis by (cases "a_step w a") (auto simp: list_all_iff)
qed

lemma crel_start: "crel (a_start (ctx_probe_modes e md)) (ctx_start e md)"
proof -
  have "a_todo (a_start (ctx_probe_modes e md)) ! ix w = map erase (todo (ctx_start e md) w)" for w
    by (cases w) (simp_all add: a_start_def ctx_start_def)
  moreover have "a_queued (a_start is) ! ix w = False" "a_dones (a_start is) ! cx c = 0" for w c "is"
    by (simp_all add: a_start_def)
  ultimately show ?thesis by (simp add: crel_def ctx_start_def) (simp add: a_start_def)
qed

lemma followed_start:
  assumes "map erase (ctx_probe_modes e md) = map erase (Msg ([], []) # is)"
  shows "\<exists>a\<in>set (mode_states is). crel a (ctx_start e md)"
proof -
  have "a_start (ctx_probe_modes e md) = a_start (Msg ([], []) # is)" using assms by (simp add: a_start_def)
  with crel_start [of e md] show ?thesis using explore_seen [of "[a_start (Msg ([], []) # is)]"]
    by (fastforce simp: mode_states_def search_def)
qed

lemma followed_step:
  assumes "closed seen" "a \<in> set seen" "crel a s" "in_time e s t"
  shows "\<exists>b\<in>set seen. crel b t"
proof -
  obtain w x where "ctx_step e (w, x, False) s = Some t" using assms(4) by (auto simp: in_time_def)
  moreover obtain bs where "a_step w a = Some bs" "set bs \<subseteq> set seen" using closedD assms(1,2) by blast
  ultimately show ?thesis using crel_step assms(3) by blast
qed

interpretation ctx0: finitely_followed "\<lambda>s. s = ctx_start e 0" "in_time e" crel "mode_states ctx_mode0" for e
proof (unfold_locales, goal_cases)
  case (1 s)
  have "map erase (ctx_probe_modes e 0) = map erase (Msg ([], []) # ctx_mode0)" by (simp add: ctx_probe_modes_def erase_def)
  with 1 show ?case using followed_start by blast
next
  case (2 a s t) then show ?case by (intro followed_step [OF closed0])
qed


lemma mode0_ends: "list_all (\<lambda>a. a_todo a ! 0 = [] \<longrightarrow> a_spots a = [P_insmod, P_bh, H_iw, H_ht, S_exit, S_enable, S_ksoftirqd, P_wk]) (mode_states ctx_mode0)"
  by code_simp

text \<open>
  C31: when no wait's time is over, mode 0 ends, in every interleaving of the callbacks, with the
  table full and its eight rows in the order of the comments, one for each context.
\<close>

theorem mode0_table:
  assumes run: "(in_time e)\<^sup>*\<^sup>* (ctx_start e 0) t" and over: "todo t Main = []"
  shows "nfp t = 8 \<and> map f_what (fps t) =
    map (\<lambda>p. take 39 (spot_label p)) [P_insmod, P_bh, H_iw, H_ht, S_exit, S_enable, S_ksoftirqd, P_wk]"
proof -
  obtain a where a: "a \<in> set (mode_states ctx_mode0)" "crel a t" using ctx0.followed [OF refl run] by blast
  then have t: "a_todo a ! ix Main = []" using over by (simp add: crel_def del: ix.simps)
  then have "a_spots a = [P_insmod, P_bh, H_iw, H_ht, S_exit, S_enable, S_ksoftirqd, P_wk]"
    using mode0_ends a(1) by (simp add: list_all_iff)
  with a(2) show ?thesis by (auto simp: crel_def)
qed

subsection \<open>Every schedule\<close>

definition genuine :: "ctx_env \<Rightarrow> fingerprint \<Rightarrow> bool" where
  "genuine e f \<longleftrightarrow> (\<exists>p x. f = fingerprint_of (thread_size e) p x)"

definition rows_below :: "ctx_env \<Rightarrow> ctx \<Rightarrow> nat \<Rightarrow> bool" where
  "rows_below e s n \<longleftrightarrow> n \<le> 8 \<and> (\<forall>i<n. genuine e (fps s ! i))"

definition rows_ok :: "ctx_env \<Rightarrow> ctx \<Rightarrow> bool" where
  "rows_ok e s \<longleftrightarrow> length (fps s) = 8 \<and> rows_below e s (nfp s) \<and>
     (\<forall>w n p. Fill n p \<in> set (todo s w) \<longrightarrow> n < 8 \<and> rows_below e s n)"





lemma rows_quiet [simp]:
  "rows_ok e (s\<lparr>dones := d\<rparr>) = rows_ok e s" "rows_ok e (s\<lparr>queued := q\<rparr>) = rows_ok e s" "rows_ok e (s\<lparr>tl_from_hardirq := b\<rparr>) = rows_ok e s"
  "rows_ok e (s\<lparr>inited := ws\<rparr>) = rows_ok e s" "rows_ok e (s\<lparr>bh_off := m\<rparr>) = rows_ok e s" "rows_ok e (s\<lparr>reg := r\<rparr>) = rows_ok e s"
  "rows_ok e (s\<lparr>off_in_tasklet := b\<rparr>) = rows_ok e s" "rows_ok e (s\<lparr>slept_ok := b\<rparr>) = rows_ok e s" "rows_ok e (s\<lparr>victim_stop := b\<rparr>) = rows_ok e s"
  "rows_ok e (s\<lparr>timer_virq := v\<rparr>) = rows_ok e s" "rows_ok e (s\<lparr>clog := ls\<rparr>) = rows_ok e s" "rows_ok e (s\<lparr>astray := b\<rparr>) = rows_ok e s"
  by (simp_all add: rows_ok_def rows_below_def)

lemma rows_below_quiet [simp]:
  "rows_below e (s\<lparr>dones := d\<rparr>) = rows_below e s" "rows_below e (s\<lparr>queued := q\<rparr>) = rows_below e s"
  "rows_below e (s\<lparr>tl_from_hardirq := b\<rparr>) = rows_below e s" "rows_below e (s\<lparr>inited := ws\<rparr>) = rows_below e s"
  "rows_below e (s\<lparr>bh_off := m\<rparr>) = rows_below e s" "rows_below e (s\<lparr>reg := r\<rparr>) = rows_below e s"
  "rows_below e (s\<lparr>off_in_tasklet := b\<rparr>) = rows_below e s" "rows_below e (s\<lparr>slept_ok := b\<rparr>) = rows_below e s"
  "rows_below e (s\<lparr>victim_stop := b\<rparr>) = rows_below e s" "rows_below e (s\<lparr>timer_virq := v\<rparr>) = rows_below e s"
  "rows_below e (s\<lparr>clog := ls\<rparr>) = rows_below e s" "rows_below e (s\<lparr>astray := b\<rparr>) = rows_below e s"
  by (simp_all add: rows_below_def fun_eq_iff)






subsection \<open>Runs of the two modes\<close>

definition demo_sample :: cpu_sample where
  "demo_sample = \<lparr>x_cpu = 3, x_comm = ''insmod'', x_pid = 77, x_pc = 0, x_daif = 0, x_off = False, x_in = [False, False, False, False, True],
     x_sp = 0x5100, x_stack = 0x4000, x_now = 50000000, x_kstat = (\<lambda>v. None)\<rparr>"

definition demo_ctx :: ctx_env where
  "demo_ctx = \<lparr>spin_ms = 0, cpu_target = 3, online = True, thread_size = 0x4000, descs = [], victim_created = True, before_fp = 0\<rparr>"

definition turns :: "bool \<Rightarrow> (who \<times> nat) list \<Rightarrow> cevent list" where
  "turns late ws = concat (map (\<lambda>(w, n). replicate n (w, demo_sample, late)) ws)"

lemma online_demo: "online demo_ctx"
  by (simp add: demo_ctx_def)


lemma exec_simps:
  "exec_instr e w x l (Take p) is s = Some (take_read w p is s)"
  "exec_instr e w x l Take_tl is s = Some (goes_on w (Take (if tl_from_hardirq s then S_exit else S_enable) # is) s)"
  "exec_instr e w x l (Fill n p) is s = Some (take_fill e w x n p is s)"
  "exec_instr e w x l (Complete c) is s = Some (goes_on w is (s\<lparr>dones := (dones s)(c := dones s c + 1)\<rparr>))"
  "exec_instr e w x l (Reinit c) is s = Some (goes_on w is (s\<lparr>dones := (dones s)(c := 0)\<rparr>))"
  "exec_instr e w x l (Wait c) is s = wait_done w l c is s"
  "exec_instr e w x l (Start v) is s = Some (goes_on w is (s\<lparr>queued := (queued s)(v := True)\<rparr>))"
  "exec_instr e w x l (Start_on v) is s = Some (goes_on w is (if online e then s\<lparr>queued := (queued s)(v := True)\<rparr> else s))"
  "exec_instr e w x l (From_hardirq b) is s = Some (goes_on w is (s\<lparr>tl_from_hardirq := b\<rparr>))"
  "exec_instr e w x l Ht_init is s = Some (goes_on w is (s\<lparr>inited := F_ht # inited s\<rparr>))"
  "exec_instr e w x l Iw_init is s = Some (goes_on w is (s\<lparr>inited := F_iw # inited s\<rparr>))"
  "exec_instr e w x l Tl_init is s = Some (goes_on w is (s\<lparr>inited := F_tl # inited s\<rparr>))"
  "exec_instr e w x l Bh_disable is s = Some (goes_on w is (s\<lparr>bh_off := bh_off s + 1\<rparr>))"
  "exec_instr e w x l Bh_enable is s = Some (goes_on w is (s\<lparr>bh_off := bh_off s - 1\<rparr>))"
  "exec_instr e w x l (Msg m) is s = Some (goes_on w is (csay [m] s))"
  "exec_instr e w x l Table is s = Some (goes_on w is (csay (table_lines (take (nfp s) (fps s))) s))"
  "exec_instr e w x l Find_timer is s = Some (goes_on w is (find_timer e s))"
  "exec_instr e w x l (Mark r) is s = Some (goes_on w is (set_reg r (x_now x) s))"
  "exec_instr e w x l (Since r q) is s = Some (goes_on w is (set_reg r (x_now x - reg s q) s))"
  "exec_instr e w x l Daif is s = Some (goes_on w is (set_reg Daif_in (x_daif x) (s\<lparr>off_in_tasklet := x_off x\<rparr>)))"
  "exec_instr e w x l (Kstat r) is s = Some (goes_on w is (set_reg r (irq_count_on x (timer_virq s)) s))"
  "exec_instr e w x l (Spin r) is s = Some (if still_spinning e (reg s r) (x_now x) then s else goes_on w is s)"
  "exec_instr e w x l Report1 is s = Some (goes_on w is (report1 e s))"
  by (simp_all add: exec_instr_def)

lemma step_simps:
  "ctx_step e (w, x, l) s = (case todo s w of i # is \<Rightarrow> exec_instr e w x l i is s
      | [] \<Rightarrow> if queued s w then Some (goes_on w (callback_of w) (s\<lparr>queued := (queued s)(w := False)\<rparr>)) else None)"
  by (simp add: ctx_step_def)

lemma demo_runs:
  "\<exists>t. run_events (ctx_step demo_ctx) (turns False [(Main, 10), (F_iw, 4), (Main, 6), (F_ht, 5), (Main, 1), (F_tl, 5), (Main, 6), (F_tl, 5),
     (Main, 2), (F_tl2, 4), (Main, 2), (F_wk, 4), (Main, 2)]) (ctx_start demo_ctx 0) = Some t \<and> todo t Main = []"
  by (simp add: turns_def eval_nat_numeral step_simps exec_simps ctx_start_def take_read_def take_fill_def wait_done_def goes_on_def csay_def
     ctx_probe_modes_def ctx_mode0_def bh_probe_def online_demo)







lemma run_in_time: "run_events (ctx_step e) es s = Some t \<Longrightarrow> \<forall>(w, x, late)\<in>set es. \<not> late \<Longrightarrow> (in_time e)\<^sup>*\<^sup>* s t"
proof (induction es arbitrary: s)
  case (Cons ev es)
  obtain w x late u where u: "ev = (w, x, late)" "ctx_step e ev s = Some u" "run_events (ctx_step e) es u = Some t"
    using Cons.prems(1) by (cases ev) (auto simp: bind_eq_Some_conv)
  have "in_time e s u" using u Cons.prems(2) by (auto simp: in_time_def)
  moreover have "(in_time e)\<^sup>*\<^sup>* u t" using Cons.IH [OF u(3)] Cons.prems(2) by simp
  ultimately show ?case by (rule converse_rtranclp_into_rtranclp)
qed simp

lemma turns_in_time: "\<forall>(w, x, late)\<in>set (turns False ws). \<not> late"
  by (auto simp: turns_def)

lemma mode0_table_witness: "\<exists>t. (in_time demo_ctx)\<^sup>*\<^sup>* (ctx_start demo_ctx 0) t \<and> todo t Main = [] \<and> nfp t = 8"
  using demo_runs run_in_time [OF _ turns_in_time] mode0_table by meson



text \<open>Two labels are longer than the 39 bytes of \<open>what\<close> and are cut.\<close>

lemma labels_cut: "take 39 (spot_label p) = spot_label p \<longleftrightarrow> p \<notin> {S_enable, S_block}"
  by (cases p) (simp_all add: spot_label_def hard_word_def soft_word_def proc_word_def call_word_def arrow_sign_def utf8_def)

end
