(* ===== verification/Mm_Probe.thy ===== *)
theory Mm_Probe
  imports Mm_Convert
begin

section \<open>mm_probe.c: zones, the buddy lists, SLUB and page flags\<close>

text \<open>
  The module reads the allocator's structures and allocates a little of everything to see what it
  gets. What it reads are fields of \<open>mp_env\<close>; zones and page counts change between two readings, so
  a reading has a number. What it allocates is kept in the multiset of \<open>mc\<close> (\<open>Mm_Convert\<close>).
\<close>

record mzone =
  mz_name :: string
  mz_populated :: bool
  mz_free :: u64 \<comment> \<open>\<open>NR_FREE_PAGES\<close>\<close>
  mz_nr_free :: "u64 list" \<comment> \<open>\<open>free_area[order].nr_free\<close>, \<open>MAX_ORDER\<close> of them\<close>
  mz_lists :: "nat list list" \<comment> \<open>the lengths of \<open>free_area[order].free_list[mt]\<close>, by \<open>mt\<close>, then order\<close>
  mz_watermark :: "u64 list"
  mz_boost :: u64
  mz_marks :: "u64 list" \<comment> \<open>\<open>min_wmark_pages\<close>, \<open>low_\<close>, \<open>high_\<close>\<close>
  mz_reserve :: "u64 list"
  mz_highatomic :: u64
  mz_managed :: u64
  mz_idx :: int

record page_view =
  pv_pfn :: u64
  pv_phys :: u64
  pv_flags :: u64
  pv_zone :: string
  pv_zonenum :: u32
  pv_nid :: int
  pv_ref :: int
  pv_map :: int
  pv_anon :: bool
  pv_lru :: bool
  pv_slab :: bool
  pv_reserved :: bool
  pv_bits :: "bool list" \<comment> \<open>locked, referenced, uptodate, dirty; active; swapbacked, unevictable, writeback, reclaim\<close>
  pv_mapping :: u64

record mp_env =
  gfp_masks :: "(string \<times> u32) list" \<comment> \<open>the names of \<open>tbl\<close> with their values\<close>
  gfp_zone :: "u32 \<Rightarrow> nat"
  GFP_MOVABLE :: u32
  GFP_RECLAIMABLE :: u32
  mt_types :: "string option list" \<comment> \<open>\<open>mt_names\<close>, \<open>MIGRATE_TYPES\<close> of them\<close>
  mt_unmovable :: nat
  mt_movable :: nat
  mt_reclaimable :: nat
  node_id :: int
  zonelist :: "mzone list"
  zones_at :: "nat \<Rightarrow> mzone list"
  MAX_ORDER :: nat
  pageblock_order :: nat
  P_SHIFT :: nat \<comment> \<open>\<open>PAGE_SHIFT\<close>\<close>
  view :: "nat \<Rightarrow> u64 \<Rightarrow> page_view" \<comment> \<open>a page at a reading\<close>
  page_of :: "u64 \<Rightarrow> u64" \<comment> \<open>\<open>virt_to_page\<close>\<close>
  phys_at :: "u64 \<Rightarrow> u64" \<comment> \<open>\<open>virt_to_phys\<close>, \<open>__pa\<close>\<close>
  vpage_of :: "u64 \<Rightarrow> u64" \<comment> \<open>\<open>vmalloc_to_page\<close>\<close>
  linear_map :: "u64 \<times> u64" \<comment> \<open>\<open>PAGE_OFFSET\<close>, \<open>PAGE_END\<close>\<close>
  vmalloc_map :: "u64 \<times> u64"
  first_page :: u64
  got_p8 :: u64
  got_kmalloc :: u64
  got_vmalloc :: u64
  got_cache :: u64
  got_obj1 :: u64
  got_obj2 :: u64
  got_size :: "nat \<Rightarrow> u64" \<comment> \<open>\<open>kmalloc\<close> of the entries of \<open>sizes\<close>\<close>
  got_page :: u64
  got_64 :: u64
  zero_page :: u64
  ksize_of :: "u64 \<Rightarrow> u64"
  page_widths :: "int list"
  NR_FLAGS :: int

subsection \<open>gfp masks and the zone list\<close>

definition my_gfp_mt :: "mp_env \<Rightarrow> u32 \<Rightarrow> nat" where
  "my_gfp_mt e g = (if g AND GFP_MOVABLE e \<noteq> 0 then mt_movable e
     else if g AND GFP_RECLAIMABLE e \<noteq> 0 then mt_reclaimable e else mt_unmovable e)"

definition mt_name :: "mp_env \<Rightarrow> nat \<Rightarrow> string" where
  "mt_name e mt = (if mt < length (mt_types e) then (case mt_types e ! mt of None \<Rightarrow> ''?'' | Some n \<Rightarrow> n) else ''?'')"

definition zone_names :: "string list" where
  "zone_names = [''ZONE_DMA'', ''ZONE_DMA32'', ''ZONE_NORMAL'', ''ZONE_MOVABLE'']"

definition probe_gfp_zone :: "mp_env \<Rightarrow> line list" where
  "probe_gfp_zone e = [(''[1]'', []), (''GFP_ZONE_TABLE gfp_zone()'', []), (''gfp_mask gfp_zone() zone'', [])]
     @ map (\<lambda>(n, g). let z = gfp_zone e g in (''%-28s %-12d %-12s  %s'',
         [S n, I (int z), S (if z < length zone_names then zone_names ! z else ''?''), S (mt_name e (my_gfp_mt e g))]))
       (gfp_masks e)
     @ [(''gfp_zone()'', []), (''ZONE_DMA32'', [])]"

definition probe_zonelist :: "mp_env \<Rightarrow> line list" where
  "probe_zonelist e = [(''[2]'', []), (''node %d ZONELIST_FALLBACK'', [I (node_id e)])]
     @ map (\<lambda>(i, z). (''[%d] zone_idx=%d  %s  managed=%lu  free=%lu'',
         [I (int i), I (mz_idx z), S (mz_name z), U (mz_managed z), U (mz_free z)])) (enumerate 0 (zonelist e))
     @ [(''zone_idx'', []), (''DMA'', [])]"

subsection \<open>The buddy lists\<close>

definition probe_zones :: "mp_env \<Rightarrow> nat \<Rightarrow> mzone list" where
  "probe_zones e k = filter mz_populated (zones_at e k)"

text \<open>The test for an empty row does not look at the migrate type.\<close>

definition row_shown :: "mzone \<Rightarrow> nat \<Rightarrow> bool" where
  "row_shown z mt \<longleftrightarrow> list_ex (\<lambda>n. n \<noteq> 0) (mz_nr_free z) \<or> mt = 0"

definition row_pages :: "nat list \<Rightarrow> u64" where
  "row_pages ns = fold (\<lambda>(i, n) t. t + push_bit i (of_nat n)) (enumerate 0 ns) 0"

definition free_rows :: "mp_env \<Rightarrow> mzone \<Rightarrow> line list \<times> u64" where
  "free_rows e z = fold (\<lambda>(mt, ns) (ls, t).
       if row_shown z mt
       then (ls @ [(''%-12s %6lu'', S (mt_name e mt) # map (\<lambda>n. U (of_nat n)) ns)], t + row_pages ns)
       else (ls, t))
     (enumerate 0 (mz_lists z)) ([], 0)"

definition free_zone :: "mp_env \<Rightarrow> mzone \<Rightarrow> line list" where
  "free_zone e z = (case free_rows e z of (ls, pages) \<Rightarrow>
     [(''zone %s  free=%lu'', [S (mz_name z), U (mz_free z)]), (''order:'', map (\<lambda>i. I (int i)) [0..<MAX_ORDER e])]
     @ ls @ [(''total = %lu'', [U pages])])"

definition dump_free_area :: "mp_env \<Rightarrow> nat \<Rightarrow> string \<Rightarrow> line list" where
  "dump_free_area e k tag = (''---- free_area (%s) ----'', [S tag]) # concat (map (free_zone e) (probe_zones e k))"

definition buddy_lines :: "mp_env \<Rightarrow> page_view \<Rightarrow> line list" where
  "buddy_lines e p =
     [(''---- order-8 (%lu KB) ----'', [U (drop_bit 10 (push_bit (P_SHIFT e + 8) 1))]),
      (''PFN = 0x%lx  PA = 0x%llx  zone=%s'', [U (pv_pfn p), U (pv_phys p), S (pv_zone p)]),
      (''0x%lx %% 256 = %lu %s'', [U (pv_pfn p), U (pv_pfn p mod 256), tick (pv_pfn p mod 256 = 0)]),
      (''PFN = pfn XOR (1<<8) = 0x%lx'', [U (pv_pfn p XOR 256)]), (''/proc/pagetypeinfo'', [])]"

definition probe_buddy :: "mp_env \<Rightarrow> mc \<Rightarrow> mc" where
  "probe_buddy e s =
     (let s1 = note_lines ([(''[3]'', []),
            (''MAX_ORDER=%d %d %lu KB'', [I (int (MAX_ORDER e)), I (int (MAX_ORDER e) - 1), U (drop_bit 10 (push_bit (P_SHIFT e + MAX_ORDER e - 1) 1))]),
            (''pageblock_order=%d %lu %lu MB'', [I (int (pageblock_order e)), U (push_bit (pageblock_order e) 1),
               U (drop_bit 20 (push_bit (P_SHIFT e + pageblock_order e) 1))])] @ dump_free_area e 1 ''before'') s;
          p = got_p8 e in
      if p \<noteq> 0
      then note_lines ((''freed'', []) # dump_free_area e 3 ''freed'')
        (give_up (H_Alloc p) (note_lines (buddy_lines e (view e 0 p) @ dump_free_area e 2 ''after'') (acquire (H_Alloc p) s1)))
      else note_lines [(''no order-8'', [])] s1)"

subsection \<open>Watermarks\<close>

definition watermark_zone :: "mzone \<Rightarrow> line list" where
  "watermark_zone z =
     [(''zone %s  free=%lu'', [S (mz_name z), U (mz_free z)]),
      (''_watermark[MIN] =%lu  +boost=%lu %lu'', [U (mz_watermark z ! 0), U (mz_boost z), U (mz_marks z ! 0)]),
      (''_watermark[LOW] =%lu %lu'', [U (mz_watermark z ! 1), U (mz_marks z ! 1)]),
      (''_watermark[HIGH]=%lu %lu'', [U (mz_watermark z ! 2), U (mz_marks z ! 2)]),
      (''lowmem_reserve[] = %lu %lu %lu %lu'', map (\<lambda>i. U (mz_reserve z ! i)) [0, 1, 2, 3]),
      (''nr_reserved_highatomic = %lu'', [U (mz_highatomic z)]),
      (''o%d=%lu'', concat (map (\<lambda>(i, n). [I (int i), U n]) (enumerate 0 (mz_nr_free z))))]"

definition probe_watermark :: "mp_env \<Rightarrow> line list" where
  "probe_watermark e = (''[4]'', []) # concat (map watermark_zone (probe_zones e 0))
     @ [(''__zone_watermark_ok()'', []), (''(a)'', []), (''(b)'', [])]"

subsection \<open>Physical contiguity\<close>

definition pages_64k :: "mp_env \<Rightarrow> nat" where
  "pages_64k e = 65536 div 2 ^ P_SHIFT e"

text \<open>The loop over the pages: the lines of the first four and the last, and the count.\<close>

fun discont_loop :: "mp_env \<Rightarrow> (nat \<Rightarrow> u64) \<Rightarrow> (nat \<Rightarrow> line) \<Rightarrow> nat list \<Rightarrow> u64 \<Rightarrow> line list \<times> nat" where
  "discont_loop e pa l [] base = ([], 0)"
| "discont_loop e pa l (i # is) base = (case discont_loop e pa l is base of (ls, n) \<Rightarrow>
     ((if i < 4 \<or> i = pages_64k e - 1 then l i # ls else ls),
      (if pa i \<noteq> base + of_nat i * push_bit (P_SHIFT e) 1 then n + 1 else n)))"

definition page_va :: "mp_env \<Rightarrow> u64 \<Rightarrow> nat \<Rightarrow> u64" where
  "page_va e k i = k + of_nat i * push_bit (P_SHIFT e) 1"

definition between :: "u64 \<times> u64 \<Rightarrow> u64 \<Rightarrow> bool" where
  "between r v \<longleftrightarrow> fst r \<le> v \<and> v < snd r"

definition kmalloc_lines :: "mp_env \<Rightarrow> u64 \<Rightarrow> line list" where
  "kmalloc_lines e k =
     (case discont_loop e (\<lambda>i. phys_at e (page_va e k i))
        (\<lambda>i. (''page[%2d] VA=0x%px  PA=0x%llx'', [I (int i), U (page_va e k i), U (phys_at e (page_va e k i))]))
        [0..<pages_64k e] (phys_at e k) of (ls, n) \<Rightarrow>
      [(''kmalloc(%zu)  VA=0x%px'', [U 65536, U k]), (''linear %s'', [tick (between (linear_map e) k)]), (''pages'', [])]
      @ ls @ [(''discontiguous = %d  -> %s'', [I (int n), tick (n = 0)])])"

definition vmalloc_lines :: "mp_env \<Rightarrow> u64 \<Rightarrow> line list" where
  "vmalloc_lines e v =
     (let pg = (\<lambda>i. vpage_of e (page_va e v i)); pa = (\<lambda>i. pv_phys (view e 0 (pg i))) in
      case discont_loop e pa
        (\<lambda>i. (''page[%2d] VA=0x%px  PA=0x%llx  PFN=0x%lx'', [I (int i), U (page_va e v i), U (pa i), U (pv_pfn (view e 0 (pg i)))]))
        [0..<pages_64k e] (pa 0) of (ls, n) \<Rightarrow>
      [(''vmalloc(%zu)  VA=0x%px'', [U 65536, U v]),
       (''vmalloc %s (VMALLOC_START=0x%lx)'', [tick (between (vmalloc_map e) v), U (fst (vmalloc_map e))]),
       (''__pa(v)=0x%llx'', [U (phys_at e v)]), (''vmalloc_to_page()'', [])]
      @ ls @ [(''discontiguous = %d / %zu  -> %s'', [I (int n), U (of_nat (pages_64k e)), tick (n = 0)])])"

definition probe_kmalloc_vmalloc :: "mp_env \<Rightarrow> mc \<Rightarrow> mc" where
  "probe_kmalloc_vmalloc e s =
     (let s1 = note_lines [(''[5]'', [])] s; k = got_kmalloc e; v = got_vmalloc e;
          s2 = if k \<noteq> 0 then give_up (H_Alloc k) (note_lines (kmalloc_lines e k) (acquire (H_Alloc k) s1)) else s1
      in if v \<noteq> 0 then give_up (H_Alloc v) (note_lines (vmalloc_lines e v) (acquire (H_Alloc v) s2)) else s2)"

subsection \<open>SLUB\<close>

definition slub_pair :: "mp_env \<Rightarrow> mc \<Rightarrow> mc" where
  "slub_pair e s =
     (let o1 = got_obj1 e; o2 = got_obj2 e;
          s1 = if o1 \<noteq> 0 then acquire (H_Alloc o1) s else s;
          s2 = if o2 \<noteq> 0 then acquire (H_Alloc o2) s1 else s1;
          p = view e 1 (page_of e o1)
      in if o1 \<noteq> 0 \<and> o2 \<noteq> 0
         then give_up (H_Alloc o2) (give_up (H_Alloc o1) (note_lines
           [(''kmem_cache_create(mm_probe_test, object_size=100)'', []),
            (''obj1 = 0x%px   ksize=%zu'', [U o1, U (ksize_of e o1)]),
            (''obj2 = 0x%px   %ld bytes'', [U o2, I \<bar>sint (o1 - o2)\<bar>]),
            (''slab %s PFN=0x%lx PageSlab=%d'', [tick (page_of e o1 = page_of e o2), U (pv_pfn p), tick (pv_slab p)]),
            (''slab _refcount=%d  LRU=%d'', [I (pv_ref p), tick (pv_lru p)])] s2))
         else s2)"

definition slub_sizes :: "u64 list" where
  "slub_sizes = [8, 16, 24, 32, 65, 100, 192, 200, 1000, 4000, 8000]"

definition slub_size :: "mp_env \<Rightarrow> nat \<times> u64 \<Rightarrow> mc \<Rightarrow> mc" where
  "slub_size e x s = (case x of (i, sz) \<Rightarrow>
     (let m = got_size e i; ks = ksize_of e m in
      if m \<noteq> 0
      then give_up (H_Alloc m) (note_lines [(''kmalloc(%5zu) -> ksize()=%zu %4zu bytes (%2zu%%) PFN=0x%lx'',
             [U sz, U ks, U (ks - sz), U ((ks - sz) * 100 div ks), U (pv_pfn (view e 2 (page_of e m)))])]
           (acquire (H_Alloc m) s))
      else s))"

definition probe_slub :: "mp_env \<Rightarrow> mc \<Rightarrow> mc" where
  "probe_slub e s =
     (let c = got_cache e; s1 = note_lines [(''[6]'', []), (''CONFIG_SLUB'', []), (''colouring'', []), (''OFF_SLAB'', []), (''freelist'', []), (''kmem_cache'', [])] s;
          s2 = if c = 0 then note_lines [(''no cache'', [])] s1
               else give_up (H_Alloc c) (slub_pair e (acquire (H_Alloc c) s1))
      in note_lines [(''96/192'', []), (''lazy'', []), (''allocate_slab()'', [])]
           (fold (slub_size e) (enumerate 0 slub_sizes) (note_lines [(''kmalloc'', [])] s2)))"

subsection \<open>Flags and counts of pages\<close>

definition probe_page_flags :: "mp_env \<Rightarrow> u64 \<Rightarrow> line list" where
  "probe_page_flags e pg = (let p = view e 3 pg; w = page_widths e; b = map (\<lambda>x. tick x) (pv_bits p) in
     [(''[7]'', []), (''BITS_PER_LONG = %d,  NR_PAGEFLAGS = %d'', [I 64, I (NR_FLAGS e)]), (''high'', []),
      (''SECTIONS_WIDTH %d SECTIONS_PGSHIFT %d'', [I (w ! 0), I (w ! 1)]), (''NODES_WIDTH %d NODES_PGSHIFT %d'', [I (w ! 2), I (w ! 3)]),
      (''ZONES_WIDTH %d ZONES_PGSHIFT %d'', [I (w ! 4), I (w ! 5)]), (''LAST_CPUPID_WIDTH %d LAST_CPUPID_PGSHIFT %d'', [I (w ! 6), I (w ! 7)]),
      (''KASAN_TAG_WIDTH %d'', [I (w ! 8)]), (''0..%d PG_*'', [I (NR_FLAGS e - 1)]),
      (''page (PFN 0x%lx) flags = 0x%016lx'', [U (pv_pfn p), U (pv_flags p)]),
      (''zone id  = %u (%d %d bits)'', [U32 (pv_zonenum p), I (w ! 5), I (w ! 4)]), (''node id  = %d'', [I (pv_nid p)]),
      (''PG_locked=%d PG_referenced=%d PG_uptodate=%d PG_dirty=%d'', take 4 b),
      (''PG_lru=%d PG_active=%d PG_slab=%d PG_reserved=%d'', [tick (pv_lru p), b ! 4, tick (pv_slab p), tick (pv_reserved p)]),
      (''PG_swapbacked=%d PG_unevictable=%d PG_writeback=%d PG_reclaim=%d'', drop 5 b)])"

definition counts_line :: "mp_env \<Rightarrow> nat \<Rightarrow> u64 \<Rightarrow> string \<Rightarrow> line" where
  "counts_line e k pg tag = (let p = view e k pg in
     (''%-34s _refcount=%d _mapcount=%d PageAnon=%d PageLRU=%d PageSlab=%d mapping=0x%px'',
      [S tag, I (pv_ref p), I (pv_map p), tick (pv_anon p), tick (pv_lru p), tick (pv_slab p), U (pv_mapping p)]))"

definition refcount_page :: "mp_env \<Rightarrow> mc \<Rightarrow> mc" where
  "refcount_page e s = (let pg = got_page e in
     if pg = 0 then s
     else give_up (H_Alloc pg) (note_lines [counts_line e 6 pg ''put_page()'']
       (give_up (H_Page pg) (note_lines [counts_line e 5 pg ''get_page()'']
         (acquire (H_Page pg) (note_lines [counts_line e 4 pg ''alloc_page()''] (acquire (H_Alloc pg) s)))))))"

definition probe_refcount :: "mp_env \<Rightarrow> mc \<Rightarrow> mc" where
  "probe_refcount e s =
     (let s1 = refcount_page e (note_lines [(''[8]'', []), (''_refcount'', []), (''_mapcount'', []), (''page_mapcount()'', [])] s);
          k = got_64 e; z = zero_page e; p = view e 8 z;
          s2 = if k = 0 then s1
               else give_up (H_Alloc k) (note_lines [counts_line e 7 (page_of e k) ''kmalloc'', (''PageSlab=1'', [])] (acquire (H_Alloc k) s1))
      in note_lines [counts_line e 8 z ''ZERO_PAGE'', (''PageReserved=%d'', [tick (pv_reserved p)]),
           (''ZERO_PAGE PFN = 0x%lx  PA = 0x%llx'', [U (pv_pfn p), U (pv_phys p)])] s2)"

subsection \<open>Fragmentation\<close>

text \<open>The inner loop: what each order and the larger ones would give in blocks of this order.\<close>

definition suitable :: "mzone \<Rightarrow> nat \<Rightarrow> u64" where
  "suitable z order = fold (\<lambda>k t. t + push_bit (k - order) (mz_nr_free z ! k)) [order..<length (mz_nr_free z)] 0"

definition frag_row :: "mzone \<Rightarrow> nat \<Rightarrow> line" where
  "frag_row z order = (let direct = mz_nr_free z ! order; s = suitable z order in
     (''%-6d %-9lu %-30lu %s'', [I (int order), U direct, U s,
        S (if direct \<noteq> 0 then ''yes'' else if s \<noteq> 0 then ''split'' else ''no'')]))"

definition probe_fragmentation :: "mp_env \<Rightarrow> line list" where
  "probe_fragmentation e = [(''[9]'', []), (''fragmentation index'', []), (''split'', [])]
     @ concat (map (\<lambda>z. (''zone %s  free=%lu'', [S (mz_name z), U (mz_free z)]) # (''order  nr_free'', [])
         # map (frag_row z) [0..<length (mz_nr_free z)]) (probe_zones e 4))
     @ [(''fragmented'', []), (''fragmentation_index()'', []), (''extfrag_threshold'', [])]"

definition mm_probe_init :: "mp_env \<Rightarrow> mc \<Rightarrow> int \<times> mc" where
  "mm_probe_init e s =
     (let pg = first_page e in
      if pg = 0 then (- 12, note_lines [(''alloc_page failed'', [])] s)
      else (0, note_lines [(''done'', [])] (give_up (H_Alloc pg) (note_lines (probe_fragmentation e)
        (probe_refcount e (note_lines (probe_page_flags e pg) (probe_slub e (probe_kmalloc_vmalloc e (probe_buddy e
          (note_lines (probe_gfp_zone e @ probe_zonelist e @ probe_watermark e) (acquire (H_Alloc pg) s)))))))))))"

section \<open>Lemmas\<close>

subsection \<open>What is left behind\<close>

text \<open>One object of the test cache is lost when the other one could not be had.\<close>

definition lost_object :: "mp_env \<Rightarrow> held multiset" where
  "lost_object e =
     (if got_cache e = 0 \<or> (got_obj1 e = 0 \<longleftrightarrow> got_obj2 e = 0) then {#}
      else if got_obj1 e \<noteq> 0 then {#H_Alloc (got_obj1 e)#} else {#H_Alloc (got_obj2 e)#})"

lemma held_sizes: "mc_held (fold (slub_size e) xs s) = mc_held s"
  by (induction xs arbitrary: s) (simp_all add: slub_size_def Let_def split: prod.split)

lemma held_probes [simp]:
  "mc_held (probe_buddy e s) = mc_held s" "mc_held (probe_kmalloc_vmalloc e s) = mc_held s"
  "mc_held (probe_refcount e s) = mc_held s" "mc_held (refcount_page e s) = mc_held s"
  by (simp_all add: probe_buddy_def probe_kmalloc_vmalloc_def probe_refcount_def refcount_page_def Let_def)

lemma held_slub_pair:
  "mc_held (slub_pair e s) = mc_held s + (if got_obj1 e = 0 \<longleftrightarrow> got_obj2 e = 0 then {#}
     else if got_obj1 e \<noteq> 0 then {#H_Alloc (got_obj1 e)#} else {#H_Alloc (got_obj2 e)#})"
  by (simp add: slub_pair_def Let_def)

lemma held_slub: "mc_held (probe_slub e s) = mc_held s + lost_object e"
  by (simp add: probe_slub_def Let_def held_sizes held_slub_pair lost_object_def)

text \<open>
  C35: the module gives back everything it allocated, on every path, but one: when just one of the
  two objects of the test cache could be had, that object is never freed.
\<close>

theorem probe_loses_one_object:
  "mc_held (snd (mm_probe_init e s)) = mc_held s + (if first_page e = 0 then {#} else lost_object e)"
  by (simp add: mm_probe_init_def Let_def held_slub)

subsection \<open>Splitting blocks\<close>








subsection \<open>Counting what is not contiguous\<close>

theorem discontiguous_exact:
  "snd (discont_loop e pa l is base) = length (filter (\<lambda>i. pa i \<noteq> base + of_nat i * push_bit (P_SHIFT e) 1) is) \<and>
   fst (discont_loop e pa l is base) = map l (filter (\<lambda>i. i < 4 \<or> i = pages_64k e - 1) is)"
  by (induction "is") (auto split: prod.splits)

text \<open>A row of an empty migrate type is shown as soon as any other type of the zone has a block.\<close>

lemma empty_rows_shown: "row_shown z mt \<Longrightarrow> row_shown z mt' \<or> mt = 0"
  by (auto simp: row_shown_def)


end
