(* ===== verification/Irq_Probe.thy ===== *)
theory Irq_Probe
  imports Insn_Decode Irq_Live
begin

section \<open>irq_probe.c: the vector table and the interrupt descriptors\<close>

text \<open>
  The module only reads: the sixteen vectors with their first instructions, the layout of
  \<open>pt_regs\<close>, the stacks, the fields of \<open>preempt_count\<close>, the softirqs and every interrupt
  descriptor. The kernel's constants, its configuration and its structures are the fields of
  \<open>ip_env\<close>; \<open>%pS\<close> prints the symbol \<open>ksymbol\<close> gives for an address.
\<close>

record irqact =
  ia_name :: "string option"
  ia_handler :: u64
  ia_thread_fn :: u64
  ia_flags :: u32
  ia_threaded :: bool

record irqdom =
  dm_name :: "string option"
  dm_hwirq_max :: u64
  dm_revmap :: u32
  dm_parent :: "string option option"
  dm_ops :: "(u64 \<times> u64 \<times> u64) option" \<comment> \<open>\<open>translate\<close>, \<open>alloc\<close>, \<open>map\<close>\<close>

record irqchip =
  ch_name :: "string option"
  ch_ops :: "u64 list" \<comment> \<open>mask, unmask, eoi, set_type; ack, set_affinity\<close>

record idesc =
  id_irq :: u32
  id_hwirq :: u64
  id_chip :: "irqchip option"
  id_dom :: "irqdom option"
  id_handle :: u64
  id_kstat :: "u64 list option" \<comment> \<open>one counter for each possible CPU\<close>
  id_actions :: "irqact list"
  id_status :: u32
  id_back :: u32 \<comment> \<open>\<open>irq_find_mapping(domain, hwirq)\<close>\<close>

record ip_env =
  vbar :: u64
  mem :: memory
  lookup :: "string \<Rightarrow> u64"
  ksymbol :: "u64 \<Rightarrow> string"
  pt_offsets :: "(string \<times> u64 list) list" \<comment> \<open>the fields of \<open>pt_regs\<close> in the order printed\<close>
  irq_stack_size :: u64
  vmap_stack :: bool
  softirq_pending :: u32
  pending_of :: "u32 list" \<comment> \<open>for each online CPU\<close>
  here :: cpu_sample
  thread_bytes :: u64
  preempt_fields :: "(string \<times> int \<times> int \<times> u64) list"
  preempt_offsets :: "u64 list"
  preempt_config :: "bool list"
  preempt_disable_offset :: int
  softirq_stack :: bool
  sparse :: bool
  nr_irqs :: nat
  NR_IRQS :: int
  idesc_of :: "nat \<Rightarrow> idesc option"
  SHARED :: u32
  ONESHOT :: u32
  release :: string
  online_cpus :: int

definition yn :: "bool \<Rightarrow> val" where
  "yn b = S (if b then ''y'' else ''n'')"

subsection \<open>The vectors\<close>

definition vec_name :: "string list" where
  "vec_name = [''EL1t sync'', ''EL1t IRQ'', ''EL1t FIQ'', ''EL1t error'', ''EL1h sync'', ''EL1h IRQ'', ''EL1h FIQ'', ''EL1h error'',
     ''EL0 64 sync'', ''EL0 64 IRQ'', ''EL0 64 FIQ'', ''EL0 64 error'', ''EL0 32 sync'', ''EL0 32 IRQ'', ''EL0 32 FIQ'', ''EL0 32 error'']"

definition sub_imm :: "u32 \<Rightarrow> u32" where
  "sub_imm insn = drop_bit 10 insn AND 0xFFF"

definition b_target :: "u64 \<Rightarrow> u32 \<Rightarrow> u64" where
  "b_target ent insn = ent + word_of_int (sext6 4 insn)"

text \<open>The note: what it says of a \<open>sub sp, sp\<close>, of a branch, or nothing.\<close>

datatype vec_note = Sub_sp u32 | Branch u64 | No_note

definition vector_note :: "u64 \<Rightarrow> u32 \<Rightarrow> vec_note" where
  "vector_note ent insn =
     (if insn AND 0xFFC003FF = 0xD10003FF then Sub_sp (sub_imm insn)
      else if insn AND 0xFC000000 = 0x14000000 then Branch (b_target ent insn) else No_note)"

text \<open>\<open>scnprintf\<close> into 80 bytes.\<close>

definition note_text :: "ip_env \<Rightarrow> vec_note \<Rightarrow> string" where
  "note_text e n = take 79 (case n of
       Sub_sp k \<Rightarrow> ''sub sp, sp, #'' @ show_int (uint k) @ ''  PT_REGS_SIZE = '' @ show_int (uint k)
     | Branch a \<Rightarrow> ''b  '' @ ksymbol e a
     | No_note \<Rightarrow> [])"

definition vector_line :: "ip_env \<Rightarrow> nat \<Rightarrow> line" where
  "vector_line e i = (let ent = vbar e + of_nat i * 0x80; insn = load32 (mem e) ent in
     (''%-3d %-14s +0x%03x = %pS  0x%08x  %s'',
      [I (int i), S (vec_name ! i), U (of_nat i * 0x80), S (ksymbol e ent), U32 insn, S (note_text e (vector_note ent insn))]))"

definition dump_vectors :: "ip_env \<Rightarrow> line list" where
  "dump_vectors e = (let sv = lookup e ''vectors''; sb = lookup e ''__bp_harden_el1_vectors'' in
     [(''VBAR_EL1 = 0x%016lx  (%pS)'', [U (vbar e), S (ksymbol e (vbar e))]), (''vectors = 0x%016lx'', [U sv]),
      (''__bp_harden_el1_vectors = 0x%016lx'', [U sb])]
     @ (if sv \<noteq> 0 \<and> vbar e \<noteq> sv then [(''VBAR_EL1 - vectors = 0x%lx'', [U (vbar e - sv)])] else [])
     @ (if sb \<noteq> 0 \<and> vbar e = sb then [(''spectre_bhb'', [])] else [])
     @ [(''128 B'', []), (''#'', [])] @ map (vector_line e) [0..<16]
     @ [(''16'', []), (''0x000'', []), (''0x200'', []), (''0x400'', []), (''+0x280'', [])])"

subsection \<open>Layouts, stacks, counts\<close>

definition dump_ptregs_layout :: "ip_env \<Rightarrow> line list" where
  "dump_ptregs_layout e = (''pt_regs'', []) # map (\<lambda>(n, os). (n, map U os)) (pt_offsets e)
     @ [(''orig_addr_limit'', []), (''sdei_ttbr1'', []), (''S_LR'', []), (''asm-offsets.c'', [])]"

definition dump_stacks :: "ip_env \<Rightarrow> line list" where
  "dump_stacks e = (let x = here e; lo = x_stack x; hi = lo + thread_bytes e in
     [(''THREAD_SIZE = %lu (%lu KB)'', [U (thread_bytes e), U (drop_bit 10 (thread_bytes e))]),
      (''IRQ_STACK_SIZE = %lu (%lu KB)'', [U (irq_stack_size e), U (drop_bit 10 (irq_stack_size e))]),
      (''VMAP_STACK = %s'', [yn (vmap_stack e)]), (''current = %s/%d'', [S (x_comm x), I (x_pid x)]),
      (''current->stack = 0x%016lx .. 0x%016lx'', [U lo, U hi]),
      (''current_stack_pointer = 0x%016lx %s'', [U (x_sp x), I (of_bool (lo \<le> x_sp x \<and> x_sp x < hi))]),
      (''kernel_ventry'', []), (''call_on_irq_stack'', [])])"

definition dump_preempt_count :: "ip_env \<Rightarrow> line list" where
  "dump_preempt_count e = (let x = here e in
     (''bits shift mask'', []) # map (\<lambda>(n, b, sh, m). (''%-16s %-8d %-8d 0x%08lx'', [S n, I b, I sh, U m])) (preempt_fields e)
     @ [(''HARDIRQ_OFFSET = 0x%lx SOFTIRQ_OFFSET = 0x%lx SOFTIRQ_DISABLE_OFFSET = 0x%lx'', map U (preempt_offsets e)),
        (''CONFIG_PREEMPT_COUNT = %s CONFIG_PREEMPT_VOLUNTARY = %s'', map yn (preempt_config e)),
        (''PREEMPT_DISABLE_OFFSET = %d'', [I (preempt_disable_offset e)]),
        (''preempt_count() = 0x%08lx'', [U32 (x_pc x)]),
        (''in_hardirq()=%d  in_softirq()=%d  in_serving_softirq()=%d  in_interrupt()=%d  in_task()=%d'', map (\<lambda>b. I (of_bool b)) (x_in x)),
        (''irqs_disabled()=%d   DAIF=0x%08llx'', [I (of_bool (x_off x)), U (x_daif x)])])"

definition sirq_name :: "string list" where
  "sirq_name = [''HI'', ''TIMER'', ''NET_TX'', ''NET_RX'', ''BLOCK'', ''IRQ_POLL'', ''TASKLET'', ''SCHED'', ''HRTIMER'', ''RCU'']"

definition dump_softirq :: "ip_env \<Rightarrow> line list" where
  "dump_softirq e = (''NR_SOFTIRQS = %d'', [I 10])
     # map (\<lambda>(i, n). (''[%d] %s_SOFTIRQ'', [I (int i), S n])) (enumerate 0 sirq_name)
     @ [(''MAX_SOFTIRQ_TIME'', []), (''ksoftirqd'', []), (''local_softirq_pending() = 0x%08x'', [U32 (softirq_pending e)])]
     @ map (\<lambda>(c, p). (''cpu%d: 0x%08x'', [I (int c), U32 p])) (enumerate 0 (pending_of e))
     @ [(''CONFIG_SOFTIRQ_ON_OWN_STACK = %s'', [yn (softirq_stack e)])]"

subsection \<open>The descriptors\<close>

definition domain_name_of :: "idesc \<Rightarrow> string" where
  "domain_name_of d = (case id_dom d of None \<Rightarrow> ''(none)'' | Some m \<Rightarrow> (case dm_name m of None \<Rightarrow> ''(unnamed)'' | Some n \<Rightarrow> n))"

definition irq_total :: "idesc \<Rightarrow> u64" where
  "irq_total d = (case id_kstat d of None \<Rightarrow> 0 | Some ks \<Rightarrow> fold (\<lambda>k t. t + k) ks 0)"

definition action_line :: "ip_env \<Rightarrow> irqact \<Rightarrow> line" where
  "action_line e a = (''action %s  handler=%pS  thread_fn=%pS  flags=0x%08x%s%s%s'',
     [or_dash (ia_name a), S (ksymbol e (ia_handler a)), S (ksymbol e (ia_thread_fn a)), U32 (ia_flags a),
      S (if ia_flags a AND SHARED e \<noteq> 0 then '' SHARED'' else []), S (if ia_flags a AND ONESHOT e \<noteq> 0 then '' ONESHOT'' else []),
      S (if ia_threaded a then '' [threaded]'' else [])])"

definition domain_lines :: "ip_env \<Rightarrow> irqdom \<Rightarrow> line list" where
  "domain_lines e m = (let ops = (case dm_ops m of None \<Rightarrow> (0, 0, 0) | Some t \<Rightarrow> t) in
     [(''domain: name=%s  hwirq_max=%lu  revmap_size=%u  parent=%s'',
        [or_dash (dm_name m), U (dm_hwirq_max m), U32 (dm_revmap m),
         S (case dm_parent m of None \<Rightarrow> ''(none)'' | Some None \<Rightarrow> ''(unnamed)'' | Some (Some n) \<Rightarrow> n)]),
      (''domain->ops: translate=%pS alloc=%pS map=%pS'',
        [S (ksymbol e (fst ops)), S (ksymbol e (fst (snd ops))), S (ksymbol e (snd (snd ops)))])])"

definition verbose_lines :: "ip_env \<Rightarrow> nat \<Rightarrow> idesc \<Rightarrow> line list" where
  "verbose_lines e irq d =
     [(''irq_data.irq=%u  irq_data.hwirq=%lu  state=0x%08x'', [U32 (id_irq d), U (id_hwirq d), U32 (id_status d)])]
     @ (case id_dom d of None \<Rightarrow> [] | Some m \<Rightarrow> domain_lines e m)
     @ (case id_chip d of None \<Rightarrow> [] | Some c \<Rightarrow>
         [(''chip ops: irq_mask=%pS irq_unmask=%pS irq_eoi=%pS irq_set_type=%pS'', map (S \<circ> ksymbol e) (take 4 (ch_ops c))),
          (''chip ops: irq_ack=%pS irq_set_affinity=%pS'', map (S \<circ> ksymbol e) (drop 4 (ch_ops c)))])
     @ (case id_dom d of None \<Rightarrow> [] | Some m \<Rightarrow>
         [(''irq_find_mapping(domain, hwirq=%lu) = %u  %s'', [U (id_hwirq d), U32 (id_back d), I (of_bool (id_back d = of_nat irq))])])"

definition dump_one_irq :: "ip_env \<Rightarrow> nat \<Rightarrow> idesc \<Rightarrow> bool \<Rightarrow> line list" where
  "dump_one_irq e irq d verbose =
     [(''irq %-4u  hwirq %-10lu  chip=%-14s domain=%-18s handle_irq=%pS  count=%lu'',
        [I (int irq), U (id_hwirq d), or_dash (case id_chip d of None \<Rightarrow> None | Some c \<Rightarrow> ch_name c), S (domain_name_of d),
         S (ksymbol e (id_handle d)), U (irq_total d)])]
     @ map (action_line e) (id_actions d) @ (if verbose then verbose_lines e irq d else [])"

text \<open>The loop over all interrupts, with the count of those that have an action.\<close>

definition irq_map_turn :: "ip_env \<Rightarrow> nat \<Rightarrow> line list \<times> int \<Rightarrow> line list \<times> int" where
  "irq_map_turn e irq s = (case idesc_of e irq of
       None \<Rightarrow> s
     | Some d \<Rightarrow> if id_actions d = [] then s else (fst s @ dump_one_irq e irq d False, snd s + 1))"

definition dump_irq_map :: "ip_env \<Rightarrow> int \<Rightarrow> int \<Rightarrow> line list" where
  "dump_irq_map e show_irqs one_irq =
     [(''CONFIG_SPARSE_IRQ = %s'', [yn (sparse e)]), (''nr_irqs = %d   NR_IRQS = %d'', [I (int (nr_irqs e)), I (NR_IRQS e)])]
     @ (if 0 \<le> one_irq
        then (case idesc_of e (nat one_irq) of
               Some d \<Rightarrow> dump_one_irq e (nat one_irq) d True
             | None \<Rightarrow> [(''irq %d no irq_desc'', [I one_irq])])
        else if show_irqs = 0 then []
        else (case fold (irq_map_turn e) [0..<nr_irqs e] ([], 0) of
               (ls, n) \<Rightarrow> ls @ [(''%d IRQs'', [I n]), (''GICv3'', []), (''ITS-MSI'', []), (''rockchip_gpio_irq'', [])]))"

definition irq_probe_init :: "ip_env \<Rightarrow> int \<Rightarrow> u64 \<Rightarrow> int \<Rightarrow> int \<Rightarrow> int \<times> line list" where
  "irq_probe_init e reg addr show_irqs one_irq =
     (let r = exp_ksym_init reg addr in
      if r \<noteq> 0 then (r, [(''irq_probe: kallsyms_lookup_name: %d'', [I r])])
      else if lookup e ''irq_to_desc'' = 0 then (- 2, [(''irq_probe: irq_to_desc'', [])])
      else (- 11, [(''irq_probe.ko kernel %s  nr_cpus=%d'', [S (release e), I (online_cpus e)])]
        @ dump_vectors e @ dump_ptregs_layout e @ dump_stacks e @ dump_preempt_count e @ dump_softirq e
        @ dump_irq_map e show_irqs one_irq @ [(''-EAGAIN'', [])]))"

section \<open>Lemmas\<close>

text \<open>\<open>SUB SP, SP, #imm12\<close> and \<open>B\<close>, from the architecture's fields.\<close>

definition enc_sub_sp :: "12 word \<Rightarrow> u32" where
  "enc_sub_sp imm12 = 0xD10003FF OR push_bit 10 (ucast imm12)"

definition enc_b :: "26 word \<Rightarrow> u32" where
  "enc_b imm26 = 0x14000000 OR ucast imm26"

lemma sub_sp_fields:
  "enc_sub_sp imm AND 0xFFC003FF = 0xD10003FF" "sub_imm (enc_sub_sp imm) = ucast imm"
  unfolding enc_sub_sp_def sub_imm_def by (simp_all add: bitwise)

lemma sub_sp_only: "insn AND 0xFFC003FF = 0xD10003FF \<Longrightarrow> insn = enc_sub_sp (ucast (sub_imm insn))"
  unfolding enc_sub_sp_def sub_imm_def by (simp add: bitwise)

lemma b_fields:
  "enc_b imm AND 0xFC000000 = 0x14000000" "enc_b imm AND 0xFFC003FF \<noteq> 0xD10003FF"
  "signed_drop_bit 4 (push_bit 6 (enc_b imm)) = push_bit 2 (scast imm)"
  unfolding enc_b_def by (simp_all add: bitwise)

lemma b_only: "insn AND 0xFC000000 = 0x14000000 \<Longrightarrow> insn = enc_b (ucast insn)"
  unfolding enc_b_def by (simp add: bitwise)

lemma sext_b: "sext6 4 (enc_b imm) = 4 * sint imm"
proof -
  have b: "- (2 ^ 25) \<le> sint imm" "sint imm < 2 ^ 25" using sint_bounds [of imm] by simp_all
  have "(push_bit 2 (scast imm) :: u32) = word_of_int (4 * sint imm)" by (simp add: push_bit_eq_mult)
  moreover have "sint (word_of_int (4 * sint imm) :: u32) = 4 * sint imm"
  proof -
    have "fits_int (4 * sint imm)" using b by (simp add: fits_int_def)
    then show ?thesis using to_int_fits unfolding to_int_def by blast
  qed
  ultimately show ?thesis by (simp add: sext6_def b_fields)
qed

text \<open>
  a vector's first instruction is noted as \<open>sub sp, sp, #k\<close> exactly when it is the encoding of
  that instruction with that immediate, and as a branch exactly when it is the encoding of a \<open>B\<close>,
  with the address the architecture branches to.
\<close>

theorem vector_notes_exact:
  "(vector_note ent insn = Sub_sp k \<longleftrightarrow> (\<exists>imm. insn = enc_sub_sp imm \<and> k = ucast imm)) \<and>
   (vector_note ent insn = Branch a \<longleftrightarrow> (\<exists>imm. insn = enc_b imm \<and> a = ent + word_of_int (4 * sint imm)))"
proof (intro conjI iffI)
  assume "vector_note ent insn = Sub_sp k"
  then have "insn AND 0xFFC003FF = 0xD10003FF" "k = sub_imm insn" by (auto simp: vector_note_def split: if_splits)
  then show "\<exists>imm. insn = enc_sub_sp imm \<and> k = ucast imm" using sub_sp_only sub_sp_fields(2) by metis
next
  assume "vector_note ent insn = Branch a"
  then have "insn AND 0xFC000000 = 0x14000000" "a = b_target ent insn" by (auto simp: vector_note_def split: if_splits)
  then show "\<exists>imm. insn = enc_b imm \<and> a = ent + word_of_int (4 * sint imm)" using b_only sext_b unfolding b_target_def by metis
next
  assume "\<exists>imm. insn = enc_sub_sp imm \<and> k = ucast imm"
  then show "vector_note ent insn = Sub_sp k" using sub_sp_fields by (auto simp: vector_note_def)
next
  assume "\<exists>imm. insn = enc_b imm \<and> a = ent + word_of_int (4 * sint imm)"
  then show "vector_note ent insn = Branch a" using b_fields by (auto simp: vector_note_def b_target_def sext_b)
qed

text \<open>\<open>sync_probe.c\<close> decodes the same branches, with the same offset.\<close>

lemma same_branch: "vector_note ent insn = Branch a \<Longrightarrow> is_b insn \<and> a = ent + word_of_int (sext6 4 insn)"
  by (auto simp: vector_note_def is_b_def b_target_def split: if_splits)

definition with_action :: "ip_env \<Rightarrow> nat \<Rightarrow> bool" where
  "with_action e i \<longleftrightarrow> (\<exists>d. idesc_of e i = Some d \<and> id_actions d \<noteq> [])"

theorem irq_map_exact:
  "fold (irq_map_turn e) is ([], 0) =
     (concat (map (\<lambda>i. dump_one_irq e i (the (idesc_of e i)) False) (filter (with_action e) is)),
      int (length (filter (with_action e) is)))"
proof -
  have "fold (irq_map_turn e) is (ls, n) =
     (ls @ concat (map (\<lambda>i. dump_one_irq e i (the (idesc_of e i)) False) (filter (with_action e) is)),
      n + int (length (filter (with_action e) is)))" for ls n
    by (induction "is" arbitrary: ls n) (auto simp: irq_map_turn_def with_action_def split: option.split)
  then show ?thesis by simp
qed

end
