(* ===== verification/Slub_Lab.thy ===== *)
theory Slub_Lab
  imports Prelude
begin

section \<open>slub_lab.c: five ways to misuse a slab cache\<close>

text \<open>
  The module calls the allocator in the wrong way, once for every bit of its parameter. What it
  does is the list of its calls; the addresses the allocator returns are a parameter. Beside it
  stands a judge of such lists, written from what the calls demand: write only inside a live
  object, free only live objects, leave none behind.
\<close>

datatype slub_call =
    S_create int u32 \<comment> \<open>object size and flags\<close>
  | S_alloc u64
  | S_free u64
  | S_memset u64 int
  | S_store u64 u64
  | S_destroy
  | S_print line

record slub_args =
  sl_mode :: u32
  objsize :: int
  overflow :: int
  nodebug :: bool
  debug_flags :: u32 \<comment> \<open>\<open>SLAB_RED_ZONE | SLAB_POISON | SLAB_STORE_USER | SLAB_CONSISTENCY_CHECKS\<close>\<close>
  cache_made :: bool
  cache_size :: int \<comment> \<open>\<open>kmem_cache_size\<close>\<close>
  got :: "nat \<Rightarrow> u64" \<comment> \<open>the results of \<open>kmem_cache_alloc\<close>, by number of the call in the source\<close>

definition banner :: "string \<Rightarrow> slub_call" where
  "banner what = S_print (''############ slub_lab: %s ############'', [S what])"

definition out_of_bounds :: "slub_args \<Rightarrow> slub_call list" where
  "out_of_bounds a = [banner ''(1)'', S_print (''%d B %d B'', [I (objsize a), I (objsize a + overflow a)]),
     S_alloc (got a 0), S_memset (got a 0) (objsize a + overflow a), S_free (got a 0)]"

definition use_after_free :: "slub_args \<Rightarrow> slub_call list" where
  "use_after_free a = [banner ''(2)'', S_alloc (got a 1), S_free (got a 1), S_memset (got a 1) (objsize a),
     S_alloc (got a 2), S_free (got a 2)]"

definition double_free :: "slub_args \<Rightarrow> slub_call list" where
  "double_free a = [banner ''(3)'', S_alloc (got a 3), S_free (got a 3), S_free (got a 3)]"

definition freepointer :: "slub_args \<Rightarrow> slub_call list" where
  "freepointer a = [banner ''(4)'', S_alloc (got a 4), S_free (got a 4), S_store (got a 4) 0x4141414141414141, S_alloc (got a 5)]
     @ (if got a 5 \<noteq> 0 then [S_free (got a 5)] else [])"

definition leak :: "slub_args \<Rightarrow> slub_call list" where
  "leak a = [banner ''(5)'', S_alloc (got a 6), S_print (''leaked @ %px'', [U (got a 6)])]"

definition slub_lab_init :: "slub_args \<Rightarrow> int \<times> slub_call list" where
  "slub_lab_init a =
     (let flags = if nodebug a then 0 else debug_flags a; made = S_create (objsize a) flags in
      if \<not> cache_made a then (- 12, [made])
      else (0, [made, S_print (''object_size=%u size=%u flags=%#x %s'', [I (cache_size a), I (objsize a), U32 flags,
                 S (if nodebug a then ''nodebug'' else ''FPUZ'')])]
        @ (if sl_mode a AND 1 \<noteq> 0 then out_of_bounds a else [])
        @ (if sl_mode a AND 2 \<noteq> 0 then use_after_free a else [])
        @ (if sl_mode a AND 4 \<noteq> 0 then double_free a else [])
        @ (if sl_mode a AND 8 \<noteq> 0 then freepointer a else [])
        @ (if sl_mode a AND 16 \<noteq> 0 then leak a else [])
        @ [S_print (''init'', [])]))"

definition slub_lab_exit :: "bool \<Rightarrow> slub_call list" where
  "slub_lab_exit cache = (if cache then [S_destroy] else []) @ [S_print (''exit'', [])]"

subsection \<open>The judge\<close>

datatype misuse = Outside u64 | Dead_write u64 | Dead_free u64 | Left u64

text \<open>The objects of the cache have \<open>n\<close> bytes; \<open>live\<close> are those handed out.\<close>

fun judge :: "int \<Rightarrow> u64 list \<Rightarrow> slub_call list \<Rightarrow> misuse list" where
  "judge n live [] = []"
| "judge n live (S_create k f # cs) = judge k [] cs"
| "judge n live (S_alloc p # cs) = judge n (if p = 0 then live else p # live) cs"
| "judge n live (S_free p # cs) = (if p \<in> set live then judge n (remove1 p live) cs else Dead_free p # judge n live cs)"
| "judge n live (S_memset p k # cs) =
     (if p \<notin> set live then [Dead_write p] else if n < k then [Outside p] else []) @ judge n live cs"
| "judge n live (S_store p v # cs) =
     (if p \<notin> set live then [Dead_write p] else if n < 8 then [Outside p] else []) @ judge n live cs"
| "judge n live (S_destroy # cs) = map Left live @ judge n [] cs"
| "judge n live (S_print l # cs) = judge n live cs"

lemmas slub_parts = banner_def out_of_bounds_def use_after_free_def double_free_def freepointer_def leak_def

lemma judge_parts:
  assumes "\<And>i. got a i \<noteq> 0"
  shows "judge (objsize a) [] (out_of_bounds a @ cs) = (if 0 < overflow a then [Outside (got a 0)] else []) @ judge (objsize a) [] cs"
    and "judge (objsize a) [] (use_after_free a @ cs) = Dead_write (got a 1) # judge (objsize a) [] cs"
    and "judge (objsize a) [] (double_free a @ cs) = Dead_free (got a 3) # judge (objsize a) [] cs"
    and "judge (objsize a) [] (freepointer a @ cs) = Dead_write (got a 4) # judge (objsize a) [] cs"
    and "judge (objsize a) [] (leak a @ cs) = judge (objsize a) [got a 6] cs"
  using assms by (simp_all add: slub_parts)

text \<open>
  loading and unloading provokes exactly the misuses of the bits of \<open>mode\<close>, each once and in
  the order of the bits: a write outside a live object, writes to dead ones, a second free, and an
  object left in the cache when it is destroyed. The hypothesis: the allocator returns objects.
\<close>

theorem misuses_exact:
  assumes "\<And>i. got a i \<noteq> 0" and "cache_made a"
  shows "judge 0 [] (snd (slub_lab_init a) @ slub_lab_exit True) =
    (if sl_mode a AND 1 \<noteq> 0 \<and> 0 < overflow a then [Outside (got a 0)] else [])
    @ (if sl_mode a AND 2 \<noteq> 0 then [Dead_write (got a 1)] else [])
    @ (if sl_mode a AND 4 \<noteq> 0 then [Dead_free (got a 3)] else [])
    @ (if sl_mode a AND 8 \<noteq> 0 then [Dead_write (got a 4)] else [])
    @ (if sl_mode a AND 16 \<noteq> 0 then [Left (got a 6)] else [])"
  using assms(2) by (simp add: slub_lab_init_def Let_def slub_lab_exit_def judge_parts [OF assms(1)])

definition all_wrong :: slub_args where
  "all_wrong = \<lparr>sl_mode = 31, objsize = 32, overflow = 8, nodebug = False, debug_flags = 0xd00, cache_made = True, cache_size = 32,
     got = (\<lambda>i. 0x1000)\<rparr>"

lemma misuses_exact_witness:
  "judge 0 [] (snd (slub_lab_init all_wrong) @ slub_lab_exit True) =
     [Outside 0x1000, Dead_write 0x1000, Dead_free 0x1000, Dead_write 0x1000, Left 0x1000]"
  using misuses_exact [of all_wrong] by (simp add: all_wrong_def)

end
