(* ===== verification/Arm64_Lab.thy ===== *)
theory Arm64_Lab
  imports Runs
begin

section \<open>arm64_lab.c: a reader and a writer stuck behind a holder\<close>

text \<open>
  Three threads meet at one reader-writer semaphore: \<open>lab_holder\<close> takes it for writing and keeps
  it until it is told to let go, \<open>lab_main\<close> wants to read (three calls deep) and \<open>lab_writer\<close> to
  write. The module's own thread starts them one after the other and, unloading, stops them in
  another order. With a single reader the semaphore excludes any two of them. An event is one move
  of a thread or of the module; the frame addresses and process numbers printed are a parameter.
\<close>

datatype lthread = L_holder | L_main | L_writer

datatype tplace = T_off | T_want | T_has | T_wait | T_end

datatype mplace =
    Start_holder | Start_main | Start_writer | Loaded | Released | Stop_main | Stop_writer | Stop_holder | Unloaded

record lab =
  place :: "lthread \<Rightarrow> tplace"
  release_now :: bool
  should_stop :: "lthread \<Rightarrow> bool"
  module_at :: mplace
  lablog :: "line list"

definition stuck_start :: lab where
  "stuck_start = \<lparr>place = (\<lambda>t. T_off), release_now = False, should_stop = (\<lambda>t. False), module_at = Start_holder, lablog = []\<rparr>"

definition lab_go :: "lthread \<Rightarrow> tplace \<Rightarrow> line list \<Rightarrow> lab \<Rightarrow> lab" where
  "lab_go t p ls s = s\<lparr>place := (place s)(t := p), lablog := lablog s @ ls\<rparr>"

definition lab_free :: "lthread \<Rightarrow> lab \<Rightarrow> bool" where
  "lab_free t s \<longleftrightarrow> list_all (\<lambda>u. u = t \<or> place s u \<noteq> T_has) [L_holder, L_main, L_writer]"

text \<open>What the machine shows when the threads print their frames and process numbers.\<close>

record lab_frames =
  lf_pid :: "lthread \<Rightarrow> int"
  lf_fp :: "u64 list" \<comment> \<open>\<open>x29\<close> of \<open>lab_main\<close>, \<open>lab_func1\<close>, \<open>lab_func2\<close>\<close>
  lf_sp :: "u64 list"
  lf_local :: "u64 list" \<comment> \<open>\<open>&priv\<close>, \<open>&local1\<close>, \<open>&local2\<close>\<close>
  lf_sem :: u64
  lf_task :: "u64 \<times> u64"
  lf_magic :: u64
  lf_offsets :: "u64 \<times> u64" \<comment> \<open>\<open>sizeof(struct rw_semaphore)\<close>, \<open>offsetof(mm_struct, mmap_lock)\<close>\<close>

text \<open>\<open>down_write\<close> and \<open>down_read\<close>, then what each does with the lock, then the wait for the stop.\<close>

definition taken_line :: "lab_frames \<Rightarrow> lthread \<Rightarrow> line list" where
  "taken_line f t = (case t of
       L_holder \<Rightarrow> [(''[holder] pid=%d has the writer lock'', [I (lf_pid f t)])]
     | L_main \<Rightarrow> [(''lab_func2 awake local2=0x%lx priv->name=%s'', [U 0xdeadbeefcafe0001, S ''benshushu''])]
     | L_writer \<Rightarrow> [(''[writer] pid=%d has the writer lock'', [I (lf_pid f t)])])"

definition released_line :: "lab_frames \<Rightarrow> lthread \<Rightarrow> line list" where
  "released_line f t = (if t = L_holder then [(''[holder] pid=%d let go'', [I (lf_pid f t)])] else [])"

definition lab_thread :: "lab_frames \<Rightarrow> lthread \<Rightarrow> lab \<Rightarrow> lab option" where
  "lab_thread f t s = (case place s t of
       T_want \<Rightarrow> if lab_free t s then Some (lab_go t T_has (taken_line f t) s) else None
     | T_has \<Rightarrow> if t = L_holder \<and> \<not> should_stop s t \<and> \<not> release_now s then None else Some (lab_go t T_wait (released_line f t) s)
     | T_wait \<Rightarrow> if should_stop s t then Some (lab_go t T_end [] s) else None
     | _ \<Rightarrow> None)"

text \<open>The lines a thread prints before it asks for the lock.\<close>

definition main_lines :: "lab_frames \<Rightarrow> line list" where
  "main_lines f =
     [(''lab_main : x29=%lx sp=%lx  &priv=%px'', [U (lf_fp f ! 0), U (lf_sp f ! 0), U (lf_local f ! 0)]),
      (''lab_main : pid=%d task=%px stack=%px'', [I (lf_pid f L_main), U (fst (lf_task f)), U (snd (lf_task f))]),
      (''lab_func1: x29=%lx sp=%lx  &local1=%px(local1=0x%lx)'', [U (lf_fp f ! 1), U (lf_sp f ! 1), U (lf_local f ! 1), U 0x1122334455667788]),
      (''lab_func2: x29=%lx sp=%lx  &local2=%px(local2=0x%lx)'', [U (lf_fp f ! 2), U (lf_sp f ! 2), U (lf_local f ! 2), U 0xdeadbeefcafe0001]),
      (''lab_func2: priv=%px sem=%px magic=0x%lx a8=0x%lx'', [U (lf_local f ! 0), U (lf_sem f), U (lf_magic f), U 0x8888]),
      (''down_read(%px)'', [U (lf_sem f)])]"

definition start_lines :: "lab_frames \<Rightarrow> lthread \<Rightarrow> line list" where
  "start_lines f t = (case t of
       L_holder \<Rightarrow> [(''[holder] pid=%d down_write(&lab_sem)'', [I (lf_pid f t)])]
     | L_main \<Rightarrow> main_lines f
     | L_writer \<Rightarrow> [(''[writer] pid=%d down_write(&lab_sem)'', [I (lf_pid f t)])])"

definition kthread_run :: "lab_frames \<Rightarrow> lthread \<Rightarrow> mplace \<Rightarrow> lab \<Rightarrow> lab" where
  "kthread_run f t m s = (lab_go t T_want (start_lines f t) s)\<lparr>module_at := m\<rparr>"

definition kthread_stop :: "lthread \<Rightarrow> mplace \<Rightarrow> lab \<Rightarrow> lab" where
  "kthread_stop t m s = s\<lparr>should_stop := (should_stop s)(t := True), module_at := m\<rparr>"

definition lab_init :: "lab_frames \<Rightarrow> lab \<Rightarrow> lab option" where
  "lab_init f s = (case module_at s of
       Start_holder \<Rightarrow> Some (kthread_run f L_holder Start_main (s\<lparr>lablog := lablog s @
         [(''ARM64'', []), (''&lab_sem = %px sizeof(struct rw_semaphore)=%zu'', [U (lf_sem f), U (fst (lf_offsets f))]),
          (''offsetof(mm_struct, mmap_lock) = 0x%lx'', [U (snd (lf_offsets f))])]\<rparr>))
     | Start_main \<Rightarrow> Some (kthread_run f L_main Start_writer s)
     | Start_writer \<Rightarrow> Some ((kthread_run f L_writer Loaded s)\<lparr>lablog := lablog s @ start_lines f L_writer @
         [(''holder=%d main=%d writer=%d'', map (\<lambda>t. I (lf_pid f t)) [L_holder, L_main, L_writer]),
          (''lab_main x29=%lx / lab_func1 x29=%lx / lab_func2 x29=%lx'', map U (lf_fp f))]\<rparr>)
     | _ \<Rightarrow> None)"

text \<open>Unloading: a thread is stopped once the one stopped before has returned.\<close>

definition lab_exit :: "lab \<Rightarrow> lab option" where
  "lab_exit s = (case module_at s of
       Loaded \<Rightarrow> Some (s\<lparr>release_now := True, module_at := Released\<rparr>)
     | Released \<Rightarrow> Some (kthread_stop L_main Stop_main s)
     | Stop_main \<Rightarrow> if place s L_main = T_end then Some (kthread_stop L_writer Stop_writer s) else None
     | Stop_writer \<Rightarrow> if place s L_writer = T_end then Some (kthread_stop L_holder Stop_holder s) else None
     | Stop_holder \<Rightarrow> if place s L_holder = T_end
         then Some (s\<lparr>module_at := Unloaded, lablog := lablog s @ [(''unloaded'', [])]\<rparr>) else None
     | _ \<Rightarrow> None)"

datatype lab_event = Thread_move lthread | Init_move | Exit_move

definition lab_step :: "lab_frames \<Rightarrow> lab_event \<Rightarrow> lab \<Rightarrow> lab option" where
  "lab_step f e s = (case e of Thread_move t \<Rightarrow> lab_thread f t s | Init_move \<Rightarrow> lab_init f s | Exit_move \<Rightarrow> lab_exit s)"

section \<open>Lemmas\<close>

subsection \<open>The states without the log\<close>

type_synonym lab_view = "tplace list \<times> bool \<times> bool list \<times> mplace"

definition lthreads :: "lthread list" where
  "lthreads = [L_holder, L_main, L_writer]"

primrec lix :: "lthread \<Rightarrow> nat" where
  "lix L_holder = 0" | "lix L_main = 1" | "lix L_writer = 2"

definition lab_view :: "lab \<Rightarrow> lab_view" where
  "lab_view s = (map (place s) lthreads, release_now s, map (should_stop s) lthreads, module_at s)"

definition of_view :: "lab_view \<Rightarrow> lab" where
  "of_view v = (case v of (ps, r, ss, m) \<Rightarrow>
     \<lparr>place = (\<lambda>t. ps ! lix t), release_now = r, should_stop = (\<lambda>t. ss ! lix t), module_at = m, lablog = []\<rparr>)"

definition no_frames :: lab_frames where
  "no_frames = \<lparr>lf_pid = (\<lambda>t. 0), lf_fp = [], lf_sp = [], lf_local = [], lf_sem = 0, lf_task = (0, 0), lf_magic = 0, lf_offsets = (0, 0)\<rparr>"

definition lab_events :: "lab_event list" where
  "lab_events = [Thread_move L_holder, Thread_move L_main, Thread_move L_writer, Init_move, Exit_move]"

definition view_step :: "lab_event \<Rightarrow> lab_view \<Rightarrow> lab_view option" where
  "view_step e v = map_option lab_view (lab_step no_frames e (of_view v))"


lemma of_view [simp]:
  "place (of_view (lab_view s)) = place s" "should_stop (of_view (lab_view s)) = should_stop s"
  "release_now (of_view (lab_view s)) = release_now s" "module_at (of_view (lab_view s)) = module_at s"
proof -
  have "place (of_view (lab_view s)) t = place s t \<and> should_stop (of_view (lab_view s)) t = should_stop s t" for t
    by (cases t) (simp_all add: of_view_def lab_view_def lthreads_def)
  then show "place (of_view (lab_view s)) = place s" "should_stop (of_view (lab_view s)) = should_stop s" by auto
qed (simp_all add: of_view_def lab_view_def)

lemma view_eqI:
  "place s = place u \<Longrightarrow> release_now s = release_now u \<Longrightarrow> should_stop s = should_stop u \<Longrightarrow> module_at s = module_at u \<Longrightarrow>
     lab_view s = lab_view u"
  by (simp add: lab_view_def)

lemma lab_events: "e \<in> set lab_events"
  by (cases e) (auto simp: lab_events_def intro: lthread.exhaust)

lemma view_thread: "map_option lab_view (lab_thread f t s) = map_option lab_view (lab_thread no_frames t (of_view (lab_view s)))"
  by (cases "place s t") (auto simp: lab_thread_def lab_free_def lab_go_def intro: view_eqI)

lemma view_init: "map_option lab_view (lab_init f s) = map_option lab_view (lab_init no_frames (of_view (lab_view s)))"
  by (cases "module_at s") (auto simp: lab_init_def kthread_run_def lab_go_def intro: view_eqI)

lemma view_exit: "map_option lab_view (lab_exit s) = map_option lab_view (lab_exit (of_view (lab_view s)))"
  by (cases "module_at s") (auto simp: lab_exit_def kthread_stop_def intro: view_eqI)

lemma view_step: "map_option lab_view (lab_step f e s) = view_step e (lab_view s)"
  unfolding view_step_def lab_step_def using view_thread view_init view_exit by (cases e) simp_all


subsection \<open>Searching them\<close>

definition view_succs :: "lab_view \<Rightarrow> lab_view list" where
  "view_succs v = List.map_filter (\<lambda>e. view_step e v) lab_events"

definition lab_seen :: "lab_view list" where
  "lab_seen = explore view_succs 200 [lab_view stuck_start] [lab_view stuck_start]"



lemma lab_closed: "closed_under view_succs lab_seen"
  by code_simp




lemma view_succs: "w \<in> set (view_succs v) \<longleftrightarrow> (\<exists>e. view_step e v = Some w)"
proof -
  have "set lab_events = UNIV" using lab_events by blast
  moreover have "set (view_succs v) = {w. \<exists>e\<in>set lab_events. view_step e v = Some w}"
    by (force simp: view_succs_def List.map_filter_def image_def)
  ultimately show ?thesis by simp
qed

lemma lab_view_step: "by_event (lab_step f) s u \<Longrightarrow> lab_view u \<in> set (view_succs (lab_view s))"
  by (metis by_event_def option.simps(9) view_step view_succs)


interpretation lab: finitely_followed "\<lambda>s. s = stuck_start" "by_event (lab_step f)" "\<lambda>v s. v = lab_view s" lab_seen for f
  by unfold_locales
    (use explore_seen [of "[lab_view stuck_start]"] closed_underD [OF lab_closed] lab_view_step in \<open>auto simp: lab_seen_def\<close>)




end
