(* ===== verification/Sec_Probe.thy ===== *)
theory Sec_Probe
  imports Arm_Mmu
begin

section \<open>sec_probe.c: what protects this kernel\<close>

text \<open>
  The module prints each CPU's identification fields and vectors, the ASIDs, whether the kernel's
  text is mapped non-global, and the speculation barriers in \<open>invoke_syscall\<close>. The page table
  macros are those of \<open>Arm_Mmu\<close>; the registers are fields of \<open>sec_env\<close>.
\<close>

record cpu_id =
  ci_midr :: u32
  ci_pfr0 :: u64
  ci_vbar :: u64

record sec_env =
  sec_ids :: "(nat \<times> cpu_id) list" \<comment> \<open>the online CPUs with what \<open>read_id_this_cpu\<close> read there\<close>
  r_tcr :: u64
  r_ttbr0 :: u64
  r_ttbr1 :: u64
  r_vbar :: u64
  kimage_voffset :: u64
  PTE_NG :: u64
  code_at :: "nat \<Rightarrow> u32" \<comment> \<open>the instructions of \<open>invoke_syscall\<close>\<close>
  secret_got :: u64 \<comment> \<open>\<open>kmalloc\<close>\<close>

record sec_args =
  a_stext :: u64
  a_vectors :: u64
  a_bp_harden :: u64
  a_tramp :: u64
  a_syscall :: u64

definition part_name :: "kmacros \<Rightarrow> u32 \<Rightarrow> string" where
  "part_name k mi = (if midr_partnum k mi = 0xd05 then ''Cortex-A55'' else if midr_partnum k mi = 0xd0b then ''Cortex-A76'' else ''unknown'')"

text \<open>Which vector table an address is: the first of the three that is equal.\<close>

definition which_table :: "sec_args \<Rightarrow> u64 \<Rightarrow> string" where
  "which_table a v = (if v = a_vectors a then ''vectors'' else if v = a_bp_harden a then ''__bp_harden_el1_vectors''
     else if v = a_tramp a then ''tramp_vectors'' else ''?'')"

definition dump_cpu_ids :: "kmacros \<Rightarrow> sec_env \<Rightarrow> sec_args \<Rightarrow> line list" where
  "dump_cpu_ids k e a = [(''[Q3/Q7]'', []), (''ID_AA64PFR0_EL1.CSV2/CSV3'', []), (''CSV2>=1'', [])]
     @ map (\<lambda>(cpu, c). let csv2 = drop_bit 56 (ci_pfr0 c) AND 0xf; csv3 = drop_bit 60 (ci_pfr0 c) AND 0xf in
         (''CPU%d %-11s MIDR=0x%08x  CSV2=%u  CSV3=%u %s'', [I (int cpu), S (part_name k (ci_midr c)), U32 (ci_midr c), U csv2, U csv3,
            S (if csv3 \<noteq> 0 then ''immune'' else ''whitelist'')])) (sec_ids e)
     @ [(''VBAR_EL1'', [])]
     @ map (\<lambda>(cpu, c). (''CPU%d %-11s VBAR_EL1=0x%016llx = %s'',
         [I (int cpu), S (part_name k (ci_midr c)), U (ci_vbar c), S (which_table a (ci_vbar c))])) (sec_ids e)"

definition dump_asid :: "sec_env \<Rightarrow> line list" where
  "dump_asid e = (let a1 = drop_bit 22 (r_tcr e) AND 1; asid0 = drop_bit 48 (r_ttbr0 e); asid1 = drop_bit 48 (r_ttbr1 e) in
     [(''[Q5]'', []), (''TCR_EL1.A1 = %u %s'', [U a1, S (if a1 \<noteq> 0 then ''TTBR1_EL1'' else ''TTBR0_EL1'')]),
      (''TTBR0_EL1 = 0x%016llx  ASID=%llu (%s)'', [U (r_ttbr0 e), U asid0, S (if asid0 AND 1 \<noteq> 0 then ''odd'' else ''even'')]),
      (''TTBR1_EL1 = 0x%016llx  ASID=%llu (%s)'', [U (r_ttbr1 e), U asid1, S (if asid1 AND 1 \<noteq> 0 then ''odd'' else ''even'')]),
      (''KPTI'', []), (''copy_to/from_user'', []), (''TLB miss'', [])])"

subsection \<open>The walk to the last descriptor\<close>

text \<open>The message of an empty level, or the descriptor the code jumps to \<open>decode\<close> with.\<close>

definition kpti_walk :: "kmacros \<Rightarrow> kmem \<Rightarrow> u64 \<Rightarrow> u64 \<Rightarrow> string + u64" where
  "kpti_walk k m va l0 =
     (if entry_none k (m l0) then Inl ''L0 empty''
      else let l1 = pud_offset k m (p4d_offset k m l0 va) va in
        if entry_none k (m l1) then Inl ''L1 empty''
        else if entry_sect k (m l1) then Inr (m l1)
        else let l2 = pmd_offset k m l1 va in
          if entry_none k (m l2) then Inl ''L2 empty''
          else if entry_sect k (m l2) then Inr (m l2)
          else let l3 = pte_offset_kernel k m l2 va in
            if entry_none k (m l3) then Inl ''L3 empty'' else Inr (m l3))"

definition kpti_root :: "kmacros \<Rightarrow> sec_env \<Rightarrow> u64 \<Rightarrow> u64" where
  "kpti_root k e va = ((r_ttbr1 e AND genmask 47 1) + kimage_voffset e) + 8 * pgd_index k va"

definition vbar_lines :: "sec_env \<Rightarrow> sec_args \<Rightarrow> line list" where
  "vbar_lines e a = [(''[Q4/Q7]'', []), (''VBAR_EL1 = 0x%016llx  = %s'', [U (r_vbar e), S (which_table a (r_vbar e))]),
     (''vectors=0x%lx  bp_harden=0x%lx  tramp_vectors=0x%lx'', [U (a_vectors a), U (a_bp_harden a), U (a_tramp a)])]"

definition check_kpti_ng :: "kmacros \<Rightarrow> kmem \<Rightarrow> sec_env \<Rightarrow> sec_args \<Rightarrow> line list" where
  "check_kpti_ng k m e a = (''[Q4]'', []) #
     (if a_stext a = 0 then [(''no stext'', [])]
      else (case kpti_walk k m (a_stext a) (kpti_root k e (a_stext a)) of
          Inl msg \<Rightarrow> [(msg, [])]
        | Inr desc \<Rightarrow> let ng = (desc AND PTE_NG e \<noteq> 0) in
            [(''_stext(0x%lx) desc = 0x%016llx'', [U (a_stext a), U desc]),
             (''nG(bit11) = %d -> %s'', [I (of_bool ng), S (if ng then ''non-global'' else ''global'')])]))
     @ vbar_lines e a"

subsection \<open>Barriers, the secret\<close>

definition csdb :: u32 where "csdb = 0xd503229f"

definition csdb_turn :: "sec_env \<Rightarrow> nat \<Rightarrow> line list \<times> nat \<Rightarrow> line list \<times> nat" where
  "csdb_turn e i s = (let insn = code_at e i; (ls, found) = s;
       hit = (if insn = csdb then [(''+0x%02x: 0x%08x  CSDB'', [I (int (4 * i)), U32 insn])]
           @ (if 3 \<le> i then [(''+0x%02x:%08x  +0x%02x:%08x  +0x%02x:%08x'',
                concat (map (\<lambda>d. [I (int (4 * (i - d))), U32 (code_at e (i - d))]) [3, 2, 1]))] else [])
         else []);
       sbc = (if insn AND 0xffffffe0 = 0xda1f03e0 then [(''+0x%02x: 0x%08x  SBC'', [I (int (4 * i)), U32 insn])] else [])
     in (ls @ hit @ sbc, if insn = csdb then found + 1 else found))"

definition scan_csdb :: "sec_env \<Rightarrow> sec_args \<Rightarrow> line list" where
  "scan_csdb e a = (''[Q8]'', []) #
     (if a_syscall a = 0 then [(''no invoke_syscall'', [])]
      else (''invoke_syscall @ 0x%lx csdb = 0xd503229f'', [U (a_syscall a)]) #
        (case fold (csdb_turn e) [0..<64] ([], 0) of (ls, found) \<Rightarrow> ls @ (if found = 0 then [(''no csdb'', [])] else [])))"

definition plant_secret :: "sec_env \<Rightarrow> line list" where
  "plant_secret e = (let p = secret_got e in
     if p = 0 then [(''kmalloc'', [])]
     else [(''[Q3]'', []), (''secret VA = 0x%px 0x%02x (%c)'', [U p, U 0x5a, S ''Z'']), (''KADDR=0x%px'', [U p]), (''CSV3=1'', [])])"

definition sec_probe_init :: "kmacros \<Rightarrow> kmem \<Rightarrow> sec_env \<Rightarrow> sec_args \<Rightarrow> int \<times> line list" where
  "sec_probe_init k m e a = (0, [(''RK3588'', [])] @ dump_cpu_ids k e a @ dump_asid e @ check_kpti_ng k m e a @ scan_csdb e a
     @ plant_secret e @ [(''done'', [])])"

text \<open>What unloading frees, and its line.\<close>

definition sec_probe_exit :: "sec_env \<Rightarrow> u64 \<times> line list" where
  "sec_probe_exit e = (secret_got e, [(''unloaded'', [])])"

section \<open>Lemmas\<close>

text \<open>The descriptor the architecture's walk ends at, for the walk of \<open>Arm_Mmu\<close>.\<close>

fun mmu_leaf :: "kmem \<Rightarrow> u64 \<Rightarrow> nat \<Rightarrow> u64 \<Rightarrow> u64 option" where
  "mmu_leaf pm va n base =
     (let e = pm (base + 8 * field (12 + 9 * n) 9 va) in
      if e AND 1 = 0 then None
      else if e AND 3 = 3
      then (case n of 0 \<Rightarrow> Some e | Suc n' \<Rightarrow> mmu_leaf pm va n' (e AND genmask 47 12))
      else if n = 1 \<or> n = 2 then Some e else None)"

lemmas mmu_leaf_simps = mmu_leaf.simps mmu_leaf.simps [of _ _ 0]

lemma leaf_of_walk: "mmu_leaf pm va n base \<noteq> None \<longleftrightarrow> mmu_walk pm va n base \<noteq> None"
proof (induction n arbitrary: base)
  case 0 show ?case by (subst mmu_leaf.simps, subst mmu_walk.simps) (simp add: Let_def)
next
  case (Suc n) then show ?case by (subst mmu_leaf.simps, subst mmu_walk.simps) (auto simp: Let_def simp del: mmu_leaf.simps)
qed

lemma leaf_step:
  assumes "mmu_leaf pm va n base = Some d"
  defines "e \<equiv> pm (base + 8 * field (12 + 9 * n) 9 va)"
  shows "e \<noteq> 0 \<and> (e AND 3 = 1 \<longrightarrow> (n = 1 \<or> n = 2) \<and> d = e) \<and>
    (e AND 3 \<noteq> 1 \<longrightarrow> (case n of 0 \<Rightarrow> d = e | Suc n' \<Rightarrow> mmu_leaf pm va n' (e AND genmask 47 12) = Some d))"
proof -
  have v: "e AND 1 \<noteq> 0" and w: "if e AND 3 = 3
      then (case n of 0 \<Rightarrow> Some e | Suc n' \<Rightarrow> mmu_leaf pm va n' (e AND genmask 47 12)) = Some d
      else (n = 1 \<or> n = 2) \<and> d = e"
    using assms(1) unfolding mmu_leaf.simps [of pm va n base] Let_def e_def [symmetric] by (auto split: if_splits)
  show ?thesis using w zero_invalid [OF v] valid_kinds [of e] v by (auto split: nat.splits if_splits)
qed

text \<open>
  C37: whenever the architecture translates \<open>_stext\<close>, the module reaches the very descriptor that
  maps it - through blocks as well as pages - so the nG bit it prints is the mapping's.
\<close>

theorem kpti_checks_the_leaf:
  assumes h: "arm64_headers k" and lv: "linear_view k m pm"
    and root: "sees_table m pm ((r_ttbr1 e AND genmask 47 1) + kimage_voffset e) base"
    and leaf: "mmu_leaf pm va 3 base = Some d"
  shows "kpti_walk k m va (kpti_root k e va) = Inr d"
proof -
  note hd = headersD [OF h]
  let ?l0 = "kpti_root k e va"
  let ?l1 = "pud_offset k m (p4d_offset k m ?l0 va) va"
  let ?l2 = "pmd_offset k m ?l1 va"
  let ?l3 = "pte_offset_kernel k m ?l2 va"
  have e0: "m ?l0 = pm (base + 8 * field (12 + 9 * 3) 9 va)" using sees_tableD [OF root, of 39] by (simp add: kpti_root_def hd)
  have e1: "m ?l1 = pm ((m ?l0 AND genmask 47 12) + 8 * field (12 + 9 * 2) 9 va)" using linear_viewD [OF lv, of "m ?l0" 30] by (simp add: hd)
  have e2: "m ?l2 = pm ((m ?l1 AND genmask 47 12) + 8 * field (12 + 9 * 1) 9 va)" using linear_viewD [OF lv, of "m ?l1" 21] by (simp add: hd)
  have e3: "m ?l3 = pm ((m ?l2 AND genmask 47 12) + 8 * field (12 + 9 * 0) 9 va)" using linear_viewD [OF lv, of "m ?l2" 12] by (simp add: hd)
  note s0 = leaf_step [OF leaf, folded e0]
  have w1: "mmu_leaf pm va 2 (m ?l0 AND genmask 47 12) = Some d" using s0 by (auto simp: numeral_3_eq_3 numeral_2_eq_2 simp del: mmu_leaf.simps)
  note s1 = leaf_step [OF w1, folded e1]
  show ?thesis
  proof (cases "m ?l1 AND 3 = 1")
    case True
    with s0 s1 show ?thesis by (simp add: kpti_walk_def Let_def hd(7,8))
  next
    case ne1: False
    with s1 have w2: "mmu_leaf pm va 1 (m ?l1 AND genmask 47 12) = Some d" by (auto simp: numeral_2_eq_2 simp del: mmu_leaf.simps)
    note s2 = leaf_step [OF w2, folded e2]
    show ?thesis
    proof (cases "m ?l2 AND 3 = 1")
      case True
      with s0 s1 s2 ne1 show ?thesis by (simp add: kpti_walk_def Let_def hd(7,8))
    next
      case ne2: False
      with s2 have w3: "mmu_leaf pm va 0 (m ?l2 AND genmask 47 12) = Some d" by (auto simp del: mmu_leaf.simps)
      note s3 = leaf_step [OF w3, folded e3]
      then have "d = m ?l3" by (cases "m ?l3 AND 3 = 1") auto
      with s0 s1 s2 s3 ne1 ne2 show ?thesis by (simp add: kpti_walk_def Let_def hd(7,8))
    qed
  qed
qed

text \<open>The scan finds every \<open>CSDB\<close> among the instructions it looks at.\<close>

lemma csdb_found: "snd (fold (csdb_turn e) is s) = snd s + length (filter (\<lambda>i. code_at e i = csdb) is)"
  by (induction "is" arbitrary: s) (auto simp: csdb_turn_def Let_def split: prod.splits)

definition sample_sec :: sec_env where
  "sample_sec = \<lparr>sec_ids = [], r_tcr = 0, r_ttbr0 = 0, r_ttbr1 = 0x1000, r_vbar = 0, kimage_voffset = 0, PTE_NG = 0x800,
     code_at = (\<lambda>_. 0), secret_got = 0\<rparr>"

lemma kpti_checks_the_leaf_witness:
  "kpti_walk sample_macros sample_tables 0x200123 (kpti_root sample_macros sample_sec 0x200123) = Inr 0x40000701"
proof (rule kpti_checks_the_leaf [where pm = sample_tables and base = "0x1000"])
  show "arm64_headers sample_macros" by (rule sample_headers)
  show "linear_view sample_macros sample_tables sample_tables"
    by (simp add: linear_view_def sees_table_def sample_macros_def)
  show "sees_table sample_tables sample_tables ((r_ttbr1 sample_sec AND genmask 47 1) + kimage_voffset sample_sec) 0x1000"
    by (simp add: sees_table_def sample_sec_def genmask_def mask_eq_exp_minus_1)
  show "mmu_leaf sample_tables 0x200123 3 0x1000 = Some 0x40000701" by code_simp
qed

end
