(* ===== verification/Rt_Latency.thy ===== *)
theory Rt_Latency
  imports Proc_Files "HOL-Library.Multiset"
begin

section \<open>rt_latency.c: how late a sleeper wakes\<close>

text \<open>
  The program sleeps until a deadline, one period after the deadline before, and notes how late it
  woke. The clock's readings are a parameter. Times are in nanoseconds and are not cut to 64 bits;
  the report divides by 1000 in floating point, here the numbers divided are shown. Where in the
  sorted samples a percentile stands is a product of doubles and a parameter (\<open>rank\<close>).
\<close>

record timespec =
  tv_sec :: int
  tv_nsec :: int

definition cmp_ll :: "int \<Rightarrow> int \<Rightarrow> int" where
  "cmp_ll x y = (if x < y then - 1 else if y < x then 1 else 0)"

definition ts_diff_ns :: "timespec \<Rightarrow> timespec \<Rightarrow> int" where
  "ts_diff_ns a b = (tv_sec b - tv_sec a) * 1000000000 + (tv_nsec b - tv_nsec a)"

text \<open>The loop that brings \<open>tv_nsec\<close> below a second, and the deadline after \<open>t\<close>.\<close>

function carry :: "timespec \<Rightarrow> timespec" where
  "carry t = (if 1000000000 \<le> tv_nsec t
     then carry (t\<lparr>tv_nsec := tv_nsec t - 1000000000, tv_sec := tv_sec t + 1\<rparr>) else t)"
  by pat_completeness auto
termination by (relation "measure (\<lambda>t. nat (tv_nsec t))") auto

definition next_deadline :: "int \<Rightarrow> timespec \<Rightarrow> timespec" where
  "next_deadline period t = carry (t\<lparr>tv_nsec := tv_nsec t + period * 1000\<rparr>)"

text \<open>The number of the histogram's bucket for \<open>v\<close> microseconds, counting from \<open>b\<close>.\<close>

definition NBUCKET :: nat where "NBUCKET = 24"

function bucket_from :: "nat \<Rightarrow> int \<Rightarrow> nat" where
  "bucket_from b v = (if v \<noteq> 0 \<and> b < NBUCKET - 1 then bucket_from (Suc b) (v div 2) else b)"
  by pat_completeness auto
termination by (relation "measure (\<lambda>(b, v). NBUCKET - b)") auto

record rt =
  rt_next :: timespec
  rt_min :: int
  rt_max :: int
  rt_total :: int
  rt_hist :: "int list"
  samples :: "int list"

definition rt_begin :: "timespec \<Rightarrow> rt" where
  "rt_begin t = \<lparr>rt_next = t, rt_min = 2 ^ 60, rt_max = 0, rt_total = 0, rt_hist = replicate NBUCKET 0, samples = []\<rparr>"

text \<open>One turn of the loop; \<open>now\<close> is the clock after the sleep.\<close>

definition rt_turn :: "int \<Rightarrow> timespec \<Rightarrow> rt \<Rightarrow> rt" where
  "rt_turn period now s =
     (let d = next_deadline period (rt_next s); diff = ts_diff_ns d now; lat = (if diff < 0 then 0 else diff);
          b = bucket_from 0 (lat div 1000)
      in s\<lparr>rt_next := d, samples := samples s @ [lat], rt_min := (if lat < rt_min s then lat else rt_min s),
           rt_max := (if rt_max s < lat then lat else rt_max s), rt_total := rt_total s + lat,
           rt_hist := (rt_hist s)[b := rt_hist s ! b + 1]\<rparr>)"

definition rt_measure :: "int \<Rightarrow> timespec list \<Rightarrow> timespec \<Rightarrow> rt" where
  "rt_measure period nows t = fold (rt_turn period) nows (rt_begin t)"

text \<open>The non-empty buckets: lower bound, upper bound, how many.\<close>

definition shown_buckets :: "int list \<Rightarrow> (int \<times> int \<times> int) list" where
  "shown_buckets h = map (\<lambda>j. (if j = 0 then 0 else 2 ^ j div 2, 2 ^ j, h ! j)) (filter (\<lambda>j. h ! j \<noteq> 0) [0..<NBUCKET])"

datatype rt_call = Set_affinity int | Timer_slack int | Set_fifo int | Lock_memory

record rt_env =
  clock_first :: timespec
  clock_after :: "nat \<Rightarrow> timespec" \<comment> \<open>the clock after each sleep\<close>
  fifo_allowed :: bool
  rank :: "nat \<Rightarrow> int \<Rightarrow> nat" \<comment> \<open>\<open>(long)(loops * 0.99)\<close> and \<open>(long)(loops * 0.999)\<close>\<close>

definition rt_report :: "rt_env \<Rightarrow> int \<Rightarrow> int \<Rightarrow> string \<Rightarrow> int \<Rightarrow> int \<Rightarrow> rt \<Rightarrow> line list" where
  "rt_report e prio cpu arg period loops s =
     (let q = sort (samples s) in
      [(''policy=%s prio=%d cpu=%s period=%ldus loops=%ld'',
          [S (if 0 < prio then ''SCHED_FIFO'' else ''SCHED_OTHER''), I prio, S (if 0 \<le> cpu then arg else ''any''), I period, I loops]),
       (''min=%.1fus avg=%.1fus p50=%.1fus p99=%.1fus p99.9=%.1fus max=%.1fus'',
          [I (rt_min s), I (rt_total s), I loops, I (q ! nat (loops div 2)), I (q ! rank e 990 loops), I (q ! rank e 999 loops), I (rt_max s)])]
      @ map (\<lambda>(lo, hi, n). (''[%ld-%ld)=%ld'', [I lo, I hi, I n])) (shown_buckets (rt_hist s)))"

definition rt_main :: "rt_env \<Rightarrow> string list \<Rightarrow> int \<times> rt_call list \<times> line list" where
  "rt_main e args =
     (if length args < 3 then (1, [], [(''usage: %s <period_us> <loops> [fifo_prio] [cpu]'', [S (hd args)])])
      else let period = atol (args ! 1); loops = atol (args ! 2);
               prio = (if 3 < length args then atoi (args ! 3) else 0); cpu = (if 4 < length args then atoi (args ! 4) else - 1)
        in (0, (if 0 \<le> cpu then [Set_affinity cpu] else []) @ [Timer_slack 1] @ (if 0 < prio then [Set_fifo prio, Lock_memory] else []),
            (if 0 < prio \<and> \<not> fifo_allowed e then [(''sched_setscheduler(SCHED_FIFO)'', [])] else [])
            @ rt_report e prio cpu (args ! 4) period loops (rt_measure period (map (clock_after e) [0..<nat loops]) (clock_first e))))"

section \<open>Lemmas\<close>

text \<open>The comparison \<open>qsort\<close> is given leaves it no choice.\<close>

lemma cmp_ll_sorts: "sorted_wrt (\<lambda>x y. cmp_ll x y \<le> 0) ys \<and> mset ys = mset xs \<longleftrightarrow> ys = sort xs"
proof -
  have "(\<lambda>x y. cmp_ll x y \<le> 0) = (\<le>)" by (auto simp: cmp_ll_def fun_eq_iff)
  then show ?thesis by (metis mset_sort properties_for_sort sorted_sort)
qed

definition ns_of :: "timespec \<Rightarrow> int" where
  "ns_of t = tv_sec t * 1000000000 + tv_nsec t"

lemma ts_diff_ns: "ts_diff_ns a b = ns_of b - ns_of a"
  by (simp add: ts_diff_ns_def ns_of_def algebra_simps)

declare carry.simps [simp del] bucket_from.simps [simp del]

lemma ns_of_carry: "ns_of (carry t) = ns_of t"
  by (induction t rule: carry.induct) (subst carry.simps, simp add: ns_of_def algebra_simps)

lemma carry_less: "tv_nsec (carry t) < 1000000000"
  by (induction t rule: carry.induct) (subst carry.simps, simp)

text \<open>For a period that is not negative every deadline is one \<open>clock_nanosleep\<close> accepts.\<close>

lemma carry_nonneg: "0 \<le> tv_nsec t \<Longrightarrow> 0 \<le> tv_nsec (carry t)"
  by (induction t rule: carry.induct) (subst carry.simps, simp)

lemma deadline_valid: "0 \<le> period \<Longrightarrow> 0 \<le> tv_nsec t \<Longrightarrow> 0 \<le> tv_nsec (next_deadline period t) \<and> tv_nsec (next_deadline period t) < 1000000000"
  by (simp add: next_deadline_def carry_nonneg carry_less)

lemma ns_of_next: "ns_of (next_deadline period t) = ns_of t + period * 1000"
  by (simp add: next_deadline_def ns_of_carry) (simp add: ns_of_def)

text \<open>The bucket of a latency: bucket \<open>b > 0\<close> starts at \<open>2 ^ (b - 1)\<close> and, but for the last, ends before \<open>2 ^ b\<close>.\<close>

definition in_bucket :: "nat \<Rightarrow> int \<Rightarrow> bool" where
  "in_bucket b v \<longleftrightarrow> (if b = 0 then 0 else 2 ^ (b - 1)) \<le> v \<and> (b < NBUCKET - 1 \<longrightarrow> v < 2 ^ b)"

lemma bucket_from_range:
  assumes "0 \<le> v" "b \<le> NBUCKET - 1"
  shows "b \<le> bucket_from b v \<and> bucket_from b v \<le> NBUCKET - 1 \<and> (bucket_from b v < NBUCKET - 1 \<longrightarrow> v < 2 ^ (bucket_from b v - b)) \<and>
    (b < bucket_from b v \<longrightarrow> 2 ^ (bucket_from b v - b - 1) \<le> v)"
  using assms
proof (induction b v rule: bucket_from.induct)
  case (1 b v)
  show ?case
  proof (cases "v \<noteq> 0 \<and> b < NBUCKET - 1")
    case True
    let ?r = "bucket_from (Suc b) (v div 2)"
    have r: "bucket_from b v = ?r" using True by (subst bucket_from.simps) simp
    have IH: "Suc b \<le> ?r" "?r \<le> NBUCKET - 1" "?r < NBUCKET - 1 \<Longrightarrow> v div 2 < 2 ^ (?r - Suc b)"
      "Suc b < ?r \<Longrightarrow> 2 ^ (?r - Suc b - 1) \<le> v div 2"
      using 1 True by auto
    have e: "?r - b = Suc (?r - Suc b)" using IH(1) by simp
    have "v < 2 ^ (?r - b)" if "?r < NBUCKET - 1" using IH(3) [OF that] unfolding e power_Suc by linarith
    moreover have "2 ^ (?r - b - 1) \<le> v"
    proof (cases "Suc b < ?r")
      case True
      then have "?r - b - 1 = Suc (?r - Suc b - 1)" by simp
      with IH(4) [OF True] show ?thesis by simp
    next
      case False
      with IH(1) have "?r - b - 1 = 0" by simp
      with True 1(2) show ?thesis by simp
    qed
    ultimately show ?thesis using IH(1,2) unfolding r by simp
  next
    case False
    then have "bucket_from b v = b" by (auto simp: bucket_from.simps [of b v])
    with False 1(2,3) show ?thesis by auto
  qed
qed

lemma bucket_exact:
  assumes "0 \<le> v" and "j < NBUCKET"
  shows "bucket_from 0 v = j \<longleftrightarrow> in_bucket j v"
proof -
  let ?b = "bucket_from 0 v"
  have r: "?b \<le> NBUCKET - 1" "?b < NBUCKET - 1 \<longrightarrow> v < 2 ^ ?b" "0 < ?b \<longrightarrow> 2 ^ (?b - 1) \<le> v"
    using bucket_from_range [OF assms(1), of 0] by auto
  then have ok: "in_bucket ?b v" using assms(1) by (auto simp: in_bucket_def)
  have "j = ?b" if that: "in_bucket j v"
  proof (rule ccontr)
    assume "j \<noteq> ?b"
    then consider "j < ?b" | "?b < j" by linarith
    then show False
    proof cases
      case 1
      then have "(2 :: int) ^ j \<le> 2 ^ (?b - 1)" by (intro power_increasing) auto
      moreover have "v < 2 ^ j" using that 1 r(1) by (simp add: in_bucket_def)
      moreover have "2 ^ (?b - 1) \<le> v" using r(3) 1 by simp
      ultimately show False by linarith
    next
      case 2
      then have "(2 :: int) ^ ?b \<le> 2 ^ (j - 1)" by (intro power_increasing) auto
      moreover have "v < 2 ^ ?b" using r(2) 2 assms(2) by simp
      moreover have "2 ^ (j - 1) \<le> v" using that 2 by (simp add: in_bucket_def)
      ultimately show False by linarith
    qed
  qed
  with ok show ?thesis by blast
qed

text \<open>The element at place \<open>k\<close> of the sorted samples has at most \<open>k\<close> below it and more than \<open>k\<close> up to it.\<close>

lemma order_statistic:
  assumes "k < length (xs :: int list)"
  shows "length (filter (\<lambda>x. x < sort xs ! k) xs) \<le> k \<and> k < length (filter (\<lambda>x. x \<le> sort xs ! k) xs)"
proof -
  let ?q = "sort xs"
  have m: "length (filter P xs) = length (filter P ?q)" for P
    by (metis mset_filter mset_sort size_mset)
  have "filter (\<lambda>x. x < ?q ! k) (drop k ?q) = []"
    using assms by (auto simp: filter_empty_conv in_set_conv_nth intro!: sorted_nth_mono leD)
  then have "length (filter (\<lambda>x. x < ?q ! k) ?q) = length (filter (\<lambda>x. x < ?q ! k) (take k ?q))"
    by (metis append_Nil2 append_take_drop_id filter_append)
  also have "\<dots> \<le> k" by (metis length_filter_le le_trans length_take min.cobounded2)
  finally have 1: "length (filter (\<lambda>x. x < ?q ! k) ?q) \<le> k" .
  have "filter (\<lambda>x. x \<le> ?q ! k) (take (Suc k) ?q) = take (Suc k) ?q"
    using assms by (auto simp: filter_id_conv in_set_conv_nth intro!: sorted_nth_mono)
  then have "Suc k \<le> length (filter (\<lambda>x. x \<le> ?q ! k) ?q)"
    using assms by (metis Suc_leI append_take_drop_id filter_append le_add1 length_append length_sort length_take min.absorb2)
  with 1 show ?thesis by (simp add: m)
qed

text \<open>The counters are those of the samples.\<close>

definition tallied :: "rt \<Rightarrow> bool" where
  "tallied s \<longleftrightarrow> length (rt_hist s) = NBUCKET \<and>
     (\<forall>j<NBUCKET. rt_hist s ! j = int (length (filter (\<lambda>x. in_bucket j (x div 1000)) (samples s)))) \<and>
     rt_min s = Min (insert (2 ^ 60) (set (samples s))) \<and> rt_max s = Max (insert 0 (set (samples s))) \<and>
     rt_total s = sum_list (samples s)"

lemma tallied_turn:
  assumes ok: "tallied s" and lat: "0 \<le> lat" and b: "b = bucket_from 0 (lat div 1000)"
    and u: "samples u = samples s @ [lat]" "rt_min u = min (rt_min s) lat" "rt_max u = max (rt_max s) lat"
      "rt_total u = rt_total s + lat" "rt_hist u = (rt_hist s)[b := rt_hist s ! b + 1]"
  shows "tallied u"
proof -
  have "rt_hist u ! j = int (length (filter (\<lambda>x. in_bucket j (x div 1000)) (samples u)))" if j: "j < NBUCKET" for j
  proof -
    have "in_bucket j (lat div 1000) \<longleftrightarrow> b = j"
      using bucket_exact [OF _ j] lat by (simp add: b pos_imp_zdiv_nonneg_iff)
    moreover have "rt_hist s ! j = int (length (filter (\<lambda>x. in_bucket j (x div 1000)) (samples s)))" "j < length (rt_hist s)"
      using ok j by (auto simp: tallied_def)
    ultimately show ?thesis by (cases "b = j") (auto simp: u)
  qed
  moreover have "insert a (set (samples u)) = insert lat (insert a (set (samples s)))" for a
    by (auto simp: u)
  ultimately show ?thesis using ok by (simp add: tallied_def u min.commute max.commute)
qed

definition rt_ok :: "int \<Rightarrow> timespec list \<Rightarrow> timespec \<Rightarrow> rt \<Rightarrow> bool" where
  "rt_ok period nows t s \<longleftrightarrow> tallied s \<and> ns_of (rt_next s) = ns_of t + int (length nows) * (period * 1000) \<and>
     samples s = map (\<lambda>i. max 0 (ns_of (nows ! i) - (ns_of t + (int i + 1) * (period * 1000)))) [0..<length nows]"

lemma rt_begin_ok: "rt_ok period [] t (rt_begin t)"
  by (simp add: rt_ok_def tallied_def rt_begin_def)

lemma rt_turn_ok:
  assumes ok: "rt_ok period nows t s"
  shows "rt_ok period (nows @ [now]) t (rt_turn period now s)"
proof -
  let ?u = "rt_turn period now s"
  let ?lat = "max 0 (ns_of now - ns_of (next_deadline period (rt_next s)))"
  have nx: "ns_of (next_deadline period (rt_next s)) = ns_of t + (int (length nows) + 1) * (period * 1000)"
    using ok by (simp add: rt_ok_def ns_of_next algebra_simps)
  have s: "samples ?u = samples s @ [?lat]"
    by (auto simp: rt_turn_def Let_def ts_diff_ns)
  have "tallied ?u"
    by (rule tallied_turn [of s ?lat "bucket_from 0 (?lat div 1000)"])
      (use ok in \<open>auto simp: rt_ok_def s, auto simp: rt_turn_def Let_def ts_diff_ns min_def max_def\<close>)
  moreover have "rt_next ?u = next_deadline period (rt_next s)" by (simp add: rt_turn_def Let_def)
  ultimately show ?thesis using ok nx unfolding rt_ok_def s by (simp add: nth_append)
qed

lemma rt_measure_ok: "rt_ok period nows t (rt_measure period nows t)"
  by (induction nows rule: rev_induct) (simp_all add: rt_measure_def rt_begin_ok rt_turn_ok)

lemma in_shown:
  "(lo, hi, n) \<in> set (shown_buckets h) \<longleftrightarrow>
     (\<exists>j<NBUCKET. h ! j \<noteq> 0 \<and> lo = (if j = 0 then 0 else 2 ^ (j - 1)) \<and> hi = 2 ^ j \<and> n = h ! j)"
proof -
  have "(if j = 0 then 0 else (2 :: int) ^ j div 2) = (if j = 0 then 0 else 2 ^ (j - 1))" for j by (cases j) simp_all
  then have "shown_buckets h = map (\<lambda>j. (if j = 0 then 0 else 2 ^ (j - 1), 2 ^ j, h ! j)) (filter (\<lambda>j. h ! j \<noteq> 0) [0..<NBUCKET])"
    unfolding shown_buckets_def by (simp only:)
  then show ?thesis by (auto simp: image_iff)
qed

lemma sum_nonzero: "sum_list (map f (filter (\<lambda>j. f j \<noteq> 0) xs)) = (sum_list (map f xs) :: int)"
  by (induction xs) simp_all

lemma shown_sum:
  assumes "tallied s" and "\<forall>x\<in>set (samples s). 0 \<le> x"
  shows "sum_list (map (\<lambda>(lo, hi, n). n) (shown_buckets (rt_hist s))) = int (length (samples s))"
proof -
  let ?c = "\<lambda>j xs. int (length (filter (\<lambda>x. in_bucket j (x div 1000)) xs))"
  have "(\<Sum>j\<leftarrow>[0..<NBUCKET]. ?c j xs) = int (length xs)" if "\<forall>x\<in>set xs. 0 \<le> x" for xs
    using that
  proof (induction xs)
    case (Cons x xs)
    let ?b = "bucket_from 0 (x div 1000)"
    have "0 \<le> x div 1000" using Cons.prems by (simp add: pos_imp_zdiv_nonneg_iff)
    then have b: "in_bucket j (x div 1000) \<longleftrightarrow> j = ?b" if "j < NBUCKET" for j
      using bucket_exact [OF _ that, of "x div 1000"] by auto
    have "?b < NBUCKET" using bucket_from_range [OF \<open>0 \<le> x div 1000\<close>, of 0] by (simp add: NBUCKET_def)
    then have "(\<Sum>j\<leftarrow>[0..<NBUCKET]. of_bool (j = ?b)) = (1 :: int)"
      by (simp add: interv_sum_list_conv_sum_set_nat)
    moreover have "(\<Sum>j\<leftarrow>[0..<NBUCKET]. ?c j (x # xs)) = (\<Sum>j\<leftarrow>[0..<NBUCKET]. of_bool (j = ?b) + ?c j xs)"
      by (intro arg_cong [where f = sum_list] map_cong) (auto simp: b)
    ultimately show ?case using Cons by (simp add: sum_list_addf)
  qed simp
  moreover have "sum_list (map (\<lambda>(lo, hi, n). n) (shown_buckets (rt_hist s))) = (\<Sum>j\<leftarrow>[0..<NBUCKET]. rt_hist s ! j)"
    by (simp only: shown_buckets_def map_map comp_def prod.case sum_nonzero)
  moreover have "(\<Sum>j\<leftarrow>[0..<NBUCKET]. rt_hist s ! j) = (\<Sum>j\<leftarrow>[0..<NBUCKET]. ?c j (samples s))"
    using assms(1) by (intro arg_cong [where f = sum_list] map_cong) (auto simp: tallied_def)
  ultimately show ?thesis using assms(2) by simp
qed

text \<open>
  C38: the deadlines do not drift: the i-th latency is measured against the start plus i periods,
  however late the earlier ones were. Every latency is counted in exactly one printed bucket and
  lies in the range printed for it, except that the last bucket, printed as up to \<open>2 ^ 23\<close>, has no
  upper end; and the element at place \<open>k\<close> of the sorted samples is an order statistic of them.
\<close>

theorem latency_report_exact:
  fixes period t nows
  defines "s \<equiv> rt_measure period nows t"
  shows "samples s = map (\<lambda>i. max 0 (ns_of (nows ! i) - (ns_of t + (int i + 1) * (period * 1000)))) [0..<length nows] \<and>
    (\<forall>lo hi n. (lo, hi, n) \<in> set (shown_buckets (rt_hist s)) \<longrightarrow>
       n = int (length (filter (\<lambda>x. lo \<le> x div 1000 \<and> (hi < 2 ^ 23 \<longrightarrow> x div 1000 < hi)) (samples s)))) \<and>
    sum_list (map (\<lambda>(lo, hi, n). n) (shown_buckets (rt_hist s))) = int (length nows) \<and>
    (\<forall>k<length nows. length (filter (\<lambda>x. x < sort (samples s) ! k) (samples s)) \<le> k \<and>
       k < length (filter (\<lambda>x. x \<le> sort (samples s) ! k) (samples s)))"
proof -
  have ok: "rt_ok period nows t s" unfolding s_def by (rule rt_measure_ok)
  then have len: "length (samples s) = length nows" "\<forall>x\<in>set (samples s). 0 \<le> x" and t: "tallied s"
    by (auto simp: rt_ok_def)
  have "n = int (length (filter (\<lambda>x. lo \<le> x div 1000 \<and> (hi < 2 ^ 23 \<longrightarrow> x div 1000 < hi)) (samples s)))"
    if sh: "(lo, hi, n) \<in> set (shown_buckets (rt_hist s))" for lo hi n
  proof -
    from sh obtain j where j: "j < NBUCKET" "lo = (if j = 0 then 0 else 2 ^ (j - 1))" "hi = 2 ^ j" "n = rt_hist s ! j"
      by (auto simp: in_shown)
    have "(hi < 2 ^ 23) \<longleftrightarrow> j < NBUCKET - 1"
      unfolding j(3) using power_strict_increasing_iff [of "2 :: int" j 23] by (simp add: NBUCKET_def)
    then show ?thesis using t j by (simp add: tallied_def in_bucket_def)
  qed
  then show ?thesis using ok shown_sum [OF t len(2)] order_statistic [of _ "samples s"] len by (auto simp: rt_ok_def)
qed

lemma latency_report_exact_witness:
  "samples (rt_measure 1000 [\<lparr>tv_sec = 8, tv_nsec = 500\<rparr>, \<lparr>tv_sec = 8, tv_nsec = 500000\<rparr>, \<lparr>tv_sec = 8, tv_nsec = 2003000\<rparr>]
     \<lparr>tv_sec = 7, tv_nsec = 999000000\<rparr>) = [500, 0, 3000]"
  using latency_report_exact [THEN conjunct1, of 1000 "[\<lparr>tv_sec = 8, tv_nsec = 500\<rparr>, \<lparr>tv_sec = 8, tv_nsec = 500000\<rparr>, \<lparr>tv_sec = 8, tv_nsec = 2003000\<rparr>]"
      "\<lparr>tv_sec = 7, tv_nsec = 999000000\<rparr>"]
  by (simp add: ns_of_def upt_rec)

end
