(* ===== verification/Cpu_Spread.thy ===== *)
theory Cpu_Spread
  imports Sched_Math
begin

section \<open>lb_case.c, wake_cpu.c: where tasks run\<close>

text \<open>
  Two programs that count on which CPU their children are found: \<open>lb_case.c\<close> by reading
  \<open>/proc/pid/stat\<close> ten times a second, \<open>wake_cpu.c\<close> by letting each child answer with its CPU.
  What the scheduler does is a parameter; elapsed times are left out.
\<close>

definition NCPU :: nat where "NCPU = 8"

subsection \<open>lb_case.c\<close>

text \<open>Field 39 of the text after the last parenthesis, from field \<open>i\<close> with text \<open>p\<close>; -1 when it is missing.\<close>

fun cpu_field :: "nat \<Rightarrow> nat \<Rightarrow> string \<Rightarrow> int" where
  "cpu_field 0 i p = - 1"
| "cpu_field (Suc k) i p = (if i = 39 then atoi p
     else case after_space p of None \<Rightarrow> - 1 | Some q \<Rightarrow> cpu_field k (Suc i) q)"

definition task_cpu :: "'w os \<Rightarrow> int \<Rightarrow> ('w, int) prog" where
  "task_cpu os pid = do {
     f \<leftarrow> call (os_read_file os (take 63 (''/proc/'' @ show_int pid @ ''/stat'')));
     ret (case f of None \<Rightarrow> - 1
          | Some s \<Rightarrow>
             (let buf = take 2047 s
              in if buf = [] then - 1
                 else case after_last (CHR '')'') buf of None \<Rightarrow> - 1
                   | Some p \<Rightarrow> cpu_field 37 3 (drop 1 p)))
   }"

text \<open>The CPUs of the mask, and what one look at all children counts.\<close>

definition mask_cpus :: "u64 \<Rightarrow> nat list" where
  "mask_cpus m = filter (\<lambda>i. m AND push_bit i 1 \<noteq> 0) [0..<NCPU]"

definition count_cpu :: "int \<Rightarrow> int list \<Rightarrow> int list" where
  "count_cpu c h = (if 0 \<le> c \<and> c < int NCPU then h[nat c := h ! nat c + 1] else h)"

definition count_cpus :: "int list \<Rightarrow> int list" where
  "count_cpus cs = fold count_cpu cs (replicate NCPU 0)"

datatype lb_call = Lb_fork int | Lb_affinity int "nat list" | Lb_kill int | Lb_sleep nat

record lb_env =
  lb_pid :: "nat \<Rightarrow> int" \<comment> \<open>\<open>fork\<close>: -1 when it fails\<close>
  lb_cpu :: "nat \<Rightarrow> int \<Rightarrow> int" \<comment> \<open>\<open>task_cpu\<close> at look \<open>n\<close> for a pid; the first look is before the affinity is widened\<close>

definition lb_pids :: "lb_env \<Rightarrow> int \<Rightarrow> int list" where
  "lb_pids e n = map (lb_pid e) [0..<nat (if 64 < n then 64 else n)]"

definition lb_first_line :: "lb_env \<Rightarrow> int list \<Rightarrow> line" where
  "lb_first_line e ps = (''t=0.00s p%d@c%d'', concat (map (\<lambda>i. [I (int i), I (lb_cpu e 0 (ps ! i))]) [0..<length ps]))"

definition lb_line :: "lb_env \<Rightarrow> u64 \<Rightarrow> int list \<Rightarrow> nat \<Rightarrow> line list" where
  "lb_line e m ps step = (let h = count_cpus (map (lb_cpu e (Suc step)) ps) in
     if step < 20 \<or> step mod 5 = 0
     then [(''nr_running/CPU: c%d=%d'', concat (map (\<lambda>i. [I (int i), I (h ! i)]) (mask_cpus m)))] else [])"

text \<open>\<open>main\<close> after its arguments are read: the calls and the lines, then the end of every child.\<close>

definition lb_run :: "lb_env \<Rightarrow> int \<Rightarrow> u64 \<Rightarrow> int \<Rightarrow> lb_call list \<times> line list" where
  "lb_run e n m secs = (let ps = lb_pids e n; steps = [0..<nat (secs * 10)] in
     (map Lb_fork ps @ [Lb_sleep 300000] @ map (\<lambda>p. Lb_affinity p (mask_cpus m)) ps
        @ map (\<lambda>s. Lb_sleep 100000) steps @ map Lb_kill ps,
      lb_first_line e ps # concat (map (lb_line e m ps) steps)))"

definition lb_child :: "lb_call list" where
  "lb_child = [Lb_affinity 0 [0]]"

subsection \<open>wake_cpu.c\<close>

text \<open>One exchange: the CPU of the waker when it wakes child \<open>i\<close>, and the byte the child answers, if it does.\<close>

record wake =
  waker_hist :: "int list"
  wakee_hist :: "int list list"

definition wake_begin :: "nat \<Rightarrow> wake" where
  "wake_begin n = \<lparr>waker_hist = replicate NCPU 0, wakee_hist = replicate n (replicate NCPU 0)\<rparr>"

definition bump_at :: "nat \<Rightarrow> int list \<Rightarrow> int list" where
  "bump_at k h = h[k := h ! k + 1]"

definition note_waker :: "nat \<Rightarrow> wake \<Rightarrow> wake" where
  "note_waker cpu s = s\<lparr>waker_hist := bump_at (cpu mod NCPU) (waker_hist s)\<rparr>"

definition note_wakee :: "nat \<Rightarrow> u8 \<Rightarrow> wake \<Rightarrow> wake" where
  "note_wakee i c s = (if unat c < NCPU then s\<lparr>wakee_hist := (wakee_hist s)[i := bump_at (unat c) (wakee_hist s ! i)]\<rparr> else s)"

fun wake_loop :: "(nat \<times> nat \<times> u8 option) list \<Rightarrow> wake \<Rightarrow> wake" where
  "wake_loop [] s = s"
| "wake_loop ((i, cpu, reply) # es) s = (case reply of None \<Rightarrow> note_waker cpu s
     | Some c \<Rightarrow> wake_loop es (note_wakee i c (note_waker cpu s)))"

text \<open>The exchanges of \<open>rounds\<close> rounds over \<open>n\<close> children, in order.\<close>

definition exchanges :: "(nat \<Rightarrow> nat \<Rightarrow> nat \<times> u8 option) \<Rightarrow> nat \<Rightarrow> nat \<Rightarrow> (nat \<times> nat \<times> u8 option) list" where
  "exchanges ex n rounds = concat (map (\<lambda>r. map (\<lambda>i. (i, ex r i)) [0..<n]) [0..<rounds])"

definition hist_vals :: "int list \<Rightarrow> val list" where
  "hist_vals h = concat (map (\<lambda>i. [I (int i), I (h ! i)]) [0..<NCPU])"

definition add_hists :: "int list list \<Rightarrow> int list" where
  "add_hists hs = fold (\<lambda>h agg. map (\<lambda>j. agg ! j + h ! j) [0..<NCPU]) hs (replicate NCPU 0)"

definition wake_report :: "int \<Rightarrow> string \<Rightarrow> nat \<Rightarrow> nat \<Rightarrow> wake \<Rightarrow> line list" where
  "wake_report self pinned n rounds s =
     [(''waker pid=%d wakee=%d rounds=%d waker_cpu=%s'', [I self, I (int n), I (int rounds), S pinned]),
      (''waker  CPU : c%d=%ld'', hist_vals (waker_hist s))]
     @ map (\<lambda>i. (''wakee%d CPU: c%d=%ld'', I (int i) # hist_vals (wakee_hist s ! i))) [0..<min n 8]
     @ (if 8 < n then [(''wakee: c%d=%ld'', hist_vals (add_hists (take n (wakee_hist s))))] else [])"

record wake_env =
  wk_self :: int
  wk_pipes :: bool \<comment> \<open>every \<open>pipe\<close> succeeded\<close>
  wk_exchange :: "nat \<Rightarrow> nat \<Rightarrow> nat \<times> u8 option"

definition wake_main :: "wake_env \<Rightarrow> string list \<Rightarrow> int \<times> line list" where
  "wake_main e args =
     (if length args < 3 then (1, [(''usage: %s <nr_wakee> <rounds> [waker_cpu]'', [S (hd args)])])
      else let n = nat (min 64 (atoi (args ! 1))); rounds = nat (atoi (args ! 2));
               cpu = (if 3 < length args then atoi (args ! 3) else - 1)
        in if \<not> wk_pipes e then (1, [(''pipe'', [])])
           else (0, wake_report (wk_self e) (if 0 \<le> cpu then args ! 3 else ''free'') n rounds
                      (wake_loop (exchanges (wk_exchange e) n rounds) (wake_begin n))))"

section \<open>Lemmas\<close>

subsection \<open>The reader\<close>

lemma cpu_field_skip:
  assumes "\<forall>f\<in>set fs. sp \<notin> set f" "length fs \<le> 36" "stops_digit r" "fits_int cpu"
  shows "cpu_field (length fs + 1) (39 - length fs) (concat (map (\<lambda>f. f @ [sp]) fs) @ show_int cpu @ r) = cpu"
  using assms(1,2)
proof (induction fs)
  case Nil
  show ?case using assms(3,4) by (simp add: atoi_def atol_show to_int_fits)
next
  case (Cons f fs)
  have "Suc (39 - length (f # fs)) = 39 - length fs" "39 - length (f # fs) \<noteq> 39" using Cons.prems by auto
  moreover have "after_space (concat (map (\<lambda>f. f @ [sp]) (f # fs)) @ show_int cpu @ r)
      = Some (concat (map (\<lambda>f. f @ [sp]) fs) @ show_int cpu @ r)"
    using Cons.prems by (simp add: after_space_append)
  ultimately show ?case using Cons by simp
qed

definition cpu_text :: "int \<Rightarrow> string \<Rightarrow> string list \<Rightarrow> int \<Rightarrow> string \<Rightarrow> string" where
  "cpu_text pid comm fs cpu r = show_int pid @ '' ('' @ comm @ '') '' @ concat (map (\<lambda>f. f @ [sp]) fs) @ show_int cpu @ r"

text \<open>Whatever the command is called, the reader returns field 39.\<close>

lemma task_cpu_any_comm:
  assumes rd: "os_read_file os (take 63 (''/proc/'' @ show_int pid @ ''/stat'')) w = (Some (cpu_text pid comm fs cpu r), w')"
    and fits: "length (cpu_text pid comm fs cpu r) \<le> 2047" "fits_int cpu"
    and fs: "length fs = 36" "\<forall>f\<in>set fs. sp \<notin> set f \<and> CHR '')'' \<notin> set f"
    and r: "stops_digit r" "CHR '')'' \<notin> set r"
  shows "run (task_cpu os pid) w = (cpu, w', [])"
proof -
  let ?tail = "concat (map (\<lambda>f. f @ [sp]) fs) @ show_int cpu @ r"
  have "CHR '')'' \<notin> set (sp # ?tail)" using fs(2) r(2) show_int_no by (auto simp: blanks)
  moreover have "cpu_text pid comm fs cpu r = (show_int pid @ '' ('' @ comm) @ CHR '')'' # sp # ?tail"
    by (simp add: cpu_text_def blanks)
  ultimately have "after_last (CHR '')'') (cpu_text pid comm fs cpu r) = Some (sp # ?tail)" using after_last_append by metis
  moreover have "cpu_field 37 3 ?tail = cpu" using cpu_field_skip [of fs r cpu] fs r fits(2) by simp
  moreover have "cpu_text pid comm fs cpu r \<noteq> []" by (simp add: cpu_text_def)
  ultimately show ?thesis using rd fits(1) by (simp add: task_cpu_def run_def Let_def)
qed

subsection \<open>The counts\<close>

lemma count_cpus_exact: "length (count_cpus cs) = NCPU \<and> (\<forall>j<NCPU. count_cpus cs ! j = int (length (filter (\<lambda>c. c = int j) cs)))"
proof (induction cs rule: rev_induct)
  case (snoc c cs)
  then show ?case by (auto simp: count_cpus_def count_cpu_def nth_list_update)
qed (simp add: count_cpus_def)

lemma sum_over: "distinct js \<Longrightarrow> (\<Sum>j\<leftarrow>js. int (length (filter (\<lambda>c. c = int j) cs))) = int (length (filter (\<lambda>c. \<exists>j\<in>set js. c = int j) cs))"
proof (induction cs)
  case (Cons c cs)
  have "(\<Sum>j\<leftarrow>js. of_bool (c = int j)) = (of_bool (\<exists>j\<in>set js. c = int j) :: int)"
    using Cons.prems by (induction js) auto
  moreover have "(\<Sum>j\<leftarrow>js. int (length (filter (\<lambda>d. d = int j) (c # cs)))) =
      (\<Sum>j\<leftarrow>js. of_bool (c = int j) + int (length (filter (\<lambda>d. d = int j) cs)))"
    by (intro arg_cong [where f = sum_list] map_cong) auto
  ultimately show ?case using Cons by (simp add: sum_list_addf)
qed (simp add: sum_list_0)

text \<open>
  a printed line of \<open>lb_case\<close> shows for every CPU of the mask how many children were found
  there, and the numbers add up to the children that are on those CPUs - to all of them when the
  kernel obeys the affinity.
\<close>

theorem lb_counts_add_up:
  defines "seen \<equiv> \<lambda>e ps step. map (lb_cpu e (Suc step)) ps"
  shows "(\<forall>l\<in>set (lb_line e m ps step). snd l = concat (map (\<lambda>i. [I (int i), I (int (length (filter (\<lambda>c. c = int i) (seen e ps step))))]) (mask_cpus m))) \<and>
    (\<Sum>i\<leftarrow>mask_cpus m. count_cpus (seen e ps step) ! i) = int (length (filter (\<lambda>c. \<exists>i\<in>set (mask_cpus m). c = int i) (seen e ps step))) \<and>
    ((\<forall>p\<in>set ps. \<exists>i\<in>set (mask_cpus m). lb_cpu e (Suc step) p = int i) \<longrightarrow>
       (\<Sum>i\<leftarrow>mask_cpus m. count_cpus (seen e ps step) ! i) = int (length ps))"
proof -
  have m: "i \<in> set (mask_cpus m) \<Longrightarrow> i < NCPU" for i by (simp add: mask_cpus_def)
  have c: "count_cpus cs ! i = int (length (filter (\<lambda>c. c = int i) cs))" if "i \<in> set (mask_cpus m)" for cs i
    using count_cpus_exact m [OF that] by blast
  have l: "snd l = concat (map (\<lambda>i. [I (int i), I (int (length (filter (\<lambda>c. c = int i) (seen e ps step))))]) (mask_cpus m))"
    if "l \<in> set (lb_line e m ps step)" for l
    using that c by (auto simp: lb_line_def Let_def seen_def intro!: arg_cong [where f = concat] split: if_splits)
  have d: "distinct (mask_cpus m)" by (simp add: mask_cpus_def)
  have t: "(\<Sum>i\<leftarrow>mask_cpus m. count_cpus (seen e ps step) ! i) = int (length (filter (\<lambda>c. \<exists>i\<in>set (mask_cpus m). c = int i) (seen e ps step)))"
    unfolding sum_over [OF d, symmetric] using c by (intro arg_cong [where f = sum_list] map_cong) simp_all
  moreover have "filter (\<lambda>c. \<exists>i\<in>set (mask_cpus m). c = int i) (seen e ps step) = seen e ps step"
    if "\<forall>p\<in>set ps. \<exists>i\<in>set (mask_cpus m). lb_cpu e (Suc step) p = int i"
    using that by (auto simp: seen_def filter_id_conv)
  ultimately show ?thesis using l by (auto simp: seen_def)
qed

text \<open>A child that could not be forked is signalled all the same: pid -1 stands for every process.\<close>

lemma failed_fork_kills_all:
  assumes "i < nat (min 64 n)" and "lb_pid e i = - 1"
  shows "Lb_kill (- 1) \<in> set (fst (lb_run e n m secs))"
proof -
  have "lb_pid e i \<in> set (lb_pids e n)" using assms(1) by (auto simp: lb_pids_def)
  then show ?thesis using assms(2) by (auto simp: lb_run_def Let_def image_iff)
qed

subsection \<open>The exchanges\<close>

definition answered :: "(nat \<times> nat \<times> u8 option) list \<Rightarrow> (nat \<times> nat \<times> u8 option) list" where
  "answered es = takeWhile (\<lambda>(i, cpu, r). r \<noteq> None) es"

definition wake_wf :: "nat \<Rightarrow> wake \<Rightarrow> bool" where
  "wake_wf n s \<longleftrightarrow> length (waker_hist s) = NCPU \<and> length (wakee_hist s) = n \<and> (\<forall>h\<in>set (wakee_hist s). length h = NCPU)"

lemma wake_wf_steps: "wake_wf n s \<Longrightarrow> wake_wf n (note_waker cpu s)" "wake_wf n s \<Longrightarrow> i < n \<Longrightarrow> wake_wf n (note_wakee i c s)"
  by (auto simp: wake_wf_def note_waker_def note_wakee_def bump_at_def dest!: set_update_subset_insert [THEN subsetD])

lemma waker_counts:
  assumes "wake_wf n s" "\<forall>(i, x)\<in>set es. i < n" "c < NCPU"
  shows "waker_hist (wake_loop es s) ! c =
    waker_hist s ! c + int (length (filter (\<lambda>(i, cpu, r). cpu mod NCPU = c) (take (Suc (length (answered es))) es)))"
  using assms
proof (induction es s rule: wake_loop.induct)
  case (2 i cpu reply es s)
  have w: "waker_hist (note_waker cpu s) ! c = waker_hist s ! c + of_bool (cpu mod NCPU = c)"
    using 2(2,4) by (auto simp: note_waker_def bump_at_def wake_wf_def nth_list_update NCPU_def)
  show ?case
  proof (cases reply)
    case None
    then show ?thesis by (simp add: w answered_def)
  next
    case (Some b)
    have "waker_hist (note_wakee i b (note_waker cpu s)) = waker_hist (note_waker cpu s)" by (simp add: note_wakee_def)
    with 2(1) [OF Some] 2(2-4) Some w wake_wf_steps show ?thesis by (simp add: answered_def)
  qed
qed simp

lemma wakee_counts:
  assumes "wake_wf n s" "\<forall>(i, x)\<in>set es. i < n" "c < NCPU" "k < n"
  shows "wakee_hist (wake_loop es s) ! k ! c =
    wakee_hist s ! k ! c + int (length (filter (\<lambda>(i, cpu, r). i = k \<and> r = Some (of_nat c)) (answered es)))"
  using assms
proof (induction es s rule: wake_loop.induct)
  case (2 i cpu reply es s)
  have w: "wakee_hist (note_waker cpu s) = wakee_hist s" by (simp add: note_waker_def)
  show ?case
  proof (cases reply)
    case None
    then show ?thesis by (simp add: w answered_def)
  next
    case (Some b)
    have "b = of_nat c \<longleftrightarrow> unat b = c"
      using 2(4) by (auto simp: NCPU_def unat_of_nat)
    moreover have "k < length (wakee_hist s)" "c < length (wakee_hist s ! k)" using 2(2,4,5) by (auto simp: wake_wf_def)
    ultimately have "wakee_hist (note_wakee i b (note_waker cpu s)) ! k ! c = wakee_hist s ! k ! c + of_bool (i = k \<and> b = of_nat c)"
      using 2(4) by (cases "i = k") (auto simp: note_wakee_def w bump_at_def nth_list_update)
    with 2(1) [OF Some] 2(2-5) Some wake_wf_steps show ?thesis by (simp add: answered_def)
  qed
qed (simp add: answered_def)

lemma wake_begin_wf: "wake_wf n (wake_begin n)"
  by (simp add: wake_wf_def wake_begin_def)

lemma exchanges_wf: "\<forall>(i, x)\<in>set (exchanges ex n rounds). i < n"
  by (auto simp: exchanges_def)

lemma add_hists_sum:
  assumes "\<forall>h\<in>set hs. length h = NCPU" "c < NCPU"
  shows "add_hists hs ! c = (\<Sum>h\<leftarrow>hs. h ! c)"
proof -
  have "length (add_hists hs) = NCPU \<and> add_hists hs ! c = (\<Sum>h\<leftarrow>hs. h ! c)"
    using assms(1) by (induction hs rule: rev_induct) (simp_all add: add_hists_def assms(2))
  then show ?thesis ..
qed

text \<open>
  what \<open>wake_cpu\<close> prints are exact counts: of the exchanges up to the first one without an
  answer, how often child \<open>k\<close> answered CPU \<open>c\<close>, how often the waker was on \<open>c\<close> (the unanswered one
  included), and the total over all children.
\<close>

theorem wake_counts_exact:
  fixes ex n rounds c
  assumes c: "c < NCPU"
  defines "es \<equiv> exchanges ex n rounds"
  defines "s \<equiv> wake_loop es (wake_begin n)"
  shows "(\<forall>k<n. wakee_hist s ! k ! c = int (length (filter (\<lambda>(i, cpu, r). i = k \<and> r = Some (of_nat c)) (answered es)))) \<and>
    waker_hist s ! c = int (length (filter (\<lambda>(i, cpu, r). cpu mod NCPU = c) (take (Suc (length (answered es))) es))) \<and>
    add_hists (wakee_hist s) ! c = int (length (filter (\<lambda>(i, cpu, r). r = Some (of_nat c)) (answered es)))"
proof -
  have in_n: "\<forall>(i, x)\<in>set es. i < n" unfolding es_def by (rule exchanges_wf)
  have wf: "wake_wf n s"
  proof -
    have "wake_wf n (wake_loop xs u)" if "wake_wf n u" "\<forall>(i, x)\<in>set xs. i < n" for xs u
      using that by (induction xs u rule: wake_loop.induct) (auto simp: wake_wf_steps split: option.split)
    then show ?thesis using in_n wake_begin_wf unfolding s_def by blast
  qed
  have k: "wakee_hist s ! k ! c = int (length (filter (\<lambda>(i, cpu, r). i = k \<and> r = Some (of_nat c)) (answered es)))" if "k < n" for k
    using wakee_counts [OF wake_begin_wf in_n c that] that c unfolding s_def by (simp add: wake_begin_def)
  have w: "waker_hist s ! c = int (length (filter (\<lambda>(i, cpu, r). cpu mod NCPU = c) (take (Suc (length (answered es))) es)))"
    using waker_counts [OF wake_begin_wf in_n c] c unfolding s_def by (simp add: wake_begin_def)
  have "add_hists (wakee_hist s) ! c = (\<Sum>k\<leftarrow>[0..<n]. wakee_hist s ! k ! c)"
  proof -
    have "map (\<lambda>k. wakee_hist s ! k ! c) [0..<n] = map (\<lambda>h. h ! c) (wakee_hist s)"
      using wf by (auto simp: wake_wf_def list_eq_iff_nth_eq)
    then show ?thesis using wf c by (simp add: add_hists_sum wake_wf_def)
  qed
  also have "\<dots> = (\<Sum>k\<leftarrow>[0..<n]. int (length (filter (\<lambda>(i, cpu, r). i = k \<and> r = Some (of_nat c)) (answered es))))"
    using k by (intro arg_cong [where f = sum_list] map_cong) auto
  also have "\<dots> = int (length (filter (\<lambda>(i, cpu, r). r = Some (of_nat c)) (answered es)))"
  proof -
    have "(\<Sum>k\<leftarrow>[0..<n]. int (length (filter (\<lambda>(i, cpu, r). i = k \<and> r = Some (of_nat c)) xs))) =
        int (length (filter (\<lambda>(i, cpu, r). r = Some (of_nat c)) xs))" if "\<forall>(i, x)\<in>set xs. i < n" for xs :: "(nat \<times> nat \<times> u8 option) list"
      using that
    proof (induction xs)
      case (Cons x xs)
      obtain i cpu r where x: "x = (i, cpu, r)" by (cases x)
      with Cons.prems have "(\<Sum>k\<leftarrow>[0..<n]. of_bool (i = k \<and> r = Some (of_nat c))) = (of_bool (r = Some (of_nat c)) :: int)"
        by (cases "r = Some (of_nat c)") (auto simp: interv_sum_list_conv_sum_set_nat)
      moreover have "(\<Sum>k\<leftarrow>[0..<n]. int (length (filter (\<lambda>(i, cpu, r). i = k \<and> r = Some (of_nat c)) (x # xs)))) =
          (\<Sum>k\<leftarrow>[0..<n]. of_bool (i = k \<and> r = Some (of_nat c)) + int (length (filter (\<lambda>(i, cpu, r). i = k \<and> r = Some (of_nat c)) xs)))"
        by (intro arg_cong [where f = sum_list] map_cong) (auto simp: x)
      ultimately show ?case using Cons by (simp add: sum_list_addf x)
    qed simp
    moreover have "\<forall>(i, x)\<in>set (answered es). i < n" using in_n by (auto simp: answered_def dest!: set_takeWhileD)
    ultimately show ?thesis by blast
  qed
  finally show ?thesis using k w by blast
qed

end
