(* ===== verification/Lse_Bench.thy ===== *)
theory Lse_Bench
  imports Lock_Bench
begin

section \<open>lse_bench.c: threads that add atomically until they are told to stop\<close>

text \<open>
  Every thread adds one to the shared counter, or to a slot of its own, until it sees the stop
  flag; only then does it publish how often it did. The main thread creates the threads, sleeps,
  raises the flag, joins them in order and prints the sum. Each access to a shared variable is an
  event. Elapsed times and the rate computed from them are left out.
\<close>

datatype lse_pc =
    Lse_none \<comment> \<open>not created\<close>
  | Lse_test u64 \<comment> \<open>at \<open>while (!stop_flag)\<close> with its count \<open>n\<close>\<close>
  | Lse_add u64
  | Lse_added u64
  | Lse_leave u64
  | Lse_gone

datatype lse_place = Lse_create nat | Lse_sleep | Lse_join nat | Lse_report

record lse =
  stop_flag :: bool
  shared_counter :: u64
  priv :: "nat \<Rightarrow> u64"
  per_thread_ops :: "nat \<Rightarrow> u64"
  lse_pcs :: "nat \<Rightarrow> lse_pc"
  lse_at :: lse_place

definition lse_go :: "nat \<Rightarrow> lse_pc \<Rightarrow> lse \<Rightarrow> lse" where
  "lse_go i p s = s\<lparr>lse_pcs := (lse_pcs s)(i := p)\<rparr>"

text \<open>The CPU a thread binds itself to.\<close>

definition lse_cpu :: "int \<Rightarrow> nat \<Rightarrow> int" where
  "lse_cpu g_base_cpu i = g_base_cpu + int i mod 4"

definition fetch_add :: "int \<Rightarrow> nat \<Rightarrow> lse \<Rightarrow> lse" where
  "fetch_add g_mode i s = (if g_mode = 0 then s\<lparr>shared_counter := shared_counter s + 1\<rparr> else s\<lparr>priv := (priv s)(i := priv s i + 1)\<rparr>)"

definition atomic_worker :: "int \<Rightarrow> nat \<Rightarrow> lse \<Rightarrow> lse option" where
  "atomic_worker g_mode i s = (case lse_pcs s i of
       Lse_test n \<Rightarrow> Some (lse_go i (if stop_flag s then Lse_leave n else Lse_add n) s)
     | Lse_add n \<Rightarrow> Some (lse_go i (Lse_added n) (fetch_add g_mode i s))
     | Lse_added n \<Rightarrow> Some (lse_go i (Lse_test (n + 1)) s)
     | Lse_leave n \<Rightarrow> Some (lse_go i Lse_gone (s\<lparr>per_thread_ops := (per_thread_ops s)(i := n)\<rparr>))
     | _ \<Rightarrow> None)"

definition lse_main_turn :: "nat \<Rightarrow> lse \<Rightarrow> lse option" where
  "lse_main_turn nthr s = (case lse_at s of
       Lse_create k \<Rightarrow> Some (if k < nthr then (lse_go k (Lse_test 0) s)\<lparr>lse_at := Lse_create (k + 1)\<rparr> else s\<lparr>lse_at := Lse_sleep\<rparr>)
     | Lse_sleep \<Rightarrow> Some (s\<lparr>stop_flag := True, lse_at := Lse_join 0\<rparr>)
     | Lse_join k \<Rightarrow> if k < nthr then if lse_pcs s k = Lse_gone then Some (s\<lparr>lse_at := Lse_join (k + 1)\<rparr>) else None
                   else Some (s\<lparr>lse_at := Lse_report\<rparr>)
     | Lse_report \<Rightarrow> None)"

datatype lse_event = Lse_worker nat | Lse_main

definition lse_step :: "int \<Rightarrow> nat \<Rightarrow> lse_event \<Rightarrow> lse \<Rightarrow> lse option" where
  "lse_step g_mode nthr e s = (case e of Lse_worker i \<Rightarrow> atomic_worker g_mode i s | Lse_main \<Rightarrow> lse_main_turn nthr s)"

text \<open>The start of \<open>run\<close>: the private slots keep what earlier runs left in them.\<close>

definition lse_begin :: "lse \<Rightarrow> lse" where
  "lse_begin s = s\<lparr>stop_flag := False, per_thread_ops := (\<lambda>_. 0), shared_counter := 0, lse_pcs := (\<lambda>_. Lse_none), lse_at := Lse_create 0\<rparr>"

definition lse_total :: "nat \<Rightarrow> lse \<Rightarrow> u64" where
  "lse_total nthr s = sum_of (per_thread_ops s) nthr"

definition lse_run :: "int \<Rightarrow> nat \<Rightarrow> string \<Rightarrow> lse_event list \<Rightarrow> lse \<Rightarrow> (lse \<times> line) option" where
  "lse_run g_mode nthr tag es s = (case run_events (lse_step g_mode nthr) es (lse_begin s) of
       Some t \<Rightarrow> if lse_at t = Lse_report then Some (t, (''%-28s %2d: %10ld'', [S tag, I (int nthr), U (lse_total nthr t)])) else None
     | None \<Rightarrow> None)"

definition lse_threads :: "string list \<Rightarrow> int" where
  "lse_threads args = (let n = (if 1 < length args then atoi (args ! 1) else 4) in if 64 < n then 64 else n)"

text \<open>\<open>main\<close> for the schedules of its three runs; \<open>lse\<close> tells whether the compiler had the atomics.\<close>

definition lse_main :: "bool \<Rightarrow> int \<Rightarrow> string list \<Rightarrow> (nat \<Rightarrow> lse_event list) \<Rightarrow> lse \<Rightarrow> (lse \<times> line list) option" where
  "lse_main feature online args sched s0 =
     (let nthr = lse_threads args; base = (if 3 < length args then atoi (args ! 3) else 0) in
      Option.bind (lse_run 0 1 ''shared, alone'' (sched 0) s0) (\<lambda>(s1, l1).
      Option.bind (lse_run 0 (nat nthr) ''shared'' (sched 1) s1) (\<lambda>(s2, l2).
      Option.bind (lse_run 1 (nat nthr) ''private'' (sched 2) s2) (\<lambda>(s3, l3).
        Some (s3, [(''target: %s'', [S (if feature then ''LSE'' else ''LL/SC'')]),
          (''online %ld, CPU%d~CPU%d (%s)'', [I online, I base, I (base + 3), S (if 4 \<le> base then ''Cortex-A76'' else ''Cortex-A55'')]),
          l1, l2, l3])))))"

section \<open>Lemmas\<close>

text \<open>The additions thread \<open>i\<close> has done.\<close>

fun lse_done :: "lse_pc \<Rightarrow> u64 \<Rightarrow> u64" where
  "lse_done Lse_none k = 0" | "lse_done (Lse_test n) k = n" | "lse_done (Lse_add n) k = n" | "lse_done (Lse_added n) k = n + 1"
| "lse_done (Lse_leave n) k = n" | "lse_done Lse_gone k = k"

definition lse_share :: "lse \<Rightarrow> nat \<Rightarrow> u64" where
  "lse_share s i = lse_done (lse_pcs s i) (per_thread_ops s i)"

definition stage_ok :: "nat \<Rightarrow> lse \<Rightarrow> bool" where
  "stage_ok nthr s \<longleftrightarrow> (case lse_at s of
       Lse_create k \<Rightarrow> k \<le> nthr \<and> (\<forall>i. lse_pcs s i = Lse_none \<longleftrightarrow> k \<le> i) \<and> \<not> stop_flag s
     | Lse_sleep \<Rightarrow> (\<forall>i. lse_pcs s i = Lse_none \<longleftrightarrow> nthr \<le> i) \<and> \<not> stop_flag s
     | Lse_join k \<Rightarrow> k \<le> nthr \<and> (\<forall>i. lse_pcs s i = Lse_none \<longleftrightarrow> nthr \<le> i) \<and> (\<forall>i<k. lse_pcs s i = Lse_gone) \<and> stop_flag s
     | Lse_report \<Rightarrow> (\<forall>i<nthr. lse_pcs s i = Lse_gone) \<and> (\<forall>i. lse_pcs s i = Lse_none \<longleftrightarrow> nthr \<le> i) \<and> stop_flag s)"

definition lse_ok :: "int \<Rightarrow> nat \<Rightarrow> (nat \<Rightarrow> u64) \<Rightarrow> lse \<Rightarrow> bool" where
  "lse_ok g_mode nthr p0 s \<longleftrightarrow> stage_ok nthr s \<and>
     (if g_mode = 0 then shared_counter s = (\<Sum>i<nthr. lse_share s i) \<and> priv s = p0
      else shared_counter s = 0 \<and> (\<forall>i<nthr. priv s i = p0 i + lse_share s i))"

lemmas lse_defs = atomic_worker_def lse_go_def fetch_add_def lse_share_def

lemma workerE:
  assumes "atomic_worker g_mode i s = Some t"
  obtains (test) n where "lse_pcs s i = Lse_test n" "t = lse_go i (if stop_flag s then Lse_leave n else Lse_add n) s"
    | (add) n where "lse_pcs s i = Lse_add n" "t = lse_go i (Lse_added n) (fetch_add g_mode i s)"
    | (added) n where "lse_pcs s i = Lse_added n" "t = lse_go i (Lse_test (n + 1)) s"
    | (leave) n where "lse_pcs s i = Lse_leave n" "t = lse_go i Lse_gone (s\<lparr>per_thread_ops := (per_thread_ops s)(i := n)\<rparr>)"
  using assms that by (cases "lse_pcs s i") (simp_all add: atomic_worker_def)

lemma worker_others:
  assumes "atomic_worker g_mode i s = Some t"
  shows "lse_at t = lse_at s" "stop_flag t = stop_flag s"
    "j \<noteq> i \<Longrightarrow> lse_pcs t j = lse_pcs s j \<and> lse_share t j = lse_share s j \<and> priv t j = priv s j"
  using assms by (cases rule: workerE; simp add: lse_go_def fetch_add_def lse_share_def)+

lemma worker_own:
  assumes "atomic_worker g_mode i s = Some t"
  shows "lse_pcs s i \<noteq> Lse_none" "lse_pcs s i \<noteq> Lse_gone" "lse_pcs t i \<noteq> Lse_none"
    "if g_mode = 0 then shared_counter t = shared_counter s + (lse_share t i - lse_share s i) \<and> priv t = priv s
     else shared_counter t = shared_counter s \<and> priv t i = priv s i + (lse_share t i - lse_share s i)"
  using assms by (cases rule: workerE; simp add: lse_go_def fetch_add_def lse_share_def)+

lemma stage_worker:
  assumes "stage_ok nthr s" "atomic_worker g_mode i s = Some t"
  shows "stage_ok nthr t"
proof -
  note o = worker_others [OF assms(2)] worker_own [OF assms(2)]
  have n: "lse_pcs t j = Lse_none \<longleftrightarrow> lse_pcs s j = Lse_none" for j using o by (cases "j = i") simp_all
  have g: "lse_pcs s j = Lse_gone \<Longrightarrow> lse_pcs t j = Lse_gone" for j using o by (cases "j = i") simp_all
  show ?thesis using assms(1) by (cases "lse_at s") (simp_all add: stage_ok_def o(1,2) n g)
qed

lemma stage_below: "stage_ok nthr s \<Longrightarrow> lse_pcs s i \<noteq> Lse_none \<Longrightarrow> i < nthr"
  by (cases "lse_at s") (auto simp: stage_ok_def not_less)

lemma lse_ok_worker:
  assumes "lse_ok g_mode nthr p0 s" "atomic_worker g_mode i s = Some t"
  shows "lse_ok g_mode nthr p0 t"
proof -
  note o = worker_others [OF assms(2)] and own = worker_own [OF assms(2)]
  have st: "stage_ok nthr s" using assms(1) by (simp add: lse_ok_def)
  have i: "i < nthr" by (rule stage_below [OF st own(1)])
  have s2: "(\<Sum>j<nthr. lse_share t j) = (\<Sum>j<nthr. lse_share s j) + (lse_share t i - lse_share s i)"
    using i o(3) by (intro sum_point) simp_all
  have st': "stage_ok nthr t" by (rule stage_worker [OF st assms(2)])
  show ?thesis
  proof (cases "g_mode = 0")
    case True
    then have "shared_counter s = (\<Sum>j<nthr. lse_share s j)" "priv s = p0" using assms(1) by (simp_all add: lse_ok_def)
    then show ?thesis using True own(4) st' s2 by (simp add: lse_ok_def)
  next
    case False
    then have "shared_counter s = 0" "\<forall>j<nthr. priv s j = p0 j + lse_share s j" using assms(1) by (simp_all add: lse_ok_def)
    moreover have "priv t j = p0 j + lse_share t j" if "j < nthr" "priv s j = p0 j + lse_share s j" for j
      using that False own(4) o(3) [of j] by (cases "j = i") simp_all
    ultimately show ?thesis using False own(4) st' by (simp add: lse_ok_def)
  qed
qed

lemma mainE:
  assumes "lse_main_turn nthr s = Some t"
  obtains (create) k where "lse_at s = Lse_create k" "k < nthr" "t = (lse_go k (Lse_test 0) s)\<lparr>lse_at := Lse_create (k + 1)\<rparr>"
    | (created) k where "lse_at s = Lse_create k" "\<not> k < nthr" "t = s\<lparr>lse_at := Lse_sleep\<rparr>"
    | (sleep) "lse_at s = Lse_sleep" "t = s\<lparr>stop_flag := True, lse_at := Lse_join 0\<rparr>"
    | (join) k where "lse_at s = Lse_join k" "k < nthr" "lse_pcs s k = Lse_gone" "t = s\<lparr>lse_at := Lse_join (k + 1)\<rparr>"
    | (joined) k where "lse_at s = Lse_join k" "\<not> k < nthr" "t = s\<lparr>lse_at := Lse_report\<rparr>"
  using assms that by (cases "lse_at s") (simp_all add: lse_main_turn_def split: if_splits)

lemma lse_ok_main:
  assumes ok: "lse_ok g_mode nthr p0 s" and m: "lse_main_turn nthr s = Some t"
  shows "lse_ok g_mode nthr p0 t"
proof -
  have st: "stage_ok nthr s" using ok by (simp add: lse_ok_def)
  have f: "lse_share t j = lse_share s j \<and> priv t = priv s \<and> shared_counter t = shared_counter s" for j
    using m
  proof (cases rule: mainE)
    case (create k)
    moreover have "lse_pcs s k = Lse_none" using st create by (simp add: stage_ok_def)
    ultimately show ?thesis by (cases "j = k") (simp_all add: lse_share_def lse_go_def)
  qed (simp_all add: lse_share_def)
  have "stage_ok nthr t"
    using m
  proof (cases rule: mainE)
    case (create k)
    have n: "lse_pcs s i = Lse_none \<longleftrightarrow> k \<le> i" and f: "\<not> stop_flag s" for i using st create(1) by (simp_all add: stage_ok_def)
    have "lse_pcs t i = Lse_none \<longleftrightarrow> k + 1 \<le> i" for i
      using n [of i] create(3) by (cases "i = k") (simp_all add: lse_go_def, arith?)
    then show ?thesis using create f by (simp add: stage_ok_def lse_go_def)
  next
    case (join k)
    then show ?thesis using st by (simp add: stage_ok_def less_Suc_eq)
  qed (use st in \<open>auto simp: stage_ok_def\<close>)
  then show ?thesis using ok by (simp add: lse_ok_def f)
qed

lemma lse_ok_begin: "lse_ok g_mode nthr (priv s) (lse_begin s)"
  by (simp add: lse_ok_def stage_ok_def lse_begin_def lse_share_def)

subsection \<open>Winding down\<close>

fun lse_left :: "lse_pc \<Rightarrow> nat" where
  "lse_left Lse_none = 5" | "lse_left (Lse_add n) = 4" | "lse_left (Lse_added n) = 3" | "lse_left (Lse_test n) = 2" | "lse_left (Lse_leave n) = 1"
| "lse_left Lse_gone = 0"

definition main_left :: "nat \<Rightarrow> lse_place \<Rightarrow> nat" where
  "main_left nthr m = (case m of Lse_create k \<Rightarrow> 2 * nthr + 3 - k | Lse_sleep \<Rightarrow> nthr + 2 | Lse_join k \<Rightarrow> nthr + 1 - k | Lse_report \<Rightarrow> 0)"

definition lse_rank :: "nat \<Rightarrow> lse \<Rightarrow> nat" where
  "lse_rank nthr s = main_left nthr (lse_at s) + (\<Sum>i<nthr. lse_left (lse_pcs s i))"

lemma left_point:
  assumes "i < nthr" "\<And>j. j \<noteq> i \<Longrightarrow> lse_pcs t j = lse_pcs s j" "lse_left (lse_pcs t i) < lse_left (lse_pcs s i)"
  shows "(\<Sum>i<nthr. lse_left (lse_pcs t i)) < (\<Sum>i<nthr. lse_left (lse_pcs s i))"
  using assms by (intro sum_strict_mono_ex1) (auto simp: le_less, metis less_imp_le order_refl)

lemma main_lowers:
  assumes "stage_ok nthr s" "lse_main_turn nthr s = Some t"
  shows "lse_rank nthr t < lse_rank nthr s"
  using assms(2)
proof (cases rule: mainE)
  case (create k)
  have "lse_pcs s k = Lse_none" using assms(1) create(1) by (simp add: stage_ok_def)
  then have "(\<Sum>i<nthr. lse_left (lse_pcs t i)) < (\<Sum>i<nthr. lse_left (lse_pcs s i))"
    using create by (intro left_point [where i = k]) (auto simp: lse_go_def)
  then show ?thesis using create by (simp add: lse_rank_def main_left_def)
next
  case (created k)
  then show ?thesis using assms(1) by (simp add: lse_rank_def main_left_def stage_ok_def)
next
  case (joined k)
  then show ?thesis using assms(1) by (simp add: lse_rank_def main_left_def stage_ok_def)
next
  case (join k)
  then show ?thesis by (simp add: lse_rank_def main_left_def)
qed (simp_all add: lse_rank_def main_left_def)

lemma worker_lowers:
  assumes "stage_ok nthr s" "stop_flag s" "lse_pcs s i \<noteq> Lse_gone" "i < nthr" "lse_pcs s i \<noteq> Lse_none"
  shows "\<exists>t. atomic_worker g_mode i s = Some t \<and> lse_rank nthr t < lse_rank nthr s"
proof -
  obtain t where t: "atomic_worker g_mode i s = Some t"
    using assms(3,5) by (cases "lse_pcs s i") (simp_all add: atomic_worker_def)
  note o = worker_others [OF t]
  have "lse_left (lse_pcs t i) < lse_left (lse_pcs s i)"
    using t assms(2) by (cases rule: workerE) (simp_all add: lse_go_def)
  then have "(\<Sum>i<nthr. lse_left (lse_pcs t i)) < (\<Sum>i<nthr. lse_left (lse_pcs s i))"
    using o(3) by (intro left_point [OF assms(4)]) simp_all
  then show ?thesis using t o(1) by (auto simp: lse_rank_def)
qed

interpretation lse: winding_down "\<lambda>s. \<exists>s0. s = lse_begin s0 \<and> priv s0 = p0" "by_event (lse_step g_mode nthr)" "lse_ok g_mode nthr p0"
    "\<lambda>s. lse_at s = Lse_report" "lse_rank nthr" for g_mode nthr p0
proof (unfold_locales, goal_cases)
  case (1 s)
  then show ?case using lse_ok_begin by blast
next
  case (2 s t)
  then obtain e where e: "lse_step g_mode nthr e s = Some t" unfolding by_event_def by blast
  show ?case
  proof (cases e)
    case (Lse_worker i)
    then show ?thesis using e lse_ok_worker [OF 2(1)] by (simp add: lse_step_def)
  next
    case Lse_main
    then show ?thesis using e lse_ok_main [OF 2(1)] by (simp add: lse_step_def)
  qed
next
  case (3 s)
  have st: "stage_ok nthr s" using 3(1) by (simp add: lse_ok_def)
  show ?case
  proof (cases "lse_main_turn nthr s")
    case (Some t)
    then have "lse_step g_mode nthr Lse_main s = Some t" by (simp add: lse_step_def)
    then show ?thesis using main_lowers [OF st Some] unfolding by_event_def by blast
  next
    case None
    then obtain k where k: "lse_at s = Lse_join k" "k < nthr" "lse_pcs s k \<noteq> Lse_gone"
      using 3(2) by (cases "lse_at s") (auto simp: lse_main_turn_def split: if_splits)
    with st have "stop_flag s" "lse_pcs s k \<noteq> Lse_none" by (auto simp: stage_ok_def)
    from worker_lowers [OF st this(1) k(3,2) this(2)] obtain t where
      t: "atomic_worker g_mode k s = Some t" "lse_rank nthr t < lse_rank nthr s" by blast
    then have "lse_step g_mode nthr (Lse_worker k) s = Some t" by (simp add: lse_step_def)
    then show ?thesis using t(2) unfolding by_event_def by blast
  qed
qed

text \<open>
  however the threads interleave, the total a run prints is the number of atomic additions it
  did - the shared counter, or the sum by which the private slots have grown - and from every
  reachable state the run can be brought to its report: the flag stops every thread.
\<close>

theorem lse_total_exact:
  assumes "run_events (lse_step g_mode nthr) es (lse_begin s0) = Some s"
  shows "(lse_at s = Lse_report \<longrightarrow>
      lse_total nthr s = (if g_mode = 0 then shared_counter s else (\<Sum>i<nthr. priv s i - priv s0 i))) \<and>
    (\<exists>es' t. run_events (lse_step g_mode nthr) es' s = Some t \<and> lse_at t = Lse_report)"
proof
  have reach: "(by_event (lse_step g_mode nthr))\<^sup>*\<^sup>* (lse_begin s0) s" unfolding run_events_steps [symmetric] using assms by (rule exI)
  have ok: "lse_ok g_mode nthr (priv s0) s" using lse.inv_reach [OF _ reach, of "priv s0"] by blast
  show "lse_at s = Lse_report \<longrightarrow> lse_total nthr s = (if g_mode = 0 then shared_counter s else (\<Sum>i<nthr. priv s i - priv s0 i))"
  proof
    assume "lse_at s = Lse_report"
    then have "lse_share s i = per_thread_ops s i" if "i < nthr" for i
      using ok that by (simp add: lse_ok_def stage_ok_def lse_share_def)
    then have "lse_total nthr s = (\<Sum>i<nthr. lse_share s i)" unfolding lse_total_def sum_of_eq by simp
    also have "\<dots> = (if g_mode = 0 then shared_counter s else (\<Sum>i<nthr. priv s i - priv s0 i))"
      using ok by (simp add: lse_ok_def)
    finally show "lse_total nthr s = (if g_mode = 0 then shared_counter s else (\<Sum>i<nthr. priv s i - priv s0 i))" .
  qed
  obtain t where "(by_event (lse_step g_mode nthr))\<^sup>*\<^sup>* s t" "lse_at t = Lse_report"
    using lse.reach_over [OF _ reach, of "priv s0"] by blast
  then show "\<exists>es' t. run_events (lse_step g_mode nthr) es' s = Some t \<and> lse_at t = Lse_report"
    unfolding run_events_steps [symmetric] by blast
qed

definition idle_lse :: lse where
  "idle_lse = \<lparr>stop_flag = True, shared_counter = 7, priv = (\<lambda>i. 5), per_thread_ops = (\<lambda>i. 9), lse_pcs = (\<lambda>i. Lse_gone), lse_at = Lse_report\<rparr>"

definition one_worker :: "lse_event list" where
  "one_worker = [Lse_main, Lse_worker 0, Lse_worker 0, Lse_worker 0, Lse_main, Lse_main, Lse_worker 0, Lse_worker 0, Lse_main, Lse_main]"

lemma one_worker_run: "\<exists>s. run_events (lse_step 1 1) one_worker (lse_begin idle_lse) = Some s \<and> lse_at s = Lse_report \<and> priv s 0 = 6"
  by (simp add: one_worker_def lse_begin_def idle_lse_def lse_step_def lse_main_turn_def atomic_worker_def lse_go_def fetch_add_def)

lemma lse_total_exact_witness:
  "\<exists>s. run_events (lse_step 1 1) one_worker (lse_begin idle_lse) = Some s \<and> lse_total 1 s = 1"
proof -
  obtain s where s: "run_events (lse_step 1 1) one_worker (lse_begin idle_lse) = Some s" "lse_at s = Lse_report" "priv s 0 = 6"
    using one_worker_run by blast
  then show ?thesis using lse_total_exact [OF s(1)] by (simp add: idle_lse_def)
qed

end
