(* ===== verification/Frames.thy ===== *)
theory Frames
  imports Kernel_Scan
begin

section \<open>arm64_frame.c, x86_frame.c: where the frames of a call chain lie\<close>

text \<open>
  Both programs call \<open>main\<close>, \<open>func1\<close>, \<open>func2\<close>, print where each frame lies and then dump the stack
  from the innermost stack pointer to the outermost frame, naming the words they know. What the
  compiler makes of the functions - frame and stack pointers, addresses of locals, the contents of
  the stack - is a parameter, a \<open>frame_view\<close> for each function.
\<close>

record frame_view =
  fv_fp :: u64
  fv_sp :: u64
  fv_local :: "u64 list" \<comment> \<open>addresses of the locals printed\<close>
  fv_mem :: memory \<comment> \<open>memory when the function prints\<close>

text \<open>
  \<open>for (p = stk; p <= hi; p += 8)\<close>: \<open>p\<close> may wrap, so a loop that does not end is \<open>None\<close>.
\<close>

partial_function (option) stack_rows :: "(u64 \<Rightarrow> line) \<Rightarrow> u64 \<Rightarrow> u64 \<Rightarrow> line list option" where
  "stack_rows row hi p = (if p \<le> hi then Option.bind (stack_rows row hi (p + 8)) (\<lambda>rest. Some (row p # rest)) else Some [])"

definition signed64 :: "u64 \<Rightarrow> val" where
  "signed64 w = I (sint w)"

subsection \<open>arm64_frame.c\<close>

record arm_frames =
  af_main :: frame_view
  af_func1 :: frame_view
  af_func2 :: frame_view
  af_small :: frame_view
  af_big :: frame_view
  af_vla :: "frame_view \<times> frame_view" \<comment> \<open>before and after the array is made\<close>
  leaf_sp :: u64

definition show_frame :: "string \<Rightarrow> frame_view \<Rightarrow> line" where
  "show_frame who f = (''%-14s x29=0x%-14lx sp=0x%-14lx x29-sp=%-6ld [x29]=0x%-14lx [x29+8]=LR=0x%lx'',
     [S who, U (fv_fp f), U (fv_sp f), signed64 (fv_fp f - fv_sp f), U (load64 (fv_mem f) (fv_fp f)), U (load64 (fv_mem f) (fv_fp f + 8))])"

text \<open>The functions return a \<open>long\<close>; a \<open>char\<close> is unsigned on this machine.\<close>

definition leaf :: "u64 \<Rightarrow> u64 \<Rightarrow> u64" where
  "leaf a b = a * b"

definition small_frame :: "arm_frames \<Rightarrow> u64 \<Rightarrow> line list \<times> u64" where
  "small_frame e a = (let f = af_small e in
     ([show_frame ''small_frame'' f, (''%-14s sp=0x%-14lx 0x%lx %s'',
        [S ''leaf'', U (leaf_sp e), U (fv_sp f), S (if leaf_sp e = fv_sp f then ''same'' else ''different'')])], leaf a 2))"

definition big_frame :: "arm_frames \<Rightarrow> u64 \<Rightarrow> line list \<times> u64" where
  "big_frame e a = (let f = af_big e; buf = hd (fv_local f); (ls, r) = small_frame e (ucast (ucast a :: u8)) in
     ([show_frame ''big_frame'' f, (''%-14s &buf[0]=%p x29%+ld'', [S ''big_frame'', U buf, signed64 (buf - fv_fp f)])] @ ls, r))"

definition vla_frame :: "arm_frames \<Rightarrow> u64 \<Rightarrow> line list \<times> u64" where
  "vla_frame e n = (let (f1, f2) = af_vla e; (ls, r) = big_frame e (0 + n) in
     ((''%-14s x29=0x%lx sp=0x%lx x29=0x%lx sp=0x%lx %ld'',
        [S ''vla_frame'', U (fv_fp f1), U (fv_sp f1), U (fv_fp f2), U (fv_sp f2), signed64 (fv_sp f1 - fv_sp f2)]) # ls, r))"

definition arm_tag :: "u64 \<Rightarrow> u64 \<Rightarrow> u64 \<Rightarrow> u64 \<Rightarrow> string" where
  "arm_tag fp0 fp1 fp2 p =
     (if p = fp2 then ''<= func2 P_FP'' else if p = fp2 + 8 then ''<= func2 P_LR''
      else if p = fp1 then ''<= func1 P_FP'' else if p = fp1 + 8 then ''<= func1 P_LR''
      else if p = fp0 then ''<= main P_FP'' else if p = fp0 + 8 then ''<= main P_LR'' else '''')"

definition dump_row :: "memory \<Rightarrow> (u64 \<Rightarrow> string) \<Rightarrow> u64 \<Rightarrow> line" where
  "dump_row m tag p = (''0x%lx  0x%016lx  %s'', [U p, U (load64 m p), S (tag p)])"

definition arm_func2 :: "arm_frames \<Rightarrow> u64 \<Rightarrow> u64 \<Rightarrow> (line list \<times> u64) option" where
  "arm_func2 e a1 a8 = (let f = af_func2 e; fp0 = fv_fp (af_main e); fp1 = fv_fp (af_func1 e); fp2 = fv_fp f; l = hd (fv_local f) in
     map_option (\<lambda>rows. ([show_frame ''func2'' f, (''%-14s &local2=%p x29%+ld'', [S ''func2'', U l, signed64 (l - fp2)]), (''bt -f'', [])]
         @ rows @ [(''FP: func2(0x%lx) func1(0x%lx) main(0x%lx)'', [U fp2, U fp1, U fp0]),
           (''func2 = %ld func1 = %ld'', [signed64 (fp1 - fp2), signed64 (fp0 - fp1)])], a1 + a8 + 0x2222222222222222))
       (stack_rows (dump_row (fv_mem f) (arm_tag fp0 fp1 fp2)) (fp0 + 8) (fv_sp f)))"

definition arm_func1 :: "arm_frames \<Rightarrow> u64 \<Rightarrow> (line list \<times> u64) option" where
  "arm_func1 e a = (let f = af_func1 e; l = hd (fv_local f) in
     map_option (\<lambda>(ls, r). ([show_frame ''func1'' f, (''%-14s &local1=%p x29%+ld'', [S ''func1'', U l, signed64 (l - fv_fp f)])] @ ls, r))
       (arm_func2 e a 8))"

definition arm_frame_main :: "arm_frames \<Rightarrow> line list option" where
  "arm_frame_main e = map_option (\<lambda>(ls, r). (''Q2'', []) # fst (vla_frame e 64) @ [(''Q1'', []), show_frame ''main'' (af_main e)]
     @ ls @ [(''func2() = 0x%lx'', [U r])]) (arm_func1 e 1)"

subsection \<open>x86_frame.c\<close>

text \<open>The program compiles for both machines; \<open>x86\<close> tells which.\<close>

record x86_frames =
  x86 :: bool
  xf_main :: frame_view
  xf_func1 :: frame_view
  xf_func2 :: frame_view
  xf_ret :: "nat \<Rightarrow> u64" \<comment> \<open>\<open>__builtin_return_address(0)\<close>\<close>

definition FPREG :: "x86_frames \<Rightarrow> string" where
  "FPREG e = (if x86 e then ''RBP'' else ''x29'')"

definition DUMP_FRAME :: "x86_frames \<Rightarrow> string \<Rightarrow> frame_view \<Rightarrow> u64 \<Rightarrow> line list" where
  "DUMP_FRAME e name f r = [(''%-6s %s=0x%lx [%s]=0x%lx [%s+8]=0x%lx 0x%lx'',
      [S name, S (FPREG e), U (fv_fp f), S (FPREG e), U (load64 (fv_mem f) (fv_fp f)), S (FPREG e), U (fv_fp f + 8), U (load64 (fv_mem f) (fv_fp f + 8))]),
    (''%-6s __builtin_return_address(0)=0x%lx'', [S name, U r])]"

definition off_str :: "x86_frames \<Rightarrow> u64 \<Rightarrow> u64 \<Rightarrow> string" where
  "off_str e fp p = (let d = p - fp in
     if sint d < 0 then FPREG e @ ''-0x'' @ show_hex (unat (- d)) else FPREG e @ ''+0x'' @ show_hex (unat d))"

definition local_line :: "x86_frames \<Rightarrow> string \<Rightarrow> frame_view \<Rightarrow> nat \<Rightarrow> line" where
  "local_line e what f i = (what, [U (fv_local f ! i), S (off_str e (fv_fp f) (fv_local f ! i))])"

definition x86_tag :: "bool \<Rightarrow> u64 \<Rightarrow> u64 \<Rightarrow> u64 \<Rightarrow> u64 \<Rightarrow> string" where
  "x86_tag b rbp0 rbp1 rbp2 p =
     (if p = rbp2 then ''<= func2 FP'' else if p = rbp2 + 8 then ''<= func2 return''
      else if b \<and> p = rbp2 + 0x10 then ''<= a7'' else if b \<and> p = rbp2 + 0x18 then ''<= a8''
      else if p = rbp1 then ''<= func1 FP'' else if p = rbp1 + 8 then ''<= func1 return''
      else if p = rbp0 then ''<= main FP'' else if p = rbp0 + 8 then ''<= main return''
      else if rbp2 < p \<and> p < rbp1 then ''   func1 locals'' else if rbp1 < p \<and> p < rbp0 then ''   main locals'' else ''   func2 locals'')"

definition dump_stack_raw :: "x86_frames \<Rightarrow> line list option" where
  "dump_stack_raw e = (let f = xf_func2 e; stk = fv_sp f; rbp0 = fv_fp (xf_main e); rbp1 = fv_fp (xf_func1 e); rbp2 = fv_fp f in
     map_option (\<lambda>rows. [(''bt -f'', []), (''head'', [])] @ rows
         @ [(''func2 = 0x%lx func1 = 0x%lx main = 0x%lx'', [U (rbp2 + 0x10 - stk), U (rbp1 + 0x10 - (rbp2 + 0x20)), U (rbp0 + 0x10 - (rbp1 + 0x10))])])
       (stack_rows (dump_row (fv_mem f) (x86_tag (x86 e) rbp0 rbp1 rbp2)) (rbp0 + 8) stk))"

text \<open>The address of \<open>priv\<close> derived from the slot of the return address.\<close>

definition derived_lines :: "x86_frames \<Rightarrow> line list" where
  "derived_lines e = (let f = xf_func2 e; priv = fv_local f ! 0; ret_slot = fv_fp f + 8; delta = priv - fv_fp f; derived = ret_slot - 8 + delta in
     [(''Q10: priv = (0x%lx) - 0x8 %c 0x%lx = 0x%lx %s'',
        [U ret_slot, S (if sint delta < 0 then ''-'' else ''+''), U (if sint delta < 0 then - delta else delta), U derived,
         S (if derived = priv then ''match'' else ''no match'')]),
      (''Q10: name=%s i=%d mm=%p sem=%p'', [S ''benshushu'', I 10, U 0xdeadbeef00001000, U 0xdeadbeef00001078])])"

definition x86_func2 :: "x86_frames \<Rightarrow> u64 \<Rightarrow> u64 \<Rightarrow> u64 \<Rightarrow> (line list \<times> int) option" where
  "x86_func2 e a1 a7 a8 = (let f = xf_func2 e; rbp2 = fv_fp f in
     map_option (\<lambda>ls. ([(''==== func2 ===='', [])] @ DUMP_FRAME e ''func2'' f (xf_ret e 2)
         @ [(''func2 SP =0x%lx %s-SP = 0x%lx'', [U (fv_sp f), S (FPREG e), U (rbp2 - fv_sp f)]),
            local_line e ''func2 &priv'' f 0, local_line e ''func2 &local_x'' f 1, local_line e ''func2 &local_y'' f 2,
            (if x86 e then (''func2 a7=%ld RBP+0x10=0x%lx a8=%ld RBP+0x18=0x%lx'', [signed64 a7, U (rbp2 + 0x10), signed64 a8, U (rbp2 + 0x18)])
             else (''func2 ARM64 a7=%ld a8=%ld'', [signed64 a7, signed64 a8]))]
         @ derived_lines e @ ls, sint (ucast (a1 + a8 + 0xabcd) :: u32)))
       (dump_stack_raw e))"

definition x86_func1 :: "x86_frames \<Rightarrow> u64 \<Rightarrow> (line list \<times> int) option" where
  "x86_func1 e a = (let f = xf_func1 e in
     map_option (\<lambda>(ls, r). ([(''==== func1 ===='', [])] @ DUMP_FRAME e ''func1'' f (xf_ret e 1) @ [local_line e ''func1 &local_1'' f 0] @ ls, r))
       (x86_func2 e a 7 8))"

definition x86_frame_main :: "x86_frames \<Rightarrow> line list option" where
  "x86_frame_main e = (let f = xf_main e in
     map_option (\<lambda>(ls, r). [(''==== main ===='', [])] @ DUMP_FRAME e ''main'' f (xf_ret e 0) @ [local_line e ''main &local_m'' f 0] @ ls
         @ [(''func1() = %d'', [I r])])
       (x86_func1 e 1))"

section \<open>Lemmas\<close>

lemma eight_on: "unat (p + 8) = unat p + 8" if "p \<le> hi" "unat hi < 2 ^ 64 - 8" for p hi :: u64
proof -
  have "unat p + 8 < 2 ^ 64" using that by (simp add: word_le_nat_alt)
  then show ?thesis by (simp add: unat_word_ariths)
qed

lemma stack_rows_exact:
  assumes "unat hi < 2 ^ 64 - 8"
  shows "stack_rows row hi p = Some (map (\<lambda>i. row (p + of_nat (8 * i))) [0..<(unat hi + 8 - unat p) div 8])"
proof (induction "(unat hi + 8 - unat p) div 8" arbitrary: p)
  case 0
  then have "\<not> p \<le> hi" by (simp add: word_le_nat_alt)
  with 0 show ?case by (subst stack_rows.simps) simp
next
  case (Suc n)
  then have le: "p \<le> hi" by (cases "p \<le> hi") (auto simp: word_le_nat_alt)
  note w = eight_on [OF le assms]
  have "(unat hi + 8 - unat (p + 8)) div 8 = n" using Suc(2) le w by (simp add: word_le_nat_alt)
  with Suc(1) [of "p + 8"] have "stack_rows row hi (p + 8) = Some (map (\<lambda>i. row (p + 8 + of_nat (8 * i))) [0..<n])" by simp
  moreover have "[0..<Suc n] = 0 # map Suc [0..<n]" by (simp add: upt_conv_Cons map_Suc_upt del: upt_Suc)
  ultimately show ?case using le by (subst stack_rows.simps) (simp add: Suc(2) [symmetric] algebra_simps del: upt_Suc)
qed

text \<open>A stack from \<open>stk\<close> on: the frame records lie \<open>k2 < k1 < k0\<close> words above it.\<close>

definition chain_at :: "u64 \<Rightarrow> nat \<Rightarrow> nat \<Rightarrow> nat \<Rightarrow> u64 \<Rightarrow> u64 \<Rightarrow> u64 \<Rightarrow> bool" where
  "chain_at stk k0 k1 k2 fp0 fp1 fp2 \<longleftrightarrow> fp0 = stk + of_nat (8 * k0) \<and> fp1 = stk + of_nat (8 * k1) \<and> fp2 = stk + of_nat (8 * k2) \<and>
     k1 + 2 \<le> k0 \<and> unat stk + 8 * k0 + 16 < 2 ^ 64"

lemma slot_unat_at: "unat stk + 8 * i < 2 ^ 64 \<Longrightarrow> unat (stk + of_nat (8 * i)) = unat stk + 8 * i" for stk :: u64
  by (simp add: unat_word_ariths unat_of_nat take_bit_eq_mod)

lemma slot_eq:
  "unat stk + 8 * i < 2 ^ 64 \<Longrightarrow> unat stk + 8 * j < 2 ^ 64 \<Longrightarrow> stk + of_nat (8 * i) = stk + of_nat (8 * j) \<longleftrightarrow> i = j" for stk :: u64
  by (metis add_left_cancel mult_cancel1 slot_unat_at zero_neq_numeral)

lemma slot_next: "stk + of_nat (8 * i) + 8 = stk + of_nat (8 * (i + 1))" for stk :: u64
  by simp

lemma chain_rows:
  assumes "chain_at stk k0 k1 k2 fp0 fp1 fp2"
  shows "stack_rows row (fp0 + 8) stk = Some (map (\<lambda>i. row (stk + of_nat (8 * i))) [0..<k0 + 2])"
proof -
  have b: "unat stk + 8 * (k0 + 1) < 2 ^ 64" using assms by (simp add: chain_at_def)
  have "fp0 + 8 = stk + of_nat (8 * (k0 + 1))" using assms slot_next by (simp add: chain_at_def)
  then have u: "unat (fp0 + 8) = unat stk + 8 * (k0 + 1)" using slot_unat_at [OF b] by (simp only:)
  then have "unat (fp0 + 8) < 2 ^ 64 - 8" using assms by (simp add: chain_at_def)
  from stack_rows_exact [OF this] show ?thesis unfolding u by simp
qed

lemma filter_named:
  assumes "sorted is" "distinct is" "\<And>i. i < n \<Longrightarrow> P i \<longleftrightarrow> i \<in> set is" "\<forall>i\<in>set is. i < n"
  shows "filter P [0..<n] = is"
proof (rule sorted_distinct_set_unique)
  show "sorted (filter P [0..<n])" by (rule sorted_wrt_filter) simp
qed (use assms in auto)

text \<open>
  on any stack whose frame records lie in order, both dumps come to their end, show every word
  once from the stack pointer up, and name exactly the slots of the frame records - for x86 the two
  pushed arguments as well - each once and in ascending order.
\<close>

theorem dumps_name_every_slot:
  assumes ch: "chain_at stk k0 k1 k2 fp0 fp1 fp2" and sep: "k2 + (if b then 4 else 2) \<le> k1"
  defines "addrs \<equiv> map (\<lambda>i. stk + of_nat (8 * i)) [0..<k0 + 2]"
  shows "stack_rows row (fp0 + 8) stk = Some (map row addrs) \<and>
    map (\<lambda>p. (p, arm_tag fp0 fp1 fp2 p)) (filter (\<lambda>p. arm_tag fp0 fp1 fp2 p \<noteq> []) addrs) =
      [(fp2, ''<= func2 P_FP''), (fp2 + 8, ''<= func2 P_LR''), (fp1, ''<= func1 P_FP''), (fp1 + 8, ''<= func1 P_LR''),
       (fp0, ''<= main P_FP''), (fp0 + 8, ''<= main P_LR'')] \<and>
    map (\<lambda>p. (p, x86_tag b fp0 fp1 fp2 p)) (filter (\<lambda>p. hd (x86_tag b fp0 fp1 fp2 p) = CHR ''<'') addrs) =
      [(fp2, ''<= func2 FP''), (fp2 + 8, ''<= func2 return'')] @ (if b then [(fp2 + 16, ''<= a7''), (fp2 + 24, ''<= a8'')] else []) @
      [(fp1, ''<= func1 FP''), (fp1 + 8, ''<= func1 return''), (fp0, ''<= main FP''), (fp0 + 8, ''<= main return'')]"
proof -
  let ?a = "\<lambda>i. stk + of_nat (8 * i)"
  have k: "k2 + 2 \<le> k1" "b \<Longrightarrow> k2 + 4 \<le> k1" using sep by (auto split: if_splits)
  have fp: "fp0 = ?a k0" "fp1 = ?a k1" "fp2 = ?a k2" and k01: "k1 + 2 \<le> k0" and lim: "unat stk + 8 * (k0 + 1) < 2 ^ 64"
    using ch by (simp_all add: chain_at_def)
  have nx: "fp0 + 8 = ?a (k0 + 1)" "fp1 + 8 = ?a (k1 + 1)" "fp2 + 8 = ?a (k2 + 1)" "fp2 + 16 = ?a (k2 + 2)" "fp2 + 24 = ?a (k2 + 3)"
    by (simp_all add: fp)
  have eq: "?a i = ?a j \<longleftrightarrow> i = j" if "i \<le> k0 + 1" "j \<le> k0 + 1" for i j
    using slot_eq [of stk i j] lim that by simp
  have at: "?a i = fp2 \<longleftrightarrow> i = k2" "?a i = fp2 + 8 \<longleftrightarrow> i = k2 + 1" "?a i = fp2 + 16 \<longleftrightarrow> i = k2 + 2" "?a i = fp2 + 24 \<longleftrightarrow> i = k2 + 3"
    "?a i = fp1 \<longleftrightarrow> i = k1" "?a i = fp1 + 8 \<longleftrightarrow> i = k1 + 1" "?a i = fp0 \<longleftrightarrow> i = k0" "?a i = fp0 + 8 \<longleftrightarrow> i = k0 + 1"
    if "i < k0 + 2" for i
    unfolding nx unfolding fp using that k k01 by (simp_all only: eq)
  have r: "i < k0 + 2" if "i \<in> {k2, k2 + 1, k2 + 2, k2 + 3, k1, k1 + 1, k0, k0 + 1}" for i using that k k01 by auto
  have arm: "filter (\<lambda>i. arm_tag fp0 fp1 fp2 (?a i) \<noteq> []) [0..<k0 + 2] = [k2, k2 + 1, k1, k1 + 1, k0, k0 + 1]"
    by (rule filter_named) (use k k01 in \<open>auto simp: arm_tag_def at simp del: of_nat_mult\<close>)
  have x: "filter (\<lambda>i. hd (x86_tag b fp0 fp1 fp2 (?a i)) = CHR ''<'') [0..<k0 + 2] =
      [k2, k2 + 1] @ (if b then [k2 + 2, k2 + 3] else []) @ [k1, k1 + 1, k0, k0 + 1]"
    by (rule filter_named) (use k k01 in \<open>auto simp: x86_tag_def at simp del: of_nat_mult\<close>)
  have la: "arm_tag fp0 fp1 fp2 (?a k2) = ''<= func2 P_FP''" "arm_tag fp0 fp1 fp2 (?a (k2 + 1)) = ''<= func2 P_LR''"
    "arm_tag fp0 fp1 fp2 (?a k1) = ''<= func1 P_FP''" "arm_tag fp0 fp1 fp2 (?a (k1 + 1)) = ''<= func1 P_LR''"
    "arm_tag fp0 fp1 fp2 (?a k0) = ''<= main P_FP''" "arm_tag fp0 fp1 fp2 (?a (k0 + 1)) = ''<= main P_LR''"
    unfolding arm_tag_def using r k k01 by (simp_all only: at) simp_all
  have lx: "x86_tag b fp0 fp1 fp2 (?a k2) = ''<= func2 FP''" "x86_tag b fp0 fp1 fp2 (?a (k2 + 1)) = ''<= func2 return''"
    "b \<Longrightarrow> x86_tag b fp0 fp1 fp2 (?a (k2 + 2)) = ''<= a7''" "b \<Longrightarrow> x86_tag b fp0 fp1 fp2 (?a (k2 + 3)) = ''<= a8''"
    "x86_tag b fp0 fp1 fp2 (?a k1) = ''<= func1 FP''" "x86_tag b fp0 fp1 fp2 (?a (k1 + 1)) = ''<= func1 return''"
    "x86_tag b fp0 fp1 fp2 (?a k0) = ''<= main FP''" "x86_tag b fp0 fp1 fp2 (?a (k0 + 1)) = ''<= main return''"
    unfolding x86_tag_def using r k k01 by (simp_all only: at) (cases b; auto)+
  show ?thesis
    unfolding addrs_def filter_map comp_def arm x chain_rows [OF ch]
    using la lx by (simp add: nx fp del: of_nat_mult)
qed

lemma dumps_name_every_slot_witness:
  "map (\<lambda>p. (p, arm_tag 0x1040 0x1020 0x1010 p)) (filter (\<lambda>p. arm_tag 0x1040 0x1020 0x1010 p \<noteq> []) (map (\<lambda>i. 0x1000 + of_nat (8 * i)) [0..<10])) =
     [(0x1010, ''<= func2 P_FP''), (0x1018, ''<= func2 P_LR''), (0x1020, ''<= func1 P_FP''), (0x1028, ''<= func1 P_LR''),
      (0x1040, ''<= main P_FP''), (0x1048, ''<= main P_LR'')]"
proof -
  have "chain_at 0x1000 8 4 2 0x1040 0x1020 0x1010" by (simp add: chain_at_def)
  from dumps_name_every_slot [where b = False, OF this] show ?thesis by simp
qed

text \<open>The check of the derived address compares an expression with what it simplifies to.\<close>

lemma derived_always: "\<exists>vs. derived_lines e ! 0 = (''Q10: priv = (0x%lx) - 0x8 %c 0x%lx = 0x%lx %s'', vs) \<and> last vs = S ''match''"
  by (simp add: derived_lines_def Let_def)

text \<open>The values the programs print at the end.\<close>

lemma arm_frame_value:
  assumes "chain_at (fv_sp (af_func2 e)) k0 k1 k2 (fv_fp (af_main e)) (fv_fp (af_func1 e)) (fv_fp (af_func2 e))"
  shows "\<exists>ls. arm_frame_main e = Some (ls @ [(''func2() = 0x%lx'', [U 0x222222222222222b])])"
  using chain_rows [OF assms] by (simp add: arm_frame_main_def arm_func1_def arm_func2_def Let_def)

lemma x86_frame_value:
  assumes "chain_at (fv_sp (xf_func2 e)) k0 k1 k2 (fv_fp (xf_main e)) (fv_fp (xf_func1 e)) (fv_fp (xf_func2 e))"
  shows "\<exists>ls. x86_frame_main e = Some (ls @ [(''func1() = %d'', [I 43990])])"
  using chain_rows [OF assms] by (simp add: x86_frame_main_def x86_func1_def x86_func2_def dump_stack_raw_def Let_def)

text \<open>The four ways to make a frame return what their arithmetic says: \<open>vla_frame (64)\<close> is 128.\<close>

lemma vla_frame_value: "snd (vla_frame e 64) = 128"
  by (simp add: vla_frame_def big_frame_def small_frame_def leaf_def Let_def split: prod.split)

end
