(* ===== verification/Esr_Far.thy ===== *)
theory Esr_Far
  imports Prelude
begin

section \<open>esr_far.c: what a fault tells the program\<close>

text \<open>
  The handler of \<open>SIGSEGV\<close> and \<open>SIGBUS\<close> walks the records the kernel leaves in the signal frame
  until it meets the one with the syndrome register, and decodes it. The frame is a memory, the
  kernel's choice; a walk that does not end is \<open>None\<close>.
\<close>

definition ESR_MAGIC :: u32 where "ESR_MAGIC = 0x45535201"

text \<open>A record starts with \<open>magic\<close> and \<open>size\<close>; the syndrome follows in an \<open>esr_context\<close>. 0 when there is none.\<close>

partial_function (option) find_esr :: "memory \<Rightarrow> u64 \<Rightarrow> u64 option" where
  "find_esr m h =
     (if load32 m h = 0 then Some 0
      else if load32 m h = ESR_MAGIC then Some (load64 m (h + 8))
      else if load32 m (h + 4) = 0 then Some 0
      else find_esr m (h + ucast (load32 m (h + 4))))"

definition dfsc_str :: "u64 \<Rightarrow> string" where
  "dfsc_str d = (let c = d AND 0x3f in
     if c \<le> 3 then ''Address size fault''
     else if c = 4 then ''Translation fault, level 0'' else if c = 5 then ''Translation fault, level 1''
     else if c = 6 then ''Translation fault, level 2'' else if c = 7 then ''Translation fault, level 3''
     else if c = 8 then ''Access flag fault, level 0'' else if c = 9 then ''Access flag fault, level 1''
     else if c = 0xa then ''Access flag fault, level 2'' else if c = 0xb then ''Access flag fault, level 3''
     else if c = 0xc then ''Permission fault, level 0'' else if c = 0xd then ''Permission fault, level 1''
     else if c = 0xe then ''Permission fault, level 2'' else if c = 0xf then ''Permission fault, level 3''
     else if c = 0x21 then ''Alignment fault'' else ''(other)'')"

record fault =
  f_segv :: bool
  si_addr :: u64
  si_code :: int
  uc_frame :: memory
  uc_reserved :: u64 \<comment> \<open>the address of \<open>uc_mcontext.__reserved\<close>\<close>

definition ec_name :: "u64 \<Rightarrow> string" where
  "ec_name ec = (if ec = 0x24 then ''Data Abort from lower EL'' else if ec = 0x20 then ''Instruction Abort from lower EL'' else ''?'')"

definition esr_lines :: "u64 \<Rightarrow> line list" where
  "esr_lines esr =
     (if esr \<noteq> 0 then let ec = drop_bit 26 esr AND 0x3f; wnr = drop_bit 6 esr AND 1 in
        [(''ESR_EL1 = 0x%016lx'', [U esr]), (''EC   = 0x%02lx  (%s)'', [U ec, S (ec_name ec)]),
         (''WnR  = %lu     (%s)'', [U wnr, S (if wnr \<noteq> 0 then ''write'' else ''read'')]),
         (''CM   = %lu     ISV = %lu'', [U (drop_bit 8 esr AND 1), U (drop_bit 24 esr AND 1)]),
         (''DFSC = 0x%02lx  %s'', [U (esr AND 0x3f), S (dfsc_str esr)])]
      else [(''no esr_context'', [])])"

definition handler :: "string \<Rightarrow> fault \<Rightarrow> line list option" where
  "handler cur f = map_option (\<lambda>esr.
     [(''caught %s: %s'', [S (if f_segv f then ''SIGSEGV'' else ''SIGBUS''), S cur]),
      (''si_addr (<- FAR_EL1) = 0x%016lx'', [U (si_addr f)]),
      (''si_code = %d (%s)'', [I (si_code f), S (if si_code f = 1 then ''SEGV_MAPERR'' else if si_code f = 2 then ''SEGV_ACCERR''
          else if si_code f = 3 then ''BUS_ADRERR'' else ''?'')])]
     @ esr_lines esr @ [(''-'', [])]) (find_esr (uc_frame f) (uc_reserved f))"

text \<open>
  \<open>TRY\<close>: the access is made with \<open>cur\<close> set; when it faults the handler prints and jumps back behind
  it. \<open>main\<close> makes six accesses; \<open>faults\<close> tells which of them fault and how.
\<close>

definition try_access :: "string \<Rightarrow> fault option \<Rightarrow> line list option" where
  "try_access desc r = (case r of None \<Rightarrow> Some [] | Some f \<Rightarrow> handler desc f)"

definition tries :: "string list" where
  "tries = [''read 0x123456789000'', ''write 0x123456789000'', ''write PROT_READ'', ''read PROT_NONE'', ''read NULL'', ''read 0xffff800008010000'']"

fun try_all :: "string list \<Rightarrow> (string \<Rightarrow> fault option) \<Rightarrow> line list option" where
  "try_all [] faults = Some []"
| "try_all (d # ds) faults = Option.bind (try_access d (faults d)) (\<lambda>ls. map_option (\<lambda>rest. ls @ rest) (try_all ds faults))"

definition esr_main :: "(string \<Rightarrow> fault option) \<Rightarrow> line list option" where
  "esr_main faults = map_option (\<lambda>ls. [(''Ch4 Q34-Q37'', []), (''FAR_EL1 -> si_addr'', [])] @ ls
     @ [(''Q36'', []), (''do_page_fault'', []), (''__do_user_fault'', []), (''demand paging / COW'', []), (''fault_types'', [])]) (try_all tries faults)"

section \<open>Lemmas\<close>

text \<open>
  \<open>records m h rs e\<close>: from \<open>h\<close> on the memory holds records with the magics and sizes \<open>rs\<close>, none of
  them the syndrome's and none empty, and what follows them starts at \<open>e\<close>.
\<close>

fun records :: "memory \<Rightarrow> u64 \<Rightarrow> (u32 \<times> u32) list \<Rightarrow> u64 \<Rightarrow> bool" where
  "records m h [] e \<longleftrightarrow> e = h"
| "records m h ((magic, sz) # rs) e \<longleftrightarrow> load32 m h = magic \<and> load32 m (h + 4) = sz \<and> magic \<noteq> 0 \<and> magic \<noteq> ESR_MAGIC \<and> sz \<noteq> 0 \<and>
     records m (h + ucast sz) rs e"

lemma find_esr_skip: "records m h rs e \<Longrightarrow> find_esr m h = find_esr m e"
proof (induction rs arbitrary: h)
  case (Cons r rs)
  then show ?case by (cases r) (subst find_esr.simps, simp)
qed simp

lemma find_esr_end: "load32 m h = 0 \<Longrightarrow> find_esr m h = Some 0"
  by (subst find_esr.simps) simp

lemma find_esr_hit: "load32 m h = ESR_MAGIC \<Longrightarrow> find_esr m h = Some (load64 m (h + 8))"
  by (subst find_esr.simps) (simp add: ESR_MAGIC_def)

text \<open>A record of size zero ends the walk as well, so it can only fail to end in a ring of records.\<close>

lemma find_esr_broken: "load32 m h \<noteq> ESR_MAGIC \<Longrightarrow> load32 m (h + 4) = 0 \<Longrightarrow> find_esr m h = Some 0"
  by (subst find_esr.simps) simp

text \<open>The syndrome of an abort, from the architecture's fields; \<open>x\<close> is what else the register holds.\<close>

definition abort_bits :: u64 where
  "abort_bits = push_bit 26 (mask 6) OR push_bit 24 1 OR push_bit 8 1 OR push_bit 6 1 OR mask 6"

definition abort_esr :: "6 word \<Rightarrow> bool \<Rightarrow> bool \<Rightarrow> bool \<Rightarrow> 6 word \<Rightarrow> u64 \<Rightarrow> u64" where
  "abort_esr ec isv cm wnr dfsc x = push_bit 26 (ucast ec) OR push_bit 24 (of_bool isv) OR push_bit 8 (of_bool cm)
     OR push_bit 6 (of_bool wnr) OR ucast dfsc OR (x AND NOT abort_bits)"

lemma bit_abort_esr:
  "bit (abort_esr ec isv cm wnr dfsc x) n \<longleftrightarrow> n < 64 \<and> (26 \<le> n \<and> bit ec (n - 26) \<or> n = 24 \<and> isv \<or> n = 8 \<and> cm \<or> n = 6 \<and> wnr \<or> bit dfsc n \<or> bit x n \<and> \<not> bit abort_bits n)"
  by (auto simp: abort_esr_def bit_simps)

lemma bit_abort_bits: "bit abort_bits n \<longleftrightarrow> 26 \<le> n \<and> n < 32 \<or> n = 24 \<or> n = 8 \<or> n \<le> 6"
  unfolding abort_bits_def bit_or_iff bit_push_bit_iff bit_1_iff bit_mask_iff by auto

lemma abort_esr_field:
  "field 26 6 (abort_esr ec isv cm wnr dfsc x) = ucast ec" "field 0 6 (abort_esr ec isv cm wnr dfsc x) = ucast dfsc"
  by (rule bit_word_eqI; auto simp: bit_abort_esr bit_abort_bits bit_simps no_bit dest: bit_imp_le_length)+

lemma abort_esr_fields:
  "drop_bit 26 (abort_esr ec isv cm wnr dfsc x) AND 0x3f = ucast ec" "drop_bit 6 (abort_esr ec isv cm wnr dfsc x) AND 1 = of_bool wnr"
  "drop_bit 8 (abort_esr ec isv cm wnr dfsc x) AND 1 = of_bool cm" "drop_bit 24 (abort_esr ec isv cm wnr dfsc x) AND 1 = of_bool isv"
  "abort_esr ec isv cm wnr dfsc x AND 0x3f = ucast dfsc"
proof -
  have m: "(1 :: u64) = mask (Suc 0)" "(0x3f :: u64) = mask 6" by (simp_all add: mask_eq_exp_minus_1)
  show "drop_bit 26 (abort_esr ec isv cm wnr dfsc x) AND 0x3f = ucast ec" "abort_esr ec isv cm wnr dfsc x AND 0x3f = ucast dfsc"
    using abort_esr_field [of ec isv cm wnr dfsc x] by (simp_all add: field_def m(2))
  have "field n (Suc 0) (abort_esr ec isv cm wnr dfsc x) = of_bool (bit (abort_esr ec isv cm wnr dfsc x) n)" for n
    by (rule field_1_cases)
  then show "drop_bit 6 (abort_esr ec isv cm wnr dfsc x) AND 1 = of_bool wnr"
    "drop_bit 8 (abort_esr ec isv cm wnr dfsc x) AND 1 = of_bool cm" "drop_bit 24 (abort_esr ec isv cm wnr dfsc x) AND 1 = of_bool isv"
    unfolding field_def m(1) [symmetric] by (simp_all add: bit_abort_esr bit_abort_bits no_bit)
qed

text \<open>The names of the faults with a level, from the architecture's table: the kind is in the bits 5:2.\<close>

definition fault_kind :: "6 word \<Rightarrow> string" where
  "fault_kind dfsc = (let k = drop_bit 2 dfsc in if k = 1 then ''Translation'' else if k = 2 then ''Access flag'' else if k = 3 then ''Permission'' else '''')"

definition dfsc_fine :: "6 word \<Rightarrow> bool" where
  "dfsc_fine dfsc \<longleftrightarrow> (fault_kind dfsc \<noteq> [] \<longrightarrow>
     dfsc_str (ucast dfsc) = fault_kind dfsc @ '' fault, level '' @ [char_of (48 + unat (dfsc AND 3))])"

lemma all_dfsc: "list_all (\<lambda>n. dfsc_fine (word_of_nat n)) [0..<64]"
  by code_simp

lemma dfsc_named:
  "fault_kind dfsc \<noteq> [] \<Longrightarrow> dfsc_str (ucast dfsc) = fault_kind dfsc @ '' fault, level '' @ [char_of (48 + unat (dfsc AND 3))]"
proof -
  have "\<forall>n<64. dfsc_fine (word_of_nat n)"
    using all_dfsc unfolding list_all_iff set_upt by (meson atLeastLessThan_iff le0)
  then have "dfsc_fine dfsc" by (rule small_word [rotated]) simp
  then show "fault_kind dfsc \<noteq> [] \<Longrightarrow> ?thesis" by (simp add: dfsc_fine_def)
qed

lemma dfsc_low_bits: "dfsc_str (d AND 0x3f) = dfsc_str d"
  by (simp add: dfsc_str_def and.assoc)

text \<open>
  C39: whatever records the kernel puts in front of it, the handler finds the syndrome of an abort
  and reads back the class, the direction and the status it was made of, naming translation,
  access flag and permission faults with their level as the architecture's table does; and when no
  record is a syndrome's it ends and says so.
\<close>

theorem fault_report_exact:
  assumes r: "records (uc_frame f) (uc_reserved f) rs h"
  shows "(load32 (uc_frame f) h = 0 \<longrightarrow> (\<exists>ls. handler cur f = Some ls \<and> ls ! 3 = (''no esr_context'', []))) \<and>
    (load32 (uc_frame f) h = ESR_MAGIC \<longrightarrow> load64 (uc_frame f) (h + 8) = abort_esr ec isv cm wnr dfsc x \<longrightarrow> ec \<noteq> 0 \<longrightarrow>
      (\<exists>ls. handler cur f = Some ls \<and> ls ! 4 = (''EC   = 0x%02lx  (%s)'', [U (ucast ec), S (ec_name (ucast ec))]) \<and>
        ls ! 5 = (''WnR  = %lu     (%s)'', [U (of_bool wnr), S (if wnr then ''write'' else ''read'')]) \<and>
        ls ! 7 = (''DFSC = 0x%02lx  %s'', [U (ucast dfsc), S (dfsc_str (ucast dfsc))]) \<and>
        (fault_kind dfsc \<noteq> [] \<longrightarrow> dfsc_str (ucast dfsc) = fault_kind dfsc @ '' fault, level '' @ [char_of (48 + unat (dfsc AND 3))])))"
proof (intro conjI impI)
  assume "load32 (uc_frame f) h = 0"
  then have "find_esr (uc_frame f) (uc_reserved f) = Some 0" using find_esr_skip [OF r] find_esr_end by simp
  then show "\<exists>ls. handler cur f = Some ls \<and> ls ! 3 = (''no esr_context'', [])" by (simp add: handler_def esr_lines_def)
next
  assume h: "load32 (uc_frame f) h = ESR_MAGIC" "load64 (uc_frame f) (h + 8) = abort_esr ec isv cm wnr dfsc x" and "ec \<noteq> 0"
  have "abort_esr ec isv cm wnr dfsc x \<noteq> 0"
  proof
    assume "abort_esr ec isv cm wnr dfsc x = 0"
    then have "(ucast ec :: u64) = ucast (0 :: 6 word)" using abort_esr_fields(1) [of ec isv cm wnr dfsc x] by simp
    then show False using \<open>ec \<noteq> 0\<close> by (subst (asm) ucast_inj) simp_all
  qed
  moreover have "find_esr (uc_frame f) (uc_reserved f) = Some (abort_esr ec isv cm wnr dfsc x)"
    using find_esr_skip [OF r] find_esr_hit [OF h(1)] h(2) by simp
  moreover have "dfsc_str (abort_esr ec isv cm wnr dfsc x) = dfsc_str (ucast dfsc)"
    by (metis dfsc_low_bits abort_esr_fields(5))
  ultimately show "\<exists>ls. handler cur f = Some ls \<and> ls ! 4 = (''EC   = 0x%02lx  (%s)'', [U (ucast ec), S (ec_name (ucast ec))]) \<and>
        ls ! 5 = (''WnR  = %lu     (%s)'', [U (of_bool wnr), S (if wnr then ''write'' else ''read'')]) \<and>
        ls ! 7 = (''DFSC = 0x%02lx  %s'', [U (ucast dfsc), S (dfsc_str (ucast dfsc))]) \<and>
        (fault_kind dfsc \<noteq> [] \<longrightarrow> dfsc_str (ucast dfsc) = fault_kind dfsc @ '' fault, level '' @ [char_of (48 + unat (dfsc AND 3))])"
    using dfsc_named [of dfsc] by (simp add: handler_def esr_lines_def Let_def abort_esr_fields)
qed
text \<open>A frame with a vector record of 0x210 bytes before the syndrome of a write to an unmapped page.\<close>

definition sample_frame :: memory where
  "sample_frame = (\<lambda>a. 0)(0x1000 := 0x01, 0x1001 := 0x80, 0x1002 := 0x50, 0x1003 := 0x46, 0x1004 := 0x10, 0x1005 := 0x02,
     0x1210 := 0x01, 0x1211 := 0x52, 0x1212 := 0x53, 0x1213 := 0x45, 0x1214 := 0x10, 0x1218 := 0x47, 0x121b := 0x92)"

definition sample_fault :: fault where
  "sample_fault = \<lparr>f_segv = True, si_addr = 0x123456789000, si_code = 1, uc_frame = sample_frame, uc_reserved = 0x1000\<rparr>"

lemma sample_loads_esr: "load32 sample_frame 0x1000 = 0x46508001 \<and> load32 sample_frame 0x1004 = 0x210 \<and>
    load32 sample_frame 0x1210 = ESR_MAGIC \<and> load64 sample_frame 0x1218 = abort_esr 0x24 False False True 7 0x2000000"
  by code_simp

lemma fault_report_exact_witness:
  "\<exists>ls. handler ''write'' sample_fault = Some ls \<and> ls ! 5 = (''WnR  = %lu     (%s)'', [U 1, S ''write'']) \<and>
     ls ! 7 = (''DFSC = 0x%02lx  %s'', [U 7, S ''Translation fault, level 3''])"
proof -
  have "records (uc_frame sample_fault) (uc_reserved sample_fault) [(0x46508001, 0x210)] 0x1210"
    using sample_loads_esr by (simp add: sample_fault_def ESR_MAGIC_def)
  note fault_report_exact [where ec = "0x24" and isv = False and cm = False and wnr = True and dfsc = 7
      and x = "0x2000000" and cur = "''write''", OF this, THEN conjunct2]
  moreover have "char_of (51 :: nat) = CHR ''3''" by code_simp
  ultimately show ?thesis using sample_loads_esr by (auto simp: sample_fault_def fault_kind_def)
qed

end
